(* ===== verification/Avisor_Prelude.thy ===== *)
theory Avisor_Prelude
  imports Main "HOL-Library.Word"
begin

text \<open>
  Shared vocabulary of the development: the C integer types, the outcomes a hypervisor
  function can have besides returning (the endless loops of \<open>ERROR\<close> and \<open>ASSERT\<close>, a
  dereference of an invalid pointer), the macros of \<open>core/inc/util.h\<close> and
  \<open>core/inc/mem_cfg.h\<close>, and the generic lemmas on words and lists that the component
  theories use.
\<close>

unbundle bit_operations_syntax

named_theorems mask_simps \<open>evaluation of bit masks inside their width\<close>
named_theorems res_simps \<open>evaluation of result-returning programs\<close>

type_synonym u8 = "8 word"
type_synonym u32 = "32 word"
type_synonym u64 = "64 word"
type_synonym paddr_t = "64 word"
type_synonym vaddr_t = "64 word"

subsection \<open>Outcomes\<close>

text \<open>
  \<open>ERROR(...)\<close> prints and loops for ever, \<open>ASSERT(e)\<close> does the same when \<open>e\<close> is false,
  and an access through an invalid pointer is undefined behaviour: none of them returns.
  \<open>Spin\<close> is a waiting loop whose condition no step of the same processor can change.
\<close>

datatype fault = Error | Assertion | Bad_Access | Spin

type_synonym 'a res = "fault + 'a"

definition bindr :: "'a res \<Rightarrow> ('a \<Rightarrow> 'b res) \<Rightarrow> 'b res" where
  "bindr m f = (case m of Inl e \<Rightarrow> Inl e | Inr x \<Rightarrow> f x)"

text \<open>A counted loop whose body may fail.\<close>

fun fold_res :: "('a \<Rightarrow> 's \<Rightarrow> 's res) \<Rightarrow> 'a list \<Rightarrow> 's \<Rightarrow> 's res" where
  "fold_res f [] s = Inr s"
| "fold_res f (a # as) s = bindr (f a s) (fold_res f as)"

subsection \<open>The registers of a vCPU\<close>

record regs =
  x_regs :: "nat \<Rightarrow> u64"
  spsr_el2 :: u64
  elr_el2 :: u64
  sp_el1 :: u64

subsection \<open>Macros of \<open>util.h\<close> and \<open>mem_cfg.h\<close>\<close>

abbreviation PAGE_SIZE :: u64 where "PAGE_SIZE \<equiv> 0x1000"

definition ALIGN :: "u64 \<Rightarrow> u64 \<Rightarrow> u64" where
  "ALIGN val to = ((val + to - 1) div to) * to"

definition IS_ALIGNED :: "u64 \<Rightarrow> u64 \<Rightarrow> bool" where
  "IS_ALIGNED val to \<longleftrightarrow> val mod to = 0"

definition NUM_PAGES :: "u64 \<Rightarrow> u64" where
  "NUM_PAGES sz = ALIGN sz PAGE_SIZE div PAGE_SIZE"

definition range_in_range :: "u64 \<Rightarrow> u64 \<Rightarrow> u64 \<Rightarrow> u64 \<Rightarrow> bool" where
  "range_in_range base1 size1 base2 size2 =
     (let limit1 = base1 + size1;
          limit2 = base2 + size2;
          limit1 = (if limit1 < base1 then - 1 else limit1);
          limit2 = (if limit2 < base2 then - 1 else limit2)
      in base1 \<ge> base2 \<and> limit1 \<le> limit2)"

definition in_range :: "u64 \<Rightarrow> u64 \<Rightarrow> u64 \<Rightarrow> bool" where
  "in_range addr base sz = range_in_range addr 0 base sz"

subsection \<open>Results\<close>

lemma bindr_Inl [simp, res_simps]: "bindr (Inl e) f = Inl e"
  by (simp add: bindr_def)

lemma bindr_Inr [simp, res_simps]: "bindr (Inr x) f = f x"
  by (simp add: bindr_def)

lemma bindr_eq_Inr_iff: "bindr m f = Inr y \<longleftrightarrow> (\<exists>x. m = Inr x \<and> f x = Inr y)"
  by (cases m) simp_all

lemma bindr_assoc: "bindr (bindr m f) g = bindr m (\<lambda>x. bindr (f x) g)"
  by (cases m) simp_all

lemma bindr_Inr_right [simp]: "bindr m Inr = m"
  by (cases m) simp_all

text \<open>
  \<open>ens E P r\<close>: the program either ends in one of the faults \<open>E\<close> or returns a result with
  \<open>P\<close>. It distributes over sequencing, which makes it a weakest precondition.
\<close>

definition ens :: "fault set \<Rightarrow> ('a \<Rightarrow> bool) \<Rightarrow> 'a res \<Rightarrow> bool" where
  "ens E P r = (case r of Inl e \<Rightarrow> e \<in> E | Inr x \<Rightarrow> P x)"

lemma ens_simps [simp, res_simps]:
  "ens E P (Inl e) \<longleftrightarrow> e \<in> E" "ens E P (Inr x) \<longleftrightarrow> P x"
  by (simp_all add: ens_def)

lemma ens_bindr [simp, res_simps]: "ens E P (bindr m f) \<longleftrightarrow> ens E (\<lambda>x. ens E P (f x)) m"
  by (cases m) simp_all

lemma ens_mono: "ens E P r \<Longrightarrow> E \<subseteq> E' \<Longrightarrow> (\<And>x. P x \<Longrightarrow> Q x) \<Longrightarrow> ens E' Q r"
  by (cases r) auto

lemma ens_conseq: "ens E P r \<Longrightarrow> (\<And>x. P x \<Longrightarrow> Q x) \<Longrightarrow> ens E Q r"
  by (erule ens_mono) auto

lemma ens_fold_res:
  assumes "P s" "\<And>a s. a \<in> set as \<Longrightarrow> P s \<Longrightarrow> ens E P (f a s)"
  shows "ens E P (fold_res f as s)"
  using assms
proof (induction as arbitrary: s)
  case (Cons a as)
  have "ens E P (f a s)" using Cons.prems by simp
  then show ?case by (simp, elim ens_conseq) (use Cons in auto)
qed simp

subsection \<open>Words\<close>

lemma unat_word_of_nat64: "n < 2 ^ 64 \<Longrightarrow> unat (word_of_nat n :: u64) = n"
  by (simp add: unat_of_nat take_bit_nat_eq_self_iff)

lemma bit_mask_iff_lt [simp]: "bit (mask n :: 'a::len word) i \<longleftrightarrow> i < LENGTH('a) \<and> i < n"
  by (auto simp: bit_mask_iff)

lemma word_and_one_bit_eq_0_iff [simp]:
  "(w AND push_bit n 1 = 0) = (\<not> bit (w :: 'a::len word) n)"
  by (simp add: and_exp_eq_0_iff_not_bit push_bit_eq_mult)

lemma word_all_ones_iff: "(w :: 'a::len word) = - 1 \<longleftrightarrow> (\<forall>i < LENGTH('a). bit w i)"
  by (auto simp: bit_eq_iff)

lemma word_zero_iff: "(w :: 'a::len word) = 0 \<longleftrightarrow> (\<forall>i < LENGTH('a). \<not> bit w i)"
  by (auto simp: bit_eq_iff dest: bit_imp_le_length)

lemma word_xor_eq_0_iff [simp]: "(v XOR w = 0) = (v = (w :: 'a::len word))"
  by (auto simp: bit_eq_iff bit_xor_iff)

subsection \<open>The macros inside their ranges\<close>

lemma unat_ALIGN:
  assumes "to \<noteq> 0" and "unat val + unat to < 2 ^ 64"
  shows "unat (ALIGN val to) = (unat val + unat to - 1) div unat to * unat to"
proof -
  have to: "1 \<le> unat to" using assms(1) by (simp add: Suc_leI unat_gt_0)
  have s: "unat (val + to) = unat val + unat to"
    using assms(2) by (simp add: unat_word_ariths)
  have "unat (val + to - 1) = unat val + unat to - 1"
    using to s by (subst unat_sub) (auto simp: word_le_nat_alt)
  moreover have "(unat val + unat to - 1) div unat to * unat to < 2 ^ 64"
    using assms(2) div_times_less_eq_dividend[of "unat val + unat to - 1" "unat to"] by linarith
  moreover have "(unat val + unat to - 1) div unat to < 2 ^ 64"
    using assms(2) div_le_dividend[of "unat val + unat to - 1" "unat to"] to by linarith
  ultimately show ?thesis
    by (simp add: ALIGN_def unat_word_ariths unat_div)
qed

lemma unat_NUM_PAGES:
  assumes "unat sz + 4096 < 2 ^ 64"
  shows "unat (NUM_PAGES sz) = (unat sz + 4095) div 4096"
  using assms unat_ALIGN[of "0x1000" sz] by (simp add: NUM_PAGES_def unat_div)

lemma in_range_iff:
  assumes "unat base + unat sz < 2 ^ 64"
  shows "in_range addr base sz \<longleftrightarrow> unat base \<le> unat addr \<and> unat addr \<le> unat base + unat sz"
proof -
  have "unat (base + sz) = unat base + unat sz"
    using assms by (simp add: unat_word_ariths)
  then show ?thesis
    by (auto simp: in_range_def range_in_range_def Let_def word_le_nat_alt word_less_nat_alt)
qed

end
