(* ===== verification/Bits.thy ===== *)
theory Bits
  imports Avisor_Prelude
begin

text \<open>
  \<open>lib/inc/bit.h\<close>: the mask macros and the family of word operations that the macro
  \<open>BIT_OPS_GEN\<close> generates for 32-bit words, 64-bit words and \<open>unsigned long\<close>. The three
  copies differ in the width only, so each operation is one definition over
  \<open>'a::len word\<close>. A shift by a run-time amount is the AArch64 \<open>LSL\<close>/\<open>LSR\<close>, which uses the
  amount modulo the register width; the \<open>(LEN)-1\<close> of the masks is a \<open>size_t\<close> subtraction.
\<close>

unbundle bit_operations_syntax

definition lsl :: "'a::len word \<Rightarrow> nat \<Rightarrow> 'a word" where
  "lsl w n = push_bit (n mod LENGTH('a)) w"

definition lsr :: "'a::len word \<Rightarrow> nat \<Rightarrow> 'a word" where
  "lsr w n = drop_bit (n mod LENGTH('a)) w"

definition size_dec :: "nat \<Rightarrow> nat" where
  "size_dec n = (if n = 0 then 0xFFFFFFFFFFFFFFFF else n - 1)"

definition BIT_MASK :: "nat \<Rightarrow> nat \<Rightarrow> 'a::len word" where
  "BIT_MASK off len = lsl (lsl (lsl 1 (size_dec len)) 1 - 1) off"

definition bit_get :: "'a::len word \<Rightarrow> nat \<Rightarrow> 'a word" where
  "bit_get word off = word AND lsl 1 off"

definition bit_set :: "'a::len word \<Rightarrow> nat \<Rightarrow> 'a word" where
  "bit_set word off = word OR lsl 1 off"

definition bit_clear :: "'a::len word \<Rightarrow> nat \<Rightarrow> 'a word" where
  "bit_clear word off = word AND NOT (lsl 1 off)"

definition bit_extract :: "'a::len word \<Rightarrow> nat \<Rightarrow> nat \<Rightarrow> 'a word" where
  "bit_extract word off len = lsr word off AND BIT_MASK 0 len"

definition bit_insert :: "'a::len word \<Rightarrow> 'a word \<Rightarrow> nat \<Rightarrow> nat \<Rightarrow> 'a word" where
  "bit_insert word val off len =
     (NOT (BIT_MASK off len) AND word) OR lsl (BIT_MASK 0 len AND val) off"

text \<open>
  The two scanning loops shift a one-bit mask to the left until it leaves the word. What
  shrinks is the number of shifts after which the mask is zero.
\<close>

definition shifts_left :: "'a::len word \<Rightarrow> nat" where
  "shifts_left m = (LEAST k. push_bit k m = 0)"

lemma shifts_left_dec:
  assumes "(m :: 'a::len word) \<noteq> 0"
  shows "shifts_left (push_bit 1 m) < shifts_left m"
proof -
  have ex: "push_bit LENGTH('a) m = 0"
    by (rule bit_word_eqI) (simp add: bit_push_bit_iff)
  then have z: "push_bit (shifts_left m) m = 0"
    unfolding shifts_left_def by (rule LeastI)
  with assms have pos: "shifts_left m \<noteq> 0" by (metis push_bit_0_id id_apply)
  then obtain k where k: "shifts_left m = Suc k" by (cases "shifts_left m") auto
  with z have "push_bit k (push_bit 1 m) = 0" by (simp add: push_bit_push_bit add.commute)
  then have "shifts_left (push_bit 1 m) \<le> k"
    unfolding shifts_left_def by (rule Least_le)
  with k show ?thesis by simp
qed

function ffs_loop :: "'a::len word \<Rightarrow> 'a word \<Rightarrow> nat \<Rightarrow> 'a word \<times> nat" where
  "ffs_loop word m pos =
     (if m = 0 then (m, pos)
      else if m AND word \<noteq> 0 then (m, pos)
      else ffs_loop word (push_bit 1 m) (pos + 1))"
  by pat_completeness auto
termination
  by (relation "measure (\<lambda>(_, m, _). shifts_left m)") (use shifts_left_dec in \<open>auto simp: mult.commute\<close>)

definition bit_ffs :: "'a::len word \<Rightarrow> nat" where
  "bit_ffs word = (let (m, pos) = ffs_loop word 1 0 in if m \<noteq> 0 then pos else 0xFFFFFFFFFFFFFFFF)"

function count_loop :: "'a::len word \<Rightarrow> 'a word \<Rightarrow> nat \<Rightarrow> nat" where
  "count_loop word m count =
     (if m = 0 then count
      else count_loop word (push_bit 1 m) (if m AND word \<noteq> 0 then count + 1 else count))"
  by pat_completeness auto
termination
  by (relation "measure (\<lambda>(_, m, _). shifts_left m)") (use shifts_left_dec in \<open>auto simp: mult.commute\<close>)

definition bit_count :: "'a::len word \<Rightarrow> nat" where
  "bit_count word = count_loop word 1 0"

declare ffs_loop.simps [simp del] count_loop.simps [simp del]

subsection \<open>Masks and fields\<close>

lemma lsl_eq: "n < LENGTH('a) \<Longrightarrow> lsl (w :: 'a::len word) n = push_bit n w"
  by (simp add: lsl_def)

lemma lsr_eq: "n < LENGTH('a) \<Longrightarrow> lsr (w :: 'a::len word) n = drop_bit n w"
  by (simp add: lsr_def)

lemma bit_lsl_one: "n < LENGTH('a) \<Longrightarrow> bit (lsl (1 :: 'a::len word) n) i \<longleftrightarrow> i = n"
  by (auto simp: lsl_def push_bit_eq_mult bit_exp_iff)

lemma bit_two: "bit (2 :: 'a::len word) i \<longleftrightarrow> i = 1 \<and> 1 < LENGTH('a)"
  by (auto simp: bit_2_iff)

lemma BIT_MASK_eq [mask_simps]:
  assumes "0 < len" "len \<le> LENGTH('a)" "off < LENGTH('a)" "1 < LENGTH('a)"
  shows "(BIT_MASK off len :: 'a::len word) = push_bit off (mask len)"
proof -
  have "lsl (lsl (1 :: 'a word) (size_dec len)) 1 = push_bit len 1"
    using assms by (simp add: lsl_def size_dec_def power_Suc2[symmetric] del: power_Suc)
  then have "lsl (lsl (1 :: 'a word) (size_dec len)) 1 - 1 = mask len"
    by (simp add: mask_eq_exp_minus_1)
  then show ?thesis using assms by (simp add: BIT_MASK_def lsl_def)
qed

lemma bit_BIT_MASK [mask_simps]:
  assumes "0 < len" "len \<le> LENGTH('a)" "off < LENGTH('a)" "1 < LENGTH('a)"
  shows "bit (BIT_MASK off len :: 'a::len word) i \<longleftrightarrow> off \<le> i \<and> i < off + len \<and> i < LENGTH('a)"
  using assms by (auto simp: BIT_MASK_eq bit_push_bit_iff)

lemma bit_bit_extract:
  assumes "0 < len" "len \<le> LENGTH('a)" "off < LENGTH('a)" "1 < LENGTH('a)"
  shows "bit (bit_extract (w :: 'a::len word) off len) i \<longleftrightarrow> i < len \<and> bit w (off + i)"
  using assms
  by (auto simp: bit_extract_def lsr_eq bit_and_iff bit_BIT_MASK bit_drop_bit_eq
      dest: bit_imp_le_length)

lemma bit_extract_eq:
  assumes "0 < len" "len \<le> LENGTH('a)" "off < LENGTH('a)" "1 < LENGTH('a)"
  shows "bit_extract (w :: 'a::len word) off len = take_bit len (drop_bit off w)"
  using assms
  by (intro bit_word_eqI) (simp add: bit_bit_extract bit_take_bit_iff bit_drop_bit_eq)

lemma bit_extract_insert:
  assumes "0 < len" "off + len \<le> LENGTH('a)" "1 < LENGTH('a)"
  shows "bit_extract (bit_insert (w :: 'a::len word) v off len) off len = take_bit len v"
  using assms
  by (intro bit_word_eqI)
    (auto simp: bit_bit_extract bit_insert_def bit_and_iff bit_or_iff bit_not_iff bit_BIT_MASK
      lsl_eq bit_push_bit_iff bit_take_bit_iff dest: bit_imp_le_length)

lemma bit_insert_other:
  assumes "0 < len" "off + len \<le> LENGTH('a)" "1 < LENGTH('a)" "i < off \<or> off + len \<le> i"
  shows "bit (bit_insert (w :: 'a::len word) v off len) i = bit w i"
  using assms
  by (auto simp: bit_insert_def bit_and_iff bit_or_iff bit_not_iff bit_BIT_MASK
      lsl_eq bit_push_bit_iff dest: bit_imp_le_length)

subsection \<open>The scanning loops\<close>

lemma ffs_loop_spec:
  assumes "\<forall>i < pos. \<not> bit word i"
  shows "ffs_loop (word :: 'a::len word) (2 ^ pos) pos =
    (if \<exists>i. bit word i then (2 ^ (LEAST i. bit word i), LEAST i. bit word i)
     else (0, max pos LENGTH('a)))"
  using assms
proof (induction "LENGTH('a) - pos" arbitrary: pos)
  case 0
  then have none: "\<not> bit word i" for i
    using bit_imp_le_length[of word i] by (auto simp: not_less)
  with 0 show ?case by (subst ffs_loop.simps) (auto simp: max_def)
next
  case (Suc n)
  then have nz: "2 ^ pos \<noteq> (0 :: 'a word)" by (simp add: exp_eq_zero_iff)
  show ?case
  proof (cases "bit word pos")
    case True
    then have "(LEAST i. bit word i) = pos"
      using Suc.prems by (intro Least_equality) (auto simp: not_less[symmetric])
    with True nz show ?thesis
      by (subst ffs_loop.simps) (auto simp: and.commute[of "2 ^ _"] and_exp_eq_0_iff_not_bit)
  next
    case False
    then have "\<forall>i < pos + 1. \<not> bit word i"
      using Suc.prems by (auto simp: less_Suc_eq)
    with Suc.hyps(1)[of "pos + 1"] Suc.hyps(2) False nz show ?thesis
      by (subst ffs_loop.simps)
        (auto simp: and.commute[of "2 ^ _"] and_exp_eq_0_iff_not_bit mult.commute max_def)
  qed
qed

lemma bit_ffs_Some:
  assumes "word \<noteq> (0 :: 'a::len word)"
  shows "bit word (bit_ffs word)" and "\<And>i. bit word i \<Longrightarrow> bit_ffs word \<le> i"
proof -
  obtain j where j: "bit word j" using assms by (auto simp: bit_eq_iff)
  have lt: "(LEAST i. bit word i) < LENGTH('a)"
    using LeastI[of "bit word", OF j] by (rule bit_imp_le_length)
  have eq: "bit_ffs word = (LEAST i. bit word i)"
    using ffs_loop_spec[of 0 word] j lt by (auto simp: bit_ffs_def exp_eq_zero_iff)
  show "bit word (bit_ffs word)" using j by (simp add: eq LeastI)
  show "bit_ffs word \<le> i" if "bit word i" for i using that by (simp add: eq Least_le)
qed

lemma bit_ffs_zero [simp]: "bit_ffs (0 :: 'a::len word) = 0xFFFFFFFFFFFFFFFF"
  using ffs_loop_spec[of 0 "0 :: 'a word"] by (simp add: bit_ffs_def)

lemma count_loop_spec:
  "count_loop (word :: 'a::len word) (2 ^ k) c = c + card {i. k \<le> i \<and> bit word i}"
proof (induction "LENGTH('a) - k" arbitrary: k c)
  case 0
  then have "{i. k \<le> i \<and> bit word i} = {}" by (auto dest: bit_imp_le_length)
  then have "card {i. k \<le> i \<and> bit word i} = 0" by (simp only: card.empty)
  with 0 show ?case by (subst count_loop.simps) simp
next
  case (Suc n)
  have nz: "2 ^ k \<noteq> (0 :: 'a word)" using Suc.hyps(2) by (simp add: exp_eq_zero_iff)
  have "finite {i. Suc k \<le> i \<and> bit word i}"
    by (rule finite_subset[of _ "{..<LENGTH('a)}"]) (auto dest: bit_imp_le_length)
  moreover have "{i. k \<le> i \<and> bit word i} =
      (if bit word k then insert k {i. Suc k \<le> i \<and> bit word i} else {i. Suc k \<le> i \<and> bit word i})"
    by (auto simp: Suc_le_eq le_less)
  ultimately have "card {i. k \<le> i \<and> bit word i} =
      (if bit word k then 1 else 0) + card {i. Suc k \<le> i \<and> bit word i}"
    by (auto simp: card_insert_if)
  with Suc.hyps(1)[of "Suc k"] Suc.hyps(2) nz show ?case
    by (subst count_loop.simps)
      (simp add: and.commute[of "2 ^ _"] and_exp_eq_0_iff_not_bit mult.commute)
qed

lemma bit_count_card: "bit_count (word :: 'a::len word) = card {i. bit word i}"
  using count_loop_spec[of word 0 0] by (simp add: bit_count_def)

end
