(* ===== verification/Bitmaps.thy ===== *)
theory Bitmaps
  imports Bits
begin

text \<open>
  \<open>lib/inc/bitmap.h\<close> and \<open>lib/bitmap.c\<close>: bitmaps kept in arrays of 32-bit granules. A
  \<open>bitmap_t*\<close> is the memory it points to, seen as a function from the granule index to the
  granule: an access past the end of the array reads or writes the neighbouring memory, as
  in C, and a theorem that a function stays inside the array is a statement about the
  granules it leaves unchanged. A \<open>size_t\<close> is a natural number below \<open>2 ^ 64\<close>; \<open>(size_t)-1\<close>
  is \<open>SIZE_MAX\<close>. The counters of the loops stay below the bitmap's size plus one granule, so
  they do not wrap for any bitmap that fits in memory.
\<close>

unbundle bit_operations_syntax

type_synonym bitmap = "nat \<Rightarrow> u32"

abbreviation SIZE_MAX :: nat where "SIZE_MAX \<equiv> 0xFFFFFFFFFFFFFFFF"
abbreviation GRANULE_LEN :: nat where "GRANULE_LEN \<equiv> 32"

definition BITMAP_SIZE :: "nat \<Rightarrow> nat" where
  "BITMAP_SIZE sz = sz div GRANULE_LEN + (if sz mod GRANULE_LEN \<noteq> 0 then 1 else 0)"

definition bitmap_set :: "bitmap \<Rightarrow> nat \<Rightarrow> bitmap" where
  "bitmap_set bm b =
     bm(b div GRANULE_LEN := bm (b div GRANULE_LEN) OR lsl 1 (b mod GRANULE_LEN))"

definition bitmap_clear :: "bitmap \<Rightarrow> nat \<Rightarrow> bitmap" where
  "bitmap_clear bm b =
     bm(b div GRANULE_LEN := bm (b div GRANULE_LEN) AND NOT (lsl 1 (b mod GRANULE_LEN)))"

definition bitmap_get :: "bitmap \<Rightarrow> nat \<Rightarrow> nat" where
  "bitmap_get bm b =
     (if bm (b div GRANULE_LEN) AND lsl 1 (b mod GRANULE_LEN) \<noteq> 0 then 1 else 0)"

definition bitmap_clear_consecutive :: "bitmap \<Rightarrow> nat \<Rightarrow> nat \<Rightarrow> bitmap" where
  "bitmap_clear_consecutive bm start n = fold (\<lambda>i m. bitmap_clear m (start + i)) [0..<n] bm"

definition bitmap_count :: "bitmap \<Rightarrow> nat \<Rightarrow> nat \<Rightarrow> bool \<Rightarrow> nat" where
  "bitmap_count bm start n st =
     fold (\<lambda>i count. if bitmap_get bm i = of_bool st then count + 1 else count) [start..<n] 0"

function find_nth_loop :: "bitmap \<Rightarrow> nat \<Rightarrow> nat \<Rightarrow> nat \<Rightarrow> nat \<Rightarrow> nat \<Rightarrow> nat" where
  "find_nth_loop bm sz n b i count =
     (if i < sz then
        if bitmap_get bm i = b then
          if count + 1 = n then i else find_nth_loop bm sz n b (i + 1) (count + 1)
        else find_nth_loop bm sz n b (i + 1) count
      else SIZE_MAX)"
  by pat_completeness auto
termination
  by (relation "measure (\<lambda>(_, sz, _, _, i, _). sz - i)") auto

definition bitmap_find_nth :: "bitmap \<Rightarrow> nat \<Rightarrow> nat \<Rightarrow> nat \<Rightarrow> bool \<Rightarrow> nat" where
  "bitmap_find_nth bm sz n start st =
     (if sz \<le> 0 \<or> n \<le> 0 \<or> start < 0 then SIZE_MAX
      else find_nth_loop bm sz n (if st then 1 else 0) start 0)"

function count_granules :: "bitmap \<Rightarrow> nat \<Rightarrow> nat \<Rightarrow> u32 \<Rightarrow> nat \<Rightarrow> nat \<Rightarrow> nat \<times> nat" where
  "count_granules bm sz n m pos count =
     (if pos < sz \<and> bm (pos div GRANULE_LEN) XOR m = 0 \<and> count < n
      then count_granules bm sz n m (pos + GRANULE_LEN) (count + GRANULE_LEN)
      else (pos, count))"
  by pat_completeness auto
termination
  by (relation "measure (\<lambda>(_, sz, _, _, pos, _). sz - pos)") auto

function count_bits :: "bitmap \<Rightarrow> nat \<Rightarrow> nat \<Rightarrow> bool \<Rightarrow> nat \<Rightarrow> nat \<Rightarrow> nat" where
  "count_bits bm sz n st pos count =
     (if pos < sz \<and> (bitmap_get bm pos \<noteq> 0) = st \<and> count < n
      then count_bits bm sz n st (pos + 1) (count + 1)
      else count)"
  by pat_completeness auto
termination
  by (relation "measure (\<lambda>(_, sz, _, _, pos, _). sz - pos)") auto

definition bitmap_count_consecutive :: "bitmap \<Rightarrow> nat \<Rightarrow> nat \<Rightarrow> nat \<Rightarrow> nat" where
  "bitmap_count_consecutive bm sz start n =
     (let start_offset = start mod GRANULE_LEN;
          first_word_bits = min (GRANULE_LEN - start_offset) n;
          st = (bitmap_get bm start \<noteq> 0);
          init_mask = (BIT_MASK start_offset first_word_bits :: u32)
      in if n \<le> 1 then n
         else
           let m = (if st then init_mask else NOT init_mask);
               (pos, count) =
                 (if (bm (start div GRANULE_LEN) XOR m) AND init_mask = 0
                  then (start + first_word_bits, first_word_bits) else (start, 0));
               (pos, count) = count_granules bm sz n (if st then - 1 else 0) pos count
           in count_bits bm sz n st pos count)"

function set_granules :: "bitmap \<Rightarrow> nat \<Rightarrow> nat \<Rightarrow> bitmap \<times> nat \<times> nat" where
  "set_granules bm pos count =
     (if GRANULE_LEN \<le> count
      then set_granules (bm(pos div GRANULE_LEN := bm (pos div GRANULE_LEN) OR - 1))
             (pos + GRANULE_LEN) (count - GRANULE_LEN)
      else (bm, pos, count))"
  by pat_completeness auto
termination
  by (relation "measure (\<lambda>(_, _, count). count)") auto

definition bitmap_set_consecutive :: "bitmap \<Rightarrow> nat \<Rightarrow> nat \<Rightarrow> bitmap" where
  "bitmap_set_consecutive bm start n =
     (let start_offset = start mod GRANULE_LEN;
          first_word_bits = min (GRANULE_LEN - start_offset) n;
          bm = bm(start div GRANULE_LEN :=
                  bm (start div GRANULE_LEN) OR BIT_MASK start_offset first_word_bits);
          (bm, pos, count) = set_granules bm (start + first_word_bits) (n - first_word_bits)
      in if count > 0
         then bm(pos div GRANULE_LEN := bm (pos div GRANULE_LEN) OR BIT_MASK 0 count)
         else bm)"

declare find_nth_loop.simps [simp del] count_granules.simps [simp del]
  count_bits.simps [simp del] set_granules.simps [simp del]

subsection \<open>The abstract bit sequence of a bitmap\<close>

definition bmbit :: "bitmap \<Rightarrow> nat \<Rightarrow> bool" where
  "bmbit bm i \<longleftrightarrow> bit (bm (i div GRANULE_LEN)) (i mod GRANULE_LEN)"

lemma lsl_one_32: "lsl (1 :: u32) (b mod 32) = push_bit (b mod 32) 1"
  by (simp add: lsl_def)

lemma bitmap_get_eq: "bitmap_get bm b = of_bool (bmbit bm b)"
  by (simp add: bitmap_get_def bmbit_def lsl_def and_exp_eq_0_iff_not_bit)

lemma bitmap_get_nonzero [simp]: "0 < bitmap_get bm b \<longleftrightarrow> bmbit bm b"
  by (simp add: bitmap_get_eq)

lemma div_mod_32_eq: "(i :: nat) div 32 = b div 32 \<Longrightarrow> i mod 32 = b mod 32 \<Longrightarrow> i = b"
  by (metis div_mult_mod_eq)

lemma granule_split: "k < 32 \<Longrightarrow> (32 * q + k) div 32 = q" "k < 32 \<Longrightarrow> (32 * q + k) mod 32 = k"
  for k q :: nat
  by simp_all

lemma same_granule:
  assumes "start \<le> j" "j < start + f" "start mod 32 + f \<le> (32 :: nat)"
  shows "j div 32 = start div 32" "j mod 32 = start mod 32 + (j - start)"
proof -
  have "j = 32 * (start div 32) + (start mod 32 + (j - start))" using assms by simp
  moreover have "start mod 32 + (j - start) < 32" using assms by linarith
  ultimately show "j div 32 = start div 32" "j mod 32 = start mod 32 + (j - start)"
    by (metis granule_split(1), metis granule_split(2))
qed

lemma bmbit_bitmap_set [simp]: "bmbit (bitmap_set bm b) i \<longleftrightarrow> i = b \<or> bmbit bm i"
  by (auto simp: bmbit_def bitmap_set_def lsl_def bit_or_iff bit_exp_iff dest: div_mod_32_eq)

lemma bmbit_bitmap_clear [simp]: "bmbit (bitmap_clear bm b) i \<longleftrightarrow> i \<noteq> b \<and> bmbit bm i"
  by (auto simp: bmbit_def bitmap_clear_def lsl_def bit_and_iff bit_not_iff bit_exp_iff
      dest: div_mod_32_eq)

lemma bmbit_fold_clear:
  "bmbit (fold (\<lambda>i m. bitmap_clear m (start + i)) is bm) i \<longleftrightarrow> i \<notin> (+) start ` set is \<and> bmbit bm i"
  by (induction "is" arbitrary: bm) auto

lemma bmbit_clear_consecutive [simp]:
  "bmbit (bitmap_clear_consecutive bm start n) i \<longleftrightarrow> \<not> (start \<le> i \<and> i < start + n) \<and> bmbit bm i"
proof -
  have "i \<in> (+) start ` set [0..<n] \<longleftrightarrow> start \<le> i \<and> i < start + n"
    by (auto simp: image_iff Bex_def)
  then show ?thesis by (simp only: bitmap_clear_consecutive_def bmbit_fold_clear)
qed

lemma fold_count: "fold (\<lambda>i c. if P i then c + 1 else c) xs c = c + length (filter P xs)"
  for c :: nat
  by (induction xs arbitrary: c) auto

lemma bitmap_count_card:
  "bitmap_count bm start n st = card {i. start \<le> i \<and> i < n \<and> bmbit bm i = st}"
proof -
  have "bitmap_count bm start n st = length (filter (\<lambda>i. bmbit bm i = st) [start..<n])"
    by (simp add: bitmap_count_def fold_count bitmap_get_eq)
  also have "\<dots> = card (set (filter (\<lambda>i. bmbit bm i = st) [start..<n]))"
    by (subst distinct_card) simp_all
  also have "set (filter (\<lambda>i. bmbit bm i = st) [start..<n]) =
      {i. start \<le> i \<and> i < n \<and> bmbit bm i = st}" by auto
  finally show ?thesis .
qed

subsection \<open>Setting a run of bits\<close>

lemma bmbit_or_mask:
  assumes "0 < len" "pos mod 32 + len \<le> 32"
  shows "bmbit (bm(pos div 32 := bm (pos div 32) OR BIT_MASK (pos mod 32) len)) i \<longleftrightarrow>
    (pos \<le> i \<and> i < pos + len) \<or> bmbit bm i"
proof (cases "i div 32 = pos div 32")
  case True
  have "i = 32 * (pos div 32) + i mod 32" "pos = 32 * (pos div 32) + pos mod 32"
    using True mult_div_mod_eq[of 32 i] mult_div_mod_eq[of 32 pos] by simp_all
  then have "pos mod 32 \<le> i mod 32 \<and> i mod 32 < pos mod 32 + len \<longleftrightarrow> pos \<le> i \<and> i < pos + len"
    by linarith
  with True assms show ?thesis
    by (auto simp: bmbit_def bit_or_iff bit_BIT_MASK)
next
  case False
  have "\<not> (pos \<le> i \<and> i < pos + len)"
  proof
    assume "pos \<le> i \<and> i < pos + len"
    then have "pos \<le> i" "i < 32 * (pos div 32) + 32"
      using assms mult_div_mod_eq[of 32 pos] by linarith+
    then have "pos div 32 \<le> i div 32" "i div 32 < pos div 32 + 1"
      by (simp_all add: div_le_mono less_mult_imp_div_less)
    with False show False by simp
  qed
  with False show ?thesis by (auto simp: bmbit_def)
qed

lemma bmbit_or_ones:
  assumes "pos mod 32 = 0"
  shows "bmbit (bm(pos div 32 := bm (pos div 32) OR - 1)) i \<longleftrightarrow>
    (pos \<le> i \<and> i < pos + 32) \<or> bmbit bm i"
proof -
  have "(BIT_MASK 0 32 :: u32) = - 1" by (simp add: BIT_MASK_def lsl_def size_dec_def)
  with bmbit_or_mask[of 32 pos bm i] assms show ?thesis by simp
qed

lemma set_granules_spec:
  assumes "set_granules bm pos count = (bm', pos', count')" "pos mod 32 = 0 \<or> count = 0"
  shows "pos' mod 32 = 0 \<or> count' = 0" "count' < 32" "pos' + count' = pos + count" "pos \<le> pos'"
    "bmbit bm' i \<longleftrightarrow> (pos \<le> i \<and> i < pos') \<or> bmbit bm i"
proof -
  have "(pos' mod 32 = 0 \<or> count' = 0) \<and> count' < 32 \<and> pos' + count' = pos + count \<and> pos \<le> pos' \<and>
    (bmbit bm' i \<longleftrightarrow> (pos \<le> i \<and> i < pos') \<or> bmbit bm i)"
    using assms
  proof (induction bm pos count rule: set_granules.induct)
    case (1 bm pos count)
    show ?case
    proof (cases "32 \<le> count")
      case True
      define bm1 where "bm1 = bm(pos div 32 := bm (pos div 32) OR - 1)"
      have g: "set_granules bm1 (pos + 32) (count - 32) = (bm', pos', count')"
        using 1(2) True by (subst (asm) set_granules.simps) (simp add: bm1_def)
      have al: "pos mod 32 = 0" using 1(3) True by auto
      then have "bmbit bm1 i \<longleftrightarrow> (pos \<le> i \<and> i < pos + 32) \<or> bmbit bm i"
        unfolding bm1_def by (rule bmbit_or_ones)
      moreover have "(pos' mod 32 = 0 \<or> count' = 0) \<and> count' < 32 \<and>
          pos' + count' = pos + 32 + (count - 32) \<and> pos + 32 \<le> pos' \<and>
          (bmbit bm' i \<longleftrightarrow> (pos + 32 \<le> i \<and> i < pos') \<or> bmbit bm1 i)"
        using 1(1)[OF True, folded bm1_def] g al by simp
      ultimately show ?thesis using True by auto
    next
      case False
      with 1(2) have "(bm, pos, count) = (bm', pos', count')"
        by (subst (asm) set_granules.simps) simp
      with False 1(3) show ?thesis by auto
    qed
  qed
  then show "pos' mod 32 = 0 \<or> count' = 0" "count' < 32" "pos' + count' = pos + count" "pos \<le> pos'"
    "bmbit bm' i \<longleftrightarrow> (pos \<le> i \<and> i < pos') \<or> bmbit bm i" by blast+
qed

lemma bmbit_set_consecutive:
  assumes "0 < n"
  shows "bmbit (bitmap_set_consecutive bm start n) i \<longleftrightarrow> (start \<le> i \<and> i < start + n) \<or> bmbit bm i"
proof -
  define f where "f = min (32 - start mod 32) n"
  define bm1 where
    "bm1 = bm(start div 32 := bm (start div 32) OR BIT_MASK (start mod 32) f)"
  obtain bm2 pos count where g: "set_granules bm1 (start + f) (n - f) = (bm2, pos, count)"
    using prod_cases3 by blast
  have f: "0 < f" "start mod 32 + f \<le> 32" "f \<le> n"
    using assms mod_less_divisor[of 32 start] by (auto simp: f_def min_def)
  have al: "(start + f) mod 32 = 0 \<or> n - f = 0"
  proof (cases "32 - start mod 32 \<le> n")
    case True
    then have "start + f = 32 * (start div 32) + 32"
      unfolding f_def using mult_div_mod_eq[of 32 start] mod_less_divisor[of 32 start] by linarith
    then show ?thesis by simp
  qed (simp add: f_def)
  note sg = set_granules_spec(1-4)[OF g al] set_granules_spec(5)[OF g al, of i]
  have eq: "bitmap_set_consecutive bm start n =
      (if 0 < count then bm2(pos div 32 := bm2 (pos div 32) OR BIT_MASK 0 count) else bm2)"
    using g by (simp add: bitmap_set_consecutive_def Let_def bm1_def f_def)
  have b1: "bmbit bm1 i \<longleftrightarrow> (start \<le> i \<and> i < start + f) \<or> bmbit bm i"
    unfolding bm1_def using f by (intro bmbit_or_mask)
  show ?thesis
  proof (cases "0 < count")
    case True
    with sg(1) have "pos mod 32 = 0" by auto
    with bmbit_or_mask[of count pos bm2 i] True sg(2)
    have "bmbit (bm2(pos div 32 := bm2 (pos div 32) OR BIT_MASK 0 count)) i \<longleftrightarrow>
        (pos \<le> i \<and> i < pos + count) \<or> bmbit bm2 i" by (simp only: add_0 less_imp_le)
    then have "bmbit (bitmap_set_consecutive bm start n) i \<longleftrightarrow>
        (pos \<le> i \<and> i < pos + count) \<or> bmbit bm2 i"
      by (simp only: eq if_P[OF True])
    with sg(3-5) b1 f show ?thesis by auto
  next
    case False
    with sg(2-5) b1 f show ?thesis by (auto simp: eq)
  qed
qed

subsection \<open>Searching for one bit\<close>

lemma find_nth_loop_one:
  assumes "sz \<le> SIZE_MAX"
  shows "find_nth_loop bm sz 1 (of_bool st) i 0 =
    (if \<exists>j. i \<le> j \<and> j < sz \<and> bmbit bm j = st
     then LEAST j. i \<le> j \<and> j < sz \<and> bmbit bm j = st else SIZE_MAX)"
proof (induction "sz - i" arbitrary: i)
  case 0
  then show ?case by (subst find_nth_loop.simps) auto
next
  case (Suc k)
  show ?case
  proof (cases "bmbit bm i = st")
    case True
    then have "(LEAST j. i \<le> j \<and> j < sz \<and> bmbit bm j = st) = i"
      using Suc.hyps(2) by (intro Least_equality) auto
    with True Suc.hyps(2) show ?thesis
      by (subst find_nth_loop.simps) (auto simp: bitmap_get_eq)
  next
    case False
    then have "(i \<le> j \<and> j < sz \<and> bmbit bm j = st) = (i + 1 \<le> j \<and> j < sz \<and> bmbit bm j = st)" for j
      by (auto simp: Suc_le_eq le_less)
    with False Suc.hyps(1)[of "i + 1"] Suc.hyps(2) show ?thesis
      by (subst find_nth_loop.simps) (auto simp: bitmap_get_eq)
  qed
qed

lemma find_nth_one_Some:
  assumes "bitmap_find_nth bm sz 1 start st = i" "i \<noteq> SIZE_MAX" "sz \<le> SIZE_MAX"
  shows "start \<le> i" "i < sz" "bmbit bm i = st" "\<And>j. start \<le> j \<Longrightarrow> j < i \<Longrightarrow> bmbit bm j \<noteq> st"
proof -
  let ?P = "\<lambda>j. start \<le> j \<and> j < sz \<and> bmbit bm j = st"
  have "sz \<noteq> 0" using assms by (auto simp: bitmap_find_nth_def split: if_splits)
  with assms have "i = (if \<exists>j. ?P j then LEAST j. ?P j else SIZE_MAX)"
    using find_nth_loop_one[of sz bm st start] by (simp add: bitmap_find_nth_def of_bool_def)
  with assms have ex: "\<exists>j. ?P j" and i: "i = (LEAST j. ?P j)" by (auto split: if_splits)
  from ex have "?P i" unfolding i by (rule LeastI_ex)
  then show "start \<le> i" "i < sz" "bmbit bm i = st" by auto
  show "bmbit bm j \<noteq> st" if "start \<le> j" "j < i" for j
    using that not_less_Least[of j ?P] \<open>i < sz\<close> unfolding i by auto
qed

lemma find_nth_one_None:
  assumes "bitmap_find_nth bm sz 1 start st = SIZE_MAX" "sz \<le> SIZE_MAX"
    "start \<le> j" "j < sz"
  shows "bmbit bm j \<noteq> st"
proof
  assume j: "bmbit bm j = st"
  let ?P = "\<lambda>j. start \<le> j \<and> j < sz \<and> bmbit bm j = st"
  have "?P j" using assms j by simp
  then have "?P (LEAST j. ?P j)" by (rule LeastI)
  moreover have "(LEAST j. ?P j) = SIZE_MAX"
    using assms j find_nth_loop_one[of sz bm st start]
    by (auto simp: bitmap_find_nth_def of_bool_def split: if_splits)
  ultimately show False using assms(2) by auto
qed

subsection \<open>Counting a run of equal bits\<close>

lemma count_bits_spec:
  defines "c \<equiv> \<lambda>bm sz n st pos count. count_bits bm sz n st pos count - count"
  shows "count \<le> count_bits bm sz n st pos count"
    and "pos \<le> j \<Longrightarrow> j < pos + c bm sz n st pos count \<Longrightarrow> bmbit bm j = st"
    and "count_bits bm sz n st pos count < n \<Longrightarrow>
      sz \<le> pos + c bm sz n st pos count \<or> bmbit bm (pos + c bm sz n st pos count) \<noteq> st"
    and "pos + c bm sz n st pos count \<le> max pos sz"
proof -
  have "count \<le> count_bits bm sz n st pos count \<and>
    (\<forall>j. pos \<le> j \<and> j < pos + c bm sz n st pos count \<longrightarrow> bmbit bm j = st) \<and>
    (count_bits bm sz n st pos count < n \<longrightarrow>
      sz \<le> pos + c bm sz n st pos count \<or> bmbit bm (pos + c bm sz n st pos count) \<noteq> st) \<and>
    pos + c bm sz n st pos count \<le> max pos sz"
  proof (induction bm sz n st pos count rule: count_bits.induct)
    case (1 bm sz n st pos count)
    show ?case
    proof (cases "pos < sz \<and> (bitmap_get bm pos \<noteq> 0) = st \<and> count < n")
      case True
      have eq: "count_bits bm sz n st pos count = count_bits bm sz n st (pos + 1) (count + 1)"
        using True by (subst count_bits.simps) simp
      note IH = 1[OF True]
      have ceq: "c bm sz n st pos count = c bm sz n st (pos + 1) (count + 1) + 1"
        using conjunct1[OF IH] by (simp add: c_def eq)
      have "bmbit bm pos = st" using True by simp
      then have "bmbit bm j = st" if "pos \<le> j" "j < pos + c bm sz n st pos count" for j
        using that IH ceq by (cases "j = pos") auto
      with IH ceq True show ?thesis by (auto simp: eq)
    next
      case False
      have eq: "count_bits bm sz n st pos count = count"
        using False by (subst count_bits.simps) argo
      from False eq show ?thesis by (auto simp: c_def)
    qed
  qed
  then show "count \<le> count_bits bm sz n st pos count"
    and "pos \<le> j \<Longrightarrow> j < pos + c bm sz n st pos count \<Longrightarrow> bmbit bm j = st"
    and "count_bits bm sz n st pos count < n \<Longrightarrow>
      sz \<le> pos + c bm sz n st pos count \<or> bmbit bm (pos + c bm sz n st pos count) \<noteq> st"
    and "pos + c bm sz n st pos count \<le> max pos sz" by blast+
qed

lemma uniform_granule:
  assumes "bm (pos div 32) = (if st then - 1 else 0)" "pos mod 32 = 0" "pos \<le> j" "j < pos + 32"
  shows "bmbit bm j = st"
proof -
  have "j div 32 = pos div 32" using assms by (auto elim!: dvdE simp: mod_eq_0_iff_dvd)
  with assms(1) show ?thesis by (simp add: bmbit_def)
qed

lemma count_granules_spec:
  assumes "count_granules bm sz n (if st then - 1 else 0) pos count = (pos', count')"
    "pos mod 32 = 0" "sz mod 32 = 0"
  shows "\<exists>d. pos' = pos + d \<and> count' = count + d \<and> pos' \<le> max pos sz \<and>
    (\<forall>j. pos \<le> j \<and> j < pos' \<longrightarrow> bmbit bm j = st)"
  using assms
proof (induction bm sz n "if st then - 1 else 0 :: u32" pos count rule: count_granules.induct)
  case (1 bm sz n pos count)
  let ?m = "if st then - 1 else 0 :: u32"
  show ?case
  proof (cases "pos < sz \<and> bm (pos div 32) XOR ?m = 0 \<and> count < n")
    case True
    have "count_granules bm sz n ?m (pos + 32) (count + 32) = (pos', count')"
      using 1(2) True by (subst (asm) count_granules.simps) (simp only: if_True simp_thms)
    with 1(1)[OF True] 1(3,4) obtain d where d: "pos' = pos + 32 + d" "count' = count + 32 + d"
      "pos' \<le> max (pos + 32) sz" "\<forall>j. pos + 32 \<le> j \<and> j < pos' \<longrightarrow> bmbit bm j = st"
      by auto
    have u: "bm (pos div 32) = ?m" using True by (simp only: word_xor_eq_0_iff)
    have "bmbit bm j = st" if "pos \<le> j" "j < pos'" for j
      using that d(4) uniform_granule[of bm pos st j] u 1(3) by (cases "j < pos + 32") auto
    moreover have "pos + 32 \<le> sz"
      using True 1(3,4) by (auto elim!: dvdE simp: mod_eq_0_iff_dvd)
    ultimately show ?thesis using d by (intro exI[of _ "32 + d"]) auto
  next
    case False
    then have "(pos', count') = (pos, count)"
      using 1(2) by (subst (asm) count_granules.simps) (simp only: if_False)
    then show ?thesis by auto
  qed
qed

lemma first_granule_uniform:
  assumes "0 < f" "start mod 32 + f \<le> 32"
  shows "(bm (start div 32) XOR (if st then BIT_MASK (start mod 32) f else NOT (BIT_MASK (start mod 32) f)))
      AND (BIT_MASK (start mod 32) f :: u32) = 0 \<longleftrightarrow> (\<forall>j. start \<le> j \<and> j < start + f \<longrightarrow> bmbit bm j = st)"
    (is "?L = ?R")
proof -
  let ?o = "start mod 32"
  have "?L \<longleftrightarrow> (\<forall>k < 32. ?o \<le> k \<and> k < ?o + f \<longrightarrow> bit (bm (start div 32)) k = st)"
    using assms by (auto simp: word_zero_iff bit_and_iff bit_xor_iff bit_not_iff bit_BIT_MASK)
  also have "\<dots> \<longleftrightarrow> ?R"
  proof
    assume L: "\<forall>k < 32. ?o \<le> k \<and> k < ?o + f \<longrightarrow> bit (bm (start div 32)) k = st"
    show ?R
    proof (intro allI impI)
      fix j assume j: "start \<le> j \<and> j < start + f"
      then obtain d where d: "j = start + d" "d < f" by (auto dest: le_Suc_ex)
      have "j = 32 * (start div 32) + (?o + d)" using d by simp
      moreover have "?o + d < 32" using d assms by linarith
      ultimately have "j div 32 = start div 32" "j mod 32 = ?o + d"
        by (simp_all only: granule_split)
      with L d \<open>?o + d < 32\<close> show "bmbit bm j = st" by (simp add: bmbit_def)
    qed
  next
    assume R: ?R
    show "\<forall>k < 32. ?o \<le> k \<and> k < ?o + f \<longrightarrow> bit (bm (start div 32)) k = st"
    proof (intro allI impI)
      fix k :: nat assume k: "k < 32" "?o \<le> k \<and> k < ?o + f"
      define j where "j = 32 * (start div 32) + k"
      have "j div 32 = start div 32" "j mod 32 = k" using k by (simp_all add: j_def)
      moreover have "start \<le> j \<and> j < start + f"
        using k mult_div_mod_eq[of 32 start] unfolding j_def by linarith
      ultimately show "bit (bm (start div 32)) k = st" using R by (auto simp: bmbit_def)
    qed
  qed
  finally show ?thesis .
qed

lemma count_consecutive_eq:
  assumes "1 < n"
  defines "f \<equiv> \<lambda>start. min (32 - start mod 32) n"
  defines "u \<equiv> \<lambda>bm start. (\<forall>j. start \<le> j \<and> j < start + f start \<longrightarrow> bmbit bm j = bmbit bm start)"
  shows "bitmap_count_consecutive bm sz start n =
    (case count_granules bm sz n (if bmbit bm start then - 1 else 0)
       (if u bm start then start + f start else start) (if u bm start then f start else 0)
     of (pos, count) \<Rightarrow> count_bits bm sz n (bmbit bm start) pos count)"
proof -
  have f: "0 < f start" "start mod 32 + f start \<le> 32"
    using assms(1) mod_less_divisor[of 32 start] by (auto simp: f_def min_def)
  have c: "(n \<le> 1) = False" "(bitmap_get bm start \<noteq> 0) = bmbit bm start"
    using assms(1) by simp_all
  have c3: "(bm (start div 32) XOR (if bmbit bm start then BIT_MASK (start mod 32) (f start)
      else NOT (BIT_MASK (start mod 32) (f start)))) AND (BIT_MASK (start mod 32) (f start) :: u32) = 0
      \<longleftrightarrow> u bm start"
    unfolding u_def using f by (rule first_granule_uniform)
  have f': "min (32 - start mod 32) n = f start" by (simp add: f_def)
  show ?thesis
    unfolding bitmap_count_consecutive_def Let_def c f' c3 if_False
    by (simp only: if_distrib[of fst] if_distrib[of snd] case_prod_beta fst_conv snd_conv)
qed

text \<open>
  After the first granule the scan is either at a granule boundary, or it has counted enough,
  or the granule is not uniform and the second loop does not start.
\<close>

lemma count_consecutive_phases:
  assumes "1 < n" "sz mod 32 = 0" "start < sz"
  obtains pos count where
    "bitmap_count_consecutive bm sz start n = count_bits bm sz n (bmbit bm start) pos count"
    "pos = start + count" "pos \<le> sz" "\<forall>j. start \<le> j \<and> j < pos \<longrightarrow> bmbit bm j = bmbit bm start"
proof -
  define st where "st = bmbit bm start"
  define f where "f = min (32 - start mod 32) n"
  define m where "m = (if st then - 1 else 0 :: u32)"
  have f: "0 < f" "start mod 32 + f \<le> 32"
    using assms(1) mod_less_divisor[of 32 start] by (auto simp: f_def min_def)
  have end_le: "32 * (start div 32) + 32 \<le> sz"
  proof -
    from assms(2) obtain k where k: "sz = k * 32" by (auto simp: mod_eq_0_iff_dvd mult.commute)
    with assms(3) have "start div 32 < k" by (simp add: less_mult_imp_div_less)
    with k show ?thesis by linarith
  qed
  define u where "u \<longleftrightarrow> (\<forall>j. start \<le> j \<and> j < start + f \<longrightarrow> bmbit bm j = st)"
  define pc where "pc = (if u then (start + f, f) else (start, 0))"
  have eq: "bitmap_count_consecutive bm sz start n =
      (case count_granules bm sz n m (fst pc) (snd pc) of (pos, count) \<Rightarrow> count_bits bm sz n st pos count)"
    unfolding count_consecutive_eq[OF assms(1), of bm sz start, folded f_def st_def, folded u_def m_def]
    by (simp only: pc_def if_distrib[of fst] if_distrib[of snd] fst_conv snd_conv)
  obtain pos count where g: "count_granules bm sz n m (fst pc) (snd pc) = (pos, count)" by fastforce
  have pc: "fst pc = start + snd pc" "fst pc \<le> sz"
    "\<forall>j. start \<le> j \<and> j < fst pc \<longrightarrow> bmbit bm j = st"
  proof -
    have "start + f \<le> sz" using f(2) end_le mult_div_mod_eq[of 32 start] by linarith
    then show "fst pc = start + snd pc" "fst pc \<le> sz"
      "\<forall>j. start \<le> j \<and> j < fst pc \<longrightarrow> bmbit bm j = st"
      using assms(3) by (auto simp: pc_def u_def)
  qed
  have cases: "fst pc mod 32 = 0 \<or> (pos, count) = pc"
  proof (cases "u \<and> 32 - start mod 32 \<le> n")
    case True
    then have "fst pc = start + (32 - start mod 32)" by (simp add: pc_def f_def)
    also have "\<dots> = 32 * (start div 32) + 32"
      using mult_div_mod_eq[of 32 start] mod_less_divisor[of 32 start] by linarith
    finally show ?thesis by simp
  next
    case False
    have "\<not> (bm (fst pc div 32) XOR m = 0 \<and> snd pc < n)"
    proof (cases u)
      case True
      with False show ?thesis by (simp add: pc_def f_def)
    next
      case False
      have "bm (start div 32) \<noteq> m"
      proof
        assume "bm (start div 32) = m"
        then have "bmbit bm j = st" if "j div 32 = start div 32" for j
          using that by (simp add: bmbit_def m_def)
        moreover have "j div 32 = start div 32" if "start \<le> j" "j < start + f" for j
          using same_granule(1)[OF that f(2)] .
        ultimately have u unfolding u_def by blast
        with False show False by blast
      qed
      with False show ?thesis by (simp add: pc_def)
    qed
    then have "count_granules bm sz n m (fst pc) (snd pc) = (fst pc, snd pc)"
      by (subst count_granules.simps) auto
    with g show ?thesis by simp
  qed
  have "pos = start + count \<and> pos \<le> sz \<and> (\<forall>j. start \<le> j \<and> j < pos \<longrightarrow> bmbit bm j = st)"
    using cases
  proof
    assume "fst pc mod 32 = 0"
    from count_granules_spec[OF g[unfolded m_def] this assms(2)] obtain d where
      d: "pos = fst pc + d" "count = snd pc + d" "pos \<le> max (fst pc) sz"
        "\<forall>j. fst pc \<le> j \<and> j < pos \<longrightarrow> bmbit bm j = st" by blast
    then have "\<forall>j. start \<le> j \<and> j < pos \<longrightarrow> bmbit bm j = st"
      using pc(3) by (metis linorder_not_le)
    with d pc(1,2) show ?thesis by auto
  next
    assume "(pos, count) = pc"
    with pc show ?thesis by (cases pc) auto
  qed
  with that[of pos count] eq[unfolded g case_prod_conv] show ?thesis unfolding st_def by blast
qed

lemma bitmap_count_consecutive_spec:
  fixes bm :: bitmap
  assumes "1 < n" "sz mod 32 = 0" "start < sz"
  defines "c \<equiv> bitmap_count_consecutive bm sz start n"
  shows "0 < c" and "start + c \<le> sz"
    and "\<And>j. start \<le> j \<Longrightarrow> j < start + c \<Longrightarrow> bmbit bm j = bmbit bm start"
    and "c < n \<Longrightarrow> start + c < sz \<Longrightarrow> bmbit bm (start + c) \<noteq> bmbit bm start"
proof -
  obtain pos count where
    ph: "c = count_bits bm sz n (bmbit bm start) pos count" "pos = start + count" "pos \<le> sz"
      "\<forall>j. start \<le> j \<and> j < pos \<longrightarrow> bmbit bm j = bmbit bm start"
    using count_consecutive_phases[OF assms(1-3)] unfolding c_def by metis
  note cb = count_bits_spec[where bm = bm and sz = sz and n = n and st = "bmbit bm start" and
      pos = pos and count = count, folded ph(1)]
  have st: "start + c = pos + (c - count)" using cb(1) ph(2) by simp
  show "start + c \<le> sz" using cb(4) ph(3) by (simp add: st)
  show all: "bmbit bm j = bmbit bm start" if "start \<le> j" "j < start + c" for j
  proof (cases "j < pos")
    case True
    with that(1) ph(4) show ?thesis by blast
  next
    case False
    with cb(2)[of j] that(2) st show ?thesis by linarith
  qed
  show "bmbit bm (start + c) \<noteq> bmbit bm start" if "c < n" "start + c < sz"
    using cb(3) that by (auto simp: st)
  show "0 < c"
  proof (rule ccontr)
    assume "\<not> 0 < c"
    then have "c = 0" by simp
    moreover from this cb(1) ph(2) have "pos = start" "count = 0" by auto
    ultimately show False using cb(3) assms(1,3) by simp
  qed
qed

subsection \<open>Searching for a run of bits\<close>

text \<open>Every count from a bit inside the bitmap makes progress, so the search terminates.\<close>

lemma count_granules_diff:
  "\<exists>d. count_granules bm sz n m pos count = (pos + d, count + d)"
proof (induction bm sz n m pos count rule: count_granules.induct)
  case (1 bm sz n m pos count)
  show ?case
  proof (cases "pos < sz \<and> bm (pos div 32) XOR m = 0 \<and> count < n")
    case True
    with 1[OF True] obtain d where
      "count_granules bm sz n m (pos + 32) (count + 32) = (pos + 32 + d, count + 32 + d)" by blast
    with True show ?thesis
      by (subst count_granules.simps) (auto intro!: exI[of _ "32 + d"])
  qed (subst count_granules.simps, auto)
qed

lemma count_consecutive_pos:
  assumes "1 < n" "start < sz"
  shows "0 < bitmap_count_consecutive bm sz start n"
proof -
  define f where "f = min (32 - start mod 32) n"
  define u where "u \<longleftrightarrow> (\<forall>j. start \<le> j \<and> j < start + f \<longrightarrow> bmbit bm j = bmbit bm start)"
  define c where "c = (if u then f else 0)"
  have f: "0 < f" using assms(1) mod_less_divisor[of 32 start] by (auto simp: f_def min_def)
  obtain d where d: "count_granules bm sz n (if bmbit bm start then - 1 else 0)
      (if u then start + f else start) c = ((if u then start + f else start) + d, c + d)"
    using count_granules_diff by blast
  have eq: "bitmap_count_consecutive bm sz start n =
      count_bits bm sz n (bmbit bm start) ((if u then start + f else start) + d) (c + d)"
    unfolding count_consecutive_eq[OF assms(1), of bm sz start, folded f_def, folded u_def c_def] d
    by (simp only: case_prod_conv)
  show ?thesis
  proof (cases "c + d = 0")
    case True
    with f have "u = False" "d = 0" by (auto simp: c_def split: if_splits)
    then have "bitmap_count_consecutive bm sz start n = count_bits bm sz n (bmbit bm start) start 0"
      using eq by (simp add: c_def)
    also have "\<dots> = count_bits bm sz n (bmbit bm start) (start + 1) 1"
      using assms by (subst count_bits.simps) simp
    finally show ?thesis using count_bits_spec(1)[of 1 bm sz n "bmbit bm start" "start + 1"] by simp
  next
    case False
    then show ?thesis using count_bits_spec(1)[of "c + d" bm sz n "bmbit bm start"] unfolding eq
      by (meson gr0I le_zero_eq order_less_le_trans)
  qed
qed

function find_consec_loop :: "bitmap \<Rightarrow> nat \<Rightarrow> nat \<Rightarrow> nat \<Rightarrow> nat" where
  "find_consec_loop bm sz n i =
     (if i < sz then
        let count = bitmap_count_consecutive bm sz i n
        in if count < n
           then let i = i + count
                in find_consec_loop bm sz n (i + bitmap_count_consecutive bm sz i SIZE_MAX)
           else i
      else i)"
  by pat_completeness auto
termination
proof (relation "measure (\<lambda>(_, sz, _, i). sz - i)")
  fix bm sz n i count i'
  assume "i < sz" "count = bitmap_count_consecutive bm sz i n" "count < n" "i' = i + count"
  moreover from this have "n \<le> 1 \<longrightarrow> count = n" by (auto simp: bitmap_count_consecutive_def Let_def)
  ultimately have "0 < count" using count_consecutive_pos[of n i sz bm] by auto
  with \<open>i < sz\<close> \<open>i' = i + count\<close>
  show "((bm, sz, n, i' + bitmap_count_consecutive bm sz i' SIZE_MAX), bm, sz, n, i)
    \<in> measure (\<lambda>(_, sz, _, i). sz - i)" by simp
qed simp

definition bitmap_find_consec :: "bitmap \<Rightarrow> nat \<Rightarrow> nat \<Rightarrow> nat \<Rightarrow> bool \<Rightarrow> nat" where
  "bitmap_find_consec bm sz start n st =
     (let i = bitmap_find_nth bm sz 1 start st
      in if i < 0 then SIZE_MAX
         else let i = find_consec_loop bm sz n i
              in if i \<ge> sz then SIZE_MAX else i)"

declare find_consec_loop.simps [simp del]

text \<open>
  A run of \<open>n\<close> bits of value \<open>st\<close> at position \<open>i\<close>. On a bitmap whose size is a multiple of the
  granule, the search returns the first such run, and \<open>SIZE_MAX\<close> exactly when there is none.
\<close>

definition bitrun :: "bitmap \<Rightarrow> nat \<Rightarrow> bool \<Rightarrow> nat \<Rightarrow> nat \<Rightarrow> bool" where
  "bitrun bm sz st n i \<longleftrightarrow> i + n \<le> sz \<and> (\<forall>j. i \<le> j \<and> j < i + n \<longrightarrow> bmbit bm j = st)"

lemma count_consecutive_1: "bitmap_count_consecutive bm sz i 1 = 1"
  by (simp add: bitmap_count_consecutive_def Let_def)

lemma find_consec_loop_spec:
  assumes "0 < n" "sz mod 32 = 0" "sz < SIZE_MAX" "i < sz \<Longrightarrow> bmbit bm i = st"
  shows "(find_consec_loop bm sz n i < sz \<longrightarrow> bitrun bm sz st n (find_consec_loop bm sz n i)) \<and>
    i \<le> find_consec_loop bm sz n i \<and>
    (\<forall>j. i \<le> j \<and> j < find_consec_loop bm sz n i \<longrightarrow> \<not> bitrun bm sz st n j)"
  using assms
proof (induction bm sz n i rule: find_consec_loop.induct)
  case (1 bm sz n i)
  define c where "c = bitmap_count_consecutive bm sz i n"
  show ?case
  proof (cases "i < sz")
    case False
    then show ?thesis by (subst (1 2 3 4) find_consec_loop.simps) (auto simp: bitrun_def)
  next
    case i: True
    have st: "bmbit bm i = st" using 1(5) i .
    show ?thesis
    proof (cases "c < n")
      case False
      have "bitrun bm sz st n i"
      proof (cases "n = 1")
        case True
        with i st show ?thesis by (auto simp: bitrun_def less_Suc_eq)
      next
        case n: False
        with 1(2) have "1 < n" by simp
        note cs = bitmap_count_consecutive_spec[OF this 1(3) i, where bm = bm, folded c_def]
        from False cs(2,3) st show ?thesis by (auto simp: bitrun_def)
      qed
      moreover have "find_consec_loop bm sz n i = i"
        using False i by (subst find_consec_loop.simps) (simp add: c_def Let_def)
      ultimately show ?thesis by auto
    next
      case True
      then have n: "1 < n" using count_consecutive_1[of bm sz i] 1(2) unfolding c_def
        by (cases "n = 1") auto
      note cs = bitmap_count_consecutive_spec[OF n 1(3) i, where bm = bm, folded c_def]
      define i1 where "i1 = i + c"
      define d where "d = bitmap_count_consecutive bm sz i1 SIZE_MAX"
      have eq: "find_consec_loop bm sz n i = find_consec_loop bm sz n (i1 + d)"
        using True i by (subst find_consec_loop.simps) (simp add: c_def i1_def d_def Let_def)
      have i1: "i1 \<le> sz" "i1 < sz \<Longrightarrow> bmbit bm i1 \<noteq> st"
        using cs(2) cs(4)[OF True] st by (simp_all add: i1_def)
      have skip: "i1 + d < sz \<Longrightarrow> bmbit bm (i1 + d) = st"
        and gap: "i1 \<le> j \<Longrightarrow> j < i1 + d \<Longrightarrow> j < sz \<Longrightarrow> bmbit bm j \<noteq> st" for j
      proof -
        have "(1 :: nat) < SIZE_MAX" by simp
        note ds = bitmap_count_consecutive_spec[OF this 1(3), where start = i1 and bm = bm, folded d_def]
        show "bmbit bm (i1 + d) = st" if "i1 + d < sz"
        proof -
          from that have "i1 < sz" by simp
          from ds(2)[OF this] 1(4) have "d < SIZE_MAX" by linarith
          from ds(4)[OF \<open>i1 < sz\<close> this that] i1(2)[OF \<open>i1 < sz\<close>] show ?thesis by blast
        qed
        show "bmbit bm j \<noteq> st" if "i1 \<le> j" "j < i1 + d" "j < sz"
        proof -
          from that have "i1 < sz" by simp
          from ds(3)[OF this that(1,2)] i1(2)[OF this] show ?thesis by blast
        qed
      qed
      have norun: "\<not> bitrun bm sz st n j" if "i \<le> j" "j < i1 + d" for j
      proof (cases "j < i1")
        case True
        have "i1 < j + n" using \<open>c < n\<close> that(1) by (simp add: i1_def)
        then have "j \<le> i1 \<and> i1 < j + n" using True by simp
        then show ?thesis using i1(2) unfolding bitrun_def by (meson order_less_le_trans)
      next
        case False
        then show ?thesis using gap[of j] that(2) 1(2) by (fastforce simp: bitrun_def)
      qed
      have "c = bitmap_count_consecutive bm sz i n" "i1 = i + c" by (simp_all add: c_def i1_def)
      from 1(1)[OF i this(1) True this(2) 1(2-4), folded d_def] skip
      have IH: "(find_consec_loop bm sz n (i1 + d) < sz \<longrightarrow>
            bitrun bm sz st n (find_consec_loop bm sz n (i1 + d))) \<and>
          i1 + d \<le> find_consec_loop bm sz n (i1 + d) \<and>
          (\<forall>j. i1 + d \<le> j \<and> j < find_consec_loop bm sz n (i1 + d) \<longrightarrow> \<not> bitrun bm sz st n j)"
        by blast
      then show ?thesis using norun unfolding eq
        by (metis add_leD1 i1_def linorder_not_le)
    qed
  qed
qed

lemma bitmap_find_consec_Some:
  assumes "bitmap_find_consec bm sz start n st = r" "r \<noteq> SIZE_MAX"
    and "0 < n" "sz mod 32 = 0" "sz < SIZE_MAX"
  shows "start \<le> r" "bitrun bm sz st n r" "\<And>j. start \<le> j \<Longrightarrow> j < r \<Longrightarrow> \<not> bitrun bm sz st n j"
proof -
  define i where "i = bitmap_find_nth bm sz 1 start st"
  define k where "k = find_consec_loop bm sz n i"
  have r: "r = k" "k < sz"
    using assms(1,2) by (auto simp: bitmap_find_consec_def Let_def i_def k_def split: if_splits)
  have "i \<noteq> SIZE_MAX"
  proof
    assume "i = SIZE_MAX"
    then have "k = i" using assms(5) unfolding k_def by (subst find_consec_loop.simps) simp
    with r(2) \<open>i = SIZE_MAX\<close> assms(5) show False by simp
  qed
  note fn = find_nth_one_Some[OF i_def[symmetric] this less_imp_le[OF assms(5)]]
  note fl = find_consec_loop_spec[OF assms(3-5), of i bm st, folded k_def, OF fn(3)]
  show "bitrun bm sz st n r" using fl r by blast
  show "start \<le> r" using fl r fn(1) by linarith
  show "\<not> bitrun bm sz st n j" if "start \<le> j" "j < r" for j
  proof (cases "j < i")
    case True
    with fn(4)[of j] that assms(3) show ?thesis by (auto simp: bitrun_def)
  next
    case False
    with fl that r show ?thesis by (meson linorder_not_le)
  qed
qed

lemma bitmap_find_consec_None:
  assumes "bitmap_find_consec bm sz start n st = SIZE_MAX"
    and "0 < n" "sz mod 32 = 0" "sz < SIZE_MAX" "start \<le> j"
  shows "\<not> bitrun bm sz st n j"
proof
  assume run: "bitrun bm sz st n j"
  then have j: "j < sz" "bmbit bm j = st" using assms(2) by (auto simp: bitrun_def)
  define i where "i = bitmap_find_nth bm sz 1 start st"
  define k where "k = find_consec_loop bm sz n i"
  have "i \<noteq> SIZE_MAX"
    using find_nth_one_None[of bm sz start st j] assms(4,5) j by (auto simp: i_def)
  note fn = find_nth_one_Some[OF i_def[symmetric] this less_imp_le[OF assms(4)]]
  have "i \<le> j" using fn(4)[of j] assms(5) j(2) by (meson linorder_not_le)
  moreover have "sz \<le> k"
  proof (rule ccontr)
    assume "\<not> sz \<le> k"
    then have "bitmap_find_consec bm sz start n st = k"
      by (simp add: bitmap_find_consec_def Let_def i_def k_def)
    with assms(1,4) \<open>\<not> sz \<le> k\<close> show False by simp
  qed
  ultimately show False
    using find_consec_loop_spec[OF assms(2-4), of i bm st, folded k_def, OF fn(3)] run j(1)
    by (meson order_less_le_trans)
qed

subsection \<open>The slot-allocation interface\<close>

text \<open>
  The object pool, the scheduler's node arrays and the SMMU context banks all hand out array
  slots through a bitmap in the same way: find the first clear bit, set it, later clear it.
  The interface they rely on and what follows from it for every such client.
\<close>

locale slot_map =
  fixes taken :: "'m \<Rightarrow> nat \<Rightarrow> bool"
    and mark :: "'m \<Rightarrow> nat \<Rightarrow> 'm"
    and release :: "'m \<Rightarrow> nat \<Rightarrow> 'm"
    and first_free :: "'m \<Rightarrow> nat \<Rightarrow> nat"
  assumes taken_mark: "taken (mark m b) i \<longleftrightarrow> i = b \<or> taken m i"
    and taken_release: "taken (release m b) i \<longleftrightarrow> i \<noteq> b \<and> taken m i"
    and first_free_lt: "first_free m sz \<noteq> SIZE_MAX \<Longrightarrow> sz \<le> SIZE_MAX \<Longrightarrow> first_free m sz < sz"
    and first_free_free: "first_free m sz \<noteq> SIZE_MAX \<Longrightarrow> sz \<le> SIZE_MAX \<Longrightarrow> \<not> taken m (first_free m sz)"
    and first_free_full: "first_free m sz = SIZE_MAX \<Longrightarrow> sz \<le> SIZE_MAX \<Longrightarrow> i < sz \<Longrightarrow> taken m i"
begin

definition taken_set :: "'m \<Rightarrow> nat \<Rightarrow> nat set" where
  "taken_set m sz = {i. i < sz \<and> taken m i}"

lemma finite_taken_set [simp]: "finite (taken_set m sz)"
  by (simp add: taken_set_def)

lemma taken_set_mark: "b < sz \<Longrightarrow> taken_set (mark m b) sz = insert b (taken_set m sz)"
  by (auto simp: taken_set_def taken_mark)

lemma taken_set_release: "taken_set (release m b) sz = taken_set m sz - {b}"
  by (auto simp: taken_set_def taken_release)

lemma alloc_fresh:
  assumes "first_free m sz \<noteq> SIZE_MAX" "sz \<le> SIZE_MAX"
  shows "first_free m sz \<notin> taken_set m sz"
    and "taken_set (mark m (first_free m sz)) sz = insert (first_free m sz) (taken_set m sz)"
  using assms first_free_free first_free_lt
  by (auto simp: taken_set_def taken_mark)

lemma alloc_release:
  assumes "first_free m sz \<noteq> SIZE_MAX" "sz \<le> SIZE_MAX"
  shows "taken_set (release (mark m (first_free m sz)) (first_free m sz)) sz = taken_set m sz"
  using alloc_fresh[OF assms] by (simp add: taken_set_release)

lemma full_iff:
  assumes "sz \<le> SIZE_MAX"
  shows "first_free m sz = SIZE_MAX \<longleftrightarrow> card (taken_set m sz) = sz"
proof
  assume "first_free m sz = SIZE_MAX"
  then have "taken_set m sz = {..<sz}" using first_free_full assms by (auto simp: taken_set_def)
  then show "card (taken_set m sz) = sz" by simp
next
  assume c: "card (taken_set m sz) = sz"
  have "taken_set m sz = {..<sz}"
    by (rule card_subset_eq) (use c in \<open>auto simp: taken_set_def\<close>)
  then have "i < sz \<Longrightarrow> taken m i" for i unfolding taken_set_def by blast
  then show "first_free m sz = SIZE_MAX"
    using first_free_lt first_free_free assms by blast
qed

lemma two_allocs_differ:
  assumes "first_free m sz \<noteq> SIZE_MAX" "sz \<le> SIZE_MAX"
    "first_free (mark m (first_free m sz)) sz \<noteq> SIZE_MAX"
  shows "first_free (mark m (first_free m sz)) sz \<noteq> first_free m sz"
  using first_free_free[OF assms(3,2)] by (auto simp: taken_mark)

end

definition first_clear :: "bitmap \<Rightarrow> nat \<Rightarrow> nat" where
  "first_clear bm sz = bitmap_find_nth bm sz 1 0 False"

interpretation slots: slot_map bmbit bitmap_set bitmap_clear first_clear
proof
  fix m b i sz
  show "bmbit (bitmap_set m b) i = (i = b \<or> bmbit m i)" by simp
  show "bmbit (bitmap_clear m b) i = (i \<noteq> b \<and> bmbit m i)" by simp
  assume sz: "sz \<le> SIZE_MAX"
  { assume "first_clear m sz \<noteq> SIZE_MAX"
    from find_nth_one_Some[OF refl this[unfolded first_clear_def] sz]
    show "first_clear m sz < sz" and "\<not> bmbit m (first_clear m sz)"
      by (simp_all add: first_clear_def) }
  { assume "first_clear m sz = SIZE_MAX" "i < sz"
    from find_nth_one_None[OF this(1)[unfolded first_clear_def] sz, of i] this(2)
    show "bmbit m i" by simp }
qed

subsection \<open>Properties\<close>

text \<open>C25: on a bitmap whose size is a multiple of the granule length, \<open>bitmap_find_consec\<close> is
  first fit: it returns the least position at or after \<open>start\<close> of \<open>n\<close> consecutive bits with the
  requested value that lie inside the bitmap, and \<open>(size_t)-1\<close> exactly when there is none.\<close>

theorem bitmap_find_consec_first_fit:
  assumes "0 < n" "sz mod 32 = 0" "sz < SIZE_MAX"
  shows "bitmap_find_consec bm sz start n st =
    (if \<exists>i. start \<le> i \<and> bitrun bm sz st n i
     then LEAST i. start \<le> i \<and> bitrun bm sz st n i else SIZE_MAX)"
proof (cases "bitmap_find_consec bm sz start n st = SIZE_MAX")
  case True
  with bitmap_find_consec_None[OF _ assms] show ?thesis by auto
next
  case False
  note fs = bitmap_find_consec_Some[OF refl False assms]
  then have "(LEAST i. start \<le> i \<and> bitrun bm sz st n i) = bitmap_find_consec bm sz start n st"
    by (intro Least_equality) (auto simp: not_less[symmetric])
  with fs show ?thesis by auto
qed

theorem bitmap_find_consec_first_fit_witness:
  "bitmap_find_consec (\<lambda>_. 7) 64 0 4 False =
    (if \<exists>i. 0 \<le> i \<and> bitrun (\<lambda>_. 7) 64 False 4 i
     then LEAST i. 0 \<le> i \<and> bitrun (\<lambda>_. 7) 64 False 4 i else SIZE_MAX)"
  by (rule bitmap_find_consec_first_fit) simp_all

end
