(* ===== verification/Locks.thy ===== *)
theory Locks
  imports Avisor_Prelude
begin

text \<open>
  \<open>lib/inc/spinlock.h\<close>, \<open>lib/inc/atomic.h\<close> and the barrier of \<open>core/inc/cpu.h\<close>. The ticket
  lock is modelled twice: as the two functions one processor executes on the lock word pair
  (a wait that nothing on this processor can end is the outcome \<open>Spin\<close>), and as a step
  relation of any number of processors contending for it. The exclusive load/store loops of
  \<open>atomic.h\<close> are the atomic update they perform when the store succeeds; a failing store
  changes nothing and repeats. The barrier is a step relation of \<open>n\<close> processors.
\<close>

subsection \<open>The ticket lock\<close>

record spinlock =
  ticket :: u32
  next_tk :: u32

definition SPINLOCK_INITVAL :: spinlock where
  "SPINLOCK_INITVAL = \<lparr>ticket = 0, next_tk = 0\<rparr>"

definition spinlock_init :: "spinlock \<Rightarrow> spinlock" where
  "spinlock_init lock = lock\<lparr>ticket := 0, next_tk := 0\<rparr>"

definition spin_lock :: "spinlock \<Rightarrow> spinlock res" where
  "spin_lock lock =
     (let mine = ticket lock;
          lock = lock\<lparr>ticket := mine + 1\<rparr>
      in if mine = next_tk lock then Inr lock else Inl Spin)"

definition spin_unlock :: "spinlock \<Rightarrow> spinlock" where
  "spin_unlock lock = lock\<lparr>next_tk := next_tk lock + 1\<rparr>"

datatype lock_pc = Idle | Waiting u32 | Holding u32

record lock_sys =
  lk :: spinlock
  lpc :: "nat \<Rightarrow> lock_pc"

definition lock_start :: lock_sys where
  "lock_start = \<lparr>lk = SPINLOCK_INITVAL, lpc = (\<lambda>_. Idle)\<rparr>"

inductive lock_step :: "nat \<Rightarrow> lock_sys \<Rightarrow> lock_sys \<Rightarrow> bool" for N where
  take_ticket: "i < N \<Longrightarrow> lpc s i = Idle \<Longrightarrow>
     lock_step N s (s\<lparr>lk := (lk s)\<lparr>ticket := ticket (lk s) + 1\<rparr>,
                      lpc := (lpc s)(i := Waiting (ticket (lk s)))\<rparr>)"
| enter: "lpc s i = Waiting t \<Longrightarrow> next_tk (lk s) = t \<Longrightarrow>
     lock_step N s (s\<lparr>lpc := (lpc s)(i := Holding t)\<rparr>)"
| leave: "lpc s i = Holding t \<Longrightarrow>
     lock_step N s (s\<lparr>lk := spin_unlock (lk s), lpc := (lpc s)(i := Idle)\<rparr>)"

inductive lock_reach :: "nat \<Rightarrow> lock_sys \<Rightarrow> bool" for N where
  start: "lock_reach N lock_start"
| step: "lock_reach N s \<Longrightarrow> lock_step N s t \<Longrightarrow> lock_reach N t"

subsection \<open>Atomic counters\<close>

definition atomic_add :: "u32 \<Rightarrow> u32 \<Rightarrow> u32" where
  "atomic_add i counter = counter + i"

definition atomic_add_return :: "u32 \<Rightarrow> u32 \<Rightarrow> u32 \<times> u32" where
  "atomic_add_return i counter = (let result = counter + i in (result, result))"

definition atomic_sub :: "u32 \<Rightarrow> u32 \<Rightarrow> u32" where
  "atomic_sub i counter = counter - i"

definition atomic_sub_return :: "u32 \<Rightarrow> u32 \<Rightarrow> u32 \<times> u32" where
  "atomic_sub_return i counter = (let result = counter - i in (result, result))"

definition atomic_cmpxchg :: "u32 \<Rightarrow> u32 \<Rightarrow> u32 \<Rightarrow> u32 \<times> u32" where
  "atomic_cmpxchg counter old new = (let oldval = counter in
     (oldval, if oldval = old then new else counter))"

text \<open>
  \<open>__atomic_add_unless\<close> retries its compare-and-exchange with the value it found. The list
  holds the value of the counter at each attempt, after what other processors stored in
  between; an exhausted list (\<open>None\<close>) is a loop that has not ended yet.
\<close>

fun add_unless_loop :: "u32 list \<Rightarrow> u32 \<Rightarrow> u32 \<Rightarrow> u32 \<Rightarrow> (u32 \<times> u32) option" where
  "add_unless_loop [] a u c = None"
| "add_unless_loop (v # vs) a u c =
     (if c = u then Some (c, v)
      else let (old, v') = atomic_cmpxchg v c (c + a)
           in if old = c then Some (c, v') else add_unless_loop vs a u old)"

definition atomic_add_unless :: "u32 \<Rightarrow> u32 list \<Rightarrow> u32 \<Rightarrow> u32 \<Rightarrow> (u32 \<times> u32) option" where
  "atomic_add_unless counter attempts a u = add_unless_loop attempts a u counter"

definition atomic64_dec_if_positive :: "u64 \<Rightarrow> u64 \<times> u64" where
  "atomic64_dec_if_positive counter =
     (let result = counter - 1 in (result, if sint result < 0 then counter else result))"

subsection \<open>The synchronisation barrier\<close>

text \<open>
  \<open>count\<close> is a signed \<open>int\<close>: an arrival that would overflow it is undefined, so the step
  requires the incremented value to fit. A processor is outside the barrier (\<open>None\<close>) or
  waits for the value \<open>exp_v\<close> it computed on arrival; \<open>arrived\<close> counts its arrivals.
\<close>

record barrier_sys =
  bcount :: int
  bwait :: "nat \<Rightarrow> int option"
  arrived :: "nat \<Rightarrow> nat"

definition cpu_sync_init :: barrier_sys where
  "cpu_sync_init = \<lparr>bcount = 0, bwait = (\<lambda>_. None), arrived = (\<lambda>_. 0)\<rparr>"

definition barrier_exp :: "nat \<Rightarrow> int \<Rightarrow> int" where
  "barrier_exp n v = ((v - 1) div int n + 1) * int n"

inductive barrier_step :: "nat \<Rightarrow> barrier_sys \<Rightarrow> barrier_sys \<Rightarrow> bool" for n where
  arrive: "i < n \<Longrightarrow> bwait s i = None \<Longrightarrow> bcount s + 1 < 2 ^ 31 \<Longrightarrow>
     barrier_step n s (s\<lparr>bcount := bcount s + 1,
       bwait := (bwait s)(i \<mapsto> barrier_exp n (bcount s + 1)),
       arrived := (arrived s)(i := Suc (arrived s i))\<rparr>)"
| pass: "bwait s i = Some e \<Longrightarrow> \<not> bcount s < e \<Longrightarrow>
     barrier_step n s (s\<lparr>bwait := (bwait s)(i := None)\<rparr>)"

inductive barrier_reach :: "nat \<Rightarrow> barrier_sys \<Rightarrow> bool" for n where
  start: "barrier_reach n cpu_sync_init"
| step: "barrier_reach n s \<Longrightarrow> barrier_step n s t \<Longrightarrow> barrier_reach n t"

subsection \<open>One processor\<close>

lemma spin_lock_free:
  "ticket l = next_tk l \<Longrightarrow> spin_lock l = Inr (l\<lparr>ticket := ticket l + 1\<rparr>)"
  by (simp add: spin_lock_def)

lemma spin_lock_held: "ticket l \<noteq> next_tk l \<Longrightarrow> spin_lock l = Inl Spin"
  by (simp add: spin_lock_def)

lemma spin_lock_unlock:
  "spin_lock l = Inr l' \<Longrightarrow> ticket (spin_unlock l') = next_tk (spin_unlock l')"
  by (auto simp: spin_lock_def spin_unlock_def Let_def split: if_splits)

text \<open>A processor that takes the lock a second time without releasing it never returns.\<close>

lemma spin_lock_twice: "bindr (spin_lock l) spin_lock = Inl Spin"
  by (auto simp: spin_lock_def Let_def bindr_def split: if_splits)

subsection \<open>Mutual exclusion\<close>

text \<open>
  The processors that hold a ticket form a queue: the \<open>k\<close>-th one holds \<open>next + k\<close>, and only
  the head may hold the lock. With fewer than \<open>2 ^ 32\<close> processors the tickets in use are
  distinct although the counters wrap.
\<close>

definition lock_queue :: "nat \<Rightarrow> lock_sys \<Rightarrow> nat list \<Rightarrow> bool" where
  "lock_queue N s q \<longleftrightarrow> distinct q \<and> set q = {i. lpc s i \<noteq> Idle} \<and> set q \<subseteq> {..<N} \<and>
     ticket (lk s) = next_tk (lk s) + word_of_nat (length q) \<and>
     (\<forall>k < length q. lpc s (q ! k) = Waiting (next_tk (lk s) + word_of_nat k) \<or>
        k = 0 \<and> lpc s (q ! k) = Holding (next_tk (lk s)))"

lemma lock_queue_length: "lock_queue N s q \<Longrightarrow> length q \<le> N"
  unfolding lock_queue_def by (metis card_lessThan card_mono distinct_card finite_lessThan)

lemma lock_queue_start: "lock_queue N lock_start []"
  by (simp add: lock_queue_def lock_start_def SPINLOCK_INITVAL_def)

lemma lock_queue_idx:
  assumes "lock_queue N s q" "lpc s i \<noteq> Idle"
  obtains k where "k < length q" "q ! k = i"
  using assms unfolding lock_queue_def by (metis (mono_tags, lifting) in_set_conv_nth mem_Collect_eq)

lemma word_of_nat_32_eq_0: "k < 2 ^ 32 \<Longrightarrow> (word_of_nat k :: u32) = 0 \<Longrightarrow> k = 0"
  by (auto simp: word_of_nat_eq_0_iff dest: dvd_imp_le)

lemma lock_queue_take:
  assumes q: "lock_queue N s q" and i: "i < N" "lpc s i = Idle"
  shows "lock_queue N (s\<lparr>lk := (lk s)\<lparr>ticket := ticket (lk s) + 1\<rparr>,
                      lpc := (lpc s)(i := Waiting (ticket (lk s)))\<rparr>) (q @ [i])"
    (is "lock_queue N ?t _")
proof -
  have notin: "i \<notin> set q" using q i(2) by (simp add: lock_queue_def)
  have "lpc ?t ((q @ [i]) ! k) = Waiting (next_tk (lk ?t) + word_of_nat k) \<or>
      k = 0 \<and> lpc ?t ((q @ [i]) ! k) = Holding (next_tk (lk ?t))" if k: "k < length (q @ [i])" for k
  proof (cases "k < length q")
    case True
    then have "q ! k \<noteq> i" using notin nth_mem by metis
    with True q show ?thesis by (simp add: lock_queue_def nth_append)
  next
    case False
    with k have "k = length q" by simp
    with q show ?thesis by (simp add: lock_queue_def nth_append)
  qed
  moreover have "ticket (lk ?t) = next_tk (lk ?t) + word_of_nat (length (q @ [i]))"
    using q by (simp add: lock_queue_def)
  moreover have "set (q @ [i]) = {j. lpc ?t j \<noteq> Idle}"
    using q by (auto simp: lock_queue_def)
  moreover have "set (q @ [i]) \<subseteq> {..<N}" "distinct (q @ [i])"
    using q i(1) notin by (auto simp: lock_queue_def)
  ultimately show ?thesis unfolding lock_queue_def by blast
qed

lemma lock_queue_enter:
  assumes q: "lock_queue N s q" and i: "lpc s i = Waiting (next_tk (lk s))" and N: "N < 2 ^ 32"
  shows "q \<noteq> []" and "hd q = i"
proof -
  have "lpc s i \<noteq> Idle" by (simp add: i)
  then obtain k where k: "k < length q" "q ! k = i" using lock_queue_idx[OF q] by blast
  with q have "lpc s i = Waiting (next_tk (lk s) + word_of_nat k) \<or> lpc s i = Holding (next_tk (lk s))"
    unfolding lock_queue_def by blast
  with i have "next_tk (lk s) + word_of_nat k = next_tk (lk s)" by auto
  moreover have "k < 2 ^ 32" using k(1) lock_queue_length[OF q] N by linarith
  ultimately have "k = 0" using word_of_nat_32_eq_0 by auto
  with k show "q \<noteq> []" "hd q = i" by (auto simp: hd_conv_nth)
qed

lemma lock_queue_holder:
  assumes "lock_queue N s q" "lpc s i = Holding t"
  shows "q \<noteq> [] \<and> hd q = i \<and> t = next_tk (lk s)"
proof -
  obtain k where k: "k < length q" "q ! k = i" using lock_queue_idx assms by (metis lock_pc.distinct(3))
  with assms have "k = 0 \<and> t = next_tk (lk s)" unfolding lock_queue_def by force
  with k show ?thesis by (auto simp: hd_conv_nth)
qed

lemma lock_queue_step:
  assumes "lock_step N s t" "lock_queue N s q" "N < 2 ^ 32"
  shows "\<exists>q'. lock_queue N t q'"
  using assms
proof (induction rule: lock_step.induct)
  case (take_ticket i s)
  then show ?case using lock_queue_take by blast
next
  case (enter s i t)
  note h = lock_queue_enter[OF enter(3) _ enter(4), of i]
  then obtain q' where q': "q = i # q'" using enter by (cases q) auto
  with enter show ?case
    by (intro exI[of _ q]) (auto simp: lock_queue_def nth_Cons split: nat.splits)
next
  case (leave s i t)
  then obtain q' where q': "q = i # q'" using lock_queue_holder by (cases q) fastforce+
  with leave have "lpc s (q' ! k) = Waiting (next_tk (lk s) + word_of_nat (Suc k))" if "k < length q'" for k
    using that unfolding lock_queue_def by (metis Suc_less_eq length_Cons nat.distinct(1) nth_Cons_Suc)
  with q' leave show ?case
    by (intro exI[of _ q']) (auto simp: lock_queue_def spin_unlock_def algebra_simps)
qed

lemma lock_reach_queue: "lock_reach N s \<Longrightarrow> N < 2 ^ 32 \<Longrightarrow> \<exists>q. lock_queue N s q"
  by (induction rule: lock_reach.induct) (blast intro: lock_queue_start lock_queue_step)+

subsection \<open>The barrier\<close>

definition barrier_inv :: "nat \<Rightarrow> barrier_sys \<Rightarrow> bool" where
  "barrier_inv n s \<longleftrightarrow> bcount s = (\<Sum>i<n. int (arrived s i)) \<and>
     (\<exists>k. k * int n \<le> bcount s \<and> bcount s < (k + 1) * int n \<and>
        (\<forall>i<n. k \<le> int (arrived s i) \<and> int (arrived s i) \<le> k + 1)) \<and>
     (\<forall>i<n. case bwait s i of None \<Rightarrow> int (arrived s i) * int n \<le> bcount s
                            | Some e \<Rightarrow> e = int (arrived s i) * int n)"

lemma barrier_inv_init: "0 < n \<Longrightarrow> barrier_inv n cpu_sync_init"
  by (auto simp: barrier_inv_def cpu_sync_init_def intro!: exI[of _ 0])

lemma sum_all_max:
  assumes "finite A" "\<And>i. i \<in> A \<Longrightarrow> f i \<le> (k :: int)" "(\<Sum>i\<in>A. f i) = k * int (card A)" "j \<in> A"
  shows "f j = k"
proof (rule ccontr)
  assume "f j \<noteq> k"
  with assms have "(\<Sum>i\<in>A. f i) < (\<Sum>i\<in>A. k)"
    by (intro sum_strict_mono_ex1) (auto intro!: bexI[of _ j] simp: order_less_le)
  with assms(3) show False by (simp add: mult.commute)
qed

lemma barrier_exp_eq:
  assumes "k * int n \<le> c" "c < (k + 1) * int n"
  shows "barrier_exp n (c + 1) = (k + 1) * int n"
proof -
  have "c div int n = k"
    using assms by (intro int_div_pos_eq[of _ _ _ "c - k * int n"]) (auto simp: algebra_simps)
  then show ?thesis by (simp add: barrier_exp_def)
qed

lemma barrier_inv_arrive:
  assumes inv: "barrier_inv n s" and i: "i < n" "bwait s i = None"
  shows "barrier_inv n (s\<lparr>bcount := bcount s + 1,
       bwait := (bwait s)(i \<mapsto> barrier_exp n (bcount s + 1)),
       arrived := (arrived s)(i := Suc (arrived s i))\<rparr>)" (is "barrier_inv n ?t")
proof -
  obtain k where k: "k * int n \<le> bcount s" "bcount s < (k + 1) * int n"
    "\<And>j. j < n \<Longrightarrow> k \<le> int (arrived s j) \<and> int (arrived s j) \<le> k + 1"
    using inv unfolding barrier_inv_def by blast
  have "int (arrived s i) * int n \<le> bcount s" using inv i by (force simp: barrier_inv_def)
  with k(2) have "int (arrived s i) * int n < (k + 1) * int n" by linarith
  with i k(3)[OF i(1)] have ai: "int (arrived s i) = k" by (simp add: mult_less_cancel_right)
  have sum: "bcount ?t = (\<Sum>j<n. int (arrived ?t j))"
  proof -
    have "(\<Sum>j<n. int (arrived ?t j)) = int (Suc (arrived s i)) + (\<Sum>j\<in>{..<n} - {i}. int (arrived s j))"
      using i by (subst sum.remove[of _ i]) (auto intro!: sum.cong)
    also have "\<dots> = (\<Sum>j<n. int (arrived s j)) + 1"
      using i by (subst (2) sum.remove[of _ i]) auto
    finally show ?thesis using inv by (simp add: barrier_inv_def)
  qed
  have up: "k \<le> int (arrived ?t j) \<and> int (arrived ?t j) \<le> k + 1" if "j < n" for j
    using that k(3)[OF that] ai by auto
  have "\<exists>k'. k' * int n \<le> bcount ?t \<and> bcount ?t < (k' + 1) * int n \<and>
      (\<forall>j<n. k' \<le> int (arrived ?t j) \<and> int (arrived ?t j) \<le> k' + 1)"
  proof (cases "bcount s + 1 < (k + 1) * int n")
    case True
    with k up show ?thesis by (intro exI[of _ k]) auto
  next
    case False
    with k(2) have full: "bcount ?t = (k + 1) * int n" by simp
    have "int (arrived ?t j) = k + 1" if "j < n" for j
      by (rule sum_all_max[of "{..<n}"]) (use that up full sum in auto)
    with full i(1) show ?thesis by (intro exI[of _ "k + 1"]) (auto simp: algebra_simps)
  qed
  moreover have "\<forall>j<n. case bwait ?t j of None \<Rightarrow> int (arrived ?t j) * int n \<le> bcount ?t
      | Some e \<Rightarrow> e = int (arrived ?t j) * int n"
    using inv ai barrier_exp_eq[OF k(1,2)]
    by (fastforce simp: barrier_inv_def algebra_simps split: option.splits)
  ultimately show ?thesis using sum unfolding barrier_inv_def by blast
qed

lemma barrier_inv_step: "barrier_step n s t \<Longrightarrow> barrier_inv n s \<Longrightarrow> barrier_inv n t"
proof (induction rule: barrier_step.induct)
  case (arrive i s)
  then show ?case by (intro barrier_inv_arrive)
next
  case (pass s i e)
  then show ?case by (force simp: barrier_inv_def split: option.splits)
qed

lemma barrier_reach_inv: "barrier_reach n s \<Longrightarrow> 0 < n \<Longrightarrow> barrier_inv n s"
  by (induction rule: barrier_reach.induct) (blast intro: barrier_inv_init barrier_inv_step)+

subsection \<open>Properties\<close>

text \<open>C6: ticket lock, mutual exclusion. With fewer than \<open>2 ^ 32\<close> processors, in every reachable
  state at most one of them is between the end of \<open>spin_lock\<close> and \<open>spin_unlock\<close>, although the
  32-bit counters wrap around.\<close>

theorem spin_lock_mutual_exclusion:
  assumes "lock_reach N s" "N < 2 ^ 32" "lpc s i = Holding t" "lpc s j = Holding u"
  shows "i = j"
proof -
  obtain q where "lock_queue N s q" using lock_reach_queue[OF assms(1,2)] by blast
  from lock_queue_holder[OF this assms(3)] lock_queue_holder[OF this assms(4)] show ?thesis by simp
qed

lemma lock_example: "lock_reach 2 (lock_start\<lparr>lk := \<lparr>ticket = 1, next_tk = 0\<rparr>,
    lpc := (\<lambda>_. Idle)(0 := Holding 0)\<rparr>)"
proof -
  let ?s1 = "lock_start\<lparr>lk := \<lparr>ticket = 1, next_tk = 0\<rparr>, lpc := (\<lambda>_. Idle)(0 := Waiting 0)\<rparr>"
  have "lock_step 2 lock_start ?s1"
    using lock_step.take_ticket[of 0 2 lock_start] by (simp add: lock_start_def SPINLOCK_INITVAL_def)
  then have "lock_reach 2 ?s1" by (rule lock_reach.step[OF lock_reach.start])
  moreover have "lock_step 2 ?s1 (?s1\<lparr>lpc := (lpc ?s1)(0 := Holding 0)\<rparr>)"
    by (rule lock_step.enter) simp_all
  ultimately have "lock_reach 2 (?s1\<lparr>lpc := (lpc ?s1)(0 := Holding 0)\<rparr>)" by (rule lock_reach.step)
  then show ?thesis by (simp add: lock_start_def)
qed

theorem spin_lock_mutual_exclusion_witness:
  "lpc (lock_start\<lparr>lk := \<lparr>ticket = 1, next_tk = 0\<rparr>, lpc := (\<lambda>_. Idle)(0 := Holding 0)\<rparr>) 1 \<noteq> Holding 0"
  using spin_lock_mutual_exclusion[OF lock_example, of 0 0 1 0] by simp

text \<open>C7: barrier. When a processor has left its \<open>k\<close>-th \<open>cpu_sync_barrier\<close>, every one of the \<open>n\<close>
  processors has arrived at its own \<open>k\<close>-th call.\<close>

theorem cpu_sync_barrier_synchronises:
  assumes "barrier_reach n s" "i < n" "bwait s i = None" "j < n"
  shows "arrived s i \<le> arrived s j"
proof -
  have inv: "barrier_inv n s" using barrier_reach_inv[OF assms(1)] assms(2) by simp
  then obtain k where k: "bcount s < (k + 1) * int n" "k \<le> int (arrived s j)"
    using assms(4) unfolding barrier_inv_def by blast
  have "int (arrived s i) * int n \<le> bcount s" using inv assms(2,3) by (force simp: barrier_inv_def)
  with k(1) have "int (arrived s i) * int n < (k + 1) * int n" by linarith
  then have "int (arrived s i) \<le> k" using assms(2) by (simp add: mult_less_cancel_right)
  with k(2) show ?thesis by simp
qed

definition barrier_example :: barrier_sys where
  "barrier_example = \<lparr>bcount = 2, bwait = (\<lambda>_. None)(1 \<mapsto> 2), arrived = (\<lambda>_. 0)(0 := 1, 1 := 1)\<rparr>"

lemma barrier_example_reach: "barrier_reach 2 barrier_example"
proof -
  let ?s1 = "\<lparr>bcount = 1, bwait = (\<lambda>_. None)(0 \<mapsto> 2), arrived = (\<lambda>_. 0)(0 := 1)\<rparr>"
  let ?s2 = "\<lparr>bcount = 2, bwait = (\<lambda>_. None)(0 \<mapsto> 2, 1 \<mapsto> 2), arrived = (\<lambda>_. 0)(0 := 1, 1 := 1)\<rparr>"
  have "barrier_step 2 cpu_sync_init ?s1"
    using barrier_step.arrive[of 0 2 cpu_sync_init] by (simp add: cpu_sync_init_def barrier_exp_def)
  moreover have "barrier_step 2 ?s1 ?s2"
    using barrier_step.arrive[of 1 2 ?s1] by (simp add: barrier_exp_def)
  moreover have "barrier_step 2 ?s2 barrier_example"
    using barrier_step.pass[of ?s2 0 2 2] by (simp add: barrier_example_def fun_upd_twist)
  ultimately show ?thesis by (meson barrier_reach.intros)
qed

theorem cpu_sync_barrier_synchronises_witness:
  "arrived barrier_example 0 = 1 \<and> arrived barrier_example 0 \<le> arrived barrier_example 1"
  using cpu_sync_barrier_synchronises[OF barrier_example_reach, of 0 1] by (simp add: barrier_example_def)

end
