(* ===== verification/Gic.thy ===== *)
theory Gic
  imports Bitmaps Locks
begin

text \<open>
  The interrupt controller driver in its GICv2 configuration (the one the Makefile selects):
  \<open>arch/aarch64/gic.c\<close>, \<open>gicv2.c\<close>, \<open>inc/gic.h\<close>, \<open>inc/gicv2.h\<close>, and the table of reserved
  interrupts of \<open>core/interrupts.c\<close>. A register frame is the memory the driver addresses
  through its struct pointer: a map from byte offsets to 32-bit words. A load reads the word
  and a store leaves its value there; what the device makes of a stored value afterwards (the
  set and clear registers, acknowledging an interrupt) is the device's and is not modelled.
\<close>

unbundle bit_operations_syntax

type_synonym frame = "nat \<Rightarrow> u32"

abbreviation GIC_FIRST_SPECIAL_INTID :: nat where "GIC_FIRST_SPECIAL_INTID \<equiv> 1020"
abbreviation GIC_MAX_INTERUPTS :: nat where "GIC_MAX_INTERUPTS \<equiv> 1024"
abbreviation GIC_MAX_VALID_INTERRUPTS :: nat where "GIC_MAX_VALID_INTERRUPTS \<equiv> 1020"
abbreviation GIC_MAX_SGIS :: nat where "GIC_MAX_SGIS \<equiv> 16"
abbreviation GIC_MAX_PPIS :: nat where "GIC_MAX_PPIS \<equiv> 16"
abbreviation GIC_CPU_PRIV :: nat where "GIC_CPU_PRIV \<equiv> 32"
abbreviation GIC_MAX_TARGETS :: nat where "GIC_MAX_TARGETS \<equiv> 8"
abbreviation GIC_LOWEST_PRIO :: "'a::len word" where "GIC_LOWEST_PRIO \<equiv> 0xff"

definition GIC_INT_REG :: "nat \<Rightarrow> nat" where "GIC_INT_REG n = n div 32"
definition GIC_INT_MASK :: "nat \<Rightarrow> u32" where "GIC_INT_MASK n = lsl 1 (n mod 32)"
definition GIC_PRIO_REG :: "nat \<Rightarrow> nat" where "GIC_PRIO_REG n = n * 8 div 32"
definition GIC_PRIO_OFF :: "nat \<Rightarrow> nat" where "GIC_PRIO_OFF n = n * 8 mod 32"
definition GIC_TARGET_REG :: "nat \<Rightarrow> nat" where "GIC_TARGET_REG n = n * 8 div 32"
definition GIC_TARGET_OFF :: "nat \<Rightarrow> nat" where "GIC_TARGET_OFF n = n * 8 mod 32"
definition GICD_SGI_REG :: "nat \<Rightarrow> nat" where "GICD_SGI_REG n = n div 4"
definition GICD_SGI_OFF :: "nat \<Rightarrow> nat" where "GICD_SGI_OFF n = n mod 4 * 8"
abbreviation GIC_NUM_SGI_REGS :: nat where "GIC_NUM_SGI_REGS \<equiv> 4"

subsection \<open>The register frames\<close>

definition GICD_CTLR :: nat where "GICD_CTLR = 0x0"
definition GICD_TYPER :: nat where "GICD_TYPER = 0x4"
definition GICD_IIDR :: nat where "GICD_IIDR = 0x8"
definition GICD_IGROUPR :: "nat \<Rightarrow> nat" where "GICD_IGROUPR i = 0x80 + 4 * i"
definition GICD_ISENABLER :: "nat \<Rightarrow> nat" where "GICD_ISENABLER i = 0x100 + 4 * i"
definition GICD_ICENABLER :: "nat \<Rightarrow> nat" where "GICD_ICENABLER i = 0x180 + 4 * i"
definition GICD_ISPENDR :: "nat \<Rightarrow> nat" where "GICD_ISPENDR i = 0x200 + 4 * i"
definition GICD_ICPENDR :: "nat \<Rightarrow> nat" where "GICD_ICPENDR i = 0x280 + 4 * i"
definition GICD_ISACTIVER :: "nat \<Rightarrow> nat" where "GICD_ISACTIVER i = 0x300 + 4 * i"
definition GICD_ICACTIVER :: "nat \<Rightarrow> nat" where "GICD_ICACTIVER i = 0x380 + 4 * i"
definition GICD_IPRIORITYR :: "nat \<Rightarrow> nat" where "GICD_IPRIORITYR i = 0x400 + 4 * i"
definition GICD_ITARGETSR :: "nat \<Rightarrow> nat" where "GICD_ITARGETSR i = 0x800 + 4 * i"
definition GICD_ICFGR :: "nat \<Rightarrow> nat" where "GICD_ICFGR i = 0xC00 + 4 * i"
definition GICD_SGIR :: nat where "GICD_SGIR = 0xF00"
definition GICD_CPENDSGIR :: "nat \<Rightarrow> nat" where "GICD_CPENDSGIR i = 0xF10 + 4 * i"
definition GICD_SPENDSGIR :: "nat \<Rightarrow> nat" where "GICD_SPENDSGIR i = 0xF20 + 4 * i"
definition GICD_IROUTER :: "nat \<Rightarrow> nat" where "GICD_IROUTER i = 0x6000 + 8 * i"
definition GICD_ID :: "nat \<Rightarrow> nat" where "GICD_ID i = 0xFFD0 + 4 * i"

definition GICC_CTLR :: nat where "GICC_CTLR = 0x0"
definition GICC_PMR :: nat where "GICC_PMR = 0x4"
definition GICC_BPR :: nat where "GICC_BPR = 0x8"
definition GICC_IAR :: nat where "GICC_IAR = 0xC"
definition GICC_EOIR :: nat where "GICC_EOIR = 0x10"
definition GICC_RPR :: nat where "GICC_RPR = 0x14"
definition GICC_HPPIR :: nat where "GICC_HPPIR = 0x18"
definition GICC_DIR :: nat where "GICC_DIR = 0x1000"

definition GICH_HCR :: nat where "GICH_HCR = 0x0"
definition GICH_VTR :: nat where "GICH_VTR = 0x4"
definition GICH_MISR :: nat where "GICH_MISR = 0x10"
definition GICH_EISR :: "nat \<Rightarrow> nat" where "GICH_EISR i = 0x20 + 4 * i"
definition GICH_ELSR :: "nat \<Rightarrow> nat" where "GICH_ELSR i = 0x30 + 4 * i"
definition GICH_LR :: "nat \<Rightarrow> nat" where "GICH_LR i = 0x100 + 4 * i"

lemmas gic_regs = GICD_CTLR_def GICD_TYPER_def GICD_IIDR_def GICD_IGROUPR_def GICD_ISENABLER_def
  GICD_ICENABLER_def GICD_ISPENDR_def GICD_ICPENDR_def GICD_ISACTIVER_def GICD_ICACTIVER_def
  GICD_IPRIORITYR_def GICD_ITARGETSR_def GICD_ICFGR_def GICD_SGIR_def GICD_CPENDSGIR_def
  GICD_SPENDSGIR_def GICD_ID_def GICC_CTLR_def GICC_PMR_def GICC_BPR_def GICC_IAR_def
  GICC_EOIR_def GICC_RPR_def GICC_HPPIR_def GICC_DIR_def GICH_HCR_def GICH_VTR_def GICH_MISR_def
  GICH_EISR_def GICH_ELSR_def GICH_LR_def

record gic_hw =
  gicd :: frame
  gicc :: frame
  gich :: frame
  gicd_lk :: spinlock
  gic_cpu_map :: "nat \<Rightarrow> nat"
  NUM_LRS :: nat

abbreviation wr_gicd :: "nat \<Rightarrow> u32 \<Rightarrow> gic_hw \<Rightarrow> gic_hw" where
  "wr_gicd off v h \<equiv> gicd_update (\<lambda>f. f(off := v)) h"
abbreviation wr_gicc :: "nat \<Rightarrow> u32 \<Rightarrow> gic_hw \<Rightarrow> gic_hw" where
  "wr_gicc off v h \<equiv> gicc_update (\<lambda>f. f(off := v)) h"
abbreviation wr_gich :: "nat \<Rightarrow> u32 \<Rightarrow> gic_hw \<Rightarrow> gic_hw" where
  "wr_gich off v h \<equiv> gich_update (\<lambda>f. f(off := v)) h"

definition with_gicd_lock :: "(gic_hw \<Rightarrow> gic_hw) \<Rightarrow> gic_hw \<Rightarrow> gic_hw res" where
  "with_gicd_lock f h =
     bindr (spin_lock (gicd_lk h)) (\<lambda>l.
       let h = f (h\<lparr>gicd_lk := l\<rparr>) in Inr (h\<lparr>gicd_lk := spin_unlock (gicd_lk h)\<rparr>))"

definition gic_num_irqs :: "gic_hw \<Rightarrow> nat" where
  "gic_num_irqs h = (let itlinenumber = bit_extract (gicd h GICD_TYPER) 0 5
                     in 32 * unat itlinenumber + 1)"

definition gic_is_sgi :: "nat \<Rightarrow> bool" where "gic_is_sgi int_id \<longleftrightarrow> int_id < GIC_MAX_SGIS"
definition gic_is_priv :: "nat \<Rightarrow> bool" where "gic_is_priv int_id \<longleftrightarrow> int_id < GIC_CPU_PRIV"

subsection \<open>The distributor\<close>

definition gicd_get_prio :: "gic_hw \<Rightarrow> nat \<Rightarrow> u8" where
  "gicd_get_prio h int_id =
     (let reg_ind = GIC_PRIO_REG int_id;
          off = GIC_PRIO_OFF int_id
      in ucast (lsr (gicd h (GICD_IPRIORITYR reg_ind)) off AND BIT_MASK off 8))"

definition gicd_set_icfgr :: "nat \<Rightarrow> u8 \<Rightarrow> gic_hw \<Rightarrow> gic_hw res" where
  "gicd_set_icfgr int_id cfg =
     (let reg_ind = int_id * 2 div 32;
          off = int_id * 2 mod 32;
          msk = lsl (lsl 1 2 - 1) off
      in with_gicd_lock (\<lambda>h. wr_gicd (GICD_ICFGR reg_ind)
           ((gicd h (GICD_ICFGR reg_ind) AND NOT msk) OR (lsl (ucast cfg) off AND msk)) h))"

definition gicd_set_prio :: "nat \<Rightarrow> u8 \<Rightarrow> gic_hw \<Rightarrow> gic_hw res" where
  "gicd_set_prio int_id prio =
     (let reg_ind = GIC_PRIO_REG int_id;
          off = GIC_PRIO_OFF int_id;
          msk = BIT_MASK off 8
      in with_gicd_lock (\<lambda>h. wr_gicd (GICD_IPRIORITYR reg_ind)
           ((gicd h (GICD_IPRIORITYR reg_ind) AND NOT msk) OR (lsl (ucast prio) off AND msk)) h))"

definition gicd_set_pend :: "nat \<Rightarrow> bool \<Rightarrow> gic_hw \<Rightarrow> gic_hw" where
  "gicd_set_pend int_id pend h =
     (let reg_ind = GIC_INT_REG int_id
      in if pend then wr_gicd (GICD_ISPENDR reg_ind) (GIC_INT_MASK int_id) h
         else wr_gicd (GICD_ICPENDR reg_ind) (GIC_INT_MASK int_id) h)"

definition gicd_get_pend :: "gic_hw \<Rightarrow> nat \<Rightarrow> bool" where
  "gicd_get_pend h int_id \<longleftrightarrow> gicd h (GICD_ISPENDR (GIC_INT_REG int_id)) AND GIC_INT_MASK int_id \<noteq> 0"

definition gicd_set_act :: "nat \<Rightarrow> bool \<Rightarrow> gic_hw \<Rightarrow> gic_hw" where
  "gicd_set_act int_id act h =
     (let reg_ind = GIC_INT_REG int_id
      in if act then wr_gicd (GICD_ISACTIVER reg_ind) (GIC_INT_MASK int_id) h
         else wr_gicd (GICD_ICACTIVER reg_ind) (GIC_INT_MASK int_id) h)"

definition gicd_get_act :: "gic_hw \<Rightarrow> nat \<Rightarrow> bool" where
  "gicd_get_act h int_id \<longleftrightarrow> gicd h (GICD_ISACTIVER (GIC_INT_REG int_id)) AND GIC_INT_MASK int_id \<noteq> 0"

definition gicd_set_enable :: "nat \<Rightarrow> bool \<Rightarrow> gic_hw \<Rightarrow> gic_hw" where
  "gicd_set_enable int_id en h =
     (let reg_ind = GIC_INT_REG int_id;
          b = GIC_INT_MASK int_id
      in if en then wr_gicd (GICD_ISENABLER reg_ind) b h
         else wr_gicd (GICD_ICENABLER reg_ind) b h)"

subsection \<open>Processor interface, list registers\<close>

definition gich_num_lrs :: "gic_hw \<Rightarrow> nat" where
  "gich_num_lrs h = unat (lsr (gich h GICH_VTR AND BIT_MASK 0 6) 0) + 1"

definition gich_read_lr :: "gic_hw \<Rightarrow> nat \<Rightarrow> u64 res" where
  "gich_read_lr h i = (if i < NUM_LRS h then Inr (ucast (gich h (GICH_LR i))) else Inl Error)"

definition gich_write_lr :: "nat \<Rightarrow> u64 \<Rightarrow> gic_hw \<Rightarrow> gic_hw res" where
  "gich_write_lr i val h =
     (if i < NUM_LRS h then Inr (wr_gich (GICH_LR i) (ucast val) h) else Inl Error)"

definition gich_get_hcr :: "gic_hw \<Rightarrow> u32" where "gich_get_hcr h = gich h GICH_HCR"
definition gich_set_hcr :: "u32 \<Rightarrow> gic_hw \<Rightarrow> gic_hw" where "gich_set_hcr hcr h = wr_gich GICH_HCR hcr h"
definition gich_get_misr :: "gic_hw \<Rightarrow> u32" where "gich_get_misr h = gich h GICH_MISR"

definition gich_get_eisr :: "gic_hw \<Rightarrow> u64" where
  "gich_get_eisr h =
     (let eisr = ucast (gich h (GICH_EISR 0))
      in if NUM_LRS h > 32 then eisr OR lsl (ucast (gich h (GICH_EISR 1))) 32 else eisr)"

definition gich_get_elrsr :: "gic_hw \<Rightarrow> u64" where
  "gich_get_elrsr h =
     (let elsr = ucast (gich h (GICH_ELSR 0))
      in if NUM_LRS h > 32 then elsr OR lsl (ucast (gich h (GICH_ELSR 1))) 32 else elsr)"

definition gicc_iar :: "gic_hw \<Rightarrow> u32" where "gicc_iar h = gicc h GICC_IAR"
definition gicc_eoir :: "u32 \<Rightarrow> gic_hw \<Rightarrow> gic_hw" where "gicc_eoir eoir h = wr_gicc GICC_EOIR eoir h"
definition gicc_dir :: "u32 \<Rightarrow> gic_hw \<Rightarrow> gic_hw" where "gicc_dir dir h = wr_gicc GICC_DIR dir h"

text \<open>\<open>cid\<close> is the calling processor's \<open>cpu()->id\<close>.\<close>

definition gicc_init :: "nat \<Rightarrow> gic_hw \<Rightarrow> gic_hw res" where
  "gicc_init cid h =
     (let h = fold (\<lambda>i. wr_gich (GICH_LR i) 0) [0..<gich_num_lrs h] h;
          h = wr_gicc GICC_PMR GIC_LOWEST_PRIO h;
          h = wr_gicc GICC_CTLR (gicc h GICC_CTLR OR (1 OR lsl 1 9)) h;
          h = wr_gich GICH_HCR (gich h GICH_HCR OR lsl 1 2) h;
          sgi_targets = gicd h (GICD_ITARGETSR 0) AND BIT_MASK 0 8;
          gic_cpu_id = (bit_ffs sgi_targets + 1) mod 2 ^ 64
      in if gic_cpu_id \<ge> 2 ^ 63 then Inl Error
         else Inr (h\<lparr>gic_cpu_map := (gic_cpu_map h)(cid := gic_cpu_id)\<rparr>))"

record gicc_state =
  st_CTLR :: u32
  st_PMR :: u32
  st_BPR :: u32
  st_IAR :: u32
  st_EOIR :: u32
  st_RPR :: u32
  st_HPPIR :: u32
  st_priv_ISENABLER :: u32
  st_priv_IPRIORITYR :: "nat \<Rightarrow> u32"
  st_HCR :: u32
  st_LR :: "nat \<Rightarrow> u64"

definition gicc_save_state :: "gic_hw \<Rightarrow> gicc_state \<Rightarrow> gicc_state" where
  "gicc_save_state h st =
     (let st = st\<lparr>st_CTLR := gicc h GICC_CTLR, st_PMR := gicc h GICC_PMR, st_BPR := gicc h GICC_BPR,
                  st_IAR := gicc h GICC_IAR, st_EOIR := gicc h GICC_EOIR, st_RPR := gicc h GICC_RPR,
                  st_HPPIR := gicc h GICC_HPPIR, st_priv_ISENABLER := gicd h (GICD_ISENABLER 0)\<rparr>;
          st = fold (\<lambda>i st. st\<lparr>st_priv_IPRIORITYR := (st_priv_IPRIORITYR st)(i := gicd h (GICD_IPRIORITYR i))\<rparr>)
                 [0..<GIC_PRIO_REG GIC_CPU_PRIV] st;
          st = st\<lparr>st_HCR := gich h GICH_HCR\<rparr>
      in fold (\<lambda>i st. st\<lparr>st_LR := (st_LR st)(i := ucast (gich h (GICH_LR i)))\<rparr>)
           [0..<gich_num_lrs h] st)"

definition gicc_restore_state :: "gicc_state \<Rightarrow> gic_hw \<Rightarrow> gic_hw" where
  "gicc_restore_state st h =
     (let h = wr_gicc GICC_CTLR (st_CTLR st) h;
          h = wr_gicc GICC_PMR (st_PMR st) h;
          h = wr_gicc GICC_BPR (st_BPR st) h;
          h = wr_gicc GICC_IAR (st_IAR st) h;
          h = wr_gicc GICC_EOIR (st_EOIR st) h;
          h = wr_gicc GICC_RPR (st_RPR st) h;
          h = wr_gicc GICC_HPPIR (st_HPPIR st) h;
          h = wr_gicd (GICD_ISENABLER 0) (st_priv_ISENABLER st) h;
          h = fold (\<lambda>i. wr_gicd (GICD_IPRIORITYR i) (st_priv_IPRIORITYR st i))
                [0..<GIC_PRIO_REG GIC_CPU_PRIV] h;
          h = wr_gich GICH_HCR (st_HCR st) h
      in fold (\<lambda>i. wr_gich (GICH_LR i) (ucast (st_LR st i))) [0..<gich_num_lrs h] h)"

definition gic_cpu_init :: "nat \<Rightarrow> gic_hw \<Rightarrow> gic_hw res" where
  "gic_cpu_init cid h =
     (let h = fold (\<lambda>i h. wr_gicd (GICD_ICACTIVER i) (- 1) (wr_gicd (GICD_ICPENDR i) (- 1)
                       (wr_gicd (GICD_ICENABLER i) (- 1) h))) [0..<GIC_INT_REG GIC_CPU_PRIV] h;
          h = fold (\<lambda>i. wr_gicd (GICD_CPENDSGIR i) (- 1)) [0..<GIC_NUM_SGI_REGS] h;
          h = fold (\<lambda>i. wr_gicd (GICD_IPRIORITYR i) (- 1)) [0..<GIC_PRIO_REG GIC_CPU_PRIV] h
      in gicc_init cid h)"

definition gic_send_sgi :: "nat \<Rightarrow> nat \<Rightarrow> gic_hw \<Rightarrow> gic_hw" where
  "gic_send_sgi cpu_target sgi_num h =
     (if sgi_num < GIC_MAX_SGIS \<and> cpu_target < GIC_MAX_TARGETS
      then wr_gicd GICD_SGIR (ucast (lsl (1 :: u64) (16 + gic_cpu_map h cpu_target) OR
             (word_of_nat sgi_num AND ucast (BIT_MASK 0 4 :: u32)))) h
      else h)"

definition gic_translate_cpu_to_trgt :: "(nat \<Rightarrow> nat) \<Rightarrow> u8 \<Rightarrow> u8" where
  "gic_translate_cpu_to_trgt cpu_map cpu_targets =
     fold (\<lambda>i gic_targets.
        if lsl (1 :: u32) i AND ucast cpu_targets \<noteq> 0
        then gic_targets OR ucast (lsl (1 :: u32) (cpu_map i)) else gic_targets)
      [0..<GIC_MAX_TARGETS] 0"

definition gicd_set_trgt :: "nat \<Rightarrow> u8 \<Rightarrow> gic_hw \<Rightarrow> gic_hw res" where
  "gicd_set_trgt int_id cpu_targets =
     (let reg_ind = GIC_TARGET_REG int_id;
          off = GIC_TARGET_OFF int_id;
          msk = BIT_MASK off 8
      in with_gicd_lock (\<lambda>h. wr_gicd (GICD_ITARGETSR reg_ind)
           ((gicd h (GICD_ITARGETSR reg_ind) AND NOT msk) OR
            (lsl (ucast (gic_translate_cpu_to_trgt (gic_cpu_map h) cpu_targets)) off AND msk)) h))"

definition gic_set_prio :: "nat \<Rightarrow> u8 \<Rightarrow> gic_hw \<Rightarrow> gic_hw res" where
  "gic_set_prio int_id prio = gicd_set_prio int_id prio"

definition gic_get_prio :: "gic_hw \<Rightarrow> nat \<Rightarrow> u8" where
  "gic_get_prio h int_id = gicd_get_prio h int_id"

definition gic_set_icfgr :: "nat \<Rightarrow> u8 \<Rightarrow> gic_hw \<Rightarrow> gic_hw res" where
  "gic_set_icfgr int_id cfg = gicd_set_icfgr int_id cfg"

definition gic_get_pend :: "gic_hw \<Rightarrow> nat \<Rightarrow> bool" where
  "gic_get_pend h int_id = gicd_get_pend h int_id"

definition gic_set_act :: "nat \<Rightarrow> bool \<Rightarrow> gic_hw \<Rightarrow> gic_hw" where
  "gic_set_act int_id act = gicd_set_act int_id act"

definition gic_get_act :: "gic_hw \<Rightarrow> nat \<Rightarrow> bool" where
  "gic_get_act h int_id = gicd_get_act h int_id"

definition gic_set_enable :: "nat \<Rightarrow> bool \<Rightarrow> gic_hw \<Rightarrow> gic_hw" where
  "gic_set_enable int_id en = gicd_set_enable int_id en"

definition gic_set_pend :: "nat \<Rightarrow> nat \<Rightarrow> bool \<Rightarrow> gic_hw \<Rightarrow> gic_hw" where
  "gic_set_pend cid int_id pend h =
     (if gic_is_sgi int_id then
        let reg_ind = GICD_SGI_REG int_id;
            off = GICD_SGI_OFF int_id
        in if pend then wr_gicd (GICD_SPENDSGIR reg_ind) (lsl 1 (off + cid)) h
           else wr_gicd (GICD_CPENDSGIR reg_ind) (BIT_MASK off 8) h
      else gicd_set_pend int_id pend h)"

subsection \<open>Reserved interrupts\<close>

text \<open>The handlers that the program registers with \<open>interrupts_reserve\<close>.\<close>

datatype irq_handler = H_gic_maintenance | H_cpu_msg | H_timer

record irq_tab =
  interrupt_handlers :: "nat \<Rightarrow> irq_handler option"
  hyp_interrupt_bitmap :: bitmap
  global_interrupt_bitmap :: bitmap

definition interrupts_reserve :: "nat \<Rightarrow> irq_handler \<Rightarrow> irq_tab \<Rightarrow> irq_tab" where
  "interrupts_reserve int_id handler t =
     (if int_id < GIC_MAX_INTERUPTS
      then t\<lparr>interrupt_handlers := (interrupt_handlers t)(int_id \<mapsto> handler),
             hyp_interrupt_bitmap := bitmap_set (hyp_interrupt_bitmap t) int_id,
             global_interrupt_bitmap := bitmap_set (global_interrupt_bitmap t) int_id\<rparr>
      else t)"

definition interrupt_is_reserved :: "irq_tab \<Rightarrow> nat \<Rightarrow> bool" where
  "interrupt_is_reserved t int_id \<longleftrightarrow> bitmap_get (hyp_interrupt_bitmap t) int_id \<noteq> 0"

text \<open>The body of the first loop of \<open>gicd_init\<close>.\<close>

definition gicd_quiet :: "nat \<Rightarrow> gic_hw \<Rightarrow> gic_hw" where
  "gicd_quiet i h =
     (let h = wr_gicd (GICD_IGROUPR i) (- 1) h;
          h = wr_gicd (GICD_ICENABLER i) (- 1) h;
          h = wr_gicd (GICD_ICPENDR i) (- 1) h
      in wr_gicd (GICD_ICACTIVER i) (- 1) h)"

text \<open>\<open>mid\<close> is the platform's maintenance interrupt.\<close>

definition gicd_init :: "nat \<Rightarrow> gic_hw \<times> irq_tab \<Rightarrow> gic_hw \<times> irq_tab" where
  "gicd_init mid = (\<lambda>(h, t).
     let int_num = gic_num_irqs h;
         h = fold gicd_quiet [GIC_CPU_PRIV div 32..<GIC_INT_REG int_num] h;
         h = fold (\<lambda>i. wr_gicd (GICD_IPRIORITYR i) (- 1))
               [GIC_PRIO_REG GIC_CPU_PRIV..<GIC_PRIO_REG int_num] h;
         h = fold (\<lambda>i. wr_gicd (GICD_ITARGETSR i) 0)
               [GIC_TARGET_REG GIC_CPU_PRIV..<GIC_TARGET_REG int_num] h;
         h = wr_gicd GICD_CTLR (gicd h GICD_CTLR OR 1) h
     in (h, interrupts_reserve mid H_gic_maintenance t))"

text \<open>
  \<open>gic_init\<close> on one processor: the two barriers around \<open>gic_cpu_init\<close> order it after the
  master's part on the other processors and change nothing here (see theory \<open>Locks\<close>).
\<close>

definition gic_init :: "nat \<Rightarrow> nat \<Rightarrow> gic_hw \<times> irq_tab \<Rightarrow> (gic_hw \<times> irq_tab) res" where
  "gic_init cid mid s =
     (let (h, t) = (if cid = 0 then
            let (h, t) = gicd_init mid s in (h\<lparr>NUM_LRS := gich_num_lrs h\<rparr>, t)
          else s)
      in bindr (gic_cpu_init cid h) (\<lambda>h. Inr (h, t)))"

subsection \<open>Register writes in a loop\<close>

lemma fold_wr:
  assumes "inj g"
  shows "fold (\<lambda>i m. m(g i := f i)) xs (m :: 'a \<Rightarrow> 'b) (g i) = (if i \<in> set xs then f i else m (g i))"
  using assms by (induction xs arbitrary: m) (auto simp: inj_eq)

lemma fold_wr_other: "(\<And>i. i \<in> set xs \<Longrightarrow> g i \<noteq> x) \<Longrightarrow> fold (\<lambda>i m. m(g i := f i)) xs m x = m x"
  by (induction xs arbitrary: m) auto

lemma fold_wr_gicd:
  "fold (\<lambda>i. wr_gicd (g i) (f i)) xs h = gicd_update (fold (\<lambda>i m. m(g i := f i)) xs) h"
  by (induction xs arbitrary: h) (simp_all add: o_def)

lemma fold_wr_gich:
  "fold (\<lambda>i. wr_gich (g i) (f i)) xs h = gich_update (fold (\<lambda>i m. m(g i := f i)) xs) h"
  by (induction xs arbitrary: h) (simp_all add: o_def)

lemma fold_save_lr:
  "fold (\<lambda>i st. st\<lparr>st_LR := (st_LR st)(i := f i)\<rparr>) xs st
     = st\<lparr>st_LR := fold (\<lambda>i m. m(i := f i)) xs (st_LR st)\<rparr>"
  by (induction xs arbitrary: st) simp_all

lemma fold_save_prio:
  "fold (\<lambda>i st. st\<lparr>st_priv_IPRIORITYR := (st_priv_IPRIORITYR st)(i := f i)\<rparr>) xs st
     = st\<lparr>st_priv_IPRIORITYR := fold (\<lambda>i m. m(i := f i)) xs (st_priv_IPRIORITYR st)\<rparr>"
  by (induction xs arbitrary: st) simp_all

lemma inj_regs [simp]:
  "inj GICD_IPRIORITYR" "inj GICD_ITARGETSR" "inj GICD_ICENABLER" "inj GICD_ICPENDR"
  "inj GICD_ICACTIVER" "inj GICD_IGROUPR" "inj GICH_LR"
  by (auto simp: inj_def gic_regs)

lemmas wr_loops = fold_wr_gicd fold_wr_gich fold_save_lr fold_save_prio

lemma with_gicd_lock_free:
  assumes "ticket (gicd_lk h) = next_tk (gicd_lk h)"
  shows "\<exists>l. with_gicd_lock f h = Inr (let h' = f (h\<lparr>gicd_lk := l\<rparr>) in h'\<lparr>gicd_lk := spin_unlock (gicd_lk h')\<rparr>)"
  using assms by (auto simp: with_gicd_lock_def spin_lock_free Let_def)

lemma with_gicd_lock_held:
  "ticket (gicd_lk h) \<noteq> next_tk (gicd_lk h) \<Longrightarrow> with_gicd_lock f h = Inl Spin"
  by (simp add: with_gicd_lock_def spin_lock_held)

subsection \<open>Priorities\<close>

definition prio_field :: "gic_hw \<Rightarrow> nat \<Rightarrow> u8" where
  "prio_field h k = ucast (bit_extract (gicd h (GICD_IPRIORITYR (k div 4))) (8 * (k mod 4)) 8)"

lemma prio_reg_off: "GIC_PRIO_REG k = k div 4" "GIC_PRIO_OFF k = 8 * (k mod 4)"
proof -
  show "GIC_PRIO_REG k = k div 4" unfolding GIC_PRIO_REG_def by presburger
  show "GIC_PRIO_OFF k = 8 * (k mod 4)"
    using mult_mod_right[of 8 k 4] by (simp add: GIC_PRIO_OFF_def mult.commute)
qed

lemma field_update:
  assumes "off + n \<le> 32" "off' + n \<le> 32" "0 < n" "off = off' \<or> off + n \<le> off' \<or> off' + n \<le> off"
  shows "bit_extract ((v AND NOT (BIT_MASK off n)) OR (lsl w off AND BIT_MASK off n) :: u32) off' n =
    (if off = off' then take_bit n w else bit_extract v off' n)"
  using assms
  by (intro bit_word_eqI)
    (auto simp: bit_bit_extract bit_and_iff bit_or_iff bit_not_iff bit_BIT_MASK lsl_eq
      bit_push_bit_iff bit_take_bit_iff dest: bit_imp_le_length)

lemma get_prio_field:
  assumes "off < 4"
  shows "(ucast (lsr (w :: u32) (8 * off) AND BIT_MASK (8 * off) 8) :: u8) =
    (if off = 0 then ucast (bit_extract w 0 8) else 0)"
proof (rule bit_word_eqI)
  fix i assume "i < LENGTH(8)"
  then have "i < 8" by simp
  then show "bit (ucast (lsr w (8 * off) AND BIT_MASK (8 * off) 8) :: u8) i =
      bit (if off = 0 then ucast (bit_extract w 0 8) else 0 :: u8) i"
    using assms by (auto simp: bit_ucast_iff bit_and_iff bit_BIT_MASK bit_bit_extract lsr_eq bit_drop_bit_eq)
qed

lemma ucast_take_bit8: "(ucast (take_bit 8 (ucast (p :: u8) :: u32)) :: u8) = p"
  by (rule bit_word_eqI) (auto simp: bit_ucast_iff bit_take_bit_iff)

text \<open>The distributor's priority registers hold one byte per interrupt. \<open>gicd_set_prio\<close>
  takes and releases the distributor lock, stores the byte of its interrupt and leaves the
  priority of every other interrupt and every other register as it was. \<open>gicd_get_prio\<close> masks
  at the field's offset after it has shifted the field down, so it returns the priority for
  the interrupts whose number is a multiple of four and 0 for all others.\<close>
theorem gicd_set_get_prio:
  assumes "ticket (gicd_lk h) = next_tk (gicd_lk h)"
  shows "\<exists>h'. gicd_set_prio irq p h = Inr h' \<and>
    (\<forall>k. prio_field h' k = (if k = irq then p else prio_field h k)) \<and>
    (\<forall>r. r \<noteq> GICD_IPRIORITYR (irq div 4) \<longrightarrow> gicd h' r = gicd h r) \<and>
    gicc h' = gicc h \<and> gich h' = gich h \<and> ticket (gicd_lk h') = next_tk (gicd_lk h') \<and>
    gicd_get_prio h' irq = (if irq mod 4 = 0 then p else 0)"
proof -
  let ?r = "GICD_IPRIORITYR (irq div 4)" and ?o = "8 * (irq mod 4)"
  let ?v = "(gicd h ?r AND NOT (BIT_MASK ?o 8)) OR (lsl (ucast p) ?o AND BIT_MASK ?o 8) :: u32"
  obtain h' where run: "gicd_set_prio irq p h = Inr h'" and gd: "gicd h' = (gicd h)(?r := ?v)"
    and rest: "gicc h' = gicc h" "gich h' = gich h" "ticket (gicd_lk h') = next_tk (gicd_lk h')"
    using assms
    by (auto simp: gicd_set_prio_def with_gicd_lock_def prio_reg_off Let_def spin_lock_def spin_unlock_def)
  have field: "prio_field h' k = (if k = irq then p else prio_field h k)" for k
  proof (cases "k div 4 = irq div 4")
    case True
    moreover have "k mod 4 = irq mod 4 \<longleftrightarrow> k = irq"
      using True by (metis div_mult_mod_eq)
    moreover have "?o + 8 \<le> 32" "8 * (k mod 4) + 8 \<le> 32" by auto
    moreover have "?o = 8 * (k mod 4) \<or> ?o + 8 \<le> 8 * (k mod 4) \<or> 8 * (k mod 4) + 8 \<le> ?o" by auto
    ultimately show ?thesis
      by (auto simp: prio_field_def gd field_update ucast_take_bit8)
  next
    case False
    then show ?thesis by (auto simp: prio_field_def gd gic_regs)
  qed
  have "gicd_get_prio h' irq = (if irq mod 4 = 0 then prio_field h' irq else 0)"
    unfolding gicd_get_prio_def prio_reg_off prio_field_def Let_def
    by (subst get_prio_field) simp_all
  with run gd rest field show ?thesis by auto
qed

definition sample_gic :: gic_hw where
  "sample_gic = \<lparr>gicd = (\<lambda>r. if r = GICD_ITARGETSR 0 then 1 else if r = GICD_TYPER then 8 else 0),
     gicc = (\<lambda>_. 0), gich = (\<lambda>r. if r = GICH_VTR then 3 else 0), gicd_lk = SPINLOCK_INITVAL,
     gic_cpu_map = (\<lambda>_. 0), NUM_LRS = 4\<rparr>"

theorem gicd_set_get_prio_witness:
  "\<exists>h'. gicd_set_prio 33 0xA0 sample_gic = Inr h' \<and> prio_field h' 33 = 0xA0 \<and> gicd_get_prio h' 33 = 0"
proof -
  have "ticket (gicd_lk sample_gic) = next_tk (gicd_lk sample_gic)"
    by (simp add: sample_gic_def SPINLOCK_INITVAL_def)
  from gicd_set_get_prio[OF this, of 33 "0xA0"] show ?thesis by auto
qed

subsection \<open>Software generated interrupts\<close>

lemma low_byte_one_hot:
  assumes "(w :: u32) AND BIT_MASK 0 8 = push_bit k 1" "k < 8"
  shows "bit_ffs (w AND BIT_MASK 0 8) = k"
proof -
  have nz: "push_bit k (1 :: u32) \<noteq> 0" using assms(2) by (simp add: push_bit_eq_mult exp_eq_zero_iff)
  have "bit (push_bit k (1 :: u32)) (bit_ffs (push_bit k (1 :: u32)))" by (rule bit_ffs_Some(1)[OF nz])
  then show ?thesis unfolding assms(1) by (simp add: push_bit_eq_mult bit_exp_iff)
qed

lemma gicc_init_map:
  assumes "gicd h (GICD_ITARGETSR 0) AND BIT_MASK 0 8 = push_bit k 1" "k < 8"
  shows "\<exists>h'. gicc_init cid h = Inr h' \<and> gic_cpu_map h' = (gic_cpu_map h)(cid := k + 1) \<and>
    gicd h' = gicd h"
  using assms(2) low_byte_one_hot[OF assms]
  by (simp add: gicc_init_def Let_def wr_loops)

lemma sgir_bits:
  assumes "m < 48" "n < 16"
  shows "bit (ucast (lsl (1 :: u64) (16 + m) OR (word_of_nat n AND ucast (BIT_MASK 0 4 :: u32))) :: u32) (16 + i)
    \<longleftrightarrow> i = m \<and> i < 16"
proof -
  have "\<not> bit (ucast (BIT_MASK 0 4 :: u32) :: u64) (16 + i)"
    by (simp add: bit_ucast_iff bit_BIT_MASK)
  then show ?thesis
    using assms by (auto simp: bit_ucast_iff bit_or_iff bit_and_iff lsl_eq push_bit_eq_mult bit_exp_iff)
qed

text \<open>A processor that is connected to interface \<open>k\<close> of the interrupt controller reads the
  byte with bit \<open>k\<close> set in its banked target register. \<open>gicc_init\<close> records the interface
  \<open>k + 1\<close> for it (the check for a missing interface behind it can never fail), so an SGI that
  \<open>gic_send_sgi\<close> sends to this processor selects interface \<open>k + 1\<close> in the target list and no
  other: the interrupt is delivered to the next processor, and for the last interface the
  target list is empty.\<close>
theorem gic_send_sgi_next_interface:
  assumes "gicd h (GICD_ITARGETSR 0) AND BIT_MASK 0 8 = push_bit k 1" "k < 8" "cid < 8" "n < 16"
  shows "\<exists>h'. gicc_init cid h = Inr h' \<and>
    (\<forall>i < 8. bit (gicd (gic_send_sgi cid n h') GICD_SGIR) (16 + i) \<longleftrightarrow> i = k + 1)"
proof -
  obtain h' where h': "gicc_init cid h = Inr h'" "gic_cpu_map h' cid = k + 1"
    using gicc_init_map[OF assms(1,2), of cid] by auto
  have "gicd (gic_send_sgi cid n h') GICD_SGIR =
      ucast (lsl (1 :: u64) (16 + (k + 1)) OR (word_of_nat n AND ucast (BIT_MASK 0 4 :: u32)))"
    using assms h'(2) by (simp add: gic_send_sgi_def)
  with h' assms show ?thesis using sgir_bits[of "k + 1" n] by auto
qed

theorem gic_send_sgi_next_interface_witness:
  "\<exists>h'. gicc_init 0 sample_gic = Inr h' \<and> \<not> bit (gicd (gic_send_sgi 0 1 h') GICD_SGIR) 16 \<and>
     bit (gicd (gic_send_sgi 0 1 h') GICD_SGIR) 17"
proof -
  have "gicd sample_gic (GICD_ITARGETSR 0) AND BIT_MASK 0 8 = push_bit 0 1"
    by (simp add: sample_gic_def BIT_MASK_def lsl_def size_dec_def)
  from gic_send_sgi_next_interface[OF this, of 0 1] obtain h' where
    h': "gicc_init 0 sample_gic = Inr h'"
    "\<And>i. i < 8 \<Longrightarrow> bit (gicd (gic_send_sgi 0 1 h') GICD_SGIR) (16 + i) \<longleftrightarrow> i = 1" by auto
  from h'(2)[of 0] h'(2)[of 1] h'(1) show ?thesis by auto
qed

subsection \<open>Saving and restoring the processor interface\<close>

lemma fold_id_upd: "fold (\<lambda>i m. m(i := f i)) xs m j = (if j \<in> set xs then f j else m j)"
  by (induction xs arbitrary: m) auto

definition saved_gicc :: "nat set" where
  "saved_gicc = {GICC_CTLR, GICC_PMR, GICC_BPR, GICC_IAR, GICC_EOIR, GICC_RPR, GICC_HPPIR}"

definition saved_gicd :: "nat set" where
  "saved_gicd = insert (GICD_ISENABLER 0) (GICD_IPRIORITYR ` {..<8})"

definition saved_gich :: "nat \<Rightarrow> nat set" where
  "saved_gich n = insert GICH_HCR (GICH_LR ` {..<n})"

lemma fold_wr_range:
  assumes "inj g"
  shows "fold (\<lambda>i m. m(g i := f i)) [0..<n] m x =
    (if x \<in> g ` {..<n} then f (inv g x) else m x)"
  using assms by (induction n arbitrary: m) (auto simp: less_Suc_eq)

lemma save_fields [simp]:
  "st_CTLR (gicc_save_state h st) = gicc h GICC_CTLR" "st_PMR (gicc_save_state h st) = gicc h GICC_PMR"
  "st_BPR (gicc_save_state h st) = gicc h GICC_BPR" "st_IAR (gicc_save_state h st) = gicc h GICC_IAR"
  "st_EOIR (gicc_save_state h st) = gicc h GICC_EOIR" "st_RPR (gicc_save_state h st) = gicc h GICC_RPR"
  "st_HPPIR (gicc_save_state h st) = gicc h GICC_HPPIR"
  "st_priv_ISENABLER (gicc_save_state h st) = gicd h (GICD_ISENABLER 0)"
  "st_HCR (gicc_save_state h st) = gich h GICH_HCR"
  by (simp_all add: gicc_save_state_def Let_def wr_loops)

lemma save_arrays:
  "i < 8 \<Longrightarrow> st_priv_IPRIORITYR (gicc_save_state h st) i = gicd h (GICD_IPRIORITYR i)"
  "i < gich_num_lrs h \<Longrightarrow> st_LR (gicc_save_state h st) i = ucast (gich h (GICH_LR i))"
  by (simp_all add: gicc_save_state_def Let_def wr_loops fold_id_upd GIC_PRIO_REG_def)

lemma restore_frames:
  "gicc (gicc_restore_state st h) = (gicc h)(GICC_CTLR := st_CTLR st, GICC_PMR := st_PMR st,
     GICC_BPR := st_BPR st, GICC_IAR := st_IAR st, GICC_EOIR := st_EOIR st, GICC_RPR := st_RPR st,
     GICC_HPPIR := st_HPPIR st)"
  "gicd (gicc_restore_state st h) = fold (\<lambda>i m. m(GICD_IPRIORITYR i := st_priv_IPRIORITYR st i)) [0..<8]
     ((gicd h)(GICD_ISENABLER 0 := st_priv_ISENABLER st))"
  "gich (gicc_restore_state st h) = fold (\<lambda>i m. m(GICH_LR i := ucast (st_LR st i))) [0..<gich_num_lrs h]
     ((gich h)(GICH_HCR := st_HCR st))"
proof -
  have "GICH_HCR \<noteq> GICH_VTR" by (simp add: gic_regs)
  then have "gich_num_lrs (wr_gich GICH_HCR v x) = gich_num_lrs x" for v x
    by (simp add: gich_num_lrs_def)
  moreover have "gich_num_lrs (gicd_update f x) = gich_num_lrs x" "gich_num_lrs (gicc_update f x) = gich_num_lrs x" for f x
    by (simp_all add: gich_num_lrs_def)
  ultimately show
    "gicc (gicc_restore_state st h) = (gicc h)(GICC_CTLR := st_CTLR st, GICC_PMR := st_PMR st,
       GICC_BPR := st_BPR st, GICC_IAR := st_IAR st, GICC_EOIR := st_EOIR st, GICC_RPR := st_RPR st,
       GICC_HPPIR := st_HPPIR st)"
    "gicd (gicc_restore_state st h) = fold (\<lambda>i m. m(GICD_IPRIORITYR i := st_priv_IPRIORITYR st i)) [0..<8]
       ((gicd h)(GICD_ISENABLER 0 := st_priv_ISENABLER st))"
    "gich (gicc_restore_state st h) = fold (\<lambda>i m. m(GICH_LR i := ucast (st_LR st i))) [0..<gich_num_lrs h]
       ((gich h)(GICH_HCR := st_HCR st))"
    by (simp_all add: gicc_restore_state_def Let_def fold_wr_gicd fold_wr_gich GIC_PRIO_REG_def o_def
        del: upt_Suc upt_rec_numeral fun_upd_apply)
qed

lemma restore_save_gicc:
  "gicc (gicc_restore_state (gicc_save_state h st) h') r = (if r \<in> saved_gicc then gicc h r else gicc h' r)"
  unfolding restore_frames saved_gicc_def save_fields by (simp add: gic_regs)

lemma restore_save_gicd:
  "gicd (gicc_restore_state (gicc_save_state h st) h') r = (if r \<in> saved_gicd then gicd h r else gicd h' r)"
  unfolding restore_frames by (subst fold_wr_range) (auto simp: saved_gicd_def save_arrays)

lemma ucast_ucast_32: "(ucast (ucast (w :: u32) :: u64) :: u32) = w"
  by (rule bit_word_eqI) (auto simp: bit_ucast_iff)

lemma hcr_lr: "GICH_HCR \<noteq> GICH_LR i"
  by (simp add: gic_regs)

lemma restore_save_gich:
  assumes "gich_num_lrs h' = gich_num_lrs h"
  shows "gich (gicc_restore_state (gicc_save_state h st) h') r =
    (if r \<in> saved_gich (gich_num_lrs h) then gich h r else gich h' r)"
  unfolding restore_frames assms
  by (subst fold_wr_range) (auto simp: saved_gich_def save_arrays ucast_ucast_32 hcr_lr)

text \<open>Saving the interrupt state of a processor and restoring it later, whatever the
  registers hold by then, writes back every register that the save covers (the CPU interface's
  control, mask and status registers, the enable bits and the eight priority words of the
  private interrupts, the hypervisor control register and every implemented list register)
  with its saved value and changes no other register.\<close>
theorem gicc_restore_save:
  assumes "gich_num_lrs h' = gich_num_lrs h"
  shows "(\<forall>r. gicc (gicc_restore_state (gicc_save_state h st) h') r =
            (if r \<in> saved_gicc then gicc h r else gicc h' r)) \<and>
         (\<forall>r. gicd (gicc_restore_state (gicc_save_state h st) h') r =
            (if r \<in> saved_gicd then gicd h r else gicd h' r)) \<and>
         (\<forall>r. gich (gicc_restore_state (gicc_save_state h st) h') r =
            (if r \<in> saved_gich (gich_num_lrs h) then gich h r else gich h' r))"
  using restore_save_gicc restore_save_gicd restore_save_gich[OF assms] by simp

theorem gicc_restore_save_witness:
  "\<exists>st. gich (gicc_restore_state (gicc_save_state (wr_gich (GICH_LR 2) 7 sample_gic) st) sample_gic) (GICH_LR 2) = 7"
proof -
  have n: "gich_num_lrs sample_gic = gich_num_lrs (wr_gich (GICH_LR 2) 7 sample_gic)"
    by (simp add: gich_num_lrs_def gic_regs sample_gic_def)
  have four: "gich_num_lrs (wr_gich (GICH_LR 2) 7 sample_gic) = 4"
    by (simp add: gich_num_lrs_def gic_regs sample_gic_def BIT_MASK_def lsl_def lsr_def size_dec_def)
  have "GICH_LR 2 \<in> saved_gich 4" by (auto simp: saved_gich_def)
  with gicc_restore_save[OF n, of undefined] four show ?thesis by (intro exI[of _ undefined]) auto
qed

subsection \<open>Bringing the distributor to a known state\<close>

text \<open>The registers of the shared interrupts in the words \<open>1\<close> to \<open>n - 1\<close>.\<close>

definition quiet_regs :: "nat \<Rightarrow> nat set" where
  "quiet_regs n = (\<Union>i \<in> {1..<n}. {GICD_IGROUPR i, GICD_ICENABLER i, GICD_ICPENDR i, GICD_ICACTIVER i})"

lemma fold_quiet:
  "gicd (fold gicd_quiet xs h) r =
     (if r \<in> (\<Union>i \<in> set xs. {GICD_IGROUPR i, GICD_ICENABLER i, GICD_ICPENDR i, GICD_ICACTIVER i})
      then - 1 else gicd h r)"
  by (induction xs arbitrary: h) (auto simp: gicd_quiet_def)

lemma fold_wr_const:
  "fold (\<lambda>i m. m(g i := c)) xs m x = (if x \<in> g ` set xs then c else m x)"
  by (induction xs arbitrary: m) auto

lemma gicd_init_frame:
  fixes h n defines "n \<equiv> unat (bit_extract (gicd h GICD_TYPER) 0 5)"
  shows "gicd (fst (gicd_init mid (h, t))) r =
    (if r = GICD_CTLR then gicd h GICD_CTLR OR 1
     else if r \<in> GICD_ITARGETSR ` {8..<8 * n} then 0
     else if r \<in> GICD_IPRIORITYR ` {8..<8 * n} \<or> r \<in> quiet_regs n then - 1
     else gicd h r)"
proof -
  have sz: "gic_num_irqs h = 32 * n + 1" by (simp add: gic_num_irqs_def n_def)
  have regs: "GIC_INT_REG (Suc (32 * n)) = n" "GIC_PRIO_REG (Suc (32 * n)) = 8 * n"
    "GIC_TARGET_REG (Suc (32 * n)) = 8 * n" "GIC_PRIO_REG 32 = 8" "GIC_TARGET_REG 32 = 8"
    by (simp_all add: GIC_INT_REG_def GIC_PRIO_REG_def GIC_TARGET_REG_def)
  have "GICD_CTLR \<notin> GICD_ITARGETSR ` A" "GICD_CTLR \<notin> GICD_IPRIORITYR ` A" "GICD_CTLR \<notin> quiet_regs n" for A
    by (auto simp: gic_regs quiet_regs_def)
  then show ?thesis
    by (simp add: gicd_init_def Let_def sz regs fold_wr_gicd fold_quiet fold_wr_const quiet_regs_def
        del: upt_Suc)
qed

text \<open>With \<open>itl\<close> the interrupt line number the distributor reports, the interrupts
  \<open>32 .. 32 * itl - 1\<close> are disabled, not pending, not active and have the lowest priority and no
  target after \<open>gicd_init\<close>, and the distributor is enabled. The distributor supports
  \<open>32 * (itl + 1)\<close> interrupts, but \<open>gic_num_irqs\<close> returns \<open>32 * itl + 1\<close>: the enable, pending,
  active and group registers of the last 32 interrupts, their priorities and their targets
  keep whatever the boot loader left there.\<close>
theorem gicd_init_skips_last_word:
  fixes h itl defines "itl \<equiv> unat (bit_extract (gicd h GICD_TYPER) 0 5)"
  assumes "gicd_init mid (h, t) = (h', t')"
  shows "(\<forall>i \<in> {1..<itl}. gicd h' (GICD_ICENABLER i) = - 1 \<and> gicd h' (GICD_ICPENDR i) = - 1 \<and>
             gicd h' (GICD_ICACTIVER i) = - 1 \<and> gicd h' (GICD_IGROUPR i) = - 1) \<and>
         (\<forall>k. 32 \<le> k \<and> k < 32 * itl \<longrightarrow> prio_field h' k = - 1) \<and>
         bit (gicd h' GICD_CTLR) 0 \<and>
         gicd h' (GICD_ICENABLER itl) = gicd h (GICD_ICENABLER itl) \<and>
         gicd h' (GICD_ICPENDR itl) = gicd h (GICD_ICPENDR itl) \<and>
         gicd h' (GICD_ICACTIVER itl) = gicd h (GICD_ICACTIVER itl) \<and>
         (\<forall>k \<in> {32 * itl..<32 * (itl + 1)}. prio_field h' k = prio_field h k) \<and>
         (mid < 1024 \<longrightarrow> interrupt_is_reserved t' mid)"
proof -
  have fr: "gicd h' r = (if r = GICD_CTLR then gicd h GICD_CTLR OR 1
     else if r \<in> GICD_ITARGETSR ` {8..<8 * itl} then 0
     else if r \<in> GICD_IPRIORITYR ` {8..<8 * itl} \<or> r \<in> quiet_regs itl then - 1
     else gicd h r)" for r
    using gicd_init_frame[of mid h t r] assms by (simp add: itl_def)
  have "itl = unat (take_bit 5 (gicd h GICD_TYPER))" by (simp add: itl_def bit_extract_eq)
  then have small: "itl < 32" using take_bit_nat_less_exp[of 5 "unat (gicd h GICD_TYPER)"] by (simp add: unsigned_take_bit_eq)
  have t': "t' = interrupts_reserve mid H_gic_maintenance t"
    using assms(2) by (simp add: gicd_init_def Let_def)
  have quiet: "gicd h' (GICD_ICENABLER i) = - 1 \<and> gicd h' (GICD_ICPENDR i) = - 1 \<and>
      gicd h' (GICD_ICACTIVER i) = - 1 \<and> gicd h' (GICD_IGROUPR i) = - 1" if "i \<in> {1..<itl}" for i
  proof -
    have "{GICD_IGROUPR i, GICD_ICENABLER i, GICD_ICPENDR i, GICD_ICACTIVER i} \<subseteq> quiet_regs itl"
      using that by (auto simp: quiet_regs_def)
    moreover have "r \<noteq> GICD_CTLR \<and> r \<notin> GICD_ITARGETSR ` {8..<8 * itl}"
      if "r \<in> {GICD_IGROUPR i, GICD_ICENABLER i, GICD_ICPENDR i, GICD_ICACTIVER i}" for r
      using that \<open>i \<in> {1..<itl}\<close> small by (auto simp: gic_regs)
    ultimately show ?thesis by (simp add: fr)
  qed
  have prio: "gicd h' (GICD_IPRIORITYR j) = (if 8 \<le> j \<and> j < 8 * itl then - 1 else gicd h (GICD_IPRIORITYR j))"
    if "j < 256" for j
  proof -
    have "GICD_IPRIORITYR j \<noteq> GICD_CTLR" "GICD_IPRIORITYR j \<notin> GICD_ITARGETSR ` {8..<8 * itl}"
      using that by (auto simp: gic_regs)
    moreover have "GICD_IPRIORITYR j \<notin> quiet_regs itl"
      using small by (auto simp: quiet_regs_def gic_regs)
    moreover have "GICD_IPRIORITYR j \<in> GICD_IPRIORITYR ` {8..<8 * itl} \<longleftrightarrow> 8 \<le> j \<and> j < 8 * itl"
      by (auto simp: inj_image_mem_iff)
    ultimately show ?thesis by (simp add: fr)
  qed
  have ones: "prio_field h' k = - 1" if "32 \<le> k \<and> k < 32 * itl" for k
  proof -
    have "8 \<le> k div 4 \<and> k div 4 < 8 * itl" "k div 4 < 256" using that small by auto
    then have "gicd h' (GICD_IPRIORITYR (k div 4)) = - 1" by (simp add: prio)
    then show ?thesis
      by (simp add: prio_field_def) (rule bit_word_eqI, simp add: bit_ucast_iff bit_bit_extract)
  qed
  have last: "gicd h' r = gicd h r" if "r \<in> {GICD_ICENABLER itl, GICD_ICPENDR itl, GICD_ICACTIVER itl}" for r
  proof -
    have "r \<noteq> GICD_CTLR \<and> r \<notin> GICD_ITARGETSR ` {8..<8 * itl} \<and> r \<notin> GICD_IPRIORITYR ` {8..<8 * itl}"
      using that small by (auto simp: gic_regs)
    moreover have "r \<notin> quiet_regs itl"
      using that small by (auto simp: quiet_regs_def gic_regs)
    ultimately show ?thesis by (simp add: fr)
  qed
  have keep: "prio_field h' k = prio_field h k" if "k \<in> {32 * itl..<32 * (itl + 1)}" for k
  proof -
    have "k div 4 < 256" "8 * itl \<le> k div 4" using that small by auto
    then show ?thesis by (simp add: prio_field_def prio)
  qed
  have ctlr: "bit (gicd h' GICD_CTLR) 0" by (simp add: fr bit_or_iff)
  have "mid < 1024 \<longrightarrow> interrupt_is_reserved t' mid"
    by (simp add: t' interrupts_reserve_def interrupt_is_reserved_def)
  with quiet ones ctlr last keep show ?thesis by simp
qed

definition empty_irq_tab :: irq_tab where
  "empty_irq_tab = \<lparr>interrupt_handlers = (\<lambda>_. None), hyp_interrupt_bitmap = (\<lambda>_. 0),
     global_interrupt_bitmap = (\<lambda>_. 0)\<rparr>"

theorem gicd_init_skips_last_word_witness:
  "prio_field (fst (gicd_init 25 (sample_gic, empty_irq_tab))) 255 = - 1 \<and>
   prio_field (fst (gicd_init 25 (sample_gic, empty_irq_tab))) 256 = 0"
proof -
  have itl: "unat (bit_extract (gicd sample_gic GICD_TYPER) 0 5) = 8"
    by (simp add: sample_gic_def bit_extract_eq gic_regs)
  obtain h' t' where run: "gicd_init 25 (sample_gic, empty_irq_tab) = (h', t')" by fastforce
  have "prio_field sample_gic 256 = 0"
    by (simp add: prio_field_def sample_gic_def gic_regs bit_extract_eq)
  with gicd_init_skips_last_word[OF run] show ?thesis unfolding itl run by auto
qed

end
