(* ===== verification/Objpool.thy ===== *)
theory Objpool
  imports Bitmaps Locks
begin

text \<open>
  \<open>core/objpool.c\<close>: pools of equally sized objects. An object is its address; \<open>op_mem\<close> holds
  the bytes of the pool and \<open>op_bitmap\<close> the granules of the allocation bitmap. The signed
  \<open>ssize_t\<close> that receives the result of the search is negative exactly when the unsigned
  result is at least \<open>2 ^ 63\<close>.
\<close>

unbundle bit_operations_syntax

record objpool =
  op_pool :: vaddr_t
  op_mem :: "nat \<Rightarrow> u8"
  op_bitmap :: bitmap
  op_objsize :: nat
  op_num :: nat
  op_lock :: spinlock

definition memset_granules :: "nat \<Rightarrow> bitmap \<Rightarrow> bitmap" where
  "memset_granules bytes bm = (\<lambda>g. bm g AND NOT (mask (8 * min 4 (bytes - 4 * g))))"

definition objpool_init :: "objpool \<Rightarrow> objpool" where
  "objpool_init p =
     p\<lparr>op_mem := (\<lambda>i. if i < op_objsize p * op_num p then 0 else op_mem p i),
       op_bitmap := memset_granules (BITMAP_SIZE (op_num p)) (op_bitmap p)\<rparr>"

definition objpool_alloc :: "objpool \<Rightarrow> (vaddr_t \<times> objpool) res" where
  "objpool_alloc p =
     bindr (spin_lock (op_lock p)) (\<lambda>l.
       let p = p\<lparr>op_lock := l\<rparr>;
           n = bitmap_find_nth (op_bitmap p) (op_num p) 1 0 False;
           (obj, p) = (if n < 2 ^ 63
             then (op_pool p + word_of_nat (op_objsize p * n), p\<lparr>op_bitmap := bitmap_set (op_bitmap p) n\<rparr>)
             else (0, p))
       in Inr (obj, p\<lparr>op_lock := spin_unlock (op_lock p)\<rparr>))"

definition objpool_free :: "objpool \<Rightarrow> vaddr_t \<Rightarrow> objpool res" where
  "objpool_free p obj =
     (let in_pool = in_range obj (op_pool p) (word_of_nat (op_objsize p * op_num p));
          aligned = IS_ALIGNED (obj - op_pool p) (word_of_nat (op_objsize p))
      in if in_pool \<and> aligned
         then let n = unat ((obj - op_pool p) div word_of_nat (op_objsize p))
              in bindr (spin_lock (op_lock p)) (\<lambda>l.
                   Inr (p\<lparr>op_bitmap := bitmap_clear (op_bitmap p) n, op_lock := spin_unlock l\<rparr>))
         else Inr p)"

subsection \<open>Live objects\<close>

definition objpool_ok :: "objpool \<Rightarrow> bool" where
  "objpool_ok p \<longleftrightarrow> 0 < op_objsize p \<and> 0 < op_num p \<and> op_num p < 2 ^ 63 \<and> op_pool p \<noteq> 0 \<and>
     unat (op_pool p) + op_objsize p * op_num p < 2 ^ 64 \<and>
     ticket (op_lock p) = next_tk (op_lock p)"

definition obj_addr :: "objpool \<Rightarrow> nat \<Rightarrow> vaddr_t" where
  "obj_addr p i = op_pool p + word_of_nat (op_objsize p * i)"

definition live :: "objpool \<Rightarrow> vaddr_t set" where
  "live p = obj_addr p ` slots.taken_set (op_bitmap p) (op_num p)"

definition slots_of :: "objpool \<Rightarrow> vaddr_t set" where
  "slots_of p = obj_addr p ` {..<op_num p}"

lemma obj_offset:
  assumes "objpool_ok p" "i \<le> op_num p"
  shows "op_objsize p * i < 2 ^ 64" "unat (obj_addr p i) = unat (op_pool p) + op_objsize p * i"
proof -
  have "op_objsize p * i \<le> op_objsize p * op_num p" using assms(2) by simp
  moreover have "unat (op_pool p) + op_objsize p * op_num p < 2 ^ 64"
    using assms(1) by (simp add: objpool_ok_def)
  ultimately have "unat (op_pool p) + op_objsize p * i < 2 ^ 64" by linarith
  then show "op_objsize p * i < 2 ^ 64" "unat (obj_addr p i) = unat (op_pool p) + op_objsize p * i"
    by (simp_all add: obj_addr_def unat_word_ariths unat_word_of_nat64 del: of_nat_mult)
qed

lemma obj_addr_inj: "objpool_ok p \<Longrightarrow> i < op_num p \<Longrightarrow> j < op_num p \<Longrightarrow> obj_addr p i = obj_addr p j \<Longrightarrow> i = j"
  using obj_offset(2)[of p i] obj_offset(2)[of p j] unfolding objpool_ok_def
  by (metis add_left_cancel less_imp_le mult_cancel1 not_less_zero)

lemma obj_addr_nonzero: "objpool_ok p \<Longrightarrow> i < op_num p \<Longrightarrow> obj_addr p i \<noteq> 0"
  using obj_offset(2)[of p i] by (auto simp: objpool_ok_def unat_eq_zero)

lemma obj_addr_inj_on: "objpool_ok p \<Longrightarrow> inj_on (obj_addr p) {..<op_num p}"
  by (auto intro!: inj_onI dest: obj_addr_inj)

lemma live_subset: "live p \<subseteq> slots_of p"
  by (auto simp: live_def slots_of_def slots.taken_set_def)

lemma finite_live [simp]: "finite (live p)"
  by (simp add: live_def)

lemma card_live: "objpool_ok p \<Longrightarrow> card (live p) = card (slots.taken_set (op_bitmap p) (op_num p))"
  unfolding live_def
  by (rule card_image, rule inj_on_subset[OF obj_addr_inj_on]) (auto simp: slots.taken_set_def)

lemma live_iff: "objpool_ok p \<Longrightarrow> i < op_num p \<Longrightarrow> obj_addr p i \<in> live p \<longleftrightarrow> bmbit (op_bitmap p) i"
  by (auto simp: live_def slots.taken_set_def dest: obj_addr_inj)

lemma objpool_alloc_cases:
  assumes "objpool_ok p"
  defines "n \<equiv> first_clear (op_bitmap p) (op_num p)"
  shows "objpool_alloc p =
    Inr (if n = SIZE_MAX then (0, p\<lparr>op_lock := \<lparr>ticket = ticket (op_lock p) + 1, next_tk = next_tk (op_lock p) + 1\<rparr>\<rparr>)
         else (obj_addr p n, p\<lparr>op_bitmap := bitmap_set (op_bitmap p) n,
           op_lock := \<lparr>ticket = ticket (op_lock p) + 1, next_tk = next_tk (op_lock p) + 1\<rparr>\<rparr>))"
proof -
  have num: "op_num p \<le> SIZE_MAX" using assms(1) by (simp add: objpool_ok_def)
  have lt: "n < 2 ^ 63 \<longleftrightarrow> n \<noteq> SIZE_MAX"
    using slots.first_free_lt[of "op_bitmap p" "op_num p"] num assms(1)
    by (auto simp: n_def objpool_ok_def)
  have n: "bitmap_find_nth (op_bitmap p) (op_num p) 1 0 False = n"
    by (simp add: n_def first_clear_def)
  obtain t x where l: "op_lock p = \<lparr>ticket = t, next_tk = x\<rparr>" by (cases "op_lock p") auto
  show ?thesis
  proof (cases "n = SIZE_MAX")
    case True
    with assms(1) l n show ?thesis
      by (simp add: objpool_alloc_def spin_lock_def spin_unlock_def objpool_ok_def Let_def del: One_nat_def)
  next
    case False
    then have "n < 2 ^ 63" using lt by simp
    with False assms(1) l n show ?thesis
      by (simp add: objpool_alloc_def spin_lock_def spin_unlock_def objpool_ok_def Let_def
        obj_addr_def del: One_nat_def)
  qed
qed

text \<open>Allocation hands out a fresh object, and fails exactly when every object is live.\<close>

lemma objpool_alloc_spec:
  assumes "objpool_ok p" "objpool_alloc p = Inr (obj, p')"
  shows "objpool_ok p'" "slots_of p' = slots_of p"
    and "obj = 0 \<longleftrightarrow> live p = slots_of p"
    and "obj = 0 \<Longrightarrow> live p' = live p"
    and "obj \<noteq> 0 \<Longrightarrow> obj \<in> slots_of p - live p \<and> live p' = insert obj (live p)"
proof -
  define n where "n = first_clear (op_bitmap p) (op_num p)"
  have num: "op_num p \<le> SIZE_MAX" using assms(1) by (simp add: objpool_ok_def)
  note c = assms(2)[unfolded objpool_alloc_cases[OF assms(1), folded n_def]]
  show "objpool_ok p'" using c assms(1) by (auto simp: objpool_ok_def split: if_splits)
  have addr: "obj_addr p' = obj_addr p" "op_num p' = op_num p"
    using c by (auto simp: obj_addr_def split: if_splits)
  then show "slots_of p' = slots_of p" by (simp add: slots_of_def)
  have full: "n = SIZE_MAX \<longleftrightarrow> live p = slots_of p"
  proof -
    have "n = SIZE_MAX \<longleftrightarrow> card (live p) = card (slots_of p)"
      using slots.full_iff[OF num] card_live[OF assms(1)] card_image[OF obj_addr_inj_on[OF assms(1)]]
      by (simp add: n_def slots_of_def)
    also have "\<dots> \<longleftrightarrow> live p = slots_of p"
      using card_subset_eq[OF _ live_subset[of p]] by (auto simp: slots_of_def)
    finally show ?thesis .
  qed
  have n: "n < op_num p" "\<not> bmbit (op_bitmap p) n" if "n \<noteq> SIZE_MAX"
    using that slots.first_free_lt[OF _ num] slots.first_free_free[OF _ num] unfolding n_def by blast+
  have obj: "obj = 0 \<longleftrightarrow> n = SIZE_MAX" using c n obj_addr_nonzero[OF assms(1)] by (auto split: if_splits)
  with full show "obj = 0 \<longleftrightarrow> live p = slots_of p" by simp
  show "obj = 0 \<Longrightarrow> live p' = live p"
    using c obj addr by (auto simp: live_def split: if_splits)
  assume "obj \<noteq> 0"
  with obj have ns: "n \<noteq> SIZE_MAX" by simp
  with c have o: "obj = obj_addr p n" "op_bitmap p' = bitmap_set (op_bitmap p) n" by auto
  have "live p' = insert obj (live p)"
    unfolding live_def addr o using slots.taken_set_mark[OF n(1)[OF ns]] by simp
  then show "obj \<in> slots_of p - live p \<and> live p' = insert obj (live p)"
    using n[OF ns] live_iff[OF assms(1)] o(1) by (auto simp: slots_of_def)
qed

lemma objpool_alloc_returns: "objpool_ok p \<Longrightarrow> \<exists>obj p'. objpool_alloc p = Inr (obj, p')"
  by (simp add: objpool_alloc_cases split: if_splits)

lemma objpool_free_spec:
  assumes "objpool_ok p" "obj \<in> slots_of p"
  obtains p' where "objpool_free p obj = Inr p'" "objpool_ok p'" "live p' = live p - {obj}"
    "slots_of p' = slots_of p"
proof -
  obtain i where i: "i < op_num p" "obj = obj_addr p i" using assms(2) by (auto simp: slots_of_def)
  have sz: "op_objsize p * i < 2 ^ 64" "unat obj = unat (op_pool p) + op_objsize p * i"
    "op_objsize p * op_num p < 2 ^ 64" "0 < op_objsize p"
    using obj_offset[OF assms(1), of i] obj_offset(1)[OF assms(1), of "op_num p"] i assms(1)
    by (simp_all add: objpool_ok_def)
  have "1 * op_objsize p \<le> op_num p * op_objsize p"
    using assms(1) by (intro mult_le_mono1) (simp add: objpool_ok_def)
  also have "op_num p * op_objsize p < 2 ^ 64" using sz(3) by (simp add: mult.commute)
  finally have os: "unat (word_of_nat (op_objsize p) :: u64) = op_objsize p"
    by (intro unat_word_of_nat64) simp
  have diff: "unat (obj - op_pool p) = op_objsize p * i"
    using sz(2) by (subst unat_sub) (auto simp: word_le_nat_alt)
  have "in_range obj (op_pool p) (word_of_nat (op_objsize p * op_num p))"
    using in_range_iff[of "op_pool p" "word_of_nat (op_objsize p * op_num p)" obj] sz i(1) assms(1)
    by (simp add: unat_word_of_nat64 objpool_ok_def del: of_nat_mult)
  moreover have "unat ((obj - op_pool p) mod word_of_nat (op_objsize p)) = 0"
    by (simp add: unat_mod diff os)
  then have "IS_ALIGNED (obj - op_pool p) (word_of_nat (op_objsize p))"
    by (simp add: IS_ALIGNED_def unat_eq_zero)
  moreover have "unat ((obj - op_pool p) div word_of_nat (op_objsize p)) = i"
    using sz(4) by (simp add: unat_div diff os)
  moreover obtain l where l: "spin_lock (op_lock p) = Inr l" "ticket (spin_unlock l) = next_tk (spin_unlock l)"
    using assms(1) spin_lock_free[of "op_lock p"] spin_lock_unlock[of "op_lock p"]
    by (auto simp: objpool_ok_def)
  ultimately have f: "objpool_free p obj =
      Inr (p\<lparr>op_bitmap := bitmap_clear (op_bitmap p) i, op_lock := spin_unlock l\<rparr>)"
    by (simp add: objpool_free_def Let_def)
  let ?p = "p\<lparr>op_bitmap := bitmap_clear (op_bitmap p) i, op_lock := spin_unlock l\<rparr>"
  have addr: "obj_addr ?p = obj_addr p" by (auto simp: obj_addr_def)
  have "live ?p = obj_addr p ` (slots.taken_set (op_bitmap p) (op_num p) - {i})"
    unfolding live_def addr using slots.taken_set_release[of "op_bitmap p" i "op_num p"] by simp
  also have "\<dots> = live p - {obj}"
    unfolding live_def i(2) using obj_addr_inj[OF assms(1)] i(1) by (auto simp: slots.taken_set_def)
  finally have "live ?p = live p - {obj}" .
  moreover have "objpool_ok ?p" using assms(1) l(2) by (simp add: objpool_ok_def)
  ultimately show ?thesis using f addr that[of ?p] by (simp add: slots_of_def)
qed


subsection \<open>Properties\<close>

text \<open>C27: On a well-formed pool \<open>objpool_alloc\<close> always returns: NULL exactly when every object of
  the pool is live, and otherwise an object that was not live, which becomes the only additional
  live one; freeing it again restores the set of live objects.\<close>

theorem objpool_alloc_free:
  assumes "objpool_ok p"
  shows "\<exists>obj p'. objpool_alloc p = Inr (obj, p') \<and> objpool_ok p' \<and>
    (obj = 0 \<longleftrightarrow> live p = slots_of p) \<and> (obj = 0 \<longrightarrow> live p' = live p) \<and>
    (obj \<noteq> 0 \<longrightarrow> obj \<in> slots_of p - live p \<and> live p' = insert obj (live p) \<and>
      (\<exists>p''. objpool_free p' obj = Inr p'' \<and> objpool_ok p'' \<and> live p'' = live p))"
proof -
  obtain obj p' where a: "objpool_alloc p = Inr (obj, p')"
    using objpool_alloc_returns[OF assms] by blast
  note sp = objpool_alloc_spec[OF assms a]
  have "\<exists>p''. objpool_free p' obj = Inr p'' \<and> objpool_ok p'' \<and> live p'' = live p" if "obj \<noteq> 0"
  proof -
    have o: "obj \<in> slots_of p'" "obj \<notin> live p" "live p' = insert obj (live p)"
      using sp(2) sp(5)[OF that] by auto
    from objpool_free_spec[OF sp(1) o(1)] obtain p'' where
      "objpool_free p' obj = Inr p''" "objpool_ok p''" "live p'' = live p' - {obj}" by metis
    with o(2,3) show ?thesis by auto
  qed
  note freed = this
  show ?thesis
    by (rule exI[of _ obj], rule exI[of _ p'], intro conjI impI)
      (rule a sp(1) sp(3) sp(4) conjunct1[OF sp(5)] conjunct2[OF sp(5)] freed; assumption)+
qed

definition sample_objpool :: "u32 \<Rightarrow> objpool" where
  "sample_objpool w = \<lparr>op_pool = 0x1000, op_mem = (\<lambda>_. 0), op_bitmap = (\<lambda>_. 0)(0 := w),
     op_objsize = 32, op_num = 4, op_lock = SPINLOCK_INITVAL\<rparr>"

lemma sample_objpool_ok: "objpool_ok (sample_objpool w)"
  by (simp add: objpool_ok_def sample_objpool_def SPINLOCK_INITVAL_def)

theorem objpool_alloc_free_witness:
  "\<exists>obj p'. objpool_alloc (sample_objpool 5) = Inr (obj, p') \<and> objpool_ok p' \<and>
    (obj = 0 \<longleftrightarrow> live (sample_objpool 5) = slots_of (sample_objpool 5))"
  using objpool_alloc_free[of "sample_objpool 5"] sample_objpool_ok[of 5] by blast

text \<open>\<open>objpool_init\<close> does not empty every pool: the size it passes to \<open>memset\<close> counts granules
  while \<open>memset\<close> counts bytes, so of a pool with 128 objects only the first 32 become free.\<close>

theorem objpool_init_leaves_objects:
  assumes "op_num p = 128"
  shows "slots.taken_set (op_bitmap (objpool_init p)) 128 =
    {i \<in> slots.taken_set (op_bitmap p) 128. 32 \<le> i}"
proof -
  have "bmbit (op_bitmap (objpool_init p)) i \<longleftrightarrow> bmbit (op_bitmap p) i \<and> 32 \<le> i" for i
  proof (cases "i < 32")
    case True
    then show ?thesis
      using assms
      by (simp add: objpool_init_def memset_granules_def BITMAP_SIZE_def bmbit_def bit_and_iff bit_not_iff)
  next
    case False
    then have "4 - 4 * (i div 32) = 0" by simp
    then have "mask (8 * min 4 (4 - 4 * (i div 32))) = (0 :: u32)" by simp
    with False assms show ?thesis
      by (simp add: objpool_init_def memset_granules_def BITMAP_SIZE_def bmbit_def)
  qed
  then show ?thesis by (auto simp: slots.taken_set_def)
qed

lemma taken_set_ones: "slots.taken_set (\<lambda>_. - 1) n = {..<n}"
  by (auto simp: slots.taken_set_def bmbit_def)

theorem objpool_init_leaves_objects_witness:
  "slots.taken_set (op_bitmap (objpool_init ((sample_objpool 0)\<lparr>op_num := 128, op_bitmap := (\<lambda>_. - 1)\<rparr>))) 128 =
   {i \<in> {..<128}. 32 \<le> i}"
  using objpool_init_leaves_objects[of "(sample_objpool 0)\<lparr>op_num := 128, op_bitmap := (\<lambda>_. - 1)\<rparr>"]
  unfolding taken_set_ones[symmetric] by simp

end
