(* ===== verification/Linked_Lists.thy ===== *)
theory Linked_Lists
  imports Avisor_Prelude
begin

text \<open>
  \<open>lib/inc/list.h\<close>: intrusive circular doubly linked lists. A node is the address of its
  \<open>list_head\<close>; the heap gives the two pointers of every address, and each function is the
  sequence of assignments of the source. The predicate \<open>is_list\<close> says that a head and a
  sequence of nodes form a list in both directions; the lemmas lift every operation to that
  sequence. The macros that only add a pointer offset (\<open>container_of\<close>, \<open>list_entry\<close>) are
  the identity on nodes.
\<close>

type_synonym node = u64

record lheap =
  nxt :: "node \<Rightarrow> node"
  prv :: "node \<Rightarrow> node"

definition LIST_POISON1 :: node where "LIST_POISON1 = 0x00100100"
definition LIST_POISON2 :: node where "LIST_POISON2 = 0x00200200"

definition set_nxt :: "node \<Rightarrow> node \<Rightarrow> lheap \<Rightarrow> lheap" where
  "set_nxt a v h = h\<lparr>nxt := (nxt h)(a := v)\<rparr>"

definition set_prv :: "node \<Rightarrow> node \<Rightarrow> lheap \<Rightarrow> lheap" where
  "set_prv a v h = h\<lparr>prv := (prv h)(a := v)\<rparr>"

definition INIT_LIST_HEAD :: "node \<Rightarrow> lheap \<Rightarrow> lheap" where
  "INIT_LIST_HEAD l h = set_prv l l (set_nxt l l h)"

definition list_add_between :: "node \<Rightarrow> node \<Rightarrow> node \<Rightarrow> lheap \<Rightarrow> lheap" where
  "list_add_between new prev next h =
     (let h = set_prv next new h;
          h = set_nxt new next h;
          h = set_prv new prev h
      in set_nxt prev new h)"

definition list_add :: "node \<Rightarrow> node \<Rightarrow> lheap \<Rightarrow> lheap" where
  "list_add new head h = list_add_between new head (nxt h head) h"

definition list_add_tail :: "node \<Rightarrow> node \<Rightarrow> lheap \<Rightarrow> lheap" where
  "list_add_tail new head h = list_add_between new (prv h head) head h"

definition list_del_between :: "node \<Rightarrow> node \<Rightarrow> lheap \<Rightarrow> lheap" where
  "list_del_between prev next h = set_nxt prev next (set_prv next prev h)"

definition list_del :: "node \<Rightarrow> lheap \<Rightarrow> lheap" where
  "list_del entry h =
     (let h = list_del_between (prv h entry) (nxt h entry) h;
          h = set_nxt entry LIST_POISON1 h
      in set_prv entry LIST_POISON2 h)"

definition list_replace :: "node \<Rightarrow> node \<Rightarrow> lheap \<Rightarrow> lheap" where
  "list_replace old new h =
     (let h = set_nxt new (nxt h old) h;
          h = set_prv (nxt h new) new h;
          h = set_prv new (prv h old) h
      in set_nxt (prv h new) new h)"

definition list_replace_init :: "node \<Rightarrow> node \<Rightarrow> lheap \<Rightarrow> lheap" where
  "list_replace_init old new h = INIT_LIST_HEAD old (list_replace old new h)"

definition list_del_init :: "node \<Rightarrow> lheap \<Rightarrow> lheap" where
  "list_del_init entry h = INIT_LIST_HEAD entry (list_del_between (prv h entry) (nxt h entry) h)"

definition list_move :: "node \<Rightarrow> node \<Rightarrow> lheap \<Rightarrow> lheap" where
  "list_move l head h = list_add l head (list_del_between (prv h l) (nxt h l) h)"

definition list_move_tail :: "node \<Rightarrow> node \<Rightarrow> lheap \<Rightarrow> lheap" where
  "list_move_tail l head h = list_add_tail l head (list_del_between (prv h l) (nxt h l) h)"

definition list_is_last :: "node \<Rightarrow> node \<Rightarrow> lheap \<Rightarrow> bool" where
  "list_is_last l head h \<longleftrightarrow> nxt h l = head"

definition list_empty :: "node \<Rightarrow> lheap \<Rightarrow> bool" where
  "list_empty head h \<longleftrightarrow> nxt h head = head"

definition list_empty_careful :: "node \<Rightarrow> lheap \<Rightarrow> bool" where
  "list_empty_careful head h \<longleftrightarrow> (let next = nxt h head in next = head \<and> next = prv h head)"

definition list_is_singular :: "node \<Rightarrow> lheap \<Rightarrow> bool" where
  "list_is_singular head h \<longleftrightarrow> \<not> list_empty head h \<and> nxt h head = prv h head"

definition list_cut_position_raw :: "node \<Rightarrow> node \<Rightarrow> node \<Rightarrow> lheap \<Rightarrow> lheap" where
  "list_cut_position_raw l head entry h =
     (let new_first = nxt h entry;
          h = set_nxt l (nxt h head) h;
          h = set_prv (nxt h l) l h;
          h = set_prv l entry h;
          h = set_nxt entry l h;
          h = set_nxt head new_first h
      in set_prv new_first head h)"

definition list_cut_position :: "node \<Rightarrow> node \<Rightarrow> node \<Rightarrow> lheap \<Rightarrow> lheap" where
  "list_cut_position l head entry h =
     (if list_empty head h then h
      else if list_is_singular head h \<and> nxt h head \<noteq> entry \<and> head \<noteq> entry then h
      else if entry = head then INIT_LIST_HEAD l h
      else list_cut_position_raw l head entry h)"

definition list_splice_between :: "node \<Rightarrow> node \<Rightarrow> node \<Rightarrow> lheap \<Rightarrow> lheap" where
  "list_splice_between l prev next h =
     (let first = nxt h l;
          last = prv h l;
          h = set_prv first prev h;
          h = set_nxt prev first h;
          h = set_nxt last next h
      in set_prv next last h)"

definition list_splice :: "node \<Rightarrow> node \<Rightarrow> lheap \<Rightarrow> lheap" where
  "list_splice l head h =
     (if \<not> list_empty l h then list_splice_between l head (nxt h head) h else h)"

definition list_splice_tail :: "node \<Rightarrow> node \<Rightarrow> lheap \<Rightarrow> lheap" where
  "list_splice_tail l head h =
     (if \<not> list_empty l h then list_splice_between l (prv h head) head h else h)"

definition list_splice_init :: "node \<Rightarrow> node \<Rightarrow> lheap \<Rightarrow> lheap" where
  "list_splice_init l head h =
     (if \<not> list_empty l h
      then INIT_LIST_HEAD l (list_splice_between l head (nxt h head) h) else h)"

definition list_splice_tail_init :: "node \<Rightarrow> node \<Rightarrow> lheap \<Rightarrow> lheap" where
  "list_splice_tail_init l head h =
     (if \<not> list_empty l h
      then INIT_LIST_HEAD l (list_splice_between l (prv h head) head h) else h)"

definition list_first_entry :: "node \<Rightarrow> lheap \<Rightarrow> node" where
  "list_first_entry head h = nxt h head"

definition list_last_entry :: "node \<Rightarrow> lheap \<Rightarrow> node" where
  "list_last_entry head h = prv h head"

text \<open>
  The iteration macros visit the nodes from \<open>pos\<close> until the head comes back. On a broken list
  the loop need not end, hence the option.
\<close>

partial_function (option) list_from :: "node \<Rightarrow> node \<Rightarrow> lheap \<Rightarrow> node list option" where
  "list_from head pos h =
     (if pos \<noteq> head then Option.bind (list_from head (nxt h pos) h) (\<lambda>r. Some (pos # r)) else Some [])"

definition list_for_each :: "node \<Rightarrow> lheap \<Rightarrow> node list option" where
  "list_for_each head h = list_from head (nxt h head) h"

partial_function (option) list_from_prev :: "node \<Rightarrow> node \<Rightarrow> lheap \<Rightarrow> node list option" where
  "list_from_prev head pos h =
     (if pos \<noteq> head then Option.bind (list_from_prev head (prv h pos) h) (\<lambda>r. Some (pos # r)) else Some [])"

definition list_for_each_prev :: "node \<Rightarrow> lheap \<Rightarrow> node list option" where
  "list_for_each_prev head h = list_from_prev head (prv h head) h"

definition fifo_in :: "node \<Rightarrow> node \<Rightarrow> lheap \<Rightarrow> lheap" where
  "fifo_in new head h = list_add_tail new head h"

definition fifo_out :: "node \<Rightarrow> lheap \<Rightarrow> node \<times> lheap" where
  "fifo_out head h = (let l = nxt h head in (l, list_del l h))"

definition fifo_empty :: "node \<Rightarrow> lheap \<Rightarrow> bool" where
  "fifo_empty head h = list_empty head h"

subsection \<open>Chains\<close>

lemma set_nxt_sel [simp]:
  "nxt (set_nxt a v h) x = (if x = a then v else nxt h x)" "prv (set_nxt a v h) = prv h"
  by (simp_all add: set_nxt_def)

lemma set_prv_sel [simp]:
  "prv (set_prv a v h) x = (if x = a then v else prv h x)" "nxt (set_prv a v h) = nxt h"
  by (simp_all add: set_prv_def)

fun chain :: "lheap \<Rightarrow> node list \<Rightarrow> bool" where
  "chain h (a # b # xs) \<longleftrightarrow> nxt h a = b \<and> prv h b = a \<and> chain h (b # xs)"
| "chain h _ \<longleftrightarrow> True"

definition is_list :: "lheap \<Rightarrow> node \<Rightarrow> node list \<Rightarrow> bool" where
  "is_list h head xs \<longleftrightarrow> distinct (head # xs) \<and> chain h (head # xs @ [head])"

lemma chain_split: "chain h (as @ b # cs) \<longleftrightarrow> chain h (as @ [b]) \<and> chain h (b # cs)"
  by (induction h as rule: chain.induct) (auto simp: neq_Nil_conv elim: chain.elims)

lemma chain_prefix: "chain h (xs @ ys) \<Longrightarrow> chain h xs"
  by (induction h xs rule: chain.induct) auto

lemma chain_Cons:
  "xs \<noteq> [] \<Longrightarrow> chain h (p # xs) \<longleftrightarrow> nxt h p = hd xs \<and> prv h (hd xs) = p \<and> chain h xs"
  by (cases xs) auto

lemma chain_join:
  "xs \<noteq> [] \<Longrightarrow> chain h (xs @ n # bs) \<longleftrightarrow>
    chain h xs \<and> nxt h (last xs) = n \<and> prv h n = last xs \<and> chain h (n # bs)"
  by (induction h xs rule: chain.induct) auto

lemma chain_cong:
  "(\<forall>x \<in> set (butlast L). nxt h' x = nxt h x) \<Longrightarrow> (\<forall>x \<in> set (tl L). prv h' x = prv h x) \<Longrightarrow>
   chain h' L = chain h L"
  by (induction h L rule: chain.induct) auto


subsection \<open>Insertion and removal in a chain\<close>

lemma chain_insert:
  assumes "chain h (as @ p # n # bs)" "distinct (as @ [p])" "distinct (n # bs)"
    and "p \<notin> set (butlast (n # bs))" "n \<notin> set (tl (as @ [p]))"
    and "new \<notin> set (as @ p # n # bs)"
  shows "chain (list_add_between new p n h) (as @ p # new # n # bs)"
proof -
  let ?h = "list_add_between new p n h"
  have c: "chain h (as @ [p])" "chain h (n # bs)"
    using assms(1) chain_split[of h as p "n # bs"] by auto
  have "chain ?h (as @ [p]) = chain h (as @ [p])"
    using assms(2,5,6)
    by (intro chain_cong) (auto simp: list_add_between_def dest: list.set_sel(2)[rotated])
  moreover have "chain ?h (n # bs) = chain h (n # bs)"
    using assms(3,4,6) by (intro chain_cong) (auto simp: list_add_between_def dest: in_set_butlastD)
  moreover have "nxt ?h p = new" "nxt ?h new = n" "prv ?h new = p" "prv ?h n = new"
    using assms(6) by (auto simp: list_add_between_def)
  ultimately show ?thesis
    using c chain_split[of ?h as p "new # n # bs"] by simp
qed

lemma chain_remove:
  assumes "chain h (as @ p # e # n # bs)" "distinct (as @ [p])" "distinct (n # bs)"
    and "p \<notin> set (butlast (n # bs))" "n \<notin> set (tl (as @ [p]))"
  shows "chain (list_del_between p n h) (as @ p # n # bs)"
proof -
  let ?h = "list_del_between p n h"
  have c: "chain h (as @ [p])" "chain h (n # bs)"
    using assms(1) chain_split[of h as p "e # n # bs"] by auto
  have "chain ?h (as @ [p]) = chain h (as @ [p])"
    using assms(2,5)
    by (intro chain_cong) (auto simp: list_del_between_def)
  moreover have "chain ?h (n # bs) = chain h (n # bs)"
    using assms(3,4) by (intro chain_cong) (auto simp: list_del_between_def)
  moreover have "nxt ?h p = n" "prv ?h n = p"
    by (auto simp: list_del_between_def)
  ultimately show ?thesis
    using c chain_split[of ?h as p "n # bs"] by simp
qed

text \<open>An operation that leaves the pointers of a list's nodes alone leaves the list alone.\<close>

lemma is_list_frame:
  assumes "is_list h head xs" "\<And>x. x \<in> set (head # xs) \<Longrightarrow> nxt h' x = nxt h x \<and> prv h' x = prv h x"
  shows "is_list h' head xs"
proof -
  have "chain h' (head # xs @ [head]) = chain h (head # xs @ [head])"
    by (rule chain_cong) (use assms(2) in \<open>auto dest: in_set_butlastD\<close>)
  with assms(1) show ?thesis by (simp add: is_list_def)
qed

lemma is_list_INIT: "is_list (INIT_LIST_HEAD l h) l []"
  by (simp add: is_list_def INIT_LIST_HEAD_def)

text \<open>Neighbours in a list.\<close>

lemma is_list_at:
  assumes "is_list h head (ys @ e # zs)"
  shows "prv h e = last (head # ys)" "nxt h e = hd (zs @ [head])"
proof -
  obtain as p where ap: "head # ys = as @ [p]" by (metis append_butlast_last_id list.distinct(1))
  obtain n bs where nb: "zs @ [head] = n # bs" by (cases zs) auto
  have "chain h (as @ p # e # n # bs)"
    using assms ap nb unfolding is_list_def by (metis append.assoc append_Cons append_Nil)
  then have "chain h (p # e # n # bs)" using chain_split[of h as p "e # n # bs"] by blast
  then show "prv h e = last (head # ys)" "nxt h e = hd (zs @ [head])"
    unfolding ap nb by simp_all
qed

lemma is_list_head:
  assumes "is_list h head xs"
  shows "nxt h head = hd (xs @ [head])" "prv h head = last (head # xs)"
proof -
  obtain as p where ap: "head # xs = as @ [p]" by (metis append_butlast_last_id list.distinct(1))
  have "chain h (as @ [p, head])" using assms ap unfolding is_list_def
    by (metis append.assoc append_Cons append_Nil)
  then have "chain h [p, head]" using chain_split[of h as p "[head]"] by blast
  then show "prv h head = last (head # xs)" unfolding ap by simp
  show "nxt h head = hd (xs @ [head])" using assms by (cases xs) (auto simp: is_list_def)
qed

lemma list_empty_iff: "is_list h head xs \<Longrightarrow> list_empty head h \<longleftrightarrow> xs = []"
  using is_list_head(1)[of h head xs] by (cases xs) (auto simp: list_empty_def is_list_def)

lemma list_last_entry_eq:
  "is_list h head xs \<Longrightarrow> xs \<noteq> [] \<Longrightarrow> list_last_entry head h = last xs"
  using is_list_head(2)[of h head xs] by (simp add: list_last_entry_def)

lemma list_first_entry_eq:
  "is_list h head xs \<Longrightarrow> xs \<noteq> [] \<Longrightarrow> list_first_entry head h = hd xs"
  using is_list_head(1)[of h head xs] by (simp add: list_first_entry_def)

lemma list_is_singular_iff:
  assumes "is_list h head xs" shows "list_is_singular head h \<longleftrightarrow> length xs = 1"
  using assms is_list_head[OF assms] list_empty_iff[OF assms]
  by (cases xs rule: rev_cases; cases xs)
    (auto simp: list_is_singular_def is_list_def hd_append split: if_splits dest: hd_in_set)

subsection \<open>The operations on sequences\<close>

lemma list_add_spec:
  assumes "is_list h head xs" "new \<notin> set (head # xs)"
  shows "is_list (list_add new head h) head (new # xs)"
proof -
  obtain n bs where nb: "xs @ [head] = n # bs" by (cases xs) auto
  have "chain (list_add_between new head n h) ([] @ head # new # n # bs)"
  proof (rule chain_insert)
    show "distinct (n # bs)" unfolding nb[symmetric] using assms by (auto simp: is_list_def)
    show "head \<notin> set (butlast (n # bs))" unfolding nb[symmetric] using assms by (auto simp: is_list_def)
    have "set (n # bs) = set (head # xs)" unfolding nb[symmetric] by auto
    then show "new \<notin> set ([] @ head # n # bs)" using assms by auto
  qed (use assms nb in \<open>auto simp: is_list_def\<close>)
  moreover have "nxt h head = n" using is_list_head(1)[OF assms(1)] nb by simp
  ultimately show ?thesis
    using assms nb by (auto simp: is_list_def list_add_def)
qed

lemma list_add_tail_spec:
  assumes "is_list h head xs" "new \<notin> set (head # xs)"
  shows "is_list (list_add_tail new head h) head (xs @ [new])"
proof -
  obtain as p where ap: "head # xs = as @ [p]" by (metis append_butlast_last_id list.distinct(1))
  have d: "distinct (head # xs)" using assms(1) by (simp add: is_list_def)
  have "chain (list_add_between new p head h) (as @ p # new # head # [])"
  proof (rule chain_insert)
    show "chain h (as @ p # head # [])"
      using assms(1) ap unfolding is_list_def by (metis append.assoc append_Cons append_Nil)
    show "distinct (as @ [p])" using d ap by simp
    show "head \<notin> set (tl (as @ [p]))" using d unfolding ap[symmetric] by simp
    have "set (as @ [p]) = set (head # xs)" unfolding ap ..
    then show "new \<notin> set (as @ p # head # [])" using assms(2) by auto
  qed auto
  moreover have "prv h head = p" using is_list_head(2)[OF assms(1)] ap by simp
  moreover have "as @ p # new # head # [] = head # xs @ [new, head]"
    using ap by (metis append.assoc append_Cons append_Nil)
  ultimately show ?thesis
    using assms d by (auto simp: is_list_def list_add_tail_def)
qed

lemma list_del_between_spec:
  assumes "is_list h head (ys @ e # zs)"
  shows "is_list (list_del_between (prv h e) (nxt h e) h) head (ys @ zs)"
proof -
  obtain as p where ap: "head # ys = as @ [p]" by (metis append_butlast_last_id list.distinct(1))
  obtain n bs where nb: "zs @ [head] = n # bs" by (cases zs) auto
  have d: "distinct (head # ys @ e # zs)" using assms by (simp add: is_list_def)
  have e: "prv h e = p" "nxt h e = n" using is_list_at[OF assms] ap nb by simp_all
  have sa: "set (as @ [p]) = set (head # ys)" unfolding ap ..
  have "chain (list_del_between p n h) (as @ p # n # bs)"
  proof (rule chain_remove)
    show "chain h (as @ p # e # n # bs)"
      using assms ap nb unfolding is_list_def by (metis append.assoc append_Cons append_Nil)
    show "distinct (as @ [p])" using d unfolding ap[symmetric] by simp
    show "distinct (n # bs)" using d unfolding nb[symmetric] by auto
    have "butlast (n # bs) = zs" unfolding nb[symmetric] by simp
    moreover have "p \<in> set (head # ys)" using sa by auto
    ultimately show "p \<notin> set (butlast (n # bs))" using d by auto
    have "tl (as @ [p]) = ys" unfolding ap[symmetric] by simp
    moreover have "n \<in> set (zs @ [head])" unfolding nb by simp
    ultimately show "n \<notin> set (tl (as @ [p]))" using d by auto
  qed
  moreover have "as @ p # n # bs = head # (ys @ zs) @ [head]"
    using ap nb by (metis append.assoc append_Cons append_Nil)
  ultimately show ?thesis using d by (simp add: is_list_def e)
qed

lemma list_del_spec:
  assumes "is_list h head (ys @ e # zs)"
  shows "is_list (list_del e h) head (ys @ zs)"
proof (rule is_list_frame[OF list_del_between_spec[OF assms]])
  fix x assume "x \<in> set (head # ys @ zs)"
  then have "x \<noteq> e" using assms by (auto simp: is_list_def)
  then show "nxt (list_del e h) x = nxt (list_del_between (prv h e) (nxt h e) h) x \<and>
      prv (list_del e h) x = prv (list_del_between (prv h e) (nxt h e) h) x"
    by (simp add: list_del_def)
qed


lemma list_del_init_spec:
  assumes "is_list h head (ys @ e # zs)"
  shows "is_list (list_del_init e h) head (ys @ zs)" "is_list (list_del_init e h) e []"
proof -
  show "is_list (list_del_init e h) head (ys @ zs)"
    by (rule is_list_frame[OF list_del_between_spec[OF assms]])
      (use assms in \<open>auto simp: list_del_init_def INIT_LIST_HEAD_def is_list_def\<close>)
  show "is_list (list_del_init e h) e []" by (simp add: list_del_init_def is_list_INIT)
qed

lemma list_move_spec:
  assumes "is_list h head (ys @ e # zs)"
  shows "is_list (list_move e head h) head (e # ys @ zs)"
    and "is_list (list_move_tail e head h) head (ys @ zs @ [e])"
proof -
  note d = list_del_between_spec[OF assms]
  have e: "e \<notin> set (head # ys @ zs)" using assms by (auto simp: is_list_def)
  from list_add_spec[OF d e] show "is_list (list_move e head h) head (e # ys @ zs)"
    by (simp add: list_move_def)
  from list_add_tail_spec[OF d e] show "is_list (list_move_tail e head h) head (ys @ zs @ [e])"
    by (simp add: list_move_tail_def)
qed

lemma list_replace_spec:
  assumes "is_list h head (ys @ e # zs)" "new \<notin> set (head # ys @ e # zs)"
  shows "is_list (list_replace e new h) head (ys @ new # zs)"
proof -
  obtain as p where ap: "head # ys = as @ [p]" by (metis append_butlast_last_id list.distinct(1))
  obtain n bs where nb: "zs @ [head] = n # bs" by (cases zs) auto
  have d: "distinct (head # ys @ e # zs)" using assms by (simp add: is_list_def)
  have e: "prv h e = p" "nxt h e = n" using is_list_at[OF assms(1)] ap nb by simp_all
  have sa: "set (as @ [p]) = set (head # ys)" "set (n # bs) = set (zs @ [head])"
    unfolding ap nb by simp_all
  have bt: "tl (as @ [p]) = ys" "butlast (n # bs) = zs"
    unfolding ap[symmetric] nb[symmetric] by simp_all
  have dp: "distinct (as @ [p])" unfolding ap[symmetric] using d by simp
  have dn: "distinct (n # bs)" unfolding nb[symmetric] using d by auto
  have in_p: "p \<in> set (head # ys)" using sa(1) by auto
  have in_n: "n \<in> set (zs @ [head])" using sa(2) by auto
  have ne: "e \<noteq> n" "new \<noteq> n" "new \<noteq> e" "new \<noteq> p" "e \<noteq> new" "n \<noteq> new"
    using d assms(2) in_p in_n by auto
  have r: "nxt (list_replace e new h) x = (if x = p then new else if x = new then n else nxt h x)"
    "prv (list_replace e new h) x = (if x = new then p else if x = n then new else prv h x)" for x
    using e ne by (simp_all add: list_replace_def Let_def)
  have c: "chain h (as @ p # e # n # bs)"
    using assms(1) ap nb unfolding is_list_def by (metis append.assoc append_Cons append_Nil)
  have as: "new \<notin> set (as @ [p])" "new \<notin> set (n # bs)" unfolding sa using assms(2) by auto
  have "chain (list_replace e new h) (as @ [p]) = chain h (as @ [p])"
  proof (rule chain_cong)
    show "\<forall>x \<in> set (butlast (as @ [p])). nxt (list_replace e new h) x = nxt h x"
      using dp as by (auto simp: r)
    show "\<forall>x \<in> set (tl (as @ [p])). prv (list_replace e new h) x = prv h x"
      unfolding bt using assms(2) in_n d by (auto simp: r)
  qed
  moreover have "chain (list_replace e new h) (n # bs) = chain h (n # bs)"
  proof (rule chain_cong)
    show "\<forall>x \<in> set (butlast (n # bs)). nxt (list_replace e new h) x = nxt h x"
      unfolding bt using assms(2) in_p d by (auto simp: r)
    show "\<forall>x \<in> set (tl (n # bs)). prv (list_replace e new h) x = prv h x"
      using dn as by (auto simp: r)
  qed
  moreover have "chain h (as @ [p])" "chain h (n # bs)"
    using c chain_split[of h as p "e # n # bs"] by auto
  moreover have "new \<noteq> p" "new \<noteq> n" using as by auto
  ultimately have "chain (list_replace e new h) (as @ p # new # n # bs)"
    using chain_split[of "list_replace e new h" as p "new # n # bs"] by (simp add: r)
  moreover have "as @ p # new # n # bs = head # (ys @ new # zs) @ [head]"
    using ap nb by (metis append.assoc append_Cons append_Nil)
  ultimately show ?thesis using d assms(2) by (auto simp: is_list_def)
qed

lemma list_for_each_spec: "is_list h head xs \<Longrightarrow> list_for_each head h = Some xs"
proof -
  have "list_from head (hd (zs @ [head])) h = Some zs"
    if "is_list h head xs" "xs = ys @ zs" for ys zs
    using that
  proof (induction zs arbitrary: ys)
    case Nil
    then show ?case by (simp add: list_from.simps)
  next
    case (Cons z zs)
    have "list_from head (hd (zs @ [head])) h = Some zs"
      using Cons.IH[of "ys @ [z]"] Cons.prems by simp
    moreover have "nxt h z = hd (zs @ [head])" "z \<noteq> head"
      using is_list_at(2)[of h head ys z zs] Cons.prems by (auto simp: is_list_def)
    ultimately show ?case by (subst list_from.simps) simp
  qed
  from this[of "[]" xs] show "is_list h head xs \<Longrightarrow> list_for_each head h = Some xs"
    using is_list_head(1)[of h head xs] by (simp add: list_for_each_def)
qed

lemma list_for_each_prev_spec: "is_list h head xs \<Longrightarrow> list_for_each_prev head h = Some (rev xs)"
proof -
  have "list_from_prev head (last (head # ys)) h = Some (rev ys)"
    if "is_list h head xs" "xs = ys @ zs" for ys zs
    using that
  proof (induction ys arbitrary: zs rule: rev_induct)
    case Nil
    then show ?case by (simp add: list_from_prev.simps)
  next
    case (snoc y ys)
    have "list_from_prev head (last (head # ys)) h = Some (rev ys)"
      using snoc.IH[of "y # zs"] snoc.prems by simp
    moreover have "prv h y = last (head # ys)" "y \<noteq> head"
      using is_list_at(1)[of h head ys y zs] snoc.prems by (auto simp: is_list_def)
    ultimately show ?case by (subst list_from_prev.simps) simp
  qed
  from this[of xs "[]"] show "is_list h head xs \<Longrightarrow> list_for_each_prev head h = Some (rev xs)"
    using is_list_head(2)[of h head xs] by (simp add: list_for_each_prev_def)
qed


subsection \<open>Splicing and cutting\<close>

lemma set_tl_snoc: "set (tl (as @ [p])) \<subseteq> set as \<union> {p}"
  by (cases as) auto

lemma chain_splice:
  assumes "chain h (as @ p # n # bs)" "distinct (as @ [p])" "distinct (n # bs)"
    and "p \<notin> set (butlast (n # bs))" "n \<notin> set (tl (as @ [p]))"
    and "is_list h l xs" "xs \<noteq> []" "set (l # xs) \<inter> set (as @ p # n # bs) = {}"
  shows "chain (list_splice_between l p n h) (as @ p # xs @ n # bs)"
proof -
  let ?h = "list_splice_between l p n h"
  have d: "distinct (l # xs)" using assms(6) by (simp add: is_list_def)
  have fl: "nxt h l = hd xs" "prv h l = last xs"
    using is_list_head[OF assms(6)] assms(7) by simp_all
  have hl: "hd xs \<in> set xs" "last xs \<in> set xs" using assms(7) by simp_all
  have r: "nxt ?h x = (if x = last xs then n else if x = p then hd xs else nxt h x)"
    "prv ?h x = (if x = n then last xs else if x = hd xs then p else prv h x)" for x
    by (simp_all add: list_splice_between_def Let_def fl)
  have c: "chain h (as @ [p])" "chain h (n # bs)"
    using assms(1) chain_split[of h as p "n # bs"] by auto
  have "chain ?h (as @ [p]) = chain h (as @ [p])"
    using assms(2,5,8) hl set_tl_snoc[of as p]
    by (intro chain_cong) (auto simp: r)
  moreover have "chain ?h (n # bs) = chain h (n # bs)"
    using assms(3,4,8) hl by (intro chain_cong) (auto simp: r dest: in_set_butlastD)
  moreover have "chain ?h xs = chain h xs"
  proof (rule chain_cong)
    have "distinct (butlast xs @ [last xs])" using d assms(7) by simp
    then have "last xs \<notin> set (butlast xs)" "p \<notin> set xs" using assms(8) by auto
    then show "\<forall>x \<in> set (butlast xs). nxt ?h x = nxt h x" by (auto simp: r dest: in_set_butlastD)
    have "hd xs \<notin> set (tl xs)" "n \<notin> set xs" using d assms(7,8) by (cases xs; auto)+
    then show "\<forall>x \<in> set (tl xs). prv ?h x = prv h x"
      using assms(7) by (auto simp: r dest: list.set_sel(2)[rotated])
  qed
  moreover have "chain h xs"
  proof -
    have "chain h (xs @ [l])" using assms(6,7) by (cases xs) (auto simp: is_list_def)
    then show ?thesis by (rule chain_prefix)
  qed
  moreover have x: "chain ?h (p # xs @ n # bs) \<longleftrightarrow> nxt ?h p = hd xs \<and> prv ?h (hd xs) = p \<and>
      chain ?h xs \<and> nxt ?h (last xs) = n \<and> prv ?h n = last xs \<and> chain ?h (n # bs)"
    using assms(7) by (simp add: chain_Cons chain_join)
  moreover have "p \<noteq> last xs" "n \<noteq> hd xs" "p \<noteq> hd xs" using assms(8) hl by auto
  ultimately show ?thesis
    using c chain_split[of ?h as p "xs @ n # bs"] by (simp add: r)
qed

lemma list_splice_spec:
  assumes "is_list h head ys" "is_list h l xs" "set (l # xs) \<inter> set (head # ys) = {}"
  shows "is_list (list_splice l head h) head (xs @ ys)"
proof (cases "xs = []")
  case True
  with assms list_empty_iff[OF assms(2)] show ?thesis by (simp add: list_splice_def)
next
  case False
  obtain n bs where nb: "ys @ [head] = n # bs" by (cases ys) auto
  have "chain (list_splice_between l head n h) ([] @ head # xs @ n # bs)"
  proof (rule chain_splice[OF _ _ _ _ _ assms(2) False])
    show "distinct (n # bs)" unfolding nb[symmetric] using assms by (auto simp: is_list_def)
    show "head \<notin> set (butlast (n # bs))" unfolding nb[symmetric] using assms by (auto simp: is_list_def)
    have "set (n # bs) = set (head # ys)" unfolding nb[symmetric] by auto
    then show "set (l # xs) \<inter> set ([] @ head # n # bs) = {}" using assms(3) by auto
  qed (use assms nb in \<open>auto simp: is_list_def\<close>)
  moreover have "nxt h head = n" using is_list_head(1)[OF assms(1)] nb by simp
  ultimately show ?thesis
    using assms nb False list_empty_iff[OF assms(2)] by (auto simp: is_list_def list_splice_def)
qed

lemma list_splice_tail_spec:
  assumes "is_list h head ys" "is_list h l xs" "set (l # xs) \<inter> set (head # ys) = {}"
  shows "is_list (list_splice_tail l head h) head (ys @ xs)"
proof (cases "xs = []")
  case True
  with assms list_empty_iff[OF assms(2)] show ?thesis by (simp add: list_splice_tail_def)
next
  case False
  obtain as p where ap: "head # ys = as @ [p]" by (metis append_butlast_last_id list.distinct(1))
  have d: "distinct (head # ys)" using assms(1) by (simp add: is_list_def)
  have "chain (list_splice_between l p head h) (as @ p # xs @ head # [])"
  proof (rule chain_splice[OF _ _ _ _ _ assms(2) False])
    show "chain h (as @ p # head # [])"
      using assms(1) ap unfolding is_list_def by (metis append.assoc append_Cons append_Nil)
    show "distinct (as @ [p])" using d ap by simp
    show "head \<notin> set (tl (as @ [p]))" using d unfolding ap[symmetric] by simp
    have "set (as @ p # head # []) = set (as @ [p]) \<union> {head}" by auto
    then show "set (l # xs) \<inter> set (as @ p # head # []) = {}"
      using assms(3) unfolding ap[symmetric] by auto
  qed auto
  moreover have "prv h head = p" using is_list_head(2)[OF assms(1)] ap by simp
  moreover have "as @ p # xs @ head # [] = head # (ys @ xs) @ [head]"
    using ap by (metis append.assoc append_Cons append_Nil)
  ultimately show ?thesis
    using assms d False list_empty_iff[OF assms(2)] by (auto simp: is_list_def list_splice_tail_def)
qed

lemma list_splice_init_spec:
  assumes "is_list h head ys" "is_list h l xs" "set (l # xs) \<inter> set (head # ys) = {}"
  shows "is_list (list_splice_init l head h) head (xs @ ys)" "is_list (list_splice_init l head h) l []"
    and "is_list (list_splice_tail_init l head h) head (ys @ xs)"
    and "is_list (list_splice_tail_init l head h) l []"
proof -
  have l: "l \<notin> set (head # xs @ ys)" using assms by (auto simp: is_list_def)
  show "is_list (list_splice_init l head h) head (xs @ ys)"
    by (rule is_list_frame[OF list_splice_spec[OF assms]])
      (use l in \<open>auto simp: list_splice_init_def list_splice_def INIT_LIST_HEAD_def\<close>)
  show "is_list (list_splice_tail_init l head h) head (ys @ xs)"
    by (rule is_list_frame[OF list_splice_tail_spec[OF assms]])
      (use l in \<open>auto simp: list_splice_tail_init_def list_splice_tail_def INIT_LIST_HEAD_def\<close>)
  show "is_list (list_splice_init l head h) l []" "is_list (list_splice_tail_init l head h) l []"
    using assms(2) list_empty_iff[OF assms(2)]
    by (auto simp: list_splice_init_def list_splice_tail_init_def is_list_INIT)
qed


lemma list_cut_position_spec:
  assumes "is_list h head (ys @ e # zs)" "l \<notin> set (head # ys @ e # zs)"
  shows "is_list (list_cut_position l head e h) l (ys @ [e])"
    and "is_list (list_cut_position l head e h) head zs"
proof -
  let ?h = "list_cut_position l head e h"
  have d: "distinct (head # ys @ e # zs)" using assms(1) by (simp add: is_list_def)
  have "list_is_singular head h \<Longrightarrow> nxt h head = e"
    using list_is_singular_iff[OF assms(1)] is_list_head(1)[OF assms(1)] by (cases ys) auto
  then have raw: "?h = list_cut_position_raw l head e h"
    using list_empty_iff[OF assms(1)] d by (auto simp: list_cut_position_def)
  obtain f bs where fb: "ys @ [e] = f # bs" by (cases ys) auto
  obtain n cs where nc: "zs @ [head] = n # cs" by (cases zs) auto
  have nx: "nxt h head = f" "nxt h e = n"
    using is_list_head(1)[OF assms(1)] is_list_at(2)[OF assms(1)] fb nc by (cases ys; auto)+
  have sf: "set (f # bs) = set (ys @ [e])" "set (n # cs) = set (zs @ [head])"
    unfolding fb nc by simp_all
  have fin: "f \<in> set (ys @ [e])" "n \<in> set (zs @ [head])" using sf by auto
  have lx: "l \<noteq> x" if "x \<in> set (ys @ [e]) \<union> set (zs @ [head])" for x using that assms(2) by auto
  have xy: "x \<noteq> y" if "x \<in> set (ys @ [e])" "y \<in> set (zs @ [head])" for x y
    using that d by auto
  have ne: "l \<noteq> e" "l \<noteq> head" "e \<noteq> head" using assms(2) d by auto
  have ne2: "l \<noteq> f" "l \<noteq> n" "f \<noteq> n" using lx xy fin by blast+
  have r: "nxt ?h x = (if x = head then n else if x = e then l else if x = l then f else nxt h x)"
    "prv ?h x = (if x = n then head else if x = l then e else if x = f then l else prv h x)" for x
    unfolding raw using ne ne2 by (simp_all add: list_cut_position_raw_def Let_def nx)
  have c: "chain h (head # ys @ [e])" "chain h (e # zs @ [head])"
    using assms(1) chain_split[of h "head # ys" e "zs @ [head]"] by (simp_all add: is_list_def)
  have "chain h (f # bs)" "chain h (n # cs)" using c unfolding fb nc by simp_all
  have "chain ?h (f # bs) = chain h (f # bs)"
  proof (rule chain_cong)
    have "butlast (f # bs) = ys" unfolding fb[symmetric] by simp
    then show "\<forall>x \<in> set (butlast (f # bs)). nxt ?h x = nxt h x" using assms(2) d by (auto simp: r)
    have "distinct (f # bs)" unfolding fb[symmetric] using d by simp
    moreover have "n \<notin> set (f # bs)" "l \<notin> set (f # bs)"
      unfolding sf using lx xy fin(2) by blast+
    ultimately show "\<forall>x \<in> set (tl (f # bs)). prv ?h x = prv h x" by (auto simp: r)
  qed
  moreover have "chain ?h (n # cs) = chain h (n # cs)"
  proof (rule chain_cong)
    have "butlast (n # cs) = zs" unfolding nc[symmetric] by simp
    then show "\<forall>x \<in> set (butlast (n # cs)). nxt ?h x = nxt h x" using assms(2) d by (auto simp: r)
    have "distinct (n # cs)" unfolding nc[symmetric] using d by auto
    moreover have "f \<notin> set (n # cs)" "l \<notin> set (n # cs)"
      unfolding sf using lx xy fin(1) by blast+
    ultimately show "\<forall>x \<in> set (tl (n # cs)). prv ?h x = prv h x" by (auto simp: r)
  qed
  ultimately have ch: "chain ?h (f # bs)" "chain ?h (n # cs)"
    using \<open>chain h (f # bs)\<close> \<open>chain h (n # cs)\<close> by simp_all
  have "last (f # bs) = e" by (metis fb last_snoc)
  then have "chain ?h (l # (f # bs) @ [l])"
    using ch(1) ne ne2 chain_join[of "f # bs" ?h l "[]"] by (simp add: r del: last.simps)
  then have "chain ?h (l # (ys @ [e]) @ [l])" unfolding fb .
  then show "is_list ?h l (ys @ [e])" using d assms(2) by (auto simp: is_list_def)
  have "chain ?h (head # zs @ [head])" using ch(2) ne ne2 by (simp add: nc r)
  then show "is_list ?h head zs" using d by (auto simp: is_list_def)
qed

subsection \<open>Queues\<close>

text \<open>
  What a user of a queue relies on: enqueueing appends, dequeueing takes the front. A queue that
  keeps these laws returns its elements in the order they were put in.
\<close>

fun enq_all :: "('a \<Rightarrow> 's \<Rightarrow> 's) \<Rightarrow> 'a list \<Rightarrow> 's \<Rightarrow> 's" where
  "enq_all enq [] s = s"
| "enq_all enq (x # xs) s = enq_all enq xs (enq x s)"

fun deq_n :: "('s \<Rightarrow> 'a \<times> 's) \<Rightarrow> nat \<Rightarrow> 's \<Rightarrow> 'a list \<times> 's" where
  "deq_n deq 0 s = ([], s)"
| "deq_n deq (Suc n) s = (let (x, s) = deq s; (xs, s) = deq_n deq n s in (x # xs, s))"

locale fifo_queue =
  fixes rep :: "'s \<Rightarrow> 'a list \<Rightarrow> bool" and valid :: "'a \<Rightarrow> bool"
    and enq :: "'a \<Rightarrow> 's \<Rightarrow> 's" and deq :: "'s \<Rightarrow> 'a \<times> 's" and is_empty :: "'s \<Rightarrow> bool"
  assumes rep_enq: "rep s xs \<Longrightarrow> valid x \<Longrightarrow> x \<notin> set xs \<Longrightarrow> rep (enq x s) (xs @ [x])"
    and rep_deq: "rep s (x # xs) \<Longrightarrow> fst (deq s) = x \<and> rep (snd (deq s)) xs"
    and rep_empty: "rep s xs \<Longrightarrow> is_empty s \<longleftrightarrow> xs = []"
begin

lemma rep_enq_all:
  "rep s ys \<Longrightarrow> list_all valid xs \<Longrightarrow> distinct (ys @ xs) \<Longrightarrow> rep (enq_all enq xs s) (ys @ xs)"
proof (induction xs arbitrary: s ys)
  case (Cons x xs)
  then show ?case using rep_enq[of s ys x] Cons.IH[of "enq x s" "ys @ [x]"] by simp
qed simp

lemma deq_n_rep: "rep s (xs @ ys) \<Longrightarrow> fst (deq_n deq (length xs) s) = xs \<and> rep (snd (deq_n deq (length xs) s)) ys"
proof (induction xs arbitrary: s)
  case (Cons x xs)
  then have "fst (deq s) = x" "rep (snd (deq s)) (xs @ ys)" using rep_deq[of s x "xs @ ys"] by auto
  with Cons.IH[of "snd (deq s)"] show ?case by (auto simp: Let_def split: prod.splits)
qed simp

lemma fifo_order:
  assumes "rep s []" "list_all valid xs" "distinct xs"
  shows "fst (deq_n deq (length xs) (enq_all enq xs s)) = xs \<and> is_empty (snd (deq_n deq (length xs) (enq_all enq xs s)))"
  using rep_enq_all[of s "[]" xs] deq_n_rep[of "enq_all enq xs s" xs "[]"] assms
    rep_empty[of "snd (deq_n deq (length xs) (enq_all enq xs s))" "[]"] by simp

end

interpretation fifo: fifo_queue "\<lambda>h xs. is_list h head xs" "\<lambda>x. x \<noteq> head" "\<lambda>x. fifo_in x head"
  "fifo_out head" "fifo_empty head" for head
proof
  fix s xs x
  show "is_list s head xs \<Longrightarrow> x \<noteq> head \<Longrightarrow> x \<notin> set xs \<Longrightarrow> is_list (fifo_in x head s) head (xs @ [x])"
    using list_add_tail_spec[of s head xs x] by (simp add: fifo_in_def)
  show "is_list s head (x # xs) \<Longrightarrow> fst (fifo_out head s) = x \<and> is_list (snd (fifo_out head s)) head xs"
    using list_del_spec[of s head "[]" x xs] is_list_head(1)[of s head "x # xs"]
    by (simp add: fifo_out_def Let_def)
  show "is_list s head xs \<Longrightarrow> fifo_empty head s \<longleftrightarrow> xs = []"
    using list_empty_iff[of s head xs] by (simp add: fifo_empty_def)
qed


subsection \<open>Properties\<close>

text \<open>C28: A \<open>fifo\<close> returns the entries in the order in which they were queued: after \<open>fifo_in\<close> of
  any distinct entries on an initialised queue, as many \<open>fifo_out\<close> calls return exactly them, and
  the queue is empty again.\<close>

theorem fifo_returns_in_order:
  assumes "distinct xs" "head \<notin> set xs"
  shows "(fst (deq_n (fifo_out head) (length xs)
      (enq_all (\<lambda>x. fifo_in x head) xs (INIT_LIST_HEAD head h))) = xs) \<and>
    (fifo_empty head (snd (deq_n (fifo_out head) (length xs)
      (enq_all (\<lambda>x. fifo_in x head) xs (INIT_LIST_HEAD head h)))))"
  using fifo.fifo_order[OF is_list_INIT, of head xs h] assms by (auto simp: list_all_iff)

theorem fifo_returns_in_order_witness:
  "fst (deq_n (fifo_out 0x1000) (length [0x2000, 0x3000 :: node])
     (enq_all (\<lambda>x. fifo_in x 0x1000) [0x2000, 0x3000]
     (INIT_LIST_HEAD 0x1000 \<lparr>nxt = (\<lambda>_. 0), prv = (\<lambda>_. 0)\<rparr>))) = [0x2000, 0x3000]"
  by (rule fifo_returns_in_order[THEN conjunct1]) simp_all

text \<open>Moving an entry from one list to another.\<close>

lemma list_move_other_spec:
  assumes "is_list h head ys" "is_list h l (us @ f # ws)" "set (l # us @ f # ws) \<inter> set (head # ys) = {}"
  shows "is_list (list_move f head h) head (f # ys)" "is_list (list_move f head h) l (us @ ws)"
    and "is_list (list_move_tail f head h) head (ys @ [f])" "is_list (list_move_tail f head h) l (us @ ws)"
proof -
  let ?h = "list_del_between (prv h f) (nxt h f) h"
  have "prv h f \<in> set (l # us)" "nxt h f \<in> set (l # ws)"
    using is_list_at[OF assms(2)] by (simp_all only:) (auto simp: hd_append)
  then have "x \<noteq> prv h f" "x \<noteq> nxt h f" if "x \<in> set (head # ys)" for x using assms(3) that by auto
  then have y: "is_list ?h head ys"
    by (intro is_list_frame[OF assms(1)]) (auto simp: list_del_between_def)
  have f: "f \<notin> set (head # ys)" using assms(3) by auto
  have l: "is_list ?h l (us @ ws)" by (rule list_del_between_spec[OF assms(2)])
  have ends: "nxt ?h head \<in> set (head # ys)" "prv ?h head \<in> set (head # ys)"
    using is_list_head[OF y] by (simp_all only:) (cases ys; auto)+
  have x: "x \<noteq> f" "x \<notin> set (head # ys)" if "x \<in> set (l # us @ ws)" for x
    using that assms(2,3) by (auto simp: is_list_def)
  show "is_list (list_move f head h) head (f # ys)" "is_list (list_move_tail f head h) head (ys @ [f])"
    unfolding list_move_def list_move_tail_def by (rule list_add_spec[OF y f], rule list_add_tail_spec[OF y f])
  show "is_list (list_move f head h) l (us @ ws)"
    unfolding list_move_def
    by (rule is_list_frame[OF l]) (use x ends(1) in \<open>auto simp: list_add_def list_add_between_def Let_def\<close>)
  show "is_list (list_move_tail f head h) l (us @ ws)"
    unfolding list_move_tail_def
    by (rule is_list_frame[OF l]) (use x ends(2) in \<open>auto simp: list_add_tail_def list_add_between_def Let_def\<close>)
qed

lemma list_replace_init_spec:
  assumes "is_list h head (ys @ e # zs)" "new \<notin> set (head # ys @ e # zs)"
  shows "is_list (list_replace_init e new h) head (ys @ new # zs)" "is_list (list_replace_init e new h) e []"
proof -
  show "is_list (list_replace_init e new h) head (ys @ new # zs)"
    by (rule is_list_frame[OF list_replace_spec[OF assms]])
      (use assms in \<open>auto simp: list_replace_init_def INIT_LIST_HEAD_def is_list_def\<close>)
  show "is_list (list_replace_init e new h) e []" by (simp add: list_replace_init_def is_list_INIT)
qed

lemma list_cut_at_head:
  assumes "is_list h head (ys @ e # zs)" "new \<notin> set (head # ys @ e # zs)"
  shows "is_list (list_cut_position new head head h) new []"
    and "is_list (list_cut_position new head head h) head (ys @ e # zs)"
proof -
  have cut: "list_cut_position new head head h = INIT_LIST_HEAD new h"
    using list_empty_iff[OF assms(1)] by (simp add: list_cut_position_def)
  show "is_list (list_cut_position new head head h) new []" unfolding cut by (rule is_list_INIT)
  show "is_list (list_cut_position new head head h) head (ys @ e # zs)"
    unfolding cut by (rule is_list_frame[OF assms(1)]) (use assms(2) in \<open>auto simp: INIT_LIST_HEAD_def\<close>)
qed

text \<open>Both iteration macros, forwards over \<open>next\<close> and backwards over \<open>prev\<close>, visit exactly \<open>xs\<close>.\<close>

definition traverses :: "lheap \<Rightarrow> node \<Rightarrow> node list \<Rightarrow> bool" where
  "traverses h head xs \<longleftrightarrow> list_for_each head h = Some xs \<and> list_for_each_prev head h = Some (rev xs)"

lemma traverses_list: "is_list h head xs \<Longrightarrow> traverses h head xs"
  by (simp add: traverses_def list_for_each_spec list_for_each_prev_spec)

text \<open>C10: Every operation of \<open>list.h\<close> that changes a list acts on the sequence of entries as its name
  says, and keeps the pointers of both directions right: on a well-formed list with the entry \<open>e\<close>, a node \<open>new\<close>
  outside it and a second well-formed list of other nodes, the forward and the backward iteration visit
  exactly the expected sequence after adding at the head and at the tail, deleting, deleting with
  reinitialisation, replacing with and without reinitialisation, moving to the head and to the tail
  within a list and from the second list, splicing the second list in at the head and at the tail with and
  without reinitialisation, and cutting off a prefix or nothing; where an operation reinitialises or shortens another
  head or an entry, that one is traversed as the empty or the shortened list. A deleted entry holds the two poison values.\<close>

theorem list_operations_refine_sequences:
  assumes "is_list h head (ys @ e # zs)" "new \<notin> set (head # ys @ e # zs)"
    and "is_list h l xs" "set (l # xs) \<inter> set (head # ys @ e # zs) = {}"
  shows "(traverses h head (ys @ e # zs)) \<and>
    (traverses (list_add new head h) head (new # ys @ e # zs)) \<and>
    (traverses (list_add_tail new head h) head (ys @ e # zs @ [new])) \<and>
    (traverses (list_del e h) head (ys @ zs) \<and> nxt (list_del e h) e = LIST_POISON1 \<and> prv (list_del e h) e = LIST_POISON2) \<and>
    (traverses (list_del_init e h) head (ys @ zs) \<and> traverses (list_del_init e h) e []) \<and>
    (traverses (list_replace e new h) head (ys @ new # zs)) \<and>
    (traverses (list_replace_init e new h) head (ys @ new # zs) \<and> traverses (list_replace_init e new h) e []) \<and>
    (traverses (list_move e head h) head (e # ys @ zs)) \<and>
    (traverses (list_move_tail e head h) head (ys @ zs @ [e])) \<and>
    (\<forall>us f ws. xs = us @ f # ws \<longrightarrow>
       traverses (list_move f head h) head (f # ys @ e # zs) \<and> traverses (list_move f head h) l (us @ ws) \<and>
       traverses (list_move_tail f head h) head (ys @ e # zs @ [f]) \<and> traverses (list_move_tail f head h) l (us @ ws)) \<and>
    (traverses (list_splice l head h) head (xs @ ys @ e # zs)) \<and>
    (traverses (list_splice_tail l head h) head (ys @ e # zs @ xs)) \<and>
    (traverses (list_splice_init l head h) head (xs @ ys @ e # zs) \<and> traverses (list_splice_init l head h) l []) \<and>
    (traverses (list_splice_tail_init l head h) head (ys @ e # zs @ xs) \<and> traverses (list_splice_tail_init l head h) l []) \<and>
    (traverses (list_cut_position new head e h) head zs \<and> traverses (list_cut_position new head e h) new (ys @ [e])) \<and>
    (traverses (list_cut_position new head head h) head (ys @ e # zs) \<and> traverses (list_cut_position new head head h) new [])"
proof (intro conjI allI impI, goal_cases)
  case (14 us f ws)
  then show ?case using list_move_other_spec(1)[OF assms(1), of l us f ws] assms(3,4) by (simp add: traverses_list)
next
  case (15 us f ws)
  then show ?case using list_move_other_spec(2)[OF assms(1), of l us f ws] assms(3,4) by (simp add: traverses_list)
next
  case (16 us f ws)
  then show ?case using list_move_other_spec(3)[OF assms(1), of l us f ws] assms(3,4) by (simp add: traverses_list)
next
  case (17 us f ws)
  then show ?case using list_move_other_spec(4)[OF assms(1), of l us f ws] assms(3,4) by (simp add: traverses_list)
qed (use assms(1) list_add_spec[OF assms(1,2)] list_add_tail_spec[OF assms(1,2)] list_del_spec[OF assms(1)]
    list_del_init_spec[OF assms(1)] list_replace_spec[OF assms(1,2)] list_replace_init_spec[OF assms(1,2)]
    list_move_spec[OF assms(1)] list_splice_spec[OF assms(1,3,4)] list_splice_tail_spec[OF assms(1,3,4)]
    list_splice_init_spec[OF assms(1,3,4)] list_cut_position_spec[OF assms(1,2)] list_cut_at_head[OF assms(1,2)]
    in \<open>simp_all add: traverses_list list_del_def\<close>)

theorem list_operations_refine_sequences_witness:
  "traverses (list_splice 5 1 (list_add 6 5 (INIT_LIST_HEAD 5
     (list_add_tail 3 1 (list_add 2 1 (INIT_LIST_HEAD 1 \<lparr>nxt = (\<lambda>_. 0), prv = (\<lambda>_. 0)\<rparr>)))))) 1 [6, 2, 3]"
proof -
  let ?h0 = "list_add 2 1 (INIT_LIST_HEAD 1 \<lparr>nxt = (\<lambda>_. 0), prv = (\<lambda>_. 0)\<rparr>)"
  let ?h = "list_add 6 5 (INIT_LIST_HEAD 5 (list_add_tail 3 1 ?h0))"
  have "is_list ?h 1 ([] @ 2 # [3])"
    by (simp add: is_list_def list_add_def list_add_tail_def list_add_between_def INIT_LIST_HEAD_def Let_def)
  moreover have "is_list ?h 5 [6]"
    by (simp add: is_list_def list_add_def list_add_tail_def list_add_between_def INIT_LIST_HEAD_def Let_def)
  ultimately show ?thesis
    using list_operations_refine_sequences[of ?h 1 "[]" 2 "[3]" 7 5 "[6]"] by simp
qed

end
