(* ===== verification/Cpu_Msg.thy ===== *)
theory Cpu_Msg
  imports Objpool Linked_Lists
begin

text \<open>
  The inter-processor messages of \<open>core/cpu.c\<close>. A message node is the address of its
  \<open>cpu_msg_node\<close>, whose first field is the list head; \<open>ms_msg\<close> holds the messages of the nodes.
  Each processor has an event list whose head lies in its page of \<open>cpu_interfaces\<close>. The
  handlers (the section \<open>.ipi_cpumsg_handlers\<close>) are an argument: one optional state
  transformer per handler number, \<open>None\<close> for a null pointer. \<open>ms_ipis\<close> records the
  interrupts raised.
\<close>

record cpu_msg =
  cm_handler :: u32
  cm_event :: u32
  cm_data :: u64

record msg_sys =
  ms_heap :: lheap
  ms_msg :: "node \<Rightarrow> cpu_msg"
  ms_pool :: objpool
  ms_ifs :: vaddr_t
  ms_lock :: "nat \<Rightarrow> spinlock"
  ms_ipis :: "nat list"
  ms_handling :: "nat \<Rightarrow> bool"

abbreviation PLAT_CPU_NUM :: nat where "PLAT_CPU_NUM \<equiv> 2"

definition cpu_if :: "vaddr_t \<Rightarrow> nat \<Rightarrow> node" where
  "cpu_if cpu_interfaces c = cpu_interfaces + word_of_nat c * PAGE_SIZE"

abbreviation ev_list :: "msg_sys \<Rightarrow> nat \<Rightarrow> node" where
  "ev_list s c \<equiv> cpu_if (ms_ifs s) c"

definition cpu_init_msgs :: "nat \<Rightarrow> msg_sys \<Rightarrow> msg_sys" where
  "cpu_init_msgs c s = s\<lparr>ms_handling := (ms_handling s)(c := False),
     ms_heap := INIT_LIST_HEAD (ev_list s c) (ms_heap s),
     ms_lock := (ms_lock s)(c := SPINLOCK_INITVAL)\<rparr>"

definition cpu_send_msg :: "nat \<Rightarrow> cpu_msg \<Rightarrow> msg_sys \<Rightarrow> msg_sys res" where
  "cpu_send_msg trgtcpu msg s =
     bindr (objpool_alloc (ms_pool s)) (\<lambda>(node, pool).
       if node = 0 then Inl Error
       else Inr (s\<lparr>ms_pool := pool, ms_msg := (ms_msg s)(node := msg),
                   ms_heap := list_add_tail node (ev_list s trgtcpu) (ms_heap s),
                   ms_ipis := ms_ipis s @ [trgtcpu]\<rparr>))"

definition cpu_get_msg :: "nat \<Rightarrow> msg_sys \<Rightarrow> (cpu_msg option \<times> msg_sys) res" where
  "cpu_get_msg c s =
     (if \<not> list_empty (ev_list s c) (ms_heap s)
      then bindr (spin_lock (ms_lock s c)) (\<lambda>l.
        let node = list_last_entry (ev_list s c) (ms_heap s);
            s = s\<lparr>ms_lock := (ms_lock s)(c := spin_unlock l)\<rparr>;
            msg = ms_msg s node;
            s = s\<lparr>ms_heap := list_del node (ms_heap s)\<rparr>
        in bindr (objpool_free (ms_pool s) node) (\<lambda>pool.
             Inr (Some msg, s\<lparr>ms_pool := pool\<rparr>)))
      else Inr (None, s))"

definition run_handler ::
    "(u32 \<Rightarrow> u64 \<Rightarrow> msg_sys \<Rightarrow> msg_sys) option list \<Rightarrow> cpu_msg \<Rightarrow> msg_sys \<Rightarrow> msg_sys" where
  "run_handler handlers msg s =
     (if unat (cm_handler msg) < length handlers
      then case handlers ! unat (cm_handler msg) of
             None \<Rightarrow> s | Some f \<Rightarrow> f (cm_event msg) (cm_data msg) s
      else s)"

partial_function (option) msg_loop ::
    "(u32 \<Rightarrow> u64 \<Rightarrow> msg_sys \<Rightarrow> msg_sys) option list \<Rightarrow> nat \<Rightarrow> msg_sys \<Rightarrow> msg_sys res option" where
  "msg_loop handlers c s =
     (case cpu_get_msg c s of
        Inl e \<Rightarrow> Some (Inl e)
      | Inr (None, s) \<Rightarrow> Some (Inr s)
      | Inr (Some msg, s) \<Rightarrow> msg_loop handlers c (run_handler handlers msg s))"

definition cpu_msg_handler ::
    "(u32 \<Rightarrow> u64 \<Rightarrow> msg_sys \<Rightarrow> msg_sys) option list \<Rightarrow> nat \<Rightarrow> msg_sys \<Rightarrow> msg_sys res option" where
  "cpu_msg_handler handlers c s =
     map_option (\<lambda>r. bindr r (\<lambda>s. Inr (s\<lparr>ms_handling := (ms_handling s)(c := False)\<rparr>)))
       (msg_loop handlers c (s\<lparr>ms_handling := (ms_handling s)(c := True)\<rparr>))"

subsection \<open>The queues\<close>

text \<open>\<open>q c\<close> lists the nodes in the event list of processor \<open>c\<close>.\<close>

definition msg_rep :: "msg_sys \<Rightarrow> (nat \<Rightarrow> node list) \<Rightarrow> bool" where
  "msg_rep s q \<longleftrightarrow> objpool_ok (ms_pool s) \<and>
     (\<forall>c < PLAT_CPU_NUM. is_list (ms_heap s) (ev_list s c) (q c)) \<and>
     (\<forall>c < PLAT_CPU_NUM. set (q c) \<subseteq> live (ms_pool s)) \<and>
     (\<forall>c < PLAT_CPU_NUM. \<forall>d < PLAT_CPU_NUM. c \<noteq> d \<longrightarrow> set (q c) \<inter> set (q d) = {}) \<and>
     (\<forall>c < PLAT_CPU_NUM. ev_list s c \<notin> slots_of (ms_pool s)) \<and>
     (\<forall>c < PLAT_CPU_NUM. ticket (ms_lock s c) = next_tk (ms_lock s c))"

lemma ev_list_inj: "c < PLAT_CPU_NUM \<Longrightarrow> d < PLAT_CPU_NUM \<Longrightarrow> cpu_if b c = cpu_if b d \<Longrightarrow> c = d"
  by (auto simp: cpu_if_def less_2_cases_iff)

text \<open>Insertion and removal touch no other event list.\<close>

lemma list_add_tail_frame:
  assumes "is_list h l xs" "is_list h head ys" "set (l # xs) \<inter> set (new # head # ys) = {}"
  shows "is_list (list_add_tail new head h) l xs"
proof (rule is_list_frame[OF assms(1)])
  fix x assume "x \<in> set (l # xs)"
  moreover have "prv h head \<in> set (head # ys)" using is_list_head(2)[OF assms(2)] by auto
  ultimately have "x \<noteq> new" "x \<noteq> head" "x \<noteq> prv h head" using assms(3) by auto
  then show "nxt (list_add_tail new head h) x = nxt h x \<and> prv (list_add_tail new head h) x = prv h x"
    by (simp add: list_add_tail_def list_add_between_def Let_def)
qed

lemma list_del_frame:
  assumes "is_list h l xs" "is_list h head (ys @ e # zs)" "set (l # xs) \<inter> set (head # ys @ e # zs) = {}"
  shows "is_list (list_del e h) l xs"
proof (rule is_list_frame[OF assms(1)])
  fix x assume "x \<in> set (l # xs)"
  moreover have "prv h e \<in> set (head # ys)" "nxt h e \<in> set (zs @ [head])"
    using is_list_at[OF assms(2)] by (auto simp: hd_append)
  ultimately have "x \<noteq> e" "x \<noteq> prv h e" "x \<noteq> nxt h e" using assms(3) by auto
  then show "nxt (list_del e h) x = nxt h x \<and> prv (list_del e h) x = prv h x"
    by (simp add: list_del_def list_del_between_def Let_def)
qed

lemma msg_rep_disjoint:
  assumes "msg_rep s q" "c < PLAT_CPU_NUM" "d < PLAT_CPU_NUM" "c \<noteq> d"
  shows "set (ev_list s d # q d) \<inter> set (ev_list s c # q c) = {}"
proof -
  have "set (q c) \<subseteq> slots_of (ms_pool s)" "set (q d) \<subseteq> slots_of (ms_pool s)"
    using assms live_subset unfolding msg_rep_def by blast+
  moreover have "ev_list s c \<notin> slots_of (ms_pool s)" "ev_list s d \<notin> slots_of (ms_pool s)"
    "set (q c) \<inter> set (q d) = {}"
    using assms unfolding msg_rep_def by blast+
  moreover have "ev_list s c \<noteq> ev_list s d" using ev_list_inj assms(2-4) by blast
  ultimately show ?thesis by auto
qed

text \<open>
  Sending appends a node that holds the message; it fails only when every node of the pool is
  in use.
\<close>

lemma cpu_send_msg_spec:
  assumes "msg_rep s q" "t < PLAT_CPU_NUM" "live (ms_pool s) \<noteq> slots_of (ms_pool s)"
  obtains s' n where "cpu_send_msg t m s = Inr s'" "msg_rep s' (q(t := q t @ [n]))"
    "ms_msg s' = (ms_msg s)(n := m)" "n \<notin> live (ms_pool s)" "n \<in> slots_of (ms_pool s)"
    "live (ms_pool s') = insert n (live (ms_pool s))" "slots_of (ms_pool s') = slots_of (ms_pool s)"
    "ms_ipis s' = ms_ipis s @ [t]"
proof -
  have ok: "objpool_ok (ms_pool s)" using assms(1) by (simp add: msg_rep_def)
  obtain n p' where a: "objpool_alloc (ms_pool s) = Inr (n, p')" using objpool_alloc_returns[OF ok] by blast
  note sp = objpool_alloc_spec[OF ok a]
  have n0: "n \<noteq> 0" using sp(3) assms(3) by simp
  then have n: "n \<notin> live (ms_pool s)" "n \<in> slots_of (ms_pool s)" "live p' = insert n (live (ms_pool s))"
    using sp(5) by auto
  let ?s = "s\<lparr>ms_pool := p', ms_msg := (ms_msg s)(n := m),
      ms_heap := list_add_tail n (ev_list s t) (ms_heap s), ms_ipis := ms_ipis s @ [t]\<rparr>"
  have lst: "is_list (ms_heap s) (ev_list s c) (q c)" "set (q c) \<subseteq> live (ms_pool s)"
    "ev_list s c \<notin> slots_of (ms_pool s)" if "c < PLAT_CPU_NUM" for c
    using assms(1) that by (simp_all add: msg_rep_def)
  have fresh: "n \<notin> set (ev_list s c # q c)" if "c < PLAT_CPU_NUM" for c
    using lst(2,3)[OF that] n by auto
  have "is_list (list_add_tail n (ev_list s t) (ms_heap s)) (ev_list s c) ((q(t := q t @ [n])) c)"
    if c: "c < PLAT_CPU_NUM" for c
  proof (cases "c = t")
    case True
    with list_add_tail_spec[OF lst(1)[OF assms(2)] fresh[OF assms(2)]] show ?thesis by simp
  next
    case False
    have "set (ev_list s c # q c) \<inter> set (n # ev_list s t # q t) = {}"
      using msg_rep_disjoint[OF assms(1,2) c] False fresh[OF c] by auto
    from list_add_tail_frame[OF lst(1)[OF c] lst(1)[OF assms(2)] this] False show ?thesis by simp
  qed
  moreover have "set ((q(t := q t @ [n])) c) \<inter> set ((q(t := q t @ [n])) d) = {}"
    if "c < PLAT_CPU_NUM" "d < PLAT_CPU_NUM" "c \<noteq> d" for c d
    using that assms(1) fresh[OF that(1)] fresh[OF that(2)] by (auto simp: msg_rep_def)
  moreover have "set ((q(t := q t @ [n])) c) \<subseteq> live p'" if "c < PLAT_CPU_NUM" for c
    using lst(2)[OF that] n(3) by auto
  ultimately have "msg_rep ?s (q(t := q t @ [n]))"
    using sp(1,2) lst(3) assms(1) by (simp add: msg_rep_def)
  moreover have "cpu_send_msg t m s = Inr ?s" using a n0 by (simp add: cpu_send_msg_def)
  ultimately show ?thesis using n sp(2) that[of ?s n] by simp
qed

text \<open>Fetching removes the last node and frees it.\<close>

lemma cpu_get_msg_spec:
  assumes "msg_rep s q" "c < PLAT_CPU_NUM" "q c = ns @ [n]"
  obtains s' where "cpu_get_msg c s = Inr (Some (ms_msg s n), s')" "msg_rep s' (q(c := ns))"
    "ms_msg s' = ms_msg s" "live (ms_pool s') = live (ms_pool s) - {n}"
    "slots_of (ms_pool s') = slots_of (ms_pool s)" "ms_ipis s' = ms_ipis s"
proof -
  have ok: "objpool_ok (ms_pool s)" using assms(1) by (simp add: msg_rep_def)
  have lst: "is_list (ms_heap s) (ev_list s d) (q d)" "set (q d) \<subseteq> live (ms_pool s)"
    "ev_list s d \<notin> slots_of (ms_pool s)" "ticket (ms_lock s d) = next_tk (ms_lock s d)"
    if "d < PLAT_CPU_NUM" for d
    using assms(1) that by (simp_all add: msg_rep_def)
  have lc: "is_list (ms_heap s) (ev_list s c) (ns @ n # [])" using lst(1)[OF assms(2)] assms(3) by simp
  have nlive: "n \<in> live (ms_pool s)" using lst(2)[OF assms(2)] assms(3) by auto
  then have "n \<in> slots_of (ms_pool s)" using live_subset by blast
  from objpool_free_spec[OF ok this] obtain p' where p': "objpool_free (ms_pool s) n = Inr p'"
    "objpool_ok p'" "live p' = live (ms_pool s) - {n}" "slots_of p' = slots_of (ms_pool s)" by metis
  obtain l where l: "spin_lock (ms_lock s c) = Inr l" "ticket (spin_unlock l) = next_tk (spin_unlock l)"
    using lst(4)[OF assms(2)] spin_lock_free spin_lock_unlock by blast
  let ?s = "s\<lparr>ms_lock := (ms_lock s)(c := spin_unlock l), ms_heap := list_del n (ms_heap s), ms_pool := p'\<rparr>"
  have get: "cpu_get_msg c s = Inr (Some (ms_msg s n), ?s)"
    using list_empty_iff[OF lc] list_last_entry_eq[OF lc] l p'(1)
    by (simp add: cpu_get_msg_def Let_def)
  have "is_list (list_del n (ms_heap s)) (ev_list s d) ((q(c := ns)) d)" if d: "d < PLAT_CPU_NUM" for d
  proof (cases "d = c")
    case True
    with list_del_spec[OF lc] show ?thesis by simp
  next
    case False
    have "set (ev_list s d # q d) \<inter> set (ev_list s c # ns @ n # []) = {}"
      using msg_rep_disjoint[OF assms(1,2) d] False assms(3) by auto
    from list_del_frame[OF lst(1)[OF d] lc this] False show ?thesis by simp
  qed
  moreover have "set ((q(c := ns)) d) \<subseteq> live p'" if d: "d < PLAT_CPU_NUM" for d
  proof (cases "d = c")
    case True
    have "distinct (q c)" using lst(1)[OF assms(2)] by (simp add: is_list_def)
    with True lst(2)[OF assms(2)] assms(3) p'(3) show ?thesis by auto
  next
    case False
    have "n \<notin> set (q d)" using msg_rep_disjoint[OF assms(1,2) d] False assms(3) by auto
    with False lst(2)[OF d] p'(3) show ?thesis by auto
  qed
  moreover have "set ((q(c := ns)) d) \<inter> set ((q(c := ns)) e) = {}"
    if "d < PLAT_CPU_NUM" "e < PLAT_CPU_NUM" "d \<noteq> e" for d e
    using msg_rep_disjoint[OF assms(1) that] assms(3) by (auto split: if_splits)
  ultimately have "msg_rep ?s (q(c := ns))"
    using p'(2,4) lst(3,4) l(2) by (simp add: msg_rep_def)
  with get p'(3,4) that[of ?s] show ?thesis by simp
qed

lemma cpu_get_msg_empty:
  "msg_rep s q \<Longrightarrow> c < PLAT_CPU_NUM \<Longrightarrow> q c = [] \<Longrightarrow> cpu_get_msg c s = Inr (None, s)"
proof -
  assume "msg_rep s q" "c < PLAT_CPU_NUM" "q c = []"
  then have "is_list (ms_heap s) (ev_list s c) []" unfolding msg_rep_def by metis
  then have "list_empty (ev_list s c) (ms_heap s)" by (simp add: list_empty_iff)
  then show "cpu_get_msg c s = Inr (None, s)" by (simp add: cpu_get_msg_def)
qed

subsection \<open>Sequences of messages\<close>

fun send_all :: "nat \<Rightarrow> cpu_msg list \<Rightarrow> msg_sys \<Rightarrow> msg_sys res" where
  "send_all t [] s = Inr s"
| "send_all t (m # ms) s = bindr (cpu_send_msg t m s) (send_all t ms)"

fun get_n :: "nat \<Rightarrow> nat \<Rightarrow> msg_sys \<Rightarrow> (cpu_msg option list \<times> msg_sys) res" where
  "get_n c 0 s = Inr ([], s)"
| "get_n c (Suc n) s = bindr (cpu_get_msg c s) (\<lambda>(m, s). bindr (get_n c n s) (\<lambda>(ms, s). Inr (m # ms, s)))"

lemma send_all_spec:
  assumes "msg_rep s q" "t < PLAT_CPU_NUM" "length ms \<le> card (slots_of (ms_pool s) - live (ms_pool s))"
  shows "\<exists>s' ns. send_all t ms s = Inr s' \<and> msg_rep s' (q(t := q t @ ns)) \<and> map (ms_msg s') ns = ms \<and>
    (\<forall>x \<in> live (ms_pool s). ms_msg s' x = ms_msg s x) \<and> set ns \<inter> live (ms_pool s) = {} \<and>
    live (ms_pool s') = live (ms_pool s) \<union> set ns \<and> slots_of (ms_pool s') = slots_of (ms_pool s) \<and>
    ms_ipis s' = ms_ipis s @ replicate (length ms) t"
  using assms
proof (induction ms arbitrary: s q)
  case Nil
  then show ?case by (intro exI[of _ s] exI[of _ "[]"]) simp
next
  case (Cons m ms)
  have fin: "finite (slots_of (ms_pool s))" by (simp add: slots_of_def)
  have "live (ms_pool s) \<noteq> slots_of (ms_pool s)" using Cons.prems(3) by auto
  from cpu_send_msg_spec[OF Cons.prems(1,2) this, of m] obtain s1 n where
    s1: "cpu_send_msg t m s = Inr s1" "msg_rep s1 (q(t := q t @ [n]))" "ms_msg s1 = (ms_msg s)(n := m)"
    "n \<notin> live (ms_pool s)" "n \<in> slots_of (ms_pool s)" "live (ms_pool s1) = insert n (live (ms_pool s))"
    "slots_of (ms_pool s1) = slots_of (ms_pool s)" "ms_ipis s1 = ms_ipis s @ [t]" by metis
  have "slots_of (ms_pool s1) - live (ms_pool s1) = slots_of (ms_pool s) - live (ms_pool s) - {n}"
    using s1(6,7) by auto
  then have "length ms \<le> card (slots_of (ms_pool s1) - live (ms_pool s1))"
    using Cons.prems(3) s1(4,5) fin by (simp add: card_Diff_singleton)
  from Cons.IH[OF s1(2) Cons.prems(2) this] obtain s' ns where
    s': "send_all t ms s1 = Inr s'" "msg_rep s' (q(t := q t @ [n], t := (q(t := q t @ [n])) t @ ns))"
    "map (ms_msg s') ns = ms" "\<forall>x \<in> live (ms_pool s1). ms_msg s' x = ms_msg s1 x"
    "set ns \<inter> live (ms_pool s1) = {}" "live (ms_pool s') = live (ms_pool s1) \<union> set ns"
    "slots_of (ms_pool s') = slots_of (ms_pool s1)" "ms_ipis s' = ms_ipis s1 @ replicate (length ms) t"
    by blast
  have q: "q(t := q t @ [n], t := (q(t := q t @ [n])) t @ ns) = q(t := q t @ n # ns)" by simp
  show ?case
  proof (intro exI[of _ s'] exI[of _ "n # ns"] conjI)
    show "send_all t (m # ms) s = Inr s'" using s1(1) s'(1) by simp
    show "msg_rep s' (q(t := q t @ n # ns))" using s'(2) unfolding q .
    show "map (ms_msg s') (n # ns) = m # ms" using s'(3,4) s1(3,6) by simp
    show "\<forall>x \<in> live (ms_pool s). ms_msg s' x = ms_msg s x" using s'(4) s1(3,4,6) by auto
    show "set (n # ns) \<inter> live (ms_pool s) = {}" using s'(5) s1(4,6) by auto
    show "live (ms_pool s') = live (ms_pool s) \<union> set (n # ns)" using s'(6) s1(6) by auto
    show "slots_of (ms_pool s') = slots_of (ms_pool s)" using s'(7) s1(7) by simp
    show "ms_ipis s' = ms_ipis s @ replicate (length (m # ms)) t" using s'(8) s1(8) by simp
  qed
qed

lemma get_n_spec:
  assumes "msg_rep s q" "c < PLAT_CPU_NUM" "q c = qs @ ns"
  shows "\<exists>s'. get_n c (length ns) s = Inr (map (\<lambda>n. Some (ms_msg s n)) (rev ns), s') \<and>
    msg_rep s' (q(c := qs)) \<and> live (ms_pool s') = live (ms_pool s) - set ns \<and>
    slots_of (ms_pool s') = slots_of (ms_pool s)"
  using assms
proof (induction ns arbitrary: s q rule: rev_induct)
  case Nil
  then have "q(c := qs) = q" by (auto simp: fun_eq_iff)
  with Nil show ?case by simp
next
  case (snoc n ns)
  then have "q c = (qs @ ns) @ [n]" by simp
  from cpu_get_msg_spec[OF snoc.prems(1,2) this] obtain s1 where
    s1: "cpu_get_msg c s = Inr (Some (ms_msg s n), s1)" "msg_rep s1 (q(c := qs @ ns))"
    "ms_msg s1 = ms_msg s" "live (ms_pool s1) = live (ms_pool s) - {n}"
    "slots_of (ms_pool s1) = slots_of (ms_pool s)" by metis
  have q2: "(q(c := qs @ ns)) c = qs @ ns" by simp
  from snoc.IH[OF s1(2) snoc.prems(2) q2] obtain s' where
    s': "get_n c (length ns) s1 = Inr (map (\<lambda>n. Some (ms_msg s n)) (rev ns), s')"
    "msg_rep s' (q(c := qs))" "live (ms_pool s') = live (ms_pool s1) - set ns"
    "slots_of (ms_pool s') = slots_of (ms_pool s1)"
    unfolding s1(3) fun_upd_upd by blast
  with s1 show ?case by (intro exI[of _ s']) (auto simp del: fun_upd_apply)
qed

subsection \<open>Properties\<close>

text \<open>C29: Messages reach a processor intact but last-in first-out: if the pool has a free node for
  each of them, sending a sequence of messages raises one interrupt per message and the same
  number of fetches returns the messages in reverse order and gives every node back.\<close>

theorem cpu_messages_lifo:
  assumes "msg_rep s q" "t < PLAT_CPU_NUM" "q t = []"
    and "length ms \<le> card (slots_of (ms_pool s) - live (ms_pool s))"
  shows "\<exists>s1 s2. send_all t ms s = Inr s1 \<and> ms_ipis s1 = ms_ipis s @ replicate (length ms) t \<and>
    get_n t (length ms) s1 = Inr (map Some (rev ms), s2) \<and> msg_rep s2 q \<and>
    live (ms_pool s2) = live (ms_pool s) \<and> cpu_get_msg t s2 = Inr (None, s2)"
proof -
  from send_all_spec[OF assms(1,2,4)] assms(3) obtain s1 ns where
    s1: "send_all t ms s = Inr s1" "msg_rep s1 (q(t := ns))" "map (ms_msg s1) ns = ms"
    "set ns \<inter> live (ms_pool s) = {}" "live (ms_pool s1) = live (ms_pool s) \<union> set ns"
    "ms_ipis s1 = ms_ipis s @ replicate (length ms) t" by auto
  have "(q(t := ns)) t = [] @ ns" by simp
  from get_n_spec[OF s1(2) assms(2) this] obtain s2 where
    s2: "get_n t (length ns) s1 = Inr (map (\<lambda>n. Some (ms_msg s1 n)) (rev ns), s2)"
    "msg_rep s2 (q(t := ns, t := []))" "live (ms_pool s2) = live (ms_pool s1) - set ns" by blast
  have q: "q(t := ns, t := []) = q" using assms(3) by (auto simp: fun_eq_iff)
  have "length ns = length ms" "map (\<lambda>n. Some (ms_msg s1 n)) (rev ns) = map Some (rev ms)"
    using s1(3) by (auto simp: rev_map)
  note ms = this
  have rep: "msg_rep s2 q" using s2(2) unfolding q .
  have lv: "live (ms_pool s2) = live (ms_pool s)" using s1(4,5) s2(3) by auto
  show ?thesis
    using s1(1,6) s2(1)[unfolded ms] rep lv cpu_get_msg_empty[OF rep assms(2,3)] by blast
qed


definition sample_msgs :: msg_sys where
  "sample_msgs = cpu_init_msgs 1 (cpu_init_msgs 0 \<lparr>ms_heap = \<lparr>nxt = (\<lambda>_. 0), prv = (\<lambda>_. 0)\<rparr>,
     ms_msg = (\<lambda>_. \<lparr>cm_handler = 0, cm_event = 0, cm_data = 0\<rparr>), ms_pool = sample_objpool 0, ms_ifs = 0x8000,
     ms_lock = (\<lambda>_. SPINLOCK_INITVAL), ms_ipis = [], ms_handling = (\<lambda>_. False)\<rparr>)"

lemma sample_slots: "slots_of (sample_objpool w) = {0x1000, 0x1020, 0x1040, 0x1060}"
proof -
  have "{..<4 :: nat} = {0, 1, 2, 3}" by auto
  then show ?thesis by (simp add: slots_of_def obj_addr_def sample_objpool_def)
qed

lemma sample_live: "live (sample_objpool 0) = {}"
  by (simp add: live_def slots.taken_set_def sample_objpool_def bmbit_def)

lemma sample_msgs_rep: "msg_rep sample_msgs (\<lambda>_. [])"
  using sample_objpool_ok[of 0]
  by (auto simp: msg_rep_def sample_msgs_def cpu_init_msgs_def sample_slots sample_live less_2_cases_iff
    is_list_def INIT_LIST_HEAD_def cpu_if_def SPINLOCK_INITVAL_def)

theorem cpu_messages_lifo_witness:
  "\<exists>s1 s2. send_all 1 [\<lparr>cm_handler = 0, cm_event = 1, cm_data = 7\<rparr>, \<lparr>cm_handler = 0, cm_event = 2, cm_data = 8\<rparr>] sample_msgs = Inr s1 \<and>
    get_n 1 2 s1 = Inr ([Some \<lparr>cm_handler = 0, cm_event = 2, cm_data = 8\<rparr>, Some \<lparr>cm_handler = 0, cm_event = 1, cm_data = 7\<rparr>], s2)"
proof -
  have "ms_pool sample_msgs = sample_objpool 0" by (simp add: sample_msgs_def cpu_init_msgs_def)
  then have "card (slots_of (ms_pool sample_msgs) - live (ms_pool sample_msgs)) = 4"
    by (simp add: sample_slots sample_live)
  then show ?thesis
    using cpu_messages_lifo[OF sample_msgs_rep, where t = 1 and ms = "[\<lparr>cm_handler = 0, cm_event = 1, cm_data = 7\<rparr>, \<lparr>cm_handler = 0, cm_event = 2, cm_data = 8\<rparr>]"]
    by (auto simp: numeral_2_eq_2)
qed

end
