(* ===== verification/Vm.thy ===== *)
theory Vm
  imports Cpu_Msg Bits
begin

text \<open>
  The parts of \<open>core/vm.c\<close>, \<open>core/inc/vm.h\<close>, \<open>core/inc/emul.h\<close> and \<open>arch/aarch64/arch_vm.c\<close> that
  the interrupt virtualisation relies on: the vCPU table of a VM, the translations between
  virtual and physical processor numbers, the broadcast of messages, the registers of a
  vCPU, and the lists of emulated regions. A pointer to a vCPU is its index in \<open>vm->vcpus\<close>.
\<close>

unbundle bit_operations_syntax

abbreviation INVALID_CPUID :: nat where "INVALID_CPUID \<equiv> 0xFFFFFFFFFFFFFFFF"

record vcpu =
  v_p_id :: nat
  v_regs :: regs
  v_vmpidr :: u64

record vm =
  vm_id :: u64
  vm_nr_cpus :: nat
  vm_vcpus :: "nat \<Rightarrow> vcpu"
  vm_cpus :: u64
  vm_master :: nat
  vm_lock :: spinlock

subsection \<open>vCPUs\<close>

definition vm_get_vcpu :: "vm \<Rightarrow> nat \<Rightarrow> nat option" where
  "vm_get_vcpu vm vcpuid = (if vcpuid < vm_nr_cpus vm then Some vcpuid else None)"

definition vm_translate_to_pcpuid :: "vm \<Rightarrow> nat \<Rightarrow> nat" where
  "vm_translate_to_pcpuid vm vcpuid =
     (case vm_get_vcpu vm vcpuid of None \<Rightarrow> INVALID_CPUID | Some v \<Rightarrow> v_p_id (vm_vcpus vm v))"

definition vm_translate_to_vcpuid :: "vm \<Rightarrow> nat \<Rightarrow> nat" where
  "vm_translate_to_vcpuid vm pcpuid =
     (if vm_cpus vm AND lsl 1 pcpuid \<noteq> 0
      then bit_count (vm_cpus vm AND BIT_MASK 0 pcpuid)
      else INVALID_CPUID)"

text \<open>Both mask translations run the same loop over a translation of single numbers.\<close>

fun translate_mask :: "(nat \<Rightarrow> nat) \<Rightarrow> u64 \<Rightarrow> nat list \<Rightarrow> u64 \<Rightarrow> u64" where
  "translate_mask f msk [] pmask = pmask"
| "translate_mask f msk (i # is) pmask =
     (let shift = f i
      in translate_mask f msk is
           (if msk AND lsl 1 i \<noteq> 0 \<and> shift \<noteq> INVALID_CPUID then pmask OR lsl 1 shift else pmask))"

definition vm_translate_to_pcpu_mask :: "vm \<Rightarrow> u64 \<Rightarrow> nat \<Rightarrow> u64" where
  "vm_translate_to_pcpu_mask vm msk len = translate_mask (vm_translate_to_pcpuid vm) msk [0..<len] 0"

definition vm_translate_to_vcpu_mask :: "vm \<Rightarrow> u64 \<Rightarrow> nat \<Rightarrow> u64" where
  "vm_translate_to_vcpu_mask vm msk len = translate_mask (vm_translate_to_vcpuid vm) msk [0..<len] 0"

definition vm_msg_broadcast :: "vm \<Rightarrow> cpu_msg \<Rightarrow> msg_sys \<Rightarrow> msg_sys res" where
  "vm_msg_broadcast vm msg s = cpu_send_msg (vm_master vm) msg s"

definition vm_cpu_init :: "nat \<Rightarrow> vm \<Rightarrow> vm res" where
  "vm_cpu_init cid vm =
     bindr (spin_lock (vm_lock vm)) (\<lambda>l.
       Inr (vm\<lparr>vm_cpus := vm_cpus vm OR lsl 1 cid, vm_lock := spin_unlock l\<rparr>))"

definition vm_calc_vcpu_id :: "nat \<Rightarrow> vm \<Rightarrow> nat" where
  "vm_calc_vcpu_id cid vm =
     fold (\<lambda>i vcpu_id. if bit_get (vm_cpus vm) i \<noteq> 0 then vcpu_id + 1 else vcpu_id) [0..<cid] 0"

abbreviation MPIDR_RES1 :: u64 where "MPIDR_RES1 \<equiv> 0x80000000"
definition MPIDR_RES0_MSK :: u64 where "MPIDR_RES0_MSK = NOT (lsl 0x1f 25)"
definition MPIDR_U_BIT :: u64 where "MPIDR_U_BIT = lsl 1 30"
abbreviation MPIDR_AFF_MSK :: u64 where "MPIDR_AFF_MSK \<equiv> 0xffff"

definition vm_cpuid_to_mpidr :: "vm \<Rightarrow> nat \<Rightarrow> u64" where
  "vm_cpuid_to_mpidr vm cpuid =
     (if cpuid > vm_nr_cpus vm then NOT (NOT MPIDR_RES1 AND MPIDR_RES0_MSK)
      else
        let mpidr = word_of_nat cpuid OR MPIDR_RES1
        in if vm_nr_cpus vm = 1 then mpidr OR MPIDR_U_BIT else mpidr)"

definition vm_get_vcpu_by_mpidr :: "vm \<Rightarrow> u64 \<Rightarrow> nat option" where
  "vm_get_vcpu_by_mpidr vm mpidr =
     find (\<lambda>v. v_vmpidr (vm_vcpus vm v) AND MPIDR_AFF_MSK = mpidr AND MPIDR_AFF_MSK) [0..<vm_nr_cpus vm]"

subsection \<open>Registers\<close>

definition vcpu_readreg :: "vcpu \<Rightarrow> u64 \<Rightarrow> u64" where
  "vcpu_readreg v reg = (if reg > 30 then 0 else x_regs (v_regs v) (unat reg))"

definition vcpu_writereg :: "u64 \<Rightarrow> u64 \<Rightarrow> vcpu \<Rightarrow> vcpu" where
  "vcpu_writereg reg val v =
     (if reg > 30 then v
      else v\<lparr>v_regs := (v_regs v)\<lparr>x_regs := (x_regs (v_regs v))(unat reg := val)\<rparr>\<rparr>)"

definition vcpu_readpc :: "vcpu \<Rightarrow> u64" where
  "vcpu_readpc v = elr_el2 (v_regs v)"

definition vcpu_writepc :: "u64 \<Rightarrow> vcpu \<Rightarrow> vcpu" where
  "vcpu_writepc pc v = v\<lparr>v_regs := (v_regs v)\<lparr>elr_el2 := pc\<rparr>\<rparr>"

definition vcpu_arch_reset :: "u64 \<Rightarrow> vcpu \<Rightarrow> vcpu" where
  "vcpu_arch_reset entry v =
     vcpu_writepc entry (v\<lparr>v_regs := \<lparr>x_regs = (\<lambda>_. 0), spsr_el2 = 0x5 OR lsl 1 6 OR lsl 1 7 OR lsl 1 8 OR lsl 1 9,
       elr_el2 = 0, sp_el1 = 0\<rparr>\<rparr>)"

subsection \<open>Emulated regions\<close>

record emul_access =
  ac_addr :: u64
  ac_write :: bool
  ac_sign_ext :: bool
  ac_width :: nat
  ac_reg :: u64

text \<open>
  An entry is the address of its list node; the handlers it may name are the type \<open>'h\<close>. The
  search stops at the first match, so it returns also when the rest of the list is broken.
\<close>

record 'h emul_mem =
  em_base :: u64
  em_sz :: u64
  em_handler :: 'h

record 'h emul_reg =
  er_addr :: u64
  er_handler :: 'h

partial_function (option) list_find :: "(node \<Rightarrow> bool) \<Rightarrow> node \<Rightarrow> node \<Rightarrow> lheap \<Rightarrow> node option option" where
  "list_find P head pos h =
     (if pos \<noteq> head then if P pos then Some (Some pos) else list_find P head (nxt h pos) h
      else Some None)"

definition vm_emul_add_mem :: "node \<Rightarrow> node \<Rightarrow> lheap \<Rightarrow> lheap" where
  "vm_emul_add_mem mem_list emu h = list_add_tail emu mem_list h"

definition vm_emul_add_reg :: "node \<Rightarrow> node \<Rightarrow> lheap \<Rightarrow> lheap" where
  "vm_emul_add_reg reg_list emu h = list_add_tail emu reg_list h"

definition vm_emul_get_mem :: "node \<Rightarrow> (node \<Rightarrow> 'h emul_mem) \<Rightarrow> lheap \<Rightarrow> u64 \<Rightarrow> 'h option option" where
  "vm_emul_get_mem mem_list emus h addr =
     map_option (map_option (\<lambda>e. em_handler (emus e)))
       (list_find (\<lambda>e. em_base (emus e) \<le> addr \<and> addr < em_base (emus e) + em_sz (emus e))
          mem_list (nxt h mem_list) h)"

definition vm_emul_get_reg :: "node \<Rightarrow> (node \<Rightarrow> 'h emul_reg) \<Rightarrow> lheap \<Rightarrow> u64 \<Rightarrow> 'h option option" where
  "vm_emul_get_reg reg_list emus h addr =
     map_option (map_option (\<lambda>e. er_handler (emus e)))
       (list_find (\<lambda>e. er_addr (emus e) = addr) reg_list (nxt h reg_list) h)"

definition get_vm_by_id :: "node \<Rightarrow> (node \<Rightarrow> vm) \<Rightarrow> lheap \<Rightarrow> u64 \<Rightarrow> node option option" where
  "get_vm_by_id vm_list vms h idt = list_find (\<lambda>v. vm_id (vms v) = idt) vm_list (nxt h vm_list) h"

subsection \<open>Searching a list\<close>

lemma list_find_from:
  assumes "is_list h head (ys @ zs)"
  shows "list_find P head (hd (zs @ [head])) h = Some (find P zs)"
  using assms
proof (induction zs arbitrary: ys)
  case Nil
  then show ?case by (simp add: list_find.simps)
next
  case (Cons e zs)
  then have "e \<noteq> head" by (auto simp: is_list_def)
  moreover have "nxt h e = hd (zs @ [head])" using is_list_at(2)[OF Cons.prems] .
  moreover have "list_find P head (hd (zs @ [head])) h = Some (find P zs)"
    using Cons.IH[of "ys @ [e]"] Cons.prems by simp
  ultimately show ?case by (subst list_find.simps) simp
qed

lemma list_find_spec:
  assumes "is_list h head xs"
  shows "list_find P head (nxt h head) h = Some (find P xs)"
  using list_find_from[of h head "[]" xs P] is_list_head(1)[OF assms] assms by simp

text \<open>A data abort is dispatched to the emulated region that was registered first among
  those that contain the address; registering a further region appends it, so it can never
  take over an address from a region that is already there.\<close>
theorem vm_emul_get_mem_first:
  assumes "is_list h mem_list xs"
    and "new \<notin> set (mem_list # xs)"
  shows "(vm_emul_get_mem mem_list emus h a = Some (map_option (\<lambda>e. em_handler (emus e))
            (find (\<lambda>e. em_base (emus e) \<le> a \<and> a < em_base (emus e) + em_sz (emus e)) xs))) \<and>
         (vm_emul_get_mem mem_list emus (vm_emul_add_mem mem_list new h) a =
            (if \<exists>e \<in> set xs. em_base (emus e) \<le> a \<and> a < em_base (emus e) + em_sz (emus e)
             then vm_emul_get_mem mem_list emus h a
             else Some (if em_base (emus new) \<le> a \<and> a < em_base (emus new) + em_sz (emus new)
                        then Some (em_handler (emus new)) else None)))"
proof -
  let ?P = "\<lambda>e. em_base (emus e) \<le> a \<and> a < em_base (emus e) + em_sz (emus e)"
  have old: "vm_emul_get_mem mem_list emus h a = Some (map_option (\<lambda>e. em_handler (emus e)) (find ?P xs))"
    by (simp add: vm_emul_get_mem_def list_find_spec[OF assms(1)])
  have new: "vm_emul_get_mem mem_list emus (vm_emul_add_mem mem_list new h) a =
      Some (map_option (\<lambda>e. em_handler (emus e)) (find ?P (xs @ [new])))"
    unfolding vm_emul_get_mem_def vm_emul_add_mem_def
    by (simp add: list_find_spec[OF list_add_tail_spec[OF assms]])
  have "find ?P (xs @ [new]) = (if \<exists>e \<in> set xs. ?P e then find ?P xs else if ?P new then Some new else None)"
    by (induction xs) auto
  with old new show ?thesis by auto
qed

theorem vm_emul_get_mem_first_witness:
  "\<exists>emus h. vm_emul_get_mem 1 emus h 0x1004 = Some None \<and>
     vm_emul_get_mem 1 emus (vm_emul_add_mem 1 5 h) 0x1004 = Some (Some True)"
proof -
  let ?emus = "\<lambda>_ :: node. \<lparr>em_base = 0x1000, em_sz = 0x100, em_handler = True\<rparr>"
  have "is_list (INIT_LIST_HEAD 1 undefined) 1 []" by (rule is_list_INIT)
  from vm_emul_get_mem_first[OF this, where new = 5 and emus = ?emus and a = "0x1004"] show ?thesis
    by (intro exI[of _ ?emus] exI[of _ "INIT_LIST_HEAD 1 undefined"]) simp
qed

subsection \<open>Processor masks\<close>

lemma bit_or_lsl:
  "s < 64 \<Longrightarrow> bit (w OR lsl 1 s :: u64) p \<longleftrightarrow> bit w p \<or> p = s"
  by (auto simp: bit_or_iff lsl_eq push_bit_eq_mult bit_exp_iff)

lemma and_lsl_bit: "i < 64 \<Longrightarrow> (w AND lsl 1 i :: u64) \<noteq> 0 \<longleftrightarrow> bit w i"
  by (simp add: lsl_eq push_bit_eq_mult and_exp_eq_0_iff_not_bit)

lemma translate_mask_bit:
  assumes "\<forall>i \<in> set ks. i < 64" "\<forall>i \<in> set ks. f i < 64 \<or> f i = INVALID_CPUID"
  shows "bit (translate_mask f msk ks w) p \<longleftrightarrow>
    bit w p \<or> (\<exists>i \<in> set ks. bit msk i \<and> f i = p \<and> p < 64)"
  using assms
proof (induction "ks" arbitrary: w)
  case (Cons i ks)
  then show ?case by (auto simp: Let_def and_lsl_bit bit_or_lsl)
qed simp

lemma bit_mask_empty: "(BIT_MASK 0 0 :: u64) = - 1"
proof -
  have "(lsl (lsl 1 (size_dec 0)) 1 :: u64) = 0"
    by (simp add: lsl_def size_dec_def)
  then show ?thesis by (simp add: BIT_MASK_def lsl_def)
qed

text \<open>The mask of physical processors that \<open>vm_translate_to_pcpu_mask\<close> builds has bit
  \<open>p\<close> exactly when one of the selected vCPUs below \<open>len\<close> exists in the VM and is placed on
  processor \<open>p\<close>. In the other direction \<open>vm_translate_to_vcpuid\<close> counts the VM's processors
  below \<open>p\<close>, except for processor 0, where the mask of length 0 has all bits set and the
  number of all processors of the VM comes out instead of 0.\<close>
theorem vm_translate_masks:
  assumes "len \<le> 64" "\<And>v. v < vm_nr_cpus vm \<Longrightarrow> v_p_id (vm_vcpus vm v) < 64"
  shows "(\<forall>p. bit (vm_translate_to_pcpu_mask vm msk len) p \<longleftrightarrow>
           (\<exists>v < len. v < vm_nr_cpus vm \<and> bit msk v \<and> v_p_id (vm_vcpus vm v) = p)) \<and>
         (\<forall>p < 64. bit (vm_cpus vm) p \<longrightarrow> vm_translate_to_vcpuid vm p =
            (if p = 0 then card {i. bit (vm_cpus vm) i} else card {i. i < p \<and> bit (vm_cpus vm) i}))"
proof -
  let ?f = "vm_translate_to_pcpuid vm"
  have f: "?f i = (if i < vm_nr_cpus vm then v_p_id (vm_vcpus vm i) else INVALID_CPUID)" for i
    by (simp add: vm_translate_to_pcpuid_def vm_get_vcpu_def)
  have fbit: "bit (vm_translate_to_pcpu_mask vm msk len) p \<longleftrightarrow>
      (\<exists>i \<in> set [0..<len]. bit msk i \<and> ?f i = p \<and> p < 64)" for p
    unfolding vm_translate_to_pcpu_mask_def
    by (subst translate_mask_bit) (use assms in \<open>auto simp: f\<close>)
  have cnt: "vm_translate_to_vcpuid vm p =
      (if p = 0 then card {i. bit (vm_cpus vm) i} else card {i. i < p \<and> bit (vm_cpus vm) i})"
    if "p < 64" "bit (vm_cpus vm) p" for p
  proof (cases "p = 0")
    case True
    with that show ?thesis by (simp add: vm_translate_to_vcpuid_def and_lsl_bit bit_mask_empty bit_count_card)
  next
    case False
    then have "{i. bit (vm_cpus vm AND BIT_MASK 0 p) i} = {i. i < p \<and> bit (vm_cpus vm) i}"
      using that by (auto simp: bit_and_iff bit_BIT_MASK)
    with that False show ?thesis by (simp add: vm_translate_to_vcpuid_def and_lsl_bit bit_count_card)
  qed
  have "(\<exists>i \<in> set [0..<len]. bit msk i \<and> ?f i = p \<and> p < 64) \<longleftrightarrow>
      (\<exists>v < len. v < vm_nr_cpus vm \<and> bit msk v \<and> v_p_id (vm_vcpus vm v) = p)" for p
    using assms(2) by (auto simp: f split: if_splits)
  with fbit cnt show ?thesis by simp
qed

definition sample_vm :: vm where
  "sample_vm = \<lparr>vm_id = 1, vm_nr_cpus = 2,
     vm_vcpus = (\<lambda>i. \<lparr>v_p_id = i + 1, v_regs = \<lparr>x_regs = (\<lambda>_. 0), spsr_el2 = 0, elr_el2 = 0, sp_el1 = 0\<rparr>, v_vmpidr = 0\<rparr>),
     vm_cpus = 3, vm_master = 0, vm_lock = SPINLOCK_INITVAL\<rparr>"

theorem vm_translate_masks_witness:
  "bit (vm_translate_to_pcpu_mask sample_vm 2 8) 2 \<and> vm_translate_to_vcpuid sample_vm 0 = 2"
proof -
  have p: "v_p_id (vm_vcpus sample_vm v) < 64" if "v < vm_nr_cpus sample_vm" for v
    using that by (simp add: sample_vm_def)
  have three: "vm_cpus sample_vm = mask 2" by (simp add: sample_vm_def mask_eq_exp_minus_1)
  note res = vm_translate_masks[of 8 sample_vm 2, OF _ p]
  have "bit (vm_translate_to_pcpu_mask sample_vm 2 8) 2"
    using res by (auto simp: sample_vm_def intro!: exI[of _ 1])
  moreover have "Collect (bit (vm_cpus sample_vm)) = {0, 1}" by (auto simp: three)
  then have "card (Collect (bit (vm_cpus sample_vm))) = 2" by simp
  with res have "vm_translate_to_vcpuid sample_vm 0 = 2" by (auto simp: bit_exp_iff three)
  ultimately show ?thesis by simp
qed

end
