(* ===== verification/Vgic.thy ===== *)
theory Vgic
  imports Gic Vm
begin

text \<open>
  The virtual interrupt controller, first part: \<open>arch/aarch64/inc/vgic.h\<close>, the ownership and
  list-register half of \<open>vgic.c\<close> (lines 19 to 390) and the target functions of \<open>vgicv2.c\<close> and
  \<open>vgicv2.h\<close>, in the GICv2 configuration. The state is what one processor sees while it
  serves one VM: its register frames, the VM and its virtual distributor, the interrupts, the
  spilled lists and the message system. A pointer to a \<open>struct vgic_int\<close> is the address of its
  first field, the list node; \<open>gs_ints\<close> is the memory of these structs and \<open>gs_heap\<close> their
  list pointers, so a list operation acts on the very pointers of \<open>list.h\<close>. A vCPU is its
  index in the VM. \<open>gs_dev\<close> is the part of the device the code relies on and does not contain:
  it maps the stored register contents to the ones a load observes (the empty-list-register
  and end-of-interrupt status words follow from the list registers).
\<close>

unbundle bit_operations_syntax

abbreviation INV :: u8 where "INV \<equiv> 0"
abbreviation PEND :: u8 where "PEND \<equiv> 1"
abbreviation ACT :: u8 where "ACT \<equiv> 2"
abbreviation PENDACT :: u8 where "PENDACT \<equiv> 3"

text \<open>The union of \<open>targets\<close> with the pair \<open>sgi.act\<close>, \<open>sgi.pend\<close> is two bytes.\<close>

record vgic_int =
  vi_owner :: "nat option"
  vi_lock :: spinlock
  vi_id :: nat
  vi_state :: u8
  vi_prio :: u8
  vi_cfg :: u8
  vi_lr :: u8
  vi_byte0 :: u8
  vi_byte1 :: u8
  vi_hw :: bool
  vi_in_lr :: bool
  vi_enabled :: bool

abbreviation vi_targets :: "vgic_int \<Rightarrow> u8" where "vi_targets \<equiv> vi_byte0"
abbreviation vi_sgi_act :: "vgic_int \<Rightarrow> u8" where "vi_sgi_act \<equiv> vi_byte0"
abbreviation vi_sgi_pend :: "vgic_int \<Rightarrow> u8" where "vi_sgi_pend \<equiv> vi_byte1"

text \<open>The handlers of emulated regions that the program registers (GICv2).\<close>

datatype emul_handler = H_vgicd_emul

record vgicd =
  vd_interrupts :: node
  vd_lock :: spinlock
  vd_int_num :: nat
  vd_CTLR :: u32
  vd_TYPER :: u32
  vd_IIDR :: u32

record vgic_sys =
  gs_hw :: gic_hw
  gs_dev :: "gic_hw \<Rightarrow> gic_hw"
  gs_msg :: msg_sys
  gs_ipi_id :: u32
  gs_cpu_num :: nat
  gs_cpu :: nat
  gs_vcpu :: nat
  gs_vm :: vm
  gs_vgicd :: vgicd
  gs_priv :: "nat \<Rightarrow> node"
  gs_curr_lrs :: "nat \<Rightarrow> nat \<Rightarrow> nat"
  gs_ints :: "node \<Rightarrow> vgic_int"
  gs_heap :: lheap
  gs_spilled :: "nat \<Rightarrow> node"
  gs_vm_spilled :: node
  gs_spilled_lock :: spinlock
  gs_emul_list :: node
  gs_vgicd_emul :: node
  gs_emuls :: "node \<Rightarrow> emul_handler emul_mem"

text \<open>\<open>sizeof(struct vgic_int)\<close>\<close>

abbreviation VGIC_INT_SIZE :: u64 where "VGIC_INT_SIZE \<equiv> 56"

abbreviation upd_int :: "node \<Rightarrow> (vgic_int \<Rightarrow> vgic_int) \<Rightarrow> vgic_sys \<Rightarrow> vgic_sys" where
  "upd_int p f s \<equiv> gs_ints_update (\<lambda>m. m(p := f (m p))) s"

abbreviation p_id_of :: "vgic_sys \<Rightarrow> nat \<Rightarrow> nat" where
  "p_id_of s v \<equiv> v_p_id (vm_vcpus (gs_vm s) v)"

text \<open>
  Following a pointer to an interrupt: the address 0 is no interrupt, so an access through NULL
  is the fault \<open>Bad_Access\<close>, whether it reads a field (\<open>load_int\<close>) or takes the lock.
\<close>

definition load_int :: "node \<Rightarrow> vgic_sys \<Rightarrow> vgic_int res" where
  "load_int p s = (if p = 0 then Inl Bad_Access else Inr (gs_ints s p))"

definition lock_int :: "node \<Rightarrow> vgic_sys \<Rightarrow> vgic_sys res" where
  "lock_int p s =
     (if p = 0 then Inl Bad_Access
      else bindr (spin_lock (vi_lock (gs_ints s p))) (\<lambda>l. Inr (upd_int p (vi_lock_update (\<lambda>_. l)) s)))"

definition unlock_int :: "node \<Rightarrow> vgic_sys \<Rightarrow> vgic_sys" where
  "unlock_int p s = upd_int p (vi_lock_update spin_unlock) s"

subsection \<open>Messages\<close>

datatype vgic_event = VGIC_UPDATE_ENABLE | VGIC_ROUTE | VGIC_INJECT | VGIC_SET_REG

definition event_num :: "vgic_event \<Rightarrow> u32" where
  "event_num e = (case e of VGIC_UPDATE_ENABLE \<Rightarrow> 0 | VGIC_ROUTE \<Rightarrow> 1 | VGIC_INJECT \<Rightarrow> 2 | VGIC_SET_REG \<Rightarrow> 3)"

definition VGIC_MSG_DATA :: "u64 \<Rightarrow> u64 \<Rightarrow> u64 \<Rightarrow> u64 \<Rightarrow> u64 \<Rightarrow> u64" where
  "VGIC_MSG_DATA vmid vgicrid int_id reg val =
     lsl vmid 48 OR lsl (vgicrid AND 0xffff) 32 OR lsl (int_id AND 0x7fff) 16 OR
     lsl (reg AND 0xff) 8 OR (val AND 0xff)"

definition VGIC_MSG_VM :: "u64 \<Rightarrow> u64" where "VGIC_MSG_VM d = lsr d 48"
definition VGIC_MSG_VGICRID :: "u64 \<Rightarrow> u64" where "VGIC_MSG_VGICRID d = lsr d 32 AND 0xffff"
definition VGIC_MSG_INTID :: "u64 \<Rightarrow> u64" where "VGIC_MSG_INTID d = lsr d 16 AND 0x7fff"
definition VGIC_MSG_REG :: "u64 \<Rightarrow> u64" where "VGIC_MSG_REG d = lsr d 8 AND 0xff"
definition VGIC_MSG_VAL :: "u64 \<Rightarrow> u64" where "VGIC_MSG_VAL d = d AND 0xff"

definition vgic_msg :: "vgic_sys \<Rightarrow> vgic_event \<Rightarrow> u64 \<Rightarrow> cpu_msg" where
  "vgic_msg s ev d = \<lparr>cm_handler = gs_ipi_id s, cm_event = event_num ev, cm_data = d\<rparr>"

definition send_msg :: "nat \<Rightarrow> cpu_msg \<Rightarrow> vgic_sys \<Rightarrow> vgic_sys res" where
  "send_msg trgt msg s = bindr (cpu_send_msg trgt msg (gs_msg s)) (\<lambda>m. Inr (s\<lparr>gs_msg := m\<rparr>))"

text \<open>The loop over \<open>platform.cpu_num\<close> that sends one message to every processor of a mask.\<close>

definition send_to_mask :: "u64 \<Rightarrow> cpu_msg \<Rightarrow> vgic_sys \<Rightarrow> vgic_sys res" where
  "send_to_mask msk msg s =
     fold_res (\<lambda>i s. if msk AND lsl 1 i \<noteq> 0 then send_msg i msg s else Inr s) [0..<gs_cpu_num s] s"

subsection \<open>Interrupts and their state\<close>

definition vgic_get_int :: "vgic_sys \<Rightarrow> nat \<Rightarrow> nat \<Rightarrow> nat \<Rightarrow> node res" where
  "vgic_get_int s vcpu int_id vgicr_id =
     (if int_id < GIC_CPU_PRIV then
        (case (if vgicr_id = vcpu then Some vcpu else vm_get_vcpu (gs_vm s) vgicr_id) of
           None \<Rightarrow> Inl Bad_Access
         | Some target_vcpu \<Rightarrow> Inr (gs_priv s target_vcpu + VGIC_INT_SIZE * word_of_nat int_id))
      else if int_id < vd_int_num (gs_vgicd s)
      then Inr (vd_interrupts (gs_vgicd s) + VGIC_INT_SIZE * word_of_nat (int_id - GIC_CPU_PRIV))
      else Inr 0)"

definition vgic_int_is_hw :: "vgic_int \<Rightarrow> bool" where
  "vgic_int_is_hw interrupt \<longleftrightarrow> \<not> vi_id interrupt < GIC_MAX_SGIS \<and> vi_hw interrupt"

definition GICH_LR_VID :: "u64 \<Rightarrow> u64" where "GICH_LR_VID lr = bit_extract lr 0 10"
definition GICH_LR_CPUID :: "u64 \<Rightarrow> u64" where "GICH_LR_CPUID lr = bit_extract lr 10 3"
definition GICH_LR_STATE :: "u64 \<Rightarrow> u32" where "GICH_LR_STATE lr = bit_extract (ucast lr) 28 2"
definition GICH_LR_STATE_MSK :: u32 where "GICH_LR_STATE_MSK = BIT_MASK 28 2"
definition GICH_LR_STATE_PND :: u32 where "GICH_LR_STATE_PND = lsl 1 28 AND GICH_LR_STATE_MSK"
definition GICH_LR_STATE_ACT :: u32 where "GICH_LR_STATE_ACT = lsl 2 28 AND GICH_LR_STATE_MSK"
definition GICH_LR_PRIO_MSK :: u32 where "GICH_LR_PRIO_MSK = BIT_MASK 23 5"
definition GICH_LR_PID_MSK :: u32 where "GICH_LR_PID_MSK = BIT_MASK 10 10"
definition GICH_LR_CPUID_MSK :: u32 where "GICH_LR_CPUID_MSK = BIT_MASK 10 3"
definition GICH_LR_VID_MSK :: u32 where "GICH_LR_VID_MSK = BIT_MASK 0 10"
definition GICH_LR_HW_BIT :: u32 where "GICH_LR_HW_BIT = lsl 1 31"
definition GICH_LR_EOI_BIT :: u32 where "GICH_LR_EOI_BIT = lsl 1 19"
definition GICH_HCR_NPIE_BIT :: u32 where "GICH_HCR_NPIE_BIT = lsl 1 3"
definition GICH_HCR_UIE_BIT :: u32 where "GICH_HCR_UIE_BIT = lsl 1 1"

text \<open>\<open>None\<close> is the result \<open>-1\<close>; otherwise the index of the list register and its value.\<close>

definition gich_get_lr :: "vgic_sys \<Rightarrow> vgic_int \<Rightarrow> (nat \<times> u64) option res" where
  "gich_get_lr s interrupt =
     (if \<not> vi_in_lr interrupt then Inr None
      else case vi_owner interrupt of
        None \<Rightarrow> Inl Bad_Access
      | Some v \<Rightarrow>
          if p_id_of s v \<noteq> gs_cpu s then Inr None
          else bindr (gich_read_lr (gs_hw s) (unat (vi_lr interrupt))) (\<lambda>lr_val.
            if unat (GICH_LR_VID lr_val) = vi_id interrupt \<and> GICH_LR_STATE lr_val \<noteq> 0
            then Inr (Some (unat (vi_lr interrupt), lr_val)) else Inr None))"

definition vgic_get_state :: "vgic_sys \<Rightarrow> vgic_int \<Rightarrow> u8 res" where
  "vgic_get_state s interrupt =
     bindr (gich_get_lr s interrupt) (\<lambda>r.
       let state = (case r of Some (_, lr_val) \<Rightarrow> ucast (GICH_LR_STATE lr_val)
                            | None \<Rightarrow> vi_state interrupt)
       in Inr (if vi_id interrupt < GIC_MAX_SGIS \<and> vi_sgi_pend interrupt \<noteq> 0
               then state OR PEND else state))"

subsection \<open>Ownership\<close>

definition vgic_get_ownership :: "nat \<Rightarrow> node \<Rightarrow> vgic_sys \<Rightarrow> bool \<times> vgic_sys" where
  "vgic_get_ownership vcpu p s =
     (if vi_owner (gs_ints s p) = Some vcpu then (True, s)
      else if vi_owner (gs_ints s p) = None
      then (True, upd_int p (vi_owner_update (\<lambda>_. Some vcpu)) s)
      else (False, s))"

definition vgic_owns :: "nat \<Rightarrow> vgic_int \<Rightarrow> bool" where
  "vgic_owns vcpu interrupt \<longleftrightarrow> vi_owner interrupt = Some vcpu"

definition vgic_yield_ownership :: "nat \<Rightarrow> node \<Rightarrow> vgic_sys \<Rightarrow> vgic_sys res" where
  "vgic_yield_ownership vcpu p s =
     (let interrupt = gs_ints s p
      in if gic_is_priv (vi_id interrupt) \<or> \<not> vgic_owns vcpu interrupt \<or> vi_in_lr interrupt
         then Inr s
         else bindr (vgic_get_state s interrupt) (\<lambda>state.
           if state AND ACT \<noteq> 0 then Inr s
           else Inr (upd_int p (vi_owner_update (\<lambda>_. None)) s)))"

subsection \<open>Targets (GICv2)\<close>

definition vgic_int_vcpu_is_target :: "vgic_sys \<Rightarrow> nat \<Rightarrow> vgic_int \<Rightarrow> bool" where
  "vgic_int_vcpu_is_target s vcpu interrupt \<longleftrightarrow>
     (let priv = gic_is_priv (vi_id interrupt);
          target = ucast (vi_targets interrupt) AND lsl (1 :: u32) (p_id_of s vcpu) \<noteq> 0
      in priv \<or> target)"

definition vgic_int_has_other_target :: "vgic_sys \<Rightarrow> vgic_int \<Rightarrow> bool" where
  "vgic_int_has_other_target s interrupt \<longleftrightarrow>
     (let priv = gic_is_priv (vi_id interrupt);
          has_other_targets = ucast (vi_targets interrupt) AND NOT (lsl (1 :: u32) (gs_cpu s)) \<noteq> 0
      in \<not> priv \<and> has_other_targets)"

definition vgic_int_ptarget_mask :: "vgic_int \<Rightarrow> u8" where
  "vgic_int_ptarget_mask interrupt = vi_targets interrupt"

definition vgic_send_sgi_msg :: "u64 \<Rightarrow> u64 \<Rightarrow> vgic_sys \<Rightarrow> vgic_sys res" where
  "vgic_send_sgi_msg pcpu_mask int_id s =
     send_to_mask pcpu_mask (vgic_msg s VGIC_INJECT
       (VGIC_MSG_DATA (vm_id (gs_vm s)) 0 int_id 0 (word_of_nat (gs_vcpu s)))) s"

subsection \<open>List registers\<close>

text \<open>
  \<open>vgic_write_lr\<close> in three parts: releasing the interrupt the register held before, the value
  for the register (with the new pending sources of an SGI), and the update itself.
\<close>

definition release_prev_lr :: "nat \<Rightarrow> node \<Rightarrow> nat \<Rightarrow> vgic_sys \<Rightarrow> vgic_sys res" where
  "release_prev_lr vcpu p lr_ind s =
     (let prev_int_id = gs_curr_lrs s vcpu lr_ind
      in if prev_int_id \<noteq> vi_id (gs_ints s p) \<and> \<not> gic_is_priv prev_int_id
         then bindr (vgic_get_int s vcpu prev_int_id vcpu) (\<lambda>prev.
           if prev \<noteq> 0 then
             bindr (lock_int prev s) (\<lambda>s.
             bindr (if vgic_owns vcpu (gs_ints s prev) \<and> vi_in_lr (gs_ints s prev) \<and>
                       unat (vi_lr (gs_ints s prev)) = lr_ind
                    then vgic_yield_ownership vcpu prev (upd_int prev (vi_in_lr_update (\<lambda>_. False)) s)
                    else Inr s) (\<lambda>s.
             Inr (unlock_int prev s)))
           else Inr s)
         else Inr s)"

text \<open>The highest pending source of an SGI, searched from \<open>GIC_MAX_TARGETS - 1\<close> down.\<close>

definition sgi_source :: "u8 \<Rightarrow> nat option" where
  "sgi_source pend = find (\<lambda>i. ucast pend AND lsl (1 :: u32) i \<noteq> 0) (rev [0..<GIC_MAX_TARGETS])"

definition lr_value :: "vgic_int \<Rightarrow> u8 \<Rightarrow> u32 \<times> u8" where
  "lr_value interrupt state =
     (let lr = word_of_nat (vi_id interrupt) AND GICH_LR_VID_MSK;
          lr = lr OR (lsl (lsr (ucast (vi_prio interrupt)) 3) 23 AND GICH_LR_PRIO_MSK)
      in if vgic_int_is_hw interrupt then
           let lr = lr OR GICH_LR_HW_BIT;
               lr = lr OR (lsl (word_of_nat (vi_id interrupt)) 10 AND GICH_LR_PID_MSK)
           in (if state = PENDACT then lr OR GICH_LR_STATE_ACT
               else lr OR (lsl (ucast state) 28 AND GICH_LR_STATE_MSK), vi_sgi_pend interrupt)
         else if vi_id interrupt < GIC_MAX_SGIS then
           let (lr, pend) =
             (if state AND ACT \<noteq> 0
              then (lr OR (lsl (ucast (vi_sgi_act interrupt)) 10 AND GICH_LR_CPUID_MSK) OR GICH_LR_STATE_ACT,
                    vi_sgi_pend interrupt)
              else case sgi_source (vi_sgi_pend interrupt) of
                None \<Rightarrow> (lr, vi_sgi_pend interrupt)
              | Some i \<Rightarrow> (lr OR (lsl (word_of_nat i) 10 AND GICH_LR_CPUID_MSK) OR GICH_LR_STATE_PND,
                          vi_sgi_pend interrupt AND NOT (ucast (lsl (1 :: u32) i))))
           in (if pend \<noteq> 0 then lr OR GICH_LR_EOI_BIT else lr, pend)
         else
           let lr = (if \<not> gic_is_priv (vi_id interrupt) \<and> \<not> vgic_int_is_hw interrupt
                     then lr OR GICH_LR_EOI_BIT else lr)
           in (lr OR (lsl (ucast state) 28 AND GICH_LR_STATE_MSK), vi_sgi_pend interrupt))"

definition vgic_write_lr :: "nat \<Rightarrow> node \<Rightarrow> nat \<Rightarrow> vgic_sys \<Rightarrow> vgic_sys res" where
  "vgic_write_lr vcpu p lr_ind s =
     bindr (release_prev_lr vcpu p lr_ind s) (\<lambda>s.
     bindr (vgic_get_state s (gs_ints s p)) (\<lambda>state.
       let (lr, pend) = lr_value (gs_ints s p) state;
           s = upd_int p (\<lambda>i. i\<lparr>vi_byte1 := pend, vi_state := 0, vi_in_lr := True,
                                vi_lr := word_of_nat lr_ind\<rparr>) s;
           s = s\<lparr>gs_curr_lrs := (gs_curr_lrs s)(vcpu := (gs_curr_lrs s vcpu)(lr_ind := vi_id (gs_ints s p)))\<rparr>
       in bindr (gich_write_lr lr_ind (ucast lr) (gs_hw s)) (\<lambda>h. Inr (s\<lparr>gs_hw := h\<rparr>))))"

definition vgic_remove_lr :: "nat \<Rightarrow> node \<Rightarrow> vgic_sys \<Rightarrow> (bool \<times> vgic_sys) res" where
  "vgic_remove_lr vcpu p s =
     (if \<not> vgic_owns vcpu (gs_ints s p) \<or> \<not> vi_in_lr (gs_ints s p) then Inr (False, s)
      else
        bindr (gich_get_lr s (gs_ints s p)) (\<lambda>r.
        bindr (case r of None \<Rightarrow> Inr (gs_hw s) | Some (lr_ind, _) \<Rightarrow> gich_write_lr lr_ind 0 (gs_hw s)) (\<lambda>h.
          let lr_val = (case r of None \<Rightarrow> 0 | Some (_, v) \<Rightarrow> v);
              s = upd_int p (vi_in_lr_update (\<lambda>_. False)) (s\<lparr>gs_hw := h\<rparr>)
          in if GICH_LR_STATE lr_val \<noteq> 0 then
               let st = ucast (GICH_LR_STATE lr_val);
                   s = upd_int p (vi_state_update (\<lambda>_. st)) s;
                   s = (if vi_id (gs_ints s p) < GIC_MAX_SGIS then
                          if st AND ACT \<noteq> 0
                          then upd_int p (vi_byte0_update (\<lambda>_. ucast (GICH_LR_CPUID lr_val))) s
                          else if st AND PEND \<noteq> 0
                          then upd_int p (vi_byte1_update
                                 (\<lambda>b. b OR ucast (lsl (1 :: u32) (unat (GICH_LR_CPUID lr_val))))) s
                          else s
                        else s);
                   hcr = gich_get_hcr (gs_hw s);
                   hcr = (if st AND PEND \<noteq> 0 \<and> vi_enabled (gs_ints s p)
                          then hcr OR GICH_HCR_NPIE_BIT else hcr)
               in Inr (True, s\<lparr>gs_hw := gich_set_hcr (hcr OR GICH_HCR_UIE_BIT) (gs_hw s)\<rparr>)
             else Inr (False, s))))"

definition vgic_add_spilled :: "nat \<Rightarrow> node \<Rightarrow> vgic_sys \<Rightarrow> vgic_sys res" where
  "vgic_add_spilled vcpu p s =
     bindr (spin_lock (gs_spilled_lock s)) (\<lambda>l.
       let spilled_list = (if gic_is_priv (vi_id (gs_ints s p)) then gs_spilled s vcpu else gs_vm_spilled s);
           s = s\<lparr>gs_heap := list_add_tail p spilled_list (gs_heap s), gs_spilled_lock := spin_unlock l\<rparr>
       in Inr (s\<lparr>gs_hw := gich_set_hcr (gich_get_hcr (gs_hw s) OR GICH_HCR_NPIE_BIT) (gs_hw s)\<rparr>))"

definition vgic_spill_lr :: "nat \<Rightarrow> nat \<Rightarrow> vgic_sys \<Rightarrow> vgic_sys res" where
  "vgic_spill_lr vcpu lr_ind s =
     bindr (gich_read_lr (gs_hw s) lr_ind) (\<lambda>lr.
     bindr (vgic_get_int s vcpu (unat (GICH_LR_VID lr)) vcpu) (\<lambda>p.
       if p \<noteq> 0 then
         bindr (lock_int p s) (\<lambda>s.
         bindr (vgic_remove_lr vcpu p s) (\<lambda>(_, s).
         bindr (vgic_add_spilled vcpu p s) (\<lambda>s.
         bindr (vgic_yield_ownership vcpu p s) (\<lambda>s.
         Inr (unlock_int p s)))))
       else Inr s))"

text \<open>
  The search for a victim when every list register is in use. The comparisons are on
  \<open>unsigned\<close> values, kept as natural numbers; \<open>None\<close> is the index \<open>-1\<close>.
\<close>

record lr_scan =
  min_prio_pend :: nat
  min_prio_act :: nat
  min_id_act :: nat
  min_id_pend :: nat
  pend_found :: nat
  act_found :: nat
  pend_ind :: "nat option"
  act_ind :: "nat option"

definition scan_lr :: "gic_hw \<Rightarrow> nat \<Rightarrow> lr_scan \<Rightarrow> lr_scan" where
  "scan_lr h i c =
     (let lr = gich h (GICH_LR i);
          lr_id = unat (GICH_LR_VID (ucast lr));
          lr_prio = unat (lsl (lsr (lr AND GICH_LR_PRIO_MSK) 23) 3);
          lr_state = lr AND GICH_LR_STATE_MSK
      in if lr_state AND GICH_LR_STATE_ACT \<noteq> 0 then
           (if lr_prio > min_prio_act c \<or> lr_prio = min_prio_act c \<and> lr_id > min_id_act c
            then c\<lparr>min_id_act := lr_id, min_prio_act := lr_prio, act_ind := Some i\<rparr> else c)
             \<lparr>act_found := act_found c + 1\<rparr>
         else if lr_state AND GICH_LR_STATE_PND \<noteq> 0 then
           (if lr_prio > min_prio_pend c \<or> lr_prio = min_prio_pend c \<and> lr_id > min_id_pend c
            then c\<lparr>min_id_pend := lr_id, min_prio_pend := lr_prio, pend_ind := Some i\<rparr> else c)
             \<lparr>pend_found := pend_found c + 1\<rparr>
         else c)"

definition scan_start :: "vgic_int \<Rightarrow> lr_scan" where
  "scan_start interrupt =
     \<lparr>min_prio_pend = unat (vi_prio interrupt), min_prio_act = unat (vi_prio interrupt),
      min_id_act = vi_id interrupt, min_id_pend = vi_id interrupt, pend_found = 0, act_found = 0,
      pend_ind = None, act_ind = None\<rparr>"

definition victim_lr :: "gic_hw \<Rightarrow> vgic_int \<Rightarrow> nat option" where
  "victim_lr h interrupt =
     (let c = fold (scan_lr h) [0..<NUM_LRS h] (scan_start interrupt)
      in if pend_found c > 1 then pend_ind c else act_ind c)"

definition free_lr :: "gic_hw \<Rightarrow> u64 \<Rightarrow> nat option" where
  "free_lr h elrsr = find (\<lambda>i. bit_get elrsr i \<noteq> 0) [0..<NUM_LRS h]"

definition vgic_add_lr :: "nat \<Rightarrow> node \<Rightarrow> vgic_sys \<Rightarrow> (bool \<times> vgic_sys) res" where
  "vgic_add_lr vcpu p s =
     (let interrupt = gs_ints s p
      in if \<not> vi_enabled interrupt \<or> vi_in_lr interrupt then Inr (False, s)
         else
           let elrsr = gich_get_elrsr (gs_dev s (gs_hw s))
           in bindr (case free_lr (gs_hw s) elrsr of
                  Some i \<Rightarrow> Inr (Some i, s)
                | None \<Rightarrow>
                    let lr_ind = victim_lr (gs_hw s) interrupt
                    in (case lr_ind of
                          None \<Rightarrow> Inr (None, s)
                        | Some i \<Rightarrow> bindr (vgic_spill_lr vcpu i s) (\<lambda>s. Inr (Some i, s))))
              (\<lambda>(lr_ind, s).
                case lr_ind of
                  Some i \<Rightarrow> bindr (vgic_write_lr vcpu p i s) (\<lambda>s. Inr (True, s))
                | None \<Rightarrow> bindr (vgic_add_spilled vcpu p s) (\<lambda>s. Inr (False, s))))"

definition vgic_route :: "nat \<Rightarrow> node \<Rightarrow> vgic_sys \<Rightarrow> vgic_sys res" where
  "vgic_route vcpu p s =
     (if vi_state (gs_ints s p) = INV \<or> \<not> vi_enabled (gs_ints s p) then Inr s
      else
        bindr (if vgic_int_vcpu_is_target s vcpu (gs_ints s p)
               then bindr (vgic_add_lr vcpu p s) (\<lambda>(_, s). Inr s) else Inr s) (\<lambda>s.
          if \<not> vi_in_lr (gs_ints s p) \<and> vgic_int_has_other_target s (gs_ints s p) then
            let msg = vgic_msg s VGIC_ROUTE (VGIC_MSG_DATA (vm_id (gs_vm s)) (word_of_nat vcpu)
                        (word_of_nat (vi_id (gs_ints s p))) 0 0)
            in bindr (vgic_yield_ownership vcpu p s) (\<lambda>s.
                 let trgtlist = ucast (vgic_int_ptarget_mask (gs_ints s p)) AND NOT (lsl 1 (p_id_of s vcpu))
                 in send_to_mask trgtlist msg s)
          else Inr s))"

subsection \<open>The fields of a list register\<close>

lemma bit_lr_masks [mask_simps]:
  "bit GICH_LR_VID_MSK n \<longleftrightarrow> n < 10" "bit GICH_LR_PRIO_MSK n \<longleftrightarrow> 23 \<le> n \<and> n < 28"
  "bit GICH_LR_PID_MSK n \<longleftrightarrow> 10 \<le> n \<and> n < 20" "bit GICH_LR_CPUID_MSK n \<longleftrightarrow> 10 \<le> n \<and> n < 13"
  "bit GICH_LR_STATE_MSK n \<longleftrightarrow> 28 \<le> n \<and> n < 30"
  by (auto simp: GICH_LR_VID_MSK_def GICH_LR_PRIO_MSK_def GICH_LR_PID_MSK_def GICH_LR_CPUID_MSK_def
      GICH_LR_STATE_MSK_def bit_BIT_MASK)

lemma bit_lr_flags [mask_simps]:
  "bit GICH_LR_HW_BIT n \<longleftrightarrow> n = 31" "bit GICH_LR_EOI_BIT n \<longleftrightarrow> n = 19"
  "bit GICH_LR_STATE_ACT n \<longleftrightarrow> n = 29" "bit GICH_LR_STATE_PND n \<longleftrightarrow> n = 28"
proof -
  have act: "GICH_LR_STATE_ACT = push_bit 28 2 AND GICH_LR_STATE_MSK"
    by (simp add: GICH_LR_STATE_ACT_def lsl_def)
  show "bit GICH_LR_STATE_ACT n \<longleftrightarrow> n = 29"
    unfolding act by (simp only: bit_and_iff bit_push_bit_iff bit_two bit_lr_masks) auto
qed (auto simp: GICH_LR_HW_BIT_def GICH_LR_EOI_BIT_def GICH_LR_STATE_PND_def bit_lsl_one bit_and_iff bit_lr_masks)

lemmas lr_bits = bit_and_iff bit_or_iff bit_not_iff lsl_eq lsr_eq bit_push_bit_iff bit_drop_bit_eq
  bit_ucast_iff bit_lr_masks bit_lr_flags

lemma VID_bit: "bit (GICH_LR_VID v) n \<longleftrightarrow> n < 10 \<and> bit v n"
  by (simp add: GICH_LR_VID_def bit_bit_extract)

lemma STATE_bit: "bit (GICH_LR_STATE v) n \<longleftrightarrow> n < 2 \<and> bit v (28 + n)"
  by (auto simp: GICH_LR_STATE_def bit_bit_extract bit_ucast_iff)

lemma lr_value_low:
  assumes "n < 10"
  shows "bit (fst (lr_value i st)) n = bit (word_of_nat (vi_id i) :: u32) n"
proof -
  have n: "n < 28" "n < 23" "\<not> 10 \<le> n" "\<not> 23 \<le> n" "\<not> 28 \<le> n" "n \<noteq> 29" "n \<noteq> 28" "n \<noteq> 19" "n \<noteq> 31"
    using assms by auto
  show ?thesis
    by (cases "vgic_int_is_hw i"; cases "vi_id i < GIC_MAX_SGIS"; cases "st AND ACT = 0";
        cases "sgi_source (vi_sgi_pend i)")
      (simp_all add: lr_value_def Let_def bit_or_iff bit_and_iff bit_lr_masks bit_lr_flags assms n
        del: word_of_nat_eq_0_iff)
qed

lemma lr_value_VID:
  assumes "vi_id i < 1024"
  shows "unat (GICH_LR_VID (ucast (fst (lr_value i st)))) = vi_id i"
proof -
  have "GICH_LR_VID (ucast (fst (lr_value i st))) = take_bit 10 (word_of_nat (vi_id i))"
    by (rule bit_word_eqI) (auto simp: VID_bit bit_ucast_iff lr_value_low bit_take_bit_iff bit_of_nat_iff)
  also have "unat \<dots> = vi_id i"
    using assms by (simp add: unsigned_take_bit_eq unat_of_nat take_bit_nat_eq_self)
  finally show ?thesis .
qed

lemma lr_value_state_bits:
  assumes "\<not> vi_id i < GIC_MAX_SGIS" "n < 2"
  shows "bit (fst (lr_value i st)) (28 + n) =
    bit (if vgic_int_is_hw i \<and> st = PENDACT then ACT else st) n"
proof -
  have "n = 0 \<or> n = 1" using assms(2) by auto
  then show ?thesis using assms(1)
    by (cases "vgic_int_is_hw i"; cases "st = PENDACT"; elim disjE)
      (simp_all add: lr_value_def Let_def bit_or_iff bit_and_iff bit_lr_masks bit_lr_flags lsl_eq
        bit_push_bit_iff bit_ucast_iff bit_two)
qed

lemma lr_value_STATE:
  assumes "\<not> vi_id i < GIC_MAX_SGIS" "\<forall>n \<ge> 2. \<not> bit st n"
  shows "ucast (GICH_LR_STATE (ucast (fst (lr_value i st)))) =
    (if vgic_int_is_hw i \<and> st = PENDACT then ACT else st)" (is "?l = ?r")
proof (rule bit_word_eqI)
  fix n assume "n < LENGTH(8)"
  have "\<not> bit (2 :: u8) n" if "\<not> n < 2" using that by (simp add: bit_2_iff)
  then have "\<not> bit ?r n" if "\<not> n < 2" using that assms(2) by simp
  then show "bit ?l n = bit ?r n"
    using lr_value_state_bits[OF assms(1), of n st]
    by (cases "n < 2") (simp_all add: bit_ucast_iff STATE_bit)
qed

end
