(* ===== verification/Page_Table.thy ===== *)
theory Page_Table
  imports Bits
begin

text \<open>
  The page-table formats of \<open>core/inc/page_table.h\<close>, \<open>arch/aarch64/inc/arch_page_table.h\<close> and
  \<open>arch/aarch64/arch_page_table.c\<close> (the AArch64 configuration). A pointer to an entry is its
  address and \<open>pte_mem\<close> the memory of 64-bit words; an entry occupies 8 bytes.
\<close>

unbundle bit_operations_syntax

type_synonym pte_t = u64
type_synonym pte_mem = "u64 \<Rightarrow> pte_t"

record page_table_dscr =
  lvls :: nat
  lvl_wdt :: "nat list"
  lvl_off :: "nat list"
  lvl_term :: "bool list"

record page_table =
  pt_root :: u64
  pt_dscr :: page_table_dscr

definition armv8_pt_dscr :: page_table_dscr where
  "armv8_pt_dscr = \<lparr>lvls = 4, lvl_wdt = [48, 39, 30, 21], lvl_off = [39, 30, 21, 12],
     lvl_term = [False, True, True, True]\<rparr>"

definition armv8_pt_s2_dscr :: page_table_dscr where
  "armv8_pt_s2_dscr = \<lparr>lvls = 4, lvl_wdt = [48, 39, 30, 21], lvl_off = [39, 30, 21, 12],
     lvl_term = [False, True, True, True]\<rparr>"

definition parange_table :: "nat list" where
  "parange_table = [32, 36, 40, 42, 44, 48]"

subsection \<open>Entries\<close>

definition ADDR_MSK :: "nat \<Rightarrow> nat \<Rightarrow> u64" where
  "ADDR_MSK msb lsb = (lsl 1 (msb + 1) - 1) AND NOT (lsl 1 lsb - 1)"

definition PTE_ADDR_MSK :: u64 where "PTE_ADDR_MSK = ADDR_MSK 47 12"
definition PTE_FLAGS_MSK :: u64 where "PTE_FLAGS_MSK = NOT PTE_ADDR_MSK"

abbreviation PTE_TYPE_MSK :: u64 where "PTE_TYPE_MSK \<equiv> 3"
abbreviation PTE_VALID :: u64 where "PTE_VALID \<equiv> 1"
abbreviation PTE_SUPERPAGE :: u64 where "PTE_SUPERPAGE \<equiv> 1"
abbreviation PTE_TABLE :: u64 where "PTE_TABLE \<equiv> 3"
abbreviation PTE_PAGE :: u64 where "PTE_PAGE \<equiv> 3"
abbreviation PTE_INVALID :: u64 where "PTE_INVALID \<equiv> 0"

definition PTE_RSW_MSK :: u64 where "PTE_RSW_MSK = (lsl 1 (55 + 4) - 1) - (lsl 1 55 - 1)"
definition PTE_RSW_RSRV :: u64 where "PTE_RSW_RSRV = lsl 3 55"

definition PTE_XN :: u64 where "PTE_XN = lsl 1 54"
definition PTE_AF :: u64 where "PTE_AF = lsl 1 10"
definition PTE_SH_IS :: u64 where "PTE_SH_IS = lsl 3 8"
definition PTE_SH_NS :: u64 where "PTE_SH_NS = lsl 0 8"
definition PTE_AP_RW :: u64 where "PTE_AP_RW = lsl 1 6"
definition PTE_S2AP_RW :: u64 where "PTE_S2AP_RW = lsl 3 6"
definition PTE_ATTR :: "u64 \<Rightarrow> u64" where "PTE_ATTR n = lsl n 2 AND lsl 7 2"
definition PTE_MEMATTR_NRML_OWBC :: u64 where "PTE_MEMATTR_NRML_OWBC = lsl (lsl 3 2) 2"
definition PTE_MEMATTR_NRML_IWBC :: u64 where "PTE_MEMATTR_NRML_IWBC = lsl (lsl 3 0) 2"
definition PTE_MEMATTR_DEV_GRE :: u64 where "PTE_MEMATTR_DEV_GRE = lsl (lsl 3 0) 2"

definition PTE_HYP_FLAGS :: u64 where
  "PTE_HYP_FLAGS = PTE_ATTR 1 OR PTE_AP_RW OR PTE_SH_IS OR PTE_AF"

definition PTE_HYP_DEV_FLAGS :: u64 where
  "PTE_HYP_DEV_FLAGS = PTE_ATTR 2 OR PTE_AP_RW OR PTE_SH_IS OR PTE_AF OR PTE_XN"

definition PTE_VM_FLAGS :: u64 where
  "PTE_VM_FLAGS = PTE_MEMATTR_NRML_OWBC OR PTE_MEMATTR_NRML_IWBC OR PTE_SH_NS OR PTE_S2AP_RW OR PTE_AF"

definition PTE_VM_DEV_FLAGS :: u64 where
  "PTE_VM_DEV_FLAGS = PTE_MEMATTR_DEV_GRE OR PTE_SH_NS OR PTE_S2AP_RW OR PTE_AF"

text \<open>The functions that take a \<open>pte_t*\<close> only to read \<open>*pte\<close> take its value here.\<close>

definition pte_make :: "paddr_t \<Rightarrow> u64 \<Rightarrow> u64 \<Rightarrow> pte_t" where
  "pte_make addr type flags = (addr AND PTE_ADDR_MSK) OR ((type OR flags) AND PTE_FLAGS_MSK)"

definition pte_set :: "u64 \<Rightarrow> paddr_t \<Rightarrow> u64 \<Rightarrow> u64 \<Rightarrow> pte_mem \<Rightarrow> pte_mem" where
  "pte_set pte addr type flags mem = mem(pte := pte_make addr type flags)"

definition pte_valid :: "pte_t \<Rightarrow> bool" where
  "pte_valid v \<longleftrightarrow> v AND PTE_VALID \<noteq> 0"

definition pte_set_rsw :: "u64 \<Rightarrow> u64 \<Rightarrow> pte_mem \<Rightarrow> pte_mem" where
  "pte_set_rsw pte flag mem = mem(pte := (mem pte AND NOT PTE_RSW_MSK) OR (flag AND PTE_RSW_MSK))"

definition pte_check_rsw :: "pte_t \<Rightarrow> u64 \<Rightarrow> bool" where
  "pte_check_rsw v flag \<longleftrightarrow> v AND PTE_RSW_MSK = flag AND PTE_RSW_MSK"

definition pte_addr :: "pte_t \<Rightarrow> paddr_t" where
  "pte_addr v = v AND PTE_ADDR_MSK"

subsection \<open>Tables\<close>

definition pt_nentries :: "page_table \<Rightarrow> nat \<Rightarrow> u64" where
  "pt_nentries pt lvl = lsr (lsl 1 (lvl_wdt (pt_dscr pt) ! lvl)) (lvl_off (pt_dscr pt) ! lvl)"

definition pt_lvlsize :: "page_table \<Rightarrow> nat \<Rightarrow> u64" where
  "pt_lvlsize pt lvl = lsl 1 (lvl_off (pt_dscr pt) ! lvl)"

definition pt_size :: "page_table \<Rightarrow> nat \<Rightarrow> u64" where
  "pt_size pt lvl = pt_nentries pt lvl * 8"

definition pt_getpteindex :: "page_table \<Rightarrow> u64 \<Rightarrow> nat \<Rightarrow> u64" where
  "pt_getpteindex pt pte lvl = (pte AND (pt_size pt lvl - 1)) div 8"

definition pt_getpteindex_by_va :: "page_table \<Rightarrow> vaddr_t \<Rightarrow> nat \<Rightarrow> u64" where
  "pt_getpteindex_by_va pt va lvl = lsr va (lvl_off (pt_dscr pt) ! lvl) AND (pt_nentries pt lvl - 1)"

definition pt_lvl_terminal :: "page_table \<Rightarrow> nat \<Rightarrow> bool" where
  "pt_lvl_terminal pt lvl = lvl_term (pt_dscr pt) ! lvl"

text \<open>\<open>k\<close> levels are left below level \<open>i\<close>, whose table starts at \<open>pte\<close>.\<close>

fun pt_walk :: "pte_mem \<Rightarrow> page_table \<Rightarrow> vaddr_t \<Rightarrow> nat \<Rightarrow> nat \<Rightarrow> u64 \<Rightarrow> u64" where
  "pt_walk mem pt va i 0 pte = pte + 8 * pt_getpteindex_by_va pt va i"
| "pt_walk mem pt va i (Suc k) pte =
     pt_walk mem pt va (i + 1) k (pte_addr (mem (pte + 8 * pt_getpteindex_by_va pt va i)))"

definition pt_get_pte :: "pte_mem \<Rightarrow> page_table \<Rightarrow> nat \<Rightarrow> vaddr_t \<Rightarrow> u64" where
  "pt_get_pte mem pt lvl va = pt_walk mem pt va 0 lvl (pt_root pt)"

definition pt_get :: "pte_mem \<Rightarrow> page_table \<Rightarrow> nat \<Rightarrow> vaddr_t \<Rightarrow> u64" where
  "pt_get mem pt lvl va =
     (if lvl = 0 then pt_root pt
      else pt_get_pte mem pt lvl va AND NOT (pt_size pt lvl - 1))"

definition pte_page :: "page_table \<Rightarrow> pte_t \<Rightarrow> nat \<Rightarrow> bool" where
  "pte_page pt v lvl =
     (if \<not> pt_lvl_terminal pt lvl then False
      else if lvl \<noteq> lvls (pt_dscr pt) - 1 then v AND PTE_TYPE_MSK = PTE_SUPERPAGE
      else v AND PTE_TYPE_MSK = PTE_PAGE)"

definition pte_table :: "page_table \<Rightarrow> pte_t \<Rightarrow> nat \<Rightarrow> bool" where
  "pte_table pt v lvl =
     (if lvl = lvls (pt_dscr pt) - 1 then False else v AND PTE_TYPE_MSK = PTE_TABLE)"

subsection \<open>The fields of an entry\<close>

lemma bit_PTE_ADDR_MSK [mask_simps]: "bit PTE_ADDR_MSK i \<longleftrightarrow> 12 \<le> i \<and> i < 48"
proof -
  have "(lsl 1 48 - 1 :: u64) = mask 48" "(lsl 1 12 - 1 :: u64) = mask 12"
    by (simp_all add: lsl_def mask_eq_exp_minus_1)
  then have eq: "PTE_ADDR_MSK = mask 48 AND NOT (mask 12)"
    by (simp add: PTE_ADDR_MSK_def ADDR_MSK_def)
  show ?thesis unfolding eq by (simp only: bit_and_iff bit_not_iff bit_mask_iff_lt) auto
qed

lemma bit_PTE_FLAGS_MSK [mask_simps]: "bit PTE_FLAGS_MSK i \<longleftrightarrow> i < 64 \<and> \<not> (12 \<le> i \<and> i < 48)"
  by (auto simp: PTE_FLAGS_MSK_def bit_not_iff bit_PTE_ADDR_MSK)

lemma bit_PTE_RSW_MSK [mask_simps]: "bit PTE_RSW_MSK i \<longleftrightarrow> 55 \<le> i \<and> i < 59"
proof -
  have eq: "PTE_RSW_MSK = push_bit 55 (mask 4)" by (simp add: PTE_RSW_MSK_def lsl_def mask_eq_exp_minus_1)
  show ?thesis unfolding eq by (simp only: bit_push_bit_iff bit_mask_iff_lt) auto
qed

lemma bit_PTE_TYPE_MSK: "bit (3 :: u64) i \<longleftrightarrow> i < 2"
proof -
  have "(3 :: u64) = mask 2" by (simp add: mask_eq_exp_minus_1)
  then show ?thesis by (simp only: bit_mask_iff_lt) auto
qed

lemma bit_one: "bit (1 :: u64) i \<longleftrightarrow> i = 0"
  by (simp add: bit_1_iff)

lemmas pte_bits = bit_and_iff bit_or_iff bit_not_iff mask_simps bit_PTE_TYPE_MSK bit_one

lemma pte_addr_make: "pte_addr (pte_make a ty fl) = a AND PTE_ADDR_MSK"
  by (rule bit_eqI) (auto simp: pte_addr_def pte_make_def pte_bits)

lemma pte_addr_aligned: "pte_addr v AND mask 12 = 0" "pte_addr v < 2 ^ 48"
proof -
  show "pte_addr v AND mask 12 = 0"
    by (rule bit_eqI) (auto simp: pte_addr_def pte_bits)
  have "pte_addr v = pte_addr v AND mask 48"
    by (rule bit_eqI) (auto simp: pte_addr_def pte_bits)
  moreover have "pte_addr v AND mask 48 < 2 ^ 48" by (rule and_mask_less') simp
  ultimately show "pte_addr v < 2 ^ 48" by simp
qed

end
