(* ===== verification/Page_Pool.thy ===== *)
theory Page_Pool
  imports Bitmaps Locks
begin

text \<open>
  \<open>core/mem.c\<close> and the structures of \<open>core/inc/mem.h\<close>: the pool of physical pages every
  allocation of the hypervisor comes from. The linker symbols \<open>__mem_vm_begin\<close> and
  \<open>__mem_vm_end\<close> are arguments of \<open>mem_init\<close>. The bitmap covers a whole number of pages:
  a write beyond it goes through a wild pointer (\<open>Bad_Access\<close>). The search loop of
  \<open>pp_alloc\<close> need not end, so it is a partial function: \<open>None\<close> is a call that never returns.
\<close>

record ppages =
  pg_base :: paddr_t
  pg_nr :: nat

record page_pool =
  pp_base :: paddr_t
  pp_nr_pages :: nat
  pp_free :: nat
  pp_last :: nat
  pp_bitmap :: bitmap
  pp_lock :: spinlock

record mem_region =
  mr_base :: paddr_t
  mr_size :: nat
  mr_page_pool :: page_pool

definition mem_ppages_get :: "paddr_t \<Rightarrow> nat \<Rightarrow> ppages" where
  "mem_ppages_get base nr = \<lparr>pg_base = base, pg_nr = nr\<rparr>"

abbreviation PAGE_BITS :: nat where "PAGE_BITS \<equiv> 32768" \<comment> \<open>\<open>8 * PAGE_SIZE\<close>\<close>

definition bitmap_nr_pages :: "nat \<Rightarrow> nat" where
  "bitmap_nr_pages nr = nr div PAGE_BITS + (if nr mod PAGE_BITS \<noteq> 0 then 1 else 0)"

definition root_pool_set_up_bitmap :: "paddr_t \<Rightarrow> page_pool \<Rightarrow> bool \<times> page_pool" where
  "root_pool_set_up_bitmap mem_vm_end root_pool =
     (let bitmap_nr = bitmap_nr_pages (pp_nr_pages root_pool)
      in if pp_nr_pages root_pool \<le> bitmap_nr then (False, root_pool)
         else
           let bitmap_pp = mem_ppages_get mem_vm_end bitmap_nr;
               zeroed = (\<lambda>g. if g < bitmap_nr * 1024 then 0 else pp_bitmap root_pool g);
               pageoff = unat (NUM_PAGES (pg_base bitmap_pp - pp_base root_pool));
               root_pool = root_pool\<lparr>pp_bitmap :=
                 bitmap_set_consecutive zeroed pageoff (pg_nr bitmap_pp)\<rparr>
           in (True, root_pool\<lparr>pp_free := (pp_free root_pool + 2 ^ 64 - pg_nr bitmap_pp) mod 2 ^ 64\<rparr>))"

text \<open>
  The region is a static object: its fields start as zero. \<open>ram\<close> is the memory at
  \<open>__mem_vm_end\<close>, where the bitmap is placed.
\<close>

definition mem_init :: "paddr_t \<Rightarrow> paddr_t \<Rightarrow> bitmap \<Rightarrow> page_pool res" where
  "mem_init mem_vm_begin mem_vm_end ram =
     (let sz = unat (mem_vm_end - mem_vm_begin);
          root_pool = \<lparr>pp_base = ALIGN mem_vm_begin PAGE_SIZE, pp_nr_pages = sz div 4096,
            pp_free = sz div 4096, pp_last = 0, pp_bitmap = ram, pp_lock = SPINLOCK_INITVAL\<rparr>;
          (ok, root_pool) = root_pool_set_up_bitmap mem_vm_end root_pool
      in if \<not> ok then Inl Error else Inr root_pool)"

definition pp_next_aligned :: "page_pool \<Rightarrow> nat \<Rightarrow> nat" where
  "pp_next_aligned pool nr = (nr - unat (pp_base pool div PAGE_SIZE) mod nr) mod nr"

partial_function (option) pp_while ::
    "page_pool \<Rightarrow> nat \<Rightarrow> bool \<Rightarrow> nat \<Rightarrow> nat \<Rightarrow> (nat + nat) option" where
  "pp_while pool nr aligned start cur =
     (if pp_free pool \<noteq> 0 then
        let b = bitmap_find_consec (pp_bitmap pool) (pp_nr_pages pool) cur nr False
        in if b < 0 then Some (Inl (if aligned then pp_next_aligned pool nr else 0))
           else if aligned \<and> (b + start) mod 2 ^ 64 mod nr \<noteq> 0
           then pp_while pool nr aligned start ((b + (b + start) mod 2 ^ 64 mod nr) mod 2 ^ 64)
           else Some (Inr b)
      else Some (Inl cur))"

definition pp_take :: "page_pool \<Rightarrow> nat \<Rightarrow> nat \<Rightarrow> (page_pool \<times> ppages) res" where
  "pp_take pool nr b =
     (if bitmap_nr_pages (pp_nr_pages pool) * PAGE_BITS < b + nr then Inl Bad_Access
      else Inr (pool\<lparr>pp_bitmap := bitmap_set_consecutive (pp_bitmap pool) b nr,
                     pp_free := (pp_free pool + 2 ^ 64 - nr) mod 2 ^ 64,
                     pp_last := (b + nr) mod 2 ^ 64\<rparr>,
                \<lparr>pg_base = pp_base pool + word_of_nat b * PAGE_SIZE, pg_nr = nr\<rparr>))"

text \<open>The \<open>for\<close> loop makes at most two searches; the second starts where the first one left \<open>cur\<close>.\<close>

fun pp_searches :: "nat \<Rightarrow> page_pool \<Rightarrow> nat \<Rightarrow> bool \<Rightarrow> nat \<Rightarrow> nat \<Rightarrow> nat option option" where
  "pp_searches 0 pool nr aligned start cur = Some None"
| "pp_searches (Suc i) pool nr aligned start cur =
     (case pp_while pool nr aligned start cur of
        None \<Rightarrow> None
      | Some (Inl cur') \<Rightarrow> pp_searches i pool nr aligned start cur'
      | Some (Inr b) \<Rightarrow> Some (Some b))"

definition pp_start :: "page_pool \<Rightarrow> nat \<Rightarrow> bool \<Rightarrow> nat" where
  "pp_start pool nr aligned = (if aligned then unat (pp_base pool div PAGE_SIZE) mod nr else 0)"

definition pp_cur :: "page_pool \<Rightarrow> nat \<Rightarrow> bool \<Rightarrow> nat" where
  "pp_cur pool nr aligned =
     (pp_last pool + (pp_last pool + pp_start pool nr aligned) mod 2 ^ 64 mod nr) mod 2 ^ 64"

definition pp_alloc ::
    "page_pool \<Rightarrow> nat \<Rightarrow> bool \<Rightarrow> ppages \<Rightarrow> (bool \<times> page_pool \<times> ppages) res option" where
  "pp_alloc pool nr aligned pages =
     (let pages = pages\<lparr>pg_nr := 0\<rparr>
      in if nr = 0 then Some (Inr (True, pool, pages))
         else case spin_lock (pp_lock pool) of
           Inl e \<Rightarrow> Some (Inl e)
         | Inr l \<Rightarrow>
             let pool = pool\<lparr>pp_lock := l\<rparr>
             in (case pp_searches 2 pool nr aligned (pp_start pool nr aligned) (pp_cur pool nr aligned) of
                   None \<Rightarrow> None
                 | Some None \<Rightarrow>
                     Some (Inr (False, pool\<lparr>pp_lock := spin_unlock (pp_lock pool)\<rparr>, pages))
                 | Some (Some b) \<Rightarrow>
                     Some (bindr (pp_take pool nr b) (\<lambda>(pool, pages).
                       Inr (True, pool\<lparr>pp_lock := spin_unlock (pp_lock pool)\<rparr>, pages)))))"

definition mem_alloc_ppages :: "page_pool \<Rightarrow> nat \<Rightarrow> bool \<Rightarrow> (page_pool \<times> ppages) res option" where
  "mem_alloc_ppages root_page_pool nr aligned =
     map_option (\<lambda>r. bindr r (\<lambda>(ok, pool, pages). if \<not> ok then Inl Error else Inr (pool, pages)))
       (pp_alloc root_page_pool nr aligned \<lparr>pg_base = 0, pg_nr = 0\<rparr>)"

definition mem_alloc_page :: "page_pool \<Rightarrow> nat \<Rightarrow> bool \<Rightarrow> (page_pool \<times> paddr_t) res option" where
  "mem_alloc_page root_page_pool nr aligned =
     map_option (\<lambda>r. bindr r (\<lambda>(pool, pages). Inr (pool, pg_base pages)))
       (mem_alloc_ppages root_page_pool nr aligned)"

subsection \<open>Well-formed pools\<close>

definition pool_ok :: "page_pool \<Rightarrow> bool" where
  "pool_ok pool \<longleftrightarrow> pp_nr_pages pool mod 32 = 0 \<and> pp_nr_pages pool < 2 ^ 52 \<and>
     pp_free pool < 2 ^ 64 \<and> pp_last pool \<le> pp_nr_pages pool \<and>
     ticket (pp_lock pool) = next_tk (pp_lock pool)"

definition free_pages :: "page_pool \<Rightarrow> nat set" where
  "free_pages pool = {i. i < pp_nr_pages pool \<and> \<not> bmbit (pp_bitmap pool) i}"

lemma finite_free_pages [simp]: "finite (free_pages pool)"
  by (simp add: free_pages_def)

lemma card_free_pages_le: "card (free_pages pool) \<le> pp_nr_pages pool"
  using card_mono[of "{..<pp_nr_pages pool}" "free_pages pool"] by (auto simp: free_pages_def)

lemma bitrun_free_iff:
  "bitrun (pp_bitmap pool) (pp_nr_pages pool) False n i \<longleftrightarrow>
     i + n \<le> pp_nr_pages pool \<and> {i..<i + n} \<subseteq> free_pages pool"
  by (auto simp: bitrun_def free_pages_def subset_iff)

lemma bitmap_nr_pages_covers: "nr \<le> bitmap_nr_pages nr * PAGE_BITS"
  using div_mult_mod_eq[of nr PAGE_BITS] mod_less_divisor[of PAGE_BITS nr]
  by (auto simp: bitmap_nr_pages_def)

lemma bitmap_nr_pages_le: "nr < 2 ^ 52 \<Longrightarrow> bitmap_nr_pages nr * PAGE_BITS < 2 ^ 53"
  using div_mult_mod_eq[of nr PAGE_BITS] by (auto simp: bitmap_nr_pages_def)

lemma pp_while_unaligned:
  assumes "pp_free pool \<noteq> 0"
  shows "pp_while pool n False start cur =
    Some (Inr (bitmap_find_consec (pp_bitmap pool) (pp_nr_pages pool) cur n False))"
  using assms by (subst pp_while.simps) (simp add: Let_def)

lemma pp_searches_unaligned:
  assumes "pp_free pool \<noteq> 0"
  shows "pp_searches 2 pool n False start cur =
    Some (Some (bitmap_find_consec (pp_bitmap pool) (pp_nr_pages pool) cur n False))"
  using pp_while_unaligned[OF assms] by (simp add: numeral_2_eq_2)

lemma pp_searches_empty:
  "pp_free pool = 0 \<Longrightarrow> pp_searches i pool n aligned start cur = Some None"
  by (induction i arbitrary: cur) (simp_all add: pp_while.simps)

text \<open>Taking a free run marks exactly its pages.\<close>

lemma pp_take_run:
  assumes "pool_ok pool" "0 < n" "bitrun (pp_bitmap pool) (pp_nr_pages pool) False n b"
  obtains pool' where "pp_take pool n b =
      Inr (pool', \<lparr>pg_base = pp_base pool + word_of_nat b * PAGE_SIZE, pg_nr = n\<rparr>)"
    "free_pages pool' = free_pages pool - {b..<b + n}" "pp_last pool' = b + n"
    "pp_free pool' = (pp_free pool + 2 ^ 64 - n) mod 2 ^ 64" "pp_lock pool' = pp_lock pool"
    "pp_base pool' = pp_base pool" "pp_nr_pages pool' = pp_nr_pages pool"
proof
  let ?p = "pool\<lparr>pp_bitmap := bitmap_set_consecutive (pp_bitmap pool) b n,
    pp_free := (pp_free pool + 2 ^ 64 - n) mod 2 ^ 64, pp_last := (b + n) mod 2 ^ 64\<rparr>"
  have le: "b + n \<le> pp_nr_pages pool" using assms(3) by (simp add: bitrun_free_iff)
  then show "pp_take pool n b =
      Inr (?p, \<lparr>pg_base = pp_base pool + word_of_nat b * PAGE_SIZE, pg_nr = n\<rparr>)"
    using bitmap_nr_pages_covers[of "pp_nr_pages pool"] by (simp add: pp_take_def)
  show "free_pages ?p = free_pages pool - {b..<b + n}"
    using assms(2) by (auto simp: free_pages_def bmbit_set_consecutive)
  show "pp_last ?p = b + n" using le assms(1) by (simp add: pool_ok_def)
qed simp_all


text \<open>Whatever the search loop accepts is the answer of a search, aligned when asked for.\<close>

lemma pp_while_result:
  assumes "pp_while pool n aligned start cur = Some r"
  shows "\<forall>b. r = Inr b \<longrightarrow>
    (\<exists>c. b = bitmap_find_consec (pp_bitmap pool) (pp_nr_pages pool) c n False \<and>
    (aligned \<longrightarrow> (b + start) mod 2 ^ 64 mod n = 0))"
proof (rule pp_while.raw_induct[OF _ assms, where P = "\<lambda>pool n aligned start cur r.
    \<forall>b. r = Inr b \<longrightarrow>
    (\<exists>c. b = bitmap_find_consec (pp_bitmap pool) (pp_nr_pages pool) c n False \<and>
    (aligned \<longrightarrow> (b + start) mod 2 ^ 64 mod n = 0))"], goal_cases)
  case (1 pp_while pool n aligned start cur r)
  define b where "b = bitmap_find_consec (pp_bitmap pool) (pp_nr_pages pool) cur n False"
  define k where "k = (b + start) mod 2 ^ 64 mod n"
  note body = 1(2)[unfolded Let_def, folded b_def, folded k_def]
  consider "pp_free pool = 0" | "aligned" "k \<noteq> 0" "pp_free pool \<noteq> 0"
    | "\<not> (aligned \<and> k \<noteq> 0)" "pp_free pool \<noteq> 0" by blast
  then show ?case
  proof cases
    case 1
    with body have "r = Inl cur" by simp
    then show ?thesis by simp
  next
    case 2
    with body have "pp_while pool n aligned start ((b + k) mod 2 ^ 64) = Some r" by simp
    from 1(1)[OF this] show ?thesis .
  next
    case 3
    with body have r: "r = Inr b" by (simp only: if_False if_True not_less0) simp
    show ?thesis unfolding r using 3(1) b_def k_def by (metis sum.inject(2))
  qed
qed

lemmas pp_while_found = pp_while_result[THEN spec, THEN mp, OF _ refl]

lemma pp_searches_found:
  "pp_searches i pool n aligned start cur = Some (Some b) \<Longrightarrow>
   \<exists>c. b = bitmap_find_consec (pp_bitmap pool) (pp_nr_pages pool) c n False \<and>
    (aligned \<longrightarrow> (b + start) mod 2 ^ 64 mod n = 0)"
  by (induction i arbitrary: cur)
    (auto split: option.splits sum.splits dest: pp_while_found)

lemma unat_numeral_page: "unat PAGE_SIZE = 4096"
  by simp

lemma pp_take_extent:
  assumes "pp_take pool n b = Inr r" "pp_nr_pages pool < 2 ^ 52" shows "b < 2 ^ 53"
  using assms bitmap_nr_pages_le[OF assms(2)] by (auto simp: pp_take_def split: if_splits)

lemma pool_ok_locked: "pool_ok pool \<Longrightarrow> spin_lock (pp_lock pool) =
    Inr ((pp_lock pool)\<lparr>ticket := ticket (pp_lock pool) + 1\<rparr>)"
  by (simp add: pool_ok_def spin_lock_free)

lemma free_pages_lock [simp]: "free_pages (pool\<lparr>pp_lock := l\<rparr>) = free_pages pool"
  by (simp add: free_pages_def)

lemma pp_start_lock [simp]: "pp_start (pool\<lparr>pp_lock := l\<rparr>) n al = pp_start pool n al"
  by (simp add: pp_start_def)

lemma pp_cur_lock [simp]: "pp_cur (pool\<lparr>pp_lock := l\<rparr>) n al = pp_cur pool n al"
  by (simp add: pp_cur_def)

text \<open>Taking and returning the lock around a successful \<open>pp_take\<close>.\<close>

lemma pp_take_locked:
  assumes "pool_ok pool" "0 < n" "bitrun (pp_bitmap pool) (pp_nr_pages pool) False n b"
    and "spin_lock (pp_lock pool) = Inr l"
  obtains pool' where
    "bindr (pp_take (pool\<lparr>pp_lock := l\<rparr>) n b) (\<lambda>(pool, pages).
       Inr (True, pool\<lparr>pp_lock := spin_unlock (pp_lock pool)\<rparr>, pages)) =
     Inr (True, pool', \<lparr>pg_base = pp_base pool + word_of_nat b * PAGE_SIZE, pg_nr = n\<rparr>)"
    "pool_ok pool'" "free_pages pool' = free_pages pool - {b..<b + n}"
    "pp_free pool' = (pp_free pool + 2 ^ 64 - n) mod 2 ^ 64" "pp_last pool' = b + n"
    "pp_base pool' = pp_base pool" "pp_nr_pages pool' = pp_nr_pages pool"
proof -
  have "b + n \<le> pp_nr_pages pool" using assms(3) by (simp add: bitrun_free_iff)
  moreover from this have "pp_take (pool\<lparr>pp_lock := l\<rparr>) n b =
      Inr ((fst (projr (pp_take pool n b)))\<lparr>pp_lock := l\<rparr>, snd (projr (pp_take pool n b)))"
    using bitmap_nr_pages_covers[of "pp_nr_pages pool"] by (cases pool) (simp add: pp_take_def)
  moreover obtain p' where p': "pp_take pool n b =
      Inr (p', \<lparr>pg_base = pp_base pool + word_of_nat b * PAGE_SIZE, pg_nr = n\<rparr>)"
    "free_pages p' = free_pages pool - {b..<b + n}" "pp_last p' = b + n"
    "pp_free p' = (pp_free pool + 2 ^ 64 - n) mod 2 ^ 64" "pp_lock p' = pp_lock pool"
    "pp_base p' = pp_base pool" "pp_nr_pages p' = pp_nr_pages pool"
    using pp_take_run[OF assms(1-3)] by metis
  moreover have "pool_ok (p'\<lparr>pp_lock := spin_unlock l\<rparr>)"
    using assms(1) p' spin_lock_unlock[OF assms(4)] \<open>b + n \<le> _\<close> by (simp add: pool_ok_def)
  ultimately show ?thesis
    by (intro that[of "p'\<lparr>pp_lock := spin_unlock l\<rparr>"]) simp_all
qed

lemma pp_alloc_sound:
  assumes "pool_ok pool" "0 < n" "pp_alloc pool n al pg = Some (Inr (True, pool', pages))"
  shows "\<exists>b. pages = \<lparr>pg_base = pp_base pool + word_of_nat b * PAGE_SIZE, pg_nr = n\<rparr> \<and>
    bitrun (pp_bitmap pool) (pp_nr_pages pool) False n b \<and> pool_ok pool' \<and>
    pp_base pool' = pp_base pool \<and> pp_nr_pages pool' = pp_nr_pages pool \<and>
    pp_free pool' = (pp_free pool + 2 ^ 64 - n) mod 2 ^ 64 \<and>
    free_pages pool' = free_pages pool - {b..<b + n} \<and>
    (al \<longrightarrow> (b + pp_start pool n al) mod n = 0)"
proof -
  obtain l where l: "spin_lock (pp_lock pool) = Inr l" using pool_ok_locked[OF assms(1)] by simp
  define P where "P = pool\<lparr>pp_lock := l\<rparr>"
  obtain b where b: "pp_searches 2 P n al (pp_start pool n al) (pp_cur pool n al) = Some (Some b)"
    and t: "bindr (pp_take P n b) (\<lambda>(pool, pages).
       Inr (True, pool\<lparr>pp_lock := spin_unlock (pp_lock pool)\<rparr>, pages)) = Inr (True, pool', pages)"
    using assms(2,3) l by (auto simp: pp_alloc_def Let_def P_def split: option.splits)
  from t obtain r where r: "pp_take P n b = Inr r" by (auto simp: bindr_eq_Inr_iff)
  have lim: "pp_nr_pages pool < 2 ^ 52" "pp_nr_pages pool mod 32 = 0"
    using assms(1) by (simp_all add: pool_ok_def)
  have b53: "b < 2 ^ 53" using pp_take_extent[OF r] lim(1) by (simp add: P_def)
  obtain c where c: "bitmap_find_consec (pp_bitmap pool) (pp_nr_pages pool) c n False = b"
    and al: "al \<longrightarrow> (b + pp_start pool n al) mod 2 ^ 64 mod n = 0"
    using pp_searches_found[OF b] by (auto simp: P_def)
  have run: "bitrun (pp_bitmap pool) (pp_nr_pages pool) False n b"
    using bitmap_find_consec_Some(2)[OF c] b53 assms(2) lim by simp
  have "n < 2 ^ 52" using run lim(1) by (simp add: bitrun_free_iff)
  moreover have "pp_start pool n al \<le> n"
    using assms(2) mod_less_divisor[of n] by (simp add: pp_start_def less_imp_le)
  ultimately have "(b + pp_start pool n al) mod 2 ^ 64 = b + pp_start pool n al"
    using b53 by simp
  then have al': "al \<longrightarrow> (b + pp_start pool n al) mod n = 0" using al by metis
  obtain p' where p': "bindr (pp_take P n b) (\<lambda>(pool, pages).
       Inr (True, pool\<lparr>pp_lock := spin_unlock (pp_lock pool)\<rparr>, pages)) =
     Inr (True, p', \<lparr>pg_base = pp_base pool + word_of_nat b * PAGE_SIZE, pg_nr = n\<rparr>)"
    "pool_ok p'" "free_pages p' = free_pages pool - {b..<b + n}"
    "pp_free p' = (pp_free pool + 2 ^ 64 - n) mod 2 ^ 64" "pp_last p' = b + n"
    "pp_base p' = pp_base pool" "pp_nr_pages p' = pp_nr_pages pool"
    using pp_take_locked[OF assms(1,2) run l] unfolding P_def by blast
  have "pool' = p'" "pages = \<lparr>pg_base = pp_base pool + word_of_nat b * PAGE_SIZE, pg_nr = n\<rparr>"
    using t unfolding p'(1) by simp_all
  note eqs = this
  show ?thesis
    by (intro exI[of _ b] conjI; (rule al' | simp only: eqs p' run))
qed


subsection \<open>Sequences of allocations\<close>

definition pp_pages :: "ppages \<Rightarrow> paddr_t set" where
  "pp_pages pages = (\<lambda>k. pg_base pages + word_of_nat k * PAGE_SIZE) ` {..<pg_nr pages}"

definition page_addr :: "page_pool \<Rightarrow> nat \<Rightarrow> paddr_t" where
  "page_addr pool i = pp_base pool + word_of_nat i * PAGE_SIZE"

definition free_addrs :: "page_pool \<Rightarrow> paddr_t set" where
  "free_addrs pool = page_addr pool ` free_pages pool"

lemma page_addr_inj:
  assumes "i < 2 ^ 52" "j < 2 ^ 52" "page_addr pool i = page_addr pool j"
  shows "i = j"
proof -
  have "unat (word_of_nat k * PAGE_SIZE) = k * 4096" if "k < 2 ^ 52" for k
    using that by (simp add: unat_word_ariths unat_word_of_nat64)
  moreover have "word_of_nat i * PAGE_SIZE = word_of_nat j * PAGE_SIZE"
    using assms(3) by (simp add: page_addr_def)
  ultimately show ?thesis using assms(1,2) by (metis mult_cancel2 zero_neq_numeral)
qed

lemma pp_pages_run:
  "pp_pages \<lparr>pg_base = pp_base pool + word_of_nat b * PAGE_SIZE, pg_nr = n\<rparr> =
    page_addr pool ` {b..<b + n}"
proof -
  have "pp_base pool + word_of_nat b * PAGE_SIZE + word_of_nat k * PAGE_SIZE = page_addr pool (b + k)"
    for k by (simp add: page_addr_def distrib_right)
  then have "pp_pages \<lparr>pg_base = pp_base pool + word_of_nat b * PAGE_SIZE, pg_nr = n\<rparr> =
      page_addr pool ` ((+) b ` {..<n})"
    by (simp add: pp_pages_def image_image)
  also have "(+) b ` {..<n} = {b..<b + n}"
    by (metis add.commute image_add_atLeastLessThan lessThan_atLeast0 plus_nat.add_0)
  finally show ?thesis .
qed

text \<open>
  The contract a user of a page allocator relies on: a successful allocation hands out pages
  that were free and takes exactly these from the free set. Any sequence of allocations then
  hands out disjoint sets.
\<close>

fun alloc_seq :: "('s \<Rightarrow> 'r \<Rightarrow> ('s \<times> 'p) option) \<Rightarrow> 's \<Rightarrow> 'r list \<Rightarrow> ('s \<times> 'p list) option" where
  "alloc_seq al s [] = Some (s, [])"
| "alloc_seq al s (r # rs) =
     (case al s r of None \<Rightarrow> None
      | Some (s', p) \<Rightarrow> map_option (\<lambda>(s, ps). (s, p # ps)) (alloc_seq al s' rs))"

locale page_allocator =
  fixes inv :: "'s \<Rightarrow> bool" and avail :: "'s \<Rightarrow> 'a set"
    and al :: "'s \<Rightarrow> 'r \<Rightarrow> ('s \<times> 'p) option" and extent :: "'p \<Rightarrow> 'a set"
  assumes al_inv: "inv s \<Longrightarrow> al s r = Some (s', p) \<Longrightarrow> inv s'"
    and al_avail: "inv s \<Longrightarrow> al s r = Some (s', p) \<Longrightarrow> extent p \<subseteq> avail s"
    and al_takes: "inv s \<Longrightarrow> al s r = Some (s', p) \<Longrightarrow> avail s' = avail s - extent p"
begin

lemma seq_spec:
  "inv s \<Longrightarrow> alloc_seq al s rs = Some (s', ps) \<Longrightarrow>
   inv s' \<and> (\<forall>p \<in> set ps. extent p \<subseteq> avail s) \<and> avail s' = avail s - (\<Union>p \<in> set ps. extent p) \<and>
   (\<forall>i j. i < j \<longrightarrow> j < length ps \<longrightarrow> extent (ps ! i) \<inter> extent (ps ! j) = {})"
proof (induction rs arbitrary: s ps)
  case Nil
  then show ?case by simp
next
  case (Cons r rs)
  then obtain s1 p ps1 where 1: "al s r = Some (s1, p)" "alloc_seq al s1 rs = Some (s', ps1)"
    "ps = p # ps1" by (auto split: option.splits)
  note a = al_inv[OF Cons.prems(1) 1(1)] al_avail[OF Cons.prems(1) 1(1)] al_takes[OF Cons.prems(1) 1(1)]
  note ih = Cons.IH[OF a(1) 1(2)]
  have "extent (ps ! i) \<inter> extent (ps ! j) = {}" if "i < j" "j < length ps" for i j
  proof (cases i)
    case 0
    with that 1(3) have "ps ! j \<in> set ps1" by (cases j) auto
    with ih a(3) 0 1(3) show ?thesis by auto
  next
    case (Suc k)
    with that 1(3) ih show ?thesis by (cases j) auto
  qed
  with ih a(2,3) 1(3) show ?case by auto
qed

end

definition pool_alloc :: "page_pool \<Rightarrow> nat \<times> bool \<Rightarrow> (page_pool \<times> ppages) option" where
  "pool_alloc pool r = (case mem_alloc_ppages pool (fst r) (snd r) of
     Some (Inr x) \<Rightarrow> Some x | _ \<Rightarrow> None)"

lemma mem_alloc_ppages_cases:
  assumes "pool_ok pool" "mem_alloc_ppages pool n al = Some (Inr (pool', pages))"
  shows "pool_ok pool' \<and> pp_pages pages \<subseteq> free_addrs pool \<and>
    free_addrs pool' = free_addrs pool - pp_pages pages \<and> pg_nr pages = n"
proof (cases "n = 0")
  case True
  with assms show ?thesis
    by (auto simp: mem_alloc_ppages_def pp_alloc_def pp_pages_def)
next
  case False
  then have n: "0 < n" by simp
  have ok: "pp_alloc pool n al \<lparr>pg_base = 0, pg_nr = 0\<rparr> = Some (Inr (True, pool', pages))"
    using assms(2) by (auto simp: mem_alloc_ppages_def bindr_eq_Inr_iff split: if_splits)
  obtain b where b: "pages = \<lparr>pg_base = pp_base pool + word_of_nat b * PAGE_SIZE, pg_nr = n\<rparr>"
    "bitrun (pp_bitmap pool) (pp_nr_pages pool) False n b" "pool_ok pool'"
    "pp_base pool' = pp_base pool" "free_pages pool' = free_pages pool - {b..<b + n}"
    by (rule exE[OF pp_alloc_sound[OF assms(1) n ok]], elim conjE) (rule that)
  have run: "{b..<b + n} \<subseteq> free_pages pool" using b(2) by (simp add: bitrun_free_iff)
  have addr: "page_addr pool' = page_addr pool" using b(4) by (auto simp: page_addr_def)
  have "inj_on (page_addr pool) (free_pages pool)"
    using page_addr_inj assms(1) by (intro inj_onI) (auto simp: free_pages_def pool_ok_def)
  then have "page_addr pool ` (free_pages pool - {b..<b + n}) =
      page_addr pool ` free_pages pool - page_addr pool ` {b..<b + n}"
    using run by (simp add: inj_on_image_set_diff)
  then have "free_addrs pool' = free_addrs pool - page_addr pool ` {b..<b + n}"
    by (simp only: free_addrs_def addr b(5))
  moreover have "page_addr pool ` {b..<b + n} \<subseteq> free_addrs pool"
    using run unfolding free_addrs_def by (rule image_mono)
  moreover have "pp_pages pages = page_addr pool ` {b..<b + n}" "pg_nr pages = n"
    unfolding b(1) pp_pages_run by simp_all
  ultimately show ?thesis using b(3) by simp
qed

interpretation pool: page_allocator pool_ok free_addrs pool_alloc pp_pages
proof
  fix s r s' p assume *: "pool_ok s" "pool_alloc s r = Some (s', p)"
  then have "mem_alloc_ppages s (fst r) (snd r) = Some (Inr (s', p))"
    by (auto simp: pool_alloc_def split: option.splits sum.splits)
  note c = mem_alloc_ppages_cases[OF *(1) this]
  from c show "pool_ok s'" by simp
  from c show "pp_pages p \<subseteq> free_addrs s" by simp
  from c show "free_addrs s' = free_addrs s - pp_pages p" by simp
qed


subsection \<open>Concrete pools\<close>

definition sample_pool :: "u32 \<Rightarrow> nat \<Rightarrow> nat \<Rightarrow> u32 \<Rightarrow> page_pool" where
  "sample_pool w f l t = \<lparr>pp_base = 0x40000000, pp_nr_pages = 32, pp_free = f, pp_last = l,
     pp_bitmap = (\<lambda>_. 0)(0 := w), pp_lock = \<lparr>ticket = t, next_tk = t\<rparr>\<rparr>"

lemmas bitmap_eval = bitmap_find_consec_def bitmap_find_nth_def find_nth_loop.simps bitmap_get_eq
  bmbit_def find_consec_loop.simps bitmap_count_consecutive_def count_granules.simps
  count_bits.simps Let_def BIT_MASK_def lsl_def lsr_def size_dec_def set_granules.simps
  bitmap_set_consecutive_def

lemma sample_pool_ok [simp]: "f < 2 ^ 64 \<Longrightarrow> l \<le> 32 \<Longrightarrow> pool_ok (sample_pool w f l t)"
  by (simp add: pool_ok_def sample_pool_def)

lemmas pool_eval = sample_pool_def pool_alloc_def mem_alloc_ppages_def pp_alloc_def spin_lock_def
  spin_unlock_def pp_start_def pp_cur_def pp_searches_unaligned pp_take_def bitmap_nr_pages_def Let_def

lemma sample_find:
  "bitmap_find_consec ((\<lambda>_. 0)(0 := 0xFFFFFF07)) 32 0 2 False = 3"
  "bitmap_find_consec ((\<lambda>_. 0)(0 := 0xFFFFFF1F)) 32 6 2 False = 6"
  "bitmap_find_consec ((\<lambda>_. 0)(0 := 0xFFFFFF07)) 32 0 4 False = 3"
  "bitmap_find_consec ((\<lambda>_. 0)(0 := 0xFFFFFF07)) 32 6 4 False = SIZE_MAX"
  "bitmap_find_consec ((\<lambda>_. 0)(0 := 0xFFFFFF07)) 32 2 4 False = 3"
  by (simp_all add: bitmap_eval)

lemma sample_set:
  "bitmap_set_consecutive ((\<lambda>_. 0)(0 := 0xFFFFFF07)) 3 2 = (\<lambda>_. 0)(0 := 0xFFFFFF1F)"
  "bitmap_set_consecutive ((\<lambda>_. 0)(0 := 0xFFFFFF1F)) 6 2 = (\<lambda>_. 0)(0 := 0xFFFFFFDF)"
  by (simp_all add: bitmap_eval)

lemma sample_seq: "alloc_seq pool_alloc (sample_pool 0xFFFFFF07 5 0 0) [(2, False), (2, False)] =
    Some (sample_pool 0xFFFFFFDF 1 8 2,
      [\<lparr>pg_base = 0x40003000, pg_nr = 2\<rparr>, \<lparr>pg_base = 0x40006000, pg_nr = 2\<rparr>])"
proof -
  have "pool_alloc (sample_pool 0xFFFFFF07 5 0 0) (2, False) =
      Some (sample_pool 0xFFFFFF1F 3 5 1, \<lparr>pg_base = 0x40003000, pg_nr = 2\<rparr>)"
    by (simp add: pool_eval sample_find sample_set)
  moreover have "pool_alloc (sample_pool 0xFFFFFF1F 3 5 1) (2, False) =
      Some (sample_pool 0xFFFFFFDF 1 8 2, \<lparr>pg_base = 0x40006000, pg_nr = 2\<rparr>)"
    by (simp add: pool_eval sample_find sample_set)
  ultimately show ?thesis by simp
qed

lemma sample_aligned:
  "pp_while \<lparr>pp_base = 0x40000000, pp_nr_pages = 32, pp_free = 32, pp_last = 2,
     pp_bitmap = (\<lambda>_. 0)(0 := 0), pp_lock = l\<rparr> 4 True 0 4 = Some (Inr 4)"
  by (simp add: pp_while.simps bitmap_eval)

lemma pp_searches_twice: "pp_searches 2 pool n al st c =
    (case pp_while pool n al st c of
        None \<Rightarrow> None
      | Some (Inl c') \<Rightarrow> pp_searches (Suc 0) pool n al st c'
      | Some (Inr b) \<Rightarrow> Some (Some b))"
  by (simp add: numeral_2_eq_2)

lemma sample_run: "bitrun ((\<lambda>_. 0)(0 := 0xFFFFFF07)) 32 False 2 4"
proof -
  have j: "j = 4 \<or> j = 5" if "4 \<le> j" "j < 6" for j :: nat using that by auto
  show ?thesis by (auto simp: bitrun_def bmbit_def dest!: j)
qed

subsection \<open>Properties\<close>

text \<open>C4: Any sequence of successful requests to \<open>mem_alloc_ppages\<close> on a well-formed pool, aligned
  or not, hands out page ranges of the requested lengths that are pairwise disjoint as sets of
  physical addresses, were all free before, and leaves a well-formed pool whose free pages are
  exactly the others.\<close>

theorem mem_alloc_ppages_disjoint:
  assumes "pool_ok pool" "alloc_seq pool_alloc pool rs = Some (pool', ps)"
  shows "(pool_ok pool') \<and>
    (\<forall>p \<in> set ps. pp_pages p \<subseteq> free_addrs pool) \<and>
    (free_addrs pool' = free_addrs pool - (\<Union>p \<in> set ps. pp_pages p)) \<and>
    (\<forall>i j. i < j \<longrightarrow> j < length ps \<longrightarrow> pp_pages (ps ! i) \<inter> pp_pages (ps ! j) = {})"
  using pool.seq_spec[OF assms] by simp_all

theorem mem_alloc_ppages_disjoint_witness:
  "pp_pages \<lparr>pg_base = 0x40003000, pg_nr = 2\<rparr> \<inter> pp_pages \<lparr>pg_base = 0x40006000, pg_nr = 2\<rparr> = {}"
  using mem_alloc_ppages_disjoint[OF sample_pool_ok sample_seq] by fastforce

text \<open>A request to a pool whose counter of free pages is 0 searches nothing.\<close>

lemma pp_alloc_exhausted:
  assumes "pool_ok pool" "0 < n" "pp_free pool = 0"
  shows "\<exists>pool'. pp_alloc pool n al pg = Some (Inr (False, pool', pg\<lparr>pg_nr := 0\<rparr>)) \<and>
    pp_bitmap pool' = pp_bitmap pool \<and> free_pages pool' = free_pages pool \<and> pp_free pool' = 0 \<and> pool_ok pool'"
proof -
  obtain l where l: "spin_lock (pp_lock pool) = Inr l" "ticket (spin_unlock l) = next_tk (spin_unlock l)"
    using pool_ok_locked[OF assms(1)] assms(1) by (auto simp: spin_unlock_def pool_ok_def)
  have "pp_searches 2 (pool\<lparr>pp_lock := l\<rparr>) n al st c = Some None" for st c
    by (simp add: numeral_2_eq_2 pp_while.simps assms(3))
  then have "pp_alloc pool n al pg = Some (Inr (False, pool\<lparr>pp_lock := spin_unlock l\<rparr>, pg\<lparr>pg_nr := 0\<rparr>))"
    using assms(2) l(1) by (simp add: pp_alloc_def Let_def)
  then show ?thesis
    using assms(1,3) l(2) by (intro exI[of _ "pool\<lparr>pp_lock := spin_unlock l\<rparr>"]) (simp add: pool_ok_def free_pages_def)
qed

text \<open>C26: An unaligned request for which a run of free pages exists at or after the search position
  succeeds with the first such run, as long as the pool's counter of free pages is not 0: the pages were
  free, exactly they become taken, the free counter drops by the number of pages and the lock is
  released. The counter is not tied to the bitmap (\<open>mem_init\<close> starts it too low): when it is 0 the request
  is refused without a search, run or no run, and nothing is handed out.\<close>

theorem pp_alloc_first_fit:
  assumes "pool_ok pool" "0 < n" "pp_cur pool n False \<le> i"
    and "bitrun (pp_bitmap pool) (pp_nr_pages pool) False n i"
  shows "if pp_free pool = 0
    then \<exists>pool'. pp_alloc pool n False pg = Some (Inr (False, pool', pg\<lparr>pg_nr := 0\<rparr>)) \<and>
      free_pages pool' = free_pages pool \<and> pp_free pool' = 0 \<and> pool_ok pool'
    else \<exists>pool' b. pp_alloc pool n False pg =
      Some (Inr (True, pool', \<lparr>pg_base = pp_base pool + word_of_nat b * PAGE_SIZE, pg_nr = n\<rparr>)) \<and>
    b = (LEAST b. pp_cur pool n False \<le> b \<and> bitrun (pp_bitmap pool) (pp_nr_pages pool) False n b) \<and>
    {b..<b + n} \<subseteq> free_pages pool \<and> free_pages pool' = free_pages pool - {b..<b + n} \<and>
    pp_free pool' = (pp_free pool + 2 ^ 64 - n) mod 2 ^ 64 \<and> pool_ok pool'"
proof (cases "pp_free pool = 0")
  case True
  then show ?thesis using pp_alloc_exhausted[OF assms(1,2) True, of False pg] by auto
next
  case free: False
  let ?P = "\<lambda>b. pp_cur pool n False \<le> b \<and> bitrun (pp_bitmap pool) (pp_nr_pages pool) False n b"
  define b where "b = (LEAST b. ?P b)"
  have Pb: "?P b" unfolding b_def by (rule LeastI[of ?P i]) (simp add: assms)
  have lim: "pp_nr_pages pool mod 32 = 0" "pp_nr_pages pool < SIZE_MAX"
    using assms(1) by (simp_all add: pool_ok_def)
  define f where "f = bitmap_find_consec (pp_bitmap pool) (pp_nr_pages pool) (pp_cur pool n False) n False"
  have "f \<noteq> SIZE_MAX"
    using bitmap_find_consec_None[OF _ assms(2) lim assms(3)] assms(4) unfolding f_def by blast
  note f = bitmap_find_consec_Some[OF f_def[symmetric] this assms(2) lim]
  have "f = b" unfolding b_def
    by (rule Least_equality[symmetric]) (use f in \<open>auto simp: not_le[symmetric]\<close>)
  obtain l where l: "spin_lock (pp_lock pool) = Inr l" using pool_ok_locked[OF assms(1)] by simp
  have "pp_searches 2 (pool\<lparr>pp_lock := l\<rparr>) n False (pp_start pool n False) (pp_cur pool n False) =
      Some (Some b)"
    using free pp_searches_unaligned[of "pool\<lparr>pp_lock := l\<rparr>"] \<open>f = b\<close> by (simp add: f_def)
  then have "pp_alloc pool n False pg = Some (bindr (pp_take (pool\<lparr>pp_lock := l\<rparr>) n b)
      (\<lambda>(pool, pages). Inr (True, pool\<lparr>pp_lock := spin_unlock (pp_lock pool)\<rparr>, pages)))"
    using assms(2) l by (simp add: pp_alloc_def Let_def)
  moreover obtain pool' where p': "bindr (pp_take (pool\<lparr>pp_lock := l\<rparr>) n b) (\<lambda>(pool, pages).
       Inr (True, pool\<lparr>pp_lock := spin_unlock (pp_lock pool)\<rparr>, pages)) =
     Inr (True, pool', \<lparr>pg_base = pp_base pool + word_of_nat b * PAGE_SIZE, pg_nr = n\<rparr>)"
    "pool_ok pool'" "free_pages pool' = free_pages pool - {b..<b + n}"
    "pp_free pool' = (pp_free pool + 2 ^ 64 - n) mod 2 ^ 64"
    using pp_take_locked[OF assms(1,2) conjunct2[OF Pb] l] by blast
  moreover have "{b..<b + n} \<subseteq> free_pages pool" using Pb by (simp add: bitrun_free_iff)
  ultimately show ?thesis
    unfolding if_not_P[OF free] by (intro exI[of _ pool'] exI[of _ b]) (simp add: b_def)
qed


theorem pp_alloc_first_fit_witness:
  "\<exists>pool' b. pp_alloc (sample_pool 0xFFFFFF07 5 0 0) 2 False \<lparr>pg_base = 0, pg_nr = 0\<rparr> =
      Some (Inr (True, pool', \<lparr>pg_base = 0x40000000 + word_of_nat b * PAGE_SIZE, pg_nr = 2\<rparr>)) \<and>
    {b..<b + 2} \<subseteq> free_pages (sample_pool 0xFFFFFF07 5 0 0) \<and> pool_ok pool'"
  using pp_alloc_first_fit[of "sample_pool 0xFFFFFF07 5 0 0" 2 4 "\<lparr>pg_base = 0, pg_nr = 0\<rparr>"] sample_run
  by (auto simp: sample_pool_def pool_ok_def pp_cur_def pp_start_def)

text \<open>A successful aligned allocation starts at a page number that is a multiple of its size.\<close>

theorem pp_alloc_aligned_result:
  assumes "pool_ok pool" "0 < n" "pp_alloc pool n True pg = Some (Inr (True, pool', pages))"
    and "IS_ALIGNED (pp_base pool) PAGE_SIZE" "unat (pp_base pool) + pp_nr_pages pool * 4096 < 2 ^ 64"
  shows "(unat (pg_base pages) div 4096) mod n = 0"
proof -
  obtain b where b: "pages = \<lparr>pg_base = pp_base pool + word_of_nat b * PAGE_SIZE, pg_nr = n\<rparr>"
    "bitrun (pp_bitmap pool) (pp_nr_pages pool) False n b" "(b + pp_start pool n True) mod n = 0"
    using pp_alloc_sound[OF assms(1-3)] by auto
  have le: "b \<le> pp_nr_pages pool" "b < 2 ^ 52"
    using b(2) assms(1,2) by (simp_all add: bitrun_free_iff pool_ok_def)
  have b4: "unat (word_of_nat b * PAGE_SIZE) = b * 4096"
    using le by (simp add: unat_word_ariths unat_word_of_nat64)
  have "unat (pg_base pages) = unat (pp_base pool) + b * 4096"
    using b(1) b4 le assms(5) by (simp add: unat_word_ariths)
  moreover have "unat (pp_base pool) mod 4096 = 0"
    using assms(4) unfolding IS_ALIGNED_def by (metis unat_0 unat_mod unat_numeral_page)
  ultimately have "unat (pg_base pages) div 4096 = b + unat (pp_base pool) div 4096"
    by (simp add: div_add1_eq)
  with b(3) show ?thesis
    by (simp add: pp_start_def unat_div_distrib mod_add_right_eq)
qed

theorem pp_alloc_aligned_result_witness:
  "\<exists>pool' pages. pp_alloc (sample_pool 0 32 2 0) 4 True \<lparr>pg_base = 0, pg_nr = 0\<rparr> =
     Some (Inr (True, pool', pages)) \<and> (unat (pg_base pages) div 4096) mod 4 = 0"
proof -
  have "\<exists>pool' pages. pp_alloc (sample_pool 0 32 2 0) 4 True \<lparr>pg_base = 0, pg_nr = 0\<rparr> =
     Some (Inr (True, pool', pages))"
    by (simp add: pool_eval pp_searches_twice sample_aligned)
  then show ?thesis
    using pp_alloc_aligned_result[of "sample_pool 0 32 2 0" 4] 
    by (force simp: pool_ok_def sample_pool_def IS_ALIGNED_def)
qed

text \<open>C39: When no run of free pages lies at or after the search position and the pool's counter of free
  pages is not 0, an unaligned request does
  not fall back to the beginning of the pool: it marks pages beyond the bitmap through a wild
  pointer, even where the pool still has such a run before the position. Only a pool whose counter is 0
  refuses the request as intended: the call returns false, hands out nothing and leaves the pool's bitmap and counter as they were.\<close>

theorem pp_alloc_wild_on_failure:
  assumes "pool_ok pool" "0 < n"
    and "\<And>i. pp_cur pool n False \<le> i \<Longrightarrow> \<not> bitrun (pp_bitmap pool) (pp_nr_pages pool) False n i"
  shows "if pp_free pool = 0
    then \<exists>pool'. pp_alloc pool n False pg = Some (Inr (False, pool', pg\<lparr>pg_nr := 0\<rparr>)) \<and>
      pp_bitmap pool' = pp_bitmap pool \<and> pp_free pool' = 0 \<and> pool_ok pool'
    else pp_alloc pool n False pg = Some (Inl Bad_Access)"
proof (cases "pp_free pool = 0")
  case True
  then show ?thesis using pp_alloc_exhausted[OF assms(1,2) True, of False pg] by auto
next
  case free: False
  have lim: "pp_nr_pages pool mod 32 = 0" "pp_nr_pages pool < SIZE_MAX" "pp_nr_pages pool < 2 ^ 52"
    using assms(1) by (simp_all add: pool_ok_def)
  define f where "f = bitmap_find_consec (pp_bitmap pool) (pp_nr_pages pool) (pp_cur pool n False) n False"
  have "f = SIZE_MAX"
    using bitmap_find_consec_Some(1,2)[OF f_def[symmetric] _ assms(2) lim(1,2)] assms(3) by blast
  moreover obtain l where l: "spin_lock (pp_lock pool) = Inr l"
    using pool_ok_locked[OF assms(1)] by simp
  moreover have "pp_take (pool\<lparr>pp_lock := l\<rparr>) n SIZE_MAX = Inl Bad_Access"
    using bitmap_nr_pages_le[OF lim(3)] by (simp add: pp_take_def)
  ultimately show ?thesis
    using assms(2) free pp_searches_unaligned[of "pool\<lparr>pp_lock := l\<rparr>"]
    by (simp add: pp_alloc_def Let_def f_def)
qed


theorem pp_alloc_wild_on_failure_witness:
  "bitrun (pp_bitmap (sample_pool (NOT (mask 4)) 4 4 0)) 32 False 2 0 \<and>
   pp_alloc (sample_pool (NOT (mask 4)) 4 4 0) 2 False \<lparr>pg_base = 0, pg_nr = 0\<rparr> = Some (Inl Bad_Access)"
proof
  have j: "j = 0 \<or> j = 1" if "j < 2" for j :: nat using that by auto
  show "bitrun (pp_bitmap (sample_pool (NOT (mask 4)) 4 4 0)) 32 False 2 0"
    by (auto simp: bitrun_def bmbit_def sample_pool_def bit_not_iff dest!: j)
  show "pp_alloc (sample_pool (NOT (mask 4)) 4 4 0) 2 False \<lparr>pg_base = 0, pg_nr = 0\<rparr> = Some (Inl Bad_Access)"
  proof -
    have free: "pp_free (sample_pool (NOT (mask 4)) 4 4 0) \<noteq> 0" "pool_ok (sample_pool (NOT (mask 4)) 4 4 0)"
      by (simp_all add: sample_pool_def pool_ok_def)
    have "\<not> bitrun (pp_bitmap (sample_pool (NOT (mask 4)) 4 4 0))
        (pp_nr_pages (sample_pool (NOT (mask 4)) 4 4 0)) False 2 i"
      if "pp_cur (sample_pool (NOT (mask 4)) 4 4 0) 2 False \<le> i" for i
    proof
      have i: "4 \<le> i" using that by (simp add: sample_pool_def pp_cur_def pp_start_def)
      assume "bitrun (pp_bitmap (sample_pool (NOT (mask 4)) 4 4 0))
        (pp_nr_pages (sample_pool (NOT (mask 4)) 4 4 0)) False 2 i"
      then have "i < 32" "\<not> bmbit ((\<lambda>_. 0)(0 := NOT (mask 4))) i"
        by (auto simp: bitrun_def sample_pool_def)
      with i show False by (simp add: bmbit_def bit_not_iff)
    qed
    from pp_alloc_wild_on_failure[OF free(2) _ this] free(1) show ?thesis by simp
  qed
qed

text \<open>
  The step from a misaligned run to the next candidate adds the remainder instead of what is
  missing to the next multiple, so it can jump over the only aligned run and go round for ever.
\<close>

lemma pp_while_spins:
  assumes "pp_while pool n al st c = Some r"
  shows "\<not> (pp_bitmap pool = (\<lambda>_. 0)(0 := 0xFFFFFF07) \<and> pp_nr_pages pool = 32 \<and> pp_free pool \<noteq> 0 \<and>
    n = 4 \<and> al \<and> st = 0 \<and> (c = 0 \<or> c = 6 \<or> c = 2))"
proof (rule pp_while.raw_induct[OF _ assms, where P = "\<lambda>pool n al st c r.
    \<not> (pp_bitmap pool = (\<lambda>_. 0)(0 := 0xFFFFFF07) \<and> pp_nr_pages pool = 32 \<and> pp_free pool \<noteq> 0 \<and>
    n = 4 \<and> al \<and> st = 0 \<and> (c = 0 \<or> c = 6 \<or> c = 2))"], goal_cases)
  case (1 w pool n al st c r)
  show ?case
  proof
    assume *: "pp_bitmap pool = (\<lambda>_. 0)(0 := 0xFFFFFF07) \<and> pp_nr_pages pool = 32 \<and> pp_free pool \<noteq> 0 \<and>
      n = 4 \<and> al \<and> st = 0 \<and> (c = 0 \<or> c = 6 \<or> c = 2)"
    then have "w pool n al st 6 = Some r \<or> w pool n al st 2 = Some r"
      using 1(2) by (auto simp: sample_find)
    with 1(1) * show False by blast
  qed
qed

text \<open>An aligned request can run for ever although an aligned run of free pages exists: in a pool
  of 32 pages with pages 3 to 7 free, asking for 4 aligned pages never returns.\<close>

theorem pp_alloc_aligned_diverges:
  "bitrun (pp_bitmap (sample_pool 0xFFFFFF07 5 0 0)) 32 False 4 4 \<and>
   pp_alloc (sample_pool 0xFFFFFF07 5 0 0) 4 True pg = None"
proof
  have j: "j = 4 \<or> j = 5 \<or> j = 6 \<or> j = 7" if "4 \<le> j" "j < 8" for j :: nat using that by auto
  show "bitrun (pp_bitmap (sample_pool 0xFFFFFF07 5 0 0)) 32 False 4 4"
    by (auto simp: bitrun_def bmbit_def sample_pool_def dest!: j)
  have "pp_while \<lparr>pp_base = 0x40000000, pp_nr_pages = 32, pp_free = 5, pp_last = 0,
      pp_bitmap = (\<lambda>_. 0)(0 := 0xFFFFFF07), pp_lock = l\<rparr> 4 True 0 0 = None" for l
    by (rule ccontr) (auto dest: pp_while_spins)
  then show "pp_alloc (sample_pool 0xFFFFFF07 5 0 0) 4 True pg = None"
    by (simp add: pool_eval pp_searches_twice)
qed


text \<open>On a page-aligned region of a positive multiple of 32 pages \<open>mem_init\<close> returns a
  well-formed pool in which every page of the region is free. The bitmap lies past the region,
  and yet its pages are deducted from the free counter.\<close>

theorem mem_init_pool:
  assumes "IS_ALIGNED b PAGE_SIZE" "unat b + 4096 < 2 ^ 64" "unat (e - b) = nr * 4096"
    and "nr mod 32 = 0" "0 < nr" "nr < 2 ^ 51"
  shows "\<exists>pool. mem_init b e ram = Inr pool \<and> pool_ok pool \<and> pp_base pool = b \<and> pp_nr_pages pool = nr \<and>
    free_pages pool = {..<nr} \<and> pp_free pool + bitmap_nr_pages nr = card (free_pages pool)"
proof -
  have nr: "32 \<le> nr" using assms(4,5) by (metis dvd_imp_le mod_0_imp_dvd)
  have less: "bitmap_nr_pages nr < nr" "0 < bitmap_nr_pages nr"
    using nr div_mult_mod_eq[of nr PAGE_BITS] by (auto simp: bitmap_nr_pages_def)
  have b: "ALIGN b PAGE_SIZE = b"
  proof (rule word_unat_eq_iff[THEN iffD2])
    have m: "unat b mod 4096 = 0"
      using assms(1) unfolding IS_ALIGNED_def by (metis unat_0 unat_mod unat_numeral_page)
    then obtain k where "unat b = 4096 * k" by (auto elim!: dvdE simp: mod_eq_0_iff_dvd)
    then have "(4095 + unat b) div 4096 * 4096 = unat b" by simp
    then show "unat (ALIGN b PAGE_SIZE) = unat b"
      using unat_ALIGN[of "PAGE_SIZE" b] assms(2) by simp
  qed
  have np: "unat (NUM_PAGES (e - b)) = nr"
    using unat_NUM_PAGES[of "e - b"] assms(3,6) by simp
  define z where "z = (\<lambda>g. if g < bitmap_nr_pages nr * 1024 then 0 else ram g)"
  have z: "\<not> bmbit z i" if "i < nr" for i
  proof -
    have "i div 32 < bitmap_nr_pages nr * 1024"
      using that bitmap_nr_pages_covers[of nr] by (simp add: less_mult_imp_div_less)
    then show ?thesis by (simp add: bmbit_def z_def)
  qed
  let ?pool = "\<lparr>pp_base = b, pp_nr_pages = nr, pp_free = nr - bitmap_nr_pages nr, pp_last = 0,
     pp_bitmap = bitmap_set_consecutive z nr (bitmap_nr_pages nr), pp_lock = SPINLOCK_INITVAL\<rparr>"
  have free: "free_pages ?pool = {..<nr}"
    using z less(2) by (auto simp: free_pages_def bmbit_set_consecutive)
  have "nr + 2 ^ 64 - bitmap_nr_pages nr = (nr - bitmap_nr_pages nr) + 2 ^ 64" using less by simp
  then have "(nr + 2 ^ 64 - bitmap_nr_pages nr) mod 2 ^ 64 = nr - bitmap_nr_pages nr"
    using assms(6) by (simp only: mod_add_self2) simp
  then have "mem_init b e ram = Inr ?pool"
    using less assms(3,6) b np
    by (simp cong: if_cong add: mem_init_def Let_def root_pool_set_up_bitmap_def mem_ppages_get_def z_def)
  with free less assms(4,6) show ?thesis
    by (intro exI[of _ ?pool]) (simp add: pool_ok_def SPINLOCK_INITVAL_def)
qed

theorem mem_init_pool_witness:
  "\<exists>pool. mem_init 0x40000000 0x40020000 (\<lambda>_. 0) = Inr pool \<and> pool_ok pool \<and>
    free_pages pool = {..<32} \<and> pp_free pool + bitmap_nr_pages 32 = card (free_pages pool)"
  using mem_init_pool[where b = "0x40000000" and e = "0x40020000" and nr = 32 and ram = "\<lambda>_. 0"] by (auto simp: IS_ALIGNED_def)

end
