(* ===== verification/Mmu.thy ===== *)
theory Mmu
  imports Page_Table Page_Pool
begin

text \<open>
  \<open>core/mmu.c\<close> and \<open>core/inc/tlb.h\<close>: allocation and mapping of virtual pages. The state \<open>mm\<close>
  holds the memory of the page tables, the root page pool, one address space and the log of
  TLB invalidations. Loops whose bounds are not structural are partial functions (\<open>None\<close>: the
  call does not return); a page request that never returns is \<open>Spin\<close>.
\<close>

unbundle bit_operations_syntax

datatype as_type = AS_HYP | AS_VM | AS_HYP_CPY

record addr_space =
  as_pt :: page_table
  as_ty :: as_type
  as_asid :: u64
  as_lock :: spinlock

record mm =
  mm_mem :: pte_mem
  mm_pool :: page_pool
  mm_as :: addr_space
  mm_tlb :: "vaddr_t list"

abbreviation MAX_VA :: vaddr_t where "MAX_VA \<equiv> - 1"
abbreviation INVALID_VA :: vaddr_t where "INVALID_VA \<equiv> - 1"

abbreviation pt_of :: "mm \<Rightarrow> page_table" where "pt_of s \<equiv> as_pt (mm_as s)"
abbreviation last_lvl :: "mm \<Rightarrow> nat" where "last_lvl s \<equiv> lvls (pt_dscr (pt_of s)) - 1"

definition upd_mem :: "(pte_mem \<Rightarrow> pte_mem) \<Rightarrow> mm \<Rightarrow> mm" where
  "upd_mem f s = s\<lparr>mm_mem := f (mm_mem s)\<rparr>"

definition pool_request :: "nat \<Rightarrow> bool \<Rightarrow> mm \<Rightarrow> (ppages \<times> mm) res" where
  "pool_request n aligned s =
     (case mem_alloc_ppages (mm_pool s) n aligned of
        None \<Rightarrow> Inl Spin
      | Some r \<Rightarrow> bindr r (\<lambda>(pool, pages). Inr (pages, s\<lparr>mm_pool := pool\<rparr>)))"

definition pte_allocable :: "mm \<Rightarrow> u64 \<Rightarrow> nat \<Rightarrow> u64 \<Rightarrow> vaddr_t \<Rightarrow> bool" where
  "pte_allocable s pte lvl left addr \<longleftrightarrow>
     lvl = last_lvl s \<or>
     (pt_lvl_terminal (pt_of s) lvl \<and> \<not> pte_valid (mm_mem s pte) \<and>
      pt_lvlsize (pt_of s) lvl \<le> left * PAGE_SIZE \<and> addr mod pt_lvlsize (pt_of s) lvl = 0)"

definition fill_table :: "u64 \<Rightarrow> nat \<Rightarrow> pte_t \<Rightarrow> pte_mem \<Rightarrow> pte_mem" where
  "fill_table t n v mem = fold (\<lambda>i m. m(t + 8 * word_of_nat i := v)) [0..<n] mem"

text \<open>The address 0 is NULL.\<close>

definition mem_alloc_pt :: "u64 \<Rightarrow> nat \<Rightarrow> vaddr_t \<Rightarrow> mm \<Rightarrow> (u64 \<times> mm) res" where
  "mem_alloc_pt parent lvl addr s =
     (let ptsize = NUM_PAGES (pt_size (pt_of s) (lvl + 1))
      in bindr (pool_request (unat ptsize) (ptsize > 1) s) (\<lambda>(ppage, s).
         if pg_nr ppage = 0 then Inr (0, s)
         else
           let dflt = PTE_INVALID OR (mm_mem s parent AND PTE_RSW_MSK);
               s = upd_mem (pte_set parent (pg_base ppage) PTE_TABLE PTE_HYP_FLAGS) s;
               temp_pt = pt_get (mm_mem s) (pt_of s) (lvl + 1) addr;
               s = upd_mem (fill_table temp_pt (unat (pt_nentries (pt_of s) (lvl + 1))) dflt) s
           in Inr (temp_pt, s)))"

definition mem_free_ppages :: "ppages \<Rightarrow> mm \<Rightarrow> mm res" where
  "mem_free_ppages pages s =
     (let pool = mm_pool s
      in bindr (spin_lock (pp_lock pool)) (\<lambda>l.
         let bm = (if in_range (pg_base pages) (pp_base pool) (word_of_nat (pp_nr_pages pool) * PAGE_SIZE)
                   then bitmap_clear_consecutive (pp_bitmap pool)
                          (unat ((pg_base pages - pp_base pool) div PAGE_SIZE)) (pg_nr pages)
                   else pp_bitmap pool)
         in bindr (spin_lock l) (\<lambda>l.
              Inr (s\<lparr>mm_pool := pool\<lparr>pp_bitmap := bm, pp_lock := l\<rparr>\<rparr>))))"

definition pt_page_type :: "page_table \<Rightarrow> nat \<Rightarrow> u64" where
  "pt_page_type pt lvl = (if lvl = lvls (pt_dscr pt) - 1 then PTE_PAGE else PTE_SUPERPAGE)"

fun expand_fill :: "bool \<Rightarrow> bool \<Rightarrow> u64 \<Rightarrow> u64 \<Rightarrow> u64 \<Rightarrow> nat \<Rightarrow> u64 \<Rightarrow> paddr_t \<Rightarrow> pte_mem \<Rightarrow> pte_mem" where
  "expand_fill vld rsv type flags lvlsz 0 pte paddr mem = mem"
| "expand_fill vld rsv type flags lvlsz (Suc k) pte paddr mem =
     expand_fill vld rsv type flags lvlsz k (pte + 8) (paddr + lvlsz)
       (if vld then pte_set pte paddr type flags mem
        else if rsv then pte_set_rsw pte PTE_RSW_RSRV mem else mem)"

definition mem_expand_pte :: "vaddr_t \<Rightarrow> nat \<Rightarrow> mm \<Rightarrow> mm res" where
  "mem_expand_pte va lvl s =
     (if last_lvl s \<le> lvl then Inr s
      else
        let pte = pt_get_pte (mm_mem s) (pt_of s) lvl va
        in if pte \<noteq> 0 \<and> \<not> pte_table (pt_of s) (mm_mem s pte) lvl
           then
             let pte_val = mm_mem s pte;
                 rsv = pte_check_rsw pte_val PTE_RSW_RSRV;
                 vld = pte_valid pte_val
             in bindr (mem_alloc_pt pte lvl va s) (\<lambda>(pte, s).
                  if vld \<or> rsv then
                    let lvl = lvl + 1;
                        entry = pt_getpteindex (pt_of s) pte lvl;
                        n = unat (pt_nentries (pt_of s) lvl) - unat entry;
                        flags = (if as_ty (mm_as s) = AS_HYP then PTE_HYP_FLAGS else PTE_VM_FLAGS)
                    in Inr (upd_mem (expand_fill vld rsv (pt_page_type (pt_of s) lvl) flags
                         (pt_lvlsize (pt_of s) lvl) n pte (pte_addr pte_val)) s)
                  else Inr s)
           else Inr s)"

partial_function (option) inflate_lvl :: "nat \<Rightarrow> u64 \<Rightarrow> vaddr_t \<Rightarrow> vaddr_t \<Rightarrow> mm \<Rightarrow> mm res option" where
  "inflate_lvl lvl lvlsz stop vaddr s =
     (if vaddr < stop
      then case mem_expand_pte vaddr lvl s of
             Inl e \<Rightarrow> Some (Inl e)
           | Inr s \<Rightarrow> inflate_lvl lvl lvlsz stop (vaddr + lvlsz) s
      else Some (Inr s))"

fun inflate_lvls :: "nat list \<Rightarrow> vaddr_t \<Rightarrow> u64 \<Rightarrow> mm \<Rightarrow> mm res option" where
  "inflate_lvls [] va len s = Some (Inr s)"
| "inflate_lvls (lvl # ls) va len s =
     (case inflate_lvl lvl (pt_lvlsize (pt_of s) lvl) (va + len) va s of
        Some (Inr s) \<Rightarrow> inflate_lvls ls va len s
      | r \<Rightarrow> r)"

definition mem_inflate_pt :: "vaddr_t \<Rightarrow> u64 \<Rightarrow> mm \<Rightarrow> mm res option" where
  "mem_inflate_pt va len s = inflate_lvls [0..<last_lvl s] va len s"

definition as_init :: "as_type \<Rightarrow> u64 \<Rightarrow> u64 \<Rightarrow> mm \<Rightarrow> mm res option" where
  "as_init type asid root_pt s =
     (let dscr = (if type = AS_HYP \<or> type = AS_HYP_CPY then armv8_pt_dscr else armv8_pt_s2_dscr);
          as = \<lparr>as_pt = \<lparr>pt_root = root_pt, pt_dscr = dscr\<rparr>, as_ty = type, as_asid = asid,
                as_lock = SPINLOCK_INITVAL\<rparr>
      in if root_pt = 0 then
           let n = NUM_PAGES (pt_size (as_pt as) 0)
           in map_option (\<lambda>r. bindr r (\<lambda>(pool, base).
                Inr (s\<lparr>mm_pool := pool, mm_as := as\<lparr>as_pt := \<lparr>pt_root = base, pt_dscr = dscr\<rparr>\<rparr>,
                  mm_mem := fill_table base (unat n * 512) 0 (mm_mem s)\<rparr>)))
                (mem_alloc_page (mm_pool s) (unat n) True)
         else Some (Inr (s\<lparr>mm_as := as\<rparr>)))"

subsection \<open>Reserving virtual pages\<close>

record vp_state =
  vp_lvl :: nat
  vp_addr :: vaddr_t
  vp_count :: u64
  vp_vpage :: vaddr_t
  vp_failed :: bool

text \<open>\<open>k\<close> entries of the table are left from \<open>pte\<close> on.\<close>

fun vp_inner :: "vaddr_t \<Rightarrow> u64 \<Rightarrow> u64 \<Rightarrow> nat \<Rightarrow> u64 \<Rightarrow> vp_state \<Rightarrow> mm \<Rightarrow> (vp_state \<times> mm) res" where
  "vp_inner at n lvlsze 0 pte v s = Inr (v, s)"
| "vp_inner at n lvlsze (Suc k) pte v s =
     (if \<not> (vp_count v < n \<and> \<not> vp_failed v) then Inr (v, s)
      else
        let lvl = vp_lvl v; e = mm_mem s pte
        in bindr
          (if pte_check_rsw e PTE_RSW_RSRV \<or> (pte_valid e \<and> \<not> pte_table (pt_of s) e lvl)
           then let v = v\<lparr>vp_count := 0, vp_vpage := INVALID_VA\<rparr>
                in Inr (if at \<noteq> INVALID_VA then (v\<lparr>vp_failed := True\<rparr>, s, True) else (v, s, False))
           else if \<not> pte_valid e
           then if pte_allocable s pte lvl (n - vp_count v) (vp_addr v)
                then Inr (v\<lparr>vp_vpage := (if vp_count v = 0 then vp_addr v else vp_vpage v),
                            vp_count := vp_count v + lvlsze div PAGE_SIZE\<rparr>, s, False)
                else bindr (mem_alloc_pt pte lvl (vp_addr v) s) (\<lambda>(t, s).
                       if t = 0 then Inl Error else Inr (v, s, False))
           else Inr (v, s, False))
          (\<lambda>(v, s, brk).
            if brk then Inr (v, s)
            else if pte_table (pt_of s) (mm_mem s pte) lvl then Inr (v\<lparr>vp_lvl := lvl + 1\<rparr>, s)
            else
              let v = v\<lparr>vp_addr := vp_addr v + lvlsze\<rparr>
              in if k = 0 then Inr (v\<lparr>vp_lvl := 0\<rparr>, s)
                 else vp_inner at n lvlsze k (pte + 8) v s))"

partial_function (option) vp_outer :: "vaddr_t \<Rightarrow> u64 \<Rightarrow> vp_state \<Rightarrow> mm \<Rightarrow> (vp_state \<times> mm) res option" where
  "vp_outer at n v s =
     (if \<not> (vp_count v < n \<and> \<not> vp_failed v) then Some (Inr (v, s))
      else if vp_addr v \<noteq> 0 \<and> (MAX_VA + 1 - vp_addr v) div PAGE_SIZE < n
      then Some (Inr (v\<lparr>vp_vpage := INVALID_VA, vp_failed := True\<rparr>, s))
      else
        let pte = pt_get_pte (mm_mem s) (pt_of s) (vp_lvl v) (vp_addr v);
            entry = pt_getpteindex (pt_of s) pte (vp_lvl v);
            left = unat (pt_nentries (pt_of s) (vp_lvl v)) - unat entry
        in case vp_inner at n (pt_lvlsize (pt_of s) (vp_lvl v)) left pte v s of
             Inl e \<Rightarrow> Some (Inl e)
           | Inr (v, s) \<Rightarrow> vp_outer at n v s)"

text \<open>The level of the first entry on the path of \<open>addr\<close> that is not valid, if there is one.\<close>

definition first_invalid :: "mm \<Rightarrow> vaddr_t \<Rightarrow> nat option" where
  "first_invalid s addr =
     find (\<lambda>lvl. \<not> pte_valid (mm_mem s (pt_get_pte (mm_mem s) (pt_of s) lvl addr)))
       [0..<lvls (pt_dscr (pt_of s))]"

partial_function (option) vp_reserve :: "u64 \<Rightarrow> vaddr_t \<Rightarrow> u64 \<Rightarrow> mm \<Rightarrow> mm res option" where
  "vp_reserve n addr count s =
     (if count < n then
        case first_invalid s addr of
          None \<Rightarrow> Some (Inl Bad_Access)
        | Some lvl \<Rightarrow>
            let pte = pt_get_pte (mm_mem s) (pt_of s) lvl addr
            in vp_reserve n (addr + pt_lvlsize (pt_of s) lvl)
                 (count + pt_lvlsize (pt_of s) lvl div PAGE_SIZE)
                 (upd_mem (pte_set_rsw pte PTE_RSW_RSRV) s)
      else Some (Inr s))"

definition set_as_lock :: "spinlock \<Rightarrow> mm \<Rightarrow> mm" where
  "set_as_lock l s = s\<lparr>mm_as := (mm_as s)\<lparr>as_lock := l\<rparr>\<rparr>"

definition unlock_as :: "mm \<Rightarrow> mm" where
  "unlock_as s = set_as_lock (spin_unlock (as_lock (mm_as s))) s"

definition mem_alloc_vpage :: "vaddr_t \<Rightarrow> u64 \<Rightarrow> mm \<Rightarrow> (vaddr_t \<times> mm) res option" where
  "mem_alloc_vpage at n s =
     (let addr = (if at \<noteq> INVALID_VA then at else 0)
      in if addr > MAX_VA \<or> \<not> IS_ALIGNED addr PAGE_SIZE then Some (Inr (INVALID_VA, s))
         else case spin_lock (as_lock (mm_as s)) of
           Inl e \<Rightarrow> Some (Inl e)
         | Inr l \<Rightarrow>
           (case vp_outer at n \<lparr>vp_lvl = 0, vp_addr = addr, vp_count = 0, vp_vpage = INVALID_VA,
                                vp_failed = False\<rparr> (set_as_lock l s) of
              None \<Rightarrow> None
            | Some (Inl e) \<Rightarrow> Some (Inl e)
            | Some (Inr (v, s)) \<Rightarrow>
                if vp_vpage v \<noteq> INVALID_VA \<and> \<not> vp_failed v
                then map_option (\<lambda>r. bindr r (\<lambda>s. Inr (vp_vpage v, unlock_as s)))
                       (vp_reserve n (vp_vpage v) 0 s)
                else Some (Inr (vp_vpage v, unlock_as s))))"

subsection \<open>Mapping and unmapping\<close>

fun map_pages :: "nat list \<Rightarrow> paddr_t \<Rightarrow> u64 \<Rightarrow> vaddr_t \<Rightarrow> mm \<Rightarrow> mm" where
  "map_pages [] base flags vaddr s = s"
| "map_pages (i # is) base flags vaddr s =
     (let pte = pt_get_pte (mm_mem s) (pt_of s) (last_lvl s) vaddr;
          paddr = base + word_of_nat i * PAGE_SIZE
      in map_pages is base flags (vaddr + PAGE_SIZE) (upd_mem (pte_set pte paddr PTE_PAGE flags) s))"

definition mem_map :: "vaddr_t \<Rightarrow> ppages option \<Rightarrow> u64 \<Rightarrow> u64 \<Rightarrow> mm \<Rightarrow> (bool \<times> mm) res option" where
  "mem_map va pages nr flags s =
     (let vaddr = va AND NOT (PAGE_SIZE - 1)
      in case spin_lock (as_lock (mm_as s)) of
           Inl e \<Rightarrow> Some (Inl e)
         | Inr l \<Rightarrow>
           (case (case pages of
                    Some p \<Rightarrow> Inr (p, set_as_lock l s)
                  | None \<Rightarrow> bindr (pool_request (unat nr) False (set_as_lock l s)) (\<lambda>(p, s).
                      if pg_nr p < unat nr then Inl Error else Inr (p, s))) of
              Inl e \<Rightarrow> Some (Inl e)
            | Inr (p, s) \<Rightarrow>
                map_option (\<lambda>r. bindr r (\<lambda>s.
                    Inr (True, unlock_as (map_pages [0..<pg_nr p] (pg_base p) flags vaddr s))))
                  (mem_inflate_pt vaddr (nr * PAGE_SIZE) s)))"

definition mem_alloc_map :: "ppages option \<Rightarrow> vaddr_t \<Rightarrow> u64 \<Rightarrow> u64 \<Rightarrow> mm \<Rightarrow> (vaddr_t \<times> mm) res option" where
  "mem_alloc_map page at nr flags s =
     (case mem_alloc_vpage at nr s of
        Some (Inr (address, s)) \<Rightarrow>
          if address \<noteq> INVALID_VA
          then map_option (\<lambda>r. bindr r (\<lambda>(_, s). Inr (address, s))) (mem_map address page nr flags s)
          else Some (Inr (address, s))
      | r \<Rightarrow> r)"

definition mem_alloc_map_dev :: "vaddr_t \<Rightarrow> paddr_t \<Rightarrow> u64 \<Rightarrow> mm \<Rightarrow> (vaddr_t \<times> mm) res option" where
  "mem_alloc_map_dev at pa nr s =
     (case mem_alloc_vpage at nr s of
        Some (Inr (address, s)) \<Rightarrow>
          if address \<noteq> INVALID_VA
          then
            let pages = mem_ppages_get pa (unat nr);
                flags = (if as_ty (mm_as s) = AS_HYP then PTE_HYP_DEV_FLAGS else PTE_VM_DEV_FLAGS)
            in map_option (\<lambda>r. bindr r (\<lambda>(_, s). Inr (address, s))) (mem_map address (Some pages) nr flags s)
          else Some (Inr (address, s))
      | r \<Rightarrow> r)"

text \<open>
  The inner loop of \<open>mem_unmap\<close> with \<open>k\<close> entries left returns the new address, the level and
  whether the table's end was reached.
\<close>

fun unmap_inner :: "bool \<Rightarrow> vaddr_t \<Rightarrow> u64 \<Rightarrow> nat \<Rightarrow> nat \<Rightarrow> u64 \<Rightarrow> vaddr_t \<Rightarrow> mm \<Rightarrow>
    (vaddr_t \<times> nat \<times> bool \<times> mm) res" where
  "unmap_inner free_pp stop lvlsz lvl 0 pte vaddr s = Inr (vaddr, lvl, True, s)"
| "unmap_inner free_pp stop lvlsz lvl (Suc k) pte vaddr s =
     (if \<not> vaddr < stop then Inr (vaddr, lvl, False, s)
      else if \<not> pte_table (pt_of s) (mm_mem s pte) lvl
      then
        let vpage_base = vaddr AND NOT (lvlsz - 1)
        in if vaddr > vpage_base \<or> stop < vpage_base + lvlsz
           then bindr (mem_expand_pte vaddr lvl s) (\<lambda>s. Inr (vaddr, lvl + 1, False, s))
           else bindr (if free_pp
                  then mem_free_ppages (mem_ppages_get (pte_addr (mm_mem s pte)) (unat (lvlsz div PAGE_SIZE))) s
                  else Inr s) (\<lambda>s.
                unmap_inner free_pp stop lvlsz lvl k (pte + 8) (vaddr + lvlsz)
                  (upd_mem (\<lambda>m. m(pte := 0)) (s\<lparr>mm_tlb := mm_tlb s @ [vaddr]\<rparr>)))
      else Inr (vaddr, lvl, False, s))"

partial_function (option) unmap_outer :: "bool \<Rightarrow> vaddr_t \<Rightarrow> vaddr_t \<Rightarrow> nat \<Rightarrow> mm \<Rightarrow> mm res option" where
  "unmap_outer free_pp stop vaddr lvl s =
     (if vaddr < stop then
        let pte = pt_get_pte (mm_mem s) (pt_of s) lvl vaddr
        in if pte = 0 then Some (Inl Error)
           else if \<not> pte_valid (mm_mem s pte)
           then unmap_outer free_pp stop (vaddr + pt_lvlsize (pt_of s) lvl) lvl s
           else if pte_table (pt_of s) (mm_mem s pte) lvl
           then unmap_outer free_pp stop vaddr (lvl + 1) s
           else
             let entry = pt_getpteindex (pt_of s) pte lvl;
                 left = unat (pt_nentries (pt_of s) lvl) - unat entry
             in case unmap_inner free_pp stop (pt_lvlsize (pt_of s) lvl) lvl left pte vaddr s of
                  Inl e \<Rightarrow> Some (Inl e)
                | Inr (vaddr, lvl, at_end, s) \<Rightarrow>
                    if at_end \<and> lvl = 0
                    then Some (if vaddr < stop then Inl Bad_Access else Inr s)
                    else unmap_outer free_pp stop vaddr (if at_end then lvl - 1 else lvl) s
      else Some (Inr s))"

definition mem_unmap :: "vaddr_t \<Rightarrow> u64 \<Rightarrow> bool \<Rightarrow> mm \<Rightarrow> mm res option" where
  "mem_unmap at num_pages free_pp s =
     (case spin_lock (as_lock (mm_as s)) of
        Inl e \<Rightarrow> Some (Inl e)
      | Inr l \<Rightarrow> map_option (\<lambda>r. bindr r (\<lambda>s. Inr (unlock_as s)))
          (unmap_outer free_pp (at + num_pages * PAGE_SIZE) at 0 (set_as_lock l s)))"

subsection \<open>TLB maintenance\<close>

text \<open>
  The \<open>VTTBR_EL2\<close> register while the entries of another VM are invalidated: its value when the
  invalidation is issued and its value when the function returns.
\<close>

definition vttbr_vmid :: "u64 \<Rightarrow> u64" where
  "vttbr_vmid vmid = lsl vmid 48 AND BIT_MASK 48 8"

definition tlb_vm_inv_va :: "u64 \<Rightarrow> u64 \<Rightarrow> u64 \<times> u64" where
  "tlb_vm_inv_va vmid vttbr =
     (let switch_vmid = bit_extract vttbr 48 8 \<noteq> vmid;
          during = (if switch_vmid then vttbr_vmid vmid else vttbr)
      in (during, if switch_vmid then vttbr_vmid vmid else during))"

definition tlb_vm_inv_all :: "u64 \<Rightarrow> u64 \<Rightarrow> u64 \<times> u64" where
  "tlb_vm_inv_all vmid vttbr =
     (let switch_vmid = bit_extract vttbr 48 8 \<noteq> vmid;
          during = (if switch_vmid then vttbr_vmid vmid else vttbr)
      in (during, if switch_vmid then vttbr_vmid vmid else during))"

definition tlb_inv_va :: "addr_space \<Rightarrow> u64 \<Rightarrow> u64" where
  "tlb_inv_va as vttbr = (case as_ty as of
     AS_HYP \<Rightarrow> vttbr | AS_VM \<Rightarrow> snd (tlb_vm_inv_va (as_asid as) vttbr) | AS_HYP_CPY \<Rightarrow> vttbr)"

definition tlb_inv_all :: "addr_space \<Rightarrow> u64 \<Rightarrow> u64" where
  "tlb_inv_all as vttbr = (case as_ty as of
     AS_HYP \<Rightarrow> vttbr | AS_VM \<Rightarrow> snd (tlb_vm_inv_all (as_asid as) vttbr) | AS_HYP_CPY \<Rightarrow> vttbr)"

end
