(* ===== verification/Vgic_Regs.thy ===== *)
theory Vgic_Regs
  imports Vgic Mmu
begin

text \<open>
  The virtual interrupt controller, second part: the emulation of the distributor's registers
  (\<open>vgic.c\<close> lines 392 to 898 and the SGI and target registers of \<open>vgicv2.c\<close>), the injection
  of interrupts, the messages between processors, the refilling of list registers, the
  maintenance interrupt and the initialisation (\<open>vgic.c\<close> lines 900 to 1166, \<open>vgicv2.c\<close>).
  \<open>cpu()->vcpu\<close> is the vCPU \<open>gs_vcpu\<close>.
\<close>

unbundle bit_operations_syntax

definition cur_readreg :: "vgic_sys \<Rightarrow> u64 \<Rightarrow> u64" where
  "cur_readreg s reg = vcpu_readreg (vm_vcpus (gs_vm s) (gs_vcpu s)) reg"

definition cur_writereg :: "u64 \<Rightarrow> u64 \<Rightarrow> vgic_sys \<Rightarrow> vgic_sys" where
  "cur_writereg reg val s =
     s\<lparr>gs_vm := (gs_vm s)\<lparr>vm_vcpus := (vm_vcpus (gs_vm s))
        (gs_vcpu s := vcpu_writereg reg val (vm_vcpus (gs_vm s) (gs_vcpu s)))\<rparr>\<rparr>"

subsection \<open>Fields of an interrupt\<close>

text \<open>A field update returns whether the field changed, together with the new interrupt.\<close>

definition vgic_int_update_enable :: "bool \<Rightarrow> vgic_int \<Rightarrow> bool \<times> vgic_int" where
  "vgic_int_update_enable enable i =
     (if gic_is_sgi (vi_id i) then (False, i)
      else if enable \<noteq> vi_enabled i then (True, i\<lparr>vi_enabled := enable\<rparr>) else (False, i))"

definition vgic_int_clear_enable :: "u64 \<Rightarrow> vgic_int \<Rightarrow> bool \<times> vgic_int" where
  "vgic_int_clear_enable data i = (if data = 0 then (False, i) else vgic_int_update_enable False i)"

definition vgic_int_set_enable :: "u64 \<Rightarrow> vgic_int \<Rightarrow> bool \<times> vgic_int" where
  "vgic_int_set_enable data i = (if data = 0 then (False, i) else vgic_int_update_enable True i)"

definition vgic_int_get_enable :: "vgic_int \<Rightarrow> u64" where
  "vgic_int_get_enable i = of_bool (vi_enabled i)"

definition vgic_int_update_pend :: "bool \<Rightarrow> vgic_int \<Rightarrow> bool \<times> vgic_int" where
  "vgic_int_update_pend pend i =
     (if gic_is_sgi (vi_id i) then (False, i)
      else if pend \<noteq> (vi_state i AND PEND \<noteq> 0)
      then (True, i\<lparr>vi_state := (if pend then vi_state i OR PEND else vi_state i AND NOT PEND)\<rparr>)
      else (False, i))"

definition vgic_int_clear_pend :: "u64 \<Rightarrow> vgic_int \<Rightarrow> bool \<times> vgic_int" where
  "vgic_int_clear_pend data i = (if data = 0 then (False, i) else vgic_int_update_pend False i)"

definition vgic_int_set_pend :: "u64 \<Rightarrow> vgic_int \<Rightarrow> bool \<times> vgic_int" where
  "vgic_int_set_pend data i = (if data = 0 then (False, i) else vgic_int_update_pend True i)"

definition vgic_int_get_pend :: "vgic_int \<Rightarrow> u64" where
  "vgic_int_get_pend i = (if vi_state i AND PEND \<noteq> 0 then 1 else 0)"

definition vgic_int_update_act :: "bool \<Rightarrow> vgic_int \<Rightarrow> bool \<times> vgic_int" where
  "vgic_int_update_act act i =
     (if act \<noteq> (vi_state i AND ACT \<noteq> 0)
      then (True, i\<lparr>vi_state := (if act then vi_state i OR ACT else vi_state i AND NOT ACT)\<rparr>)
      else (False, i))"

definition vgic_int_clear_act :: "u64 \<Rightarrow> vgic_int \<Rightarrow> bool \<times> vgic_int" where
  "vgic_int_clear_act data i = (if data = 0 then (False, i) else vgic_int_update_act False i)"

definition vgic_int_set_act :: "u64 \<Rightarrow> vgic_int \<Rightarrow> bool \<times> vgic_int" where
  "vgic_int_set_act data i = (if data = 0 then (False, i) else vgic_int_update_act True i)"

definition vgic_int_get_act :: "vgic_int \<Rightarrow> u64" where
  "vgic_int_get_act i = (if vi_state i AND ACT \<noteq> 0 then 1 else 0)"

definition vgic_int_set_cfg :: "u64 \<Rightarrow> vgic_int \<Rightarrow> bool \<times> vgic_int" where
  "vgic_int_set_cfg cfg i = (ucast (vi_cfg i) \<noteq> cfg, i\<lparr>vi_cfg := ucast cfg\<rparr>)"

definition vgic_int_get_cfg :: "vgic_int \<Rightarrow> u64" where
  "vgic_int_get_cfg i = ucast (vi_cfg i)"

definition vgic_int_set_prio :: "u64 \<Rightarrow> vgic_int \<Rightarrow> bool \<times> vgic_int" where
  "vgic_int_set_prio prio i =
     (ucast (vi_prio i) \<noteq> prio, i\<lparr>vi_prio := ucast prio AND ucast (BIT_MASK (8 - 5) 5 :: u64)\<rparr>)"

definition vgic_int_get_prio :: "vgic_int \<Rightarrow> u64" where
  "vgic_int_get_prio i = ucast (vi_prio i)"

definition vgicd_set_trgt :: "vm \<Rightarrow> u64 \<Rightarrow> vgic_int \<Rightarrow> bool \<times> vgic_int" where
  "vgicd_set_trgt vm targets i =
     (if gic_is_priv (vi_id i) then (False, i)
      else
        let prev_targets = vi_targets i;
            targets = vm_translate_to_pcpu_mask vm targets 8
        in (ucast prev_targets \<noteq> targets, i\<lparr>vi_byte0 := ucast targets\<rparr>))"

definition vgicd_get_trgt :: "vm \<Rightarrow> nat \<Rightarrow> vgic_int \<Rightarrow> u64" where
  "vgicd_get_trgt vm vcpu i =
     (if gic_is_priv (vi_id i) then lsl 1 vcpu
      else vm_translate_to_vcpu_mask vm (ucast (vi_targets i)) 8)"

subsection \<open>Carrying a field over to the physical controller\<close>

definition vgic_int_enable_hw :: "vgic_int \<Rightarrow> gic_hw \<Rightarrow> gic_hw res" where
  "vgic_int_enable_hw i h = Inr (gic_set_enable (vi_id i) (vi_enabled i) h)"

definition vgic_int_state_hw :: "vgic_int \<Rightarrow> gic_hw \<Rightarrow> gic_hw res" where
  "vgic_int_state_hw i h =
     (let state = (if vi_state i = PEND then ACT else vi_state i);
          pend = state AND PEND \<noteq> 0;
          act = state AND ACT \<noteq> 0
      in Inr (gicd_set_pend (vi_id i) pend (gicd_set_act (vi_id i) act h)))"

definition vgic_int_set_cfg_hw :: "vgic_int \<Rightarrow> gic_hw \<Rightarrow> gic_hw res" where
  "vgic_int_set_cfg_hw i h = gic_set_icfgr (vi_id i) (vi_cfg i) h"

definition vgic_int_set_prio_hw :: "vgic_int \<Rightarrow> gic_hw \<Rightarrow> gic_hw res" where
  "vgic_int_set_prio_hw i h = gic_set_prio (vi_id i) (vi_prio i) h"

definition vgicd_set_trgt_hw :: "vgic_int \<Rightarrow> gic_hw \<Rightarrow> gic_hw res" where
  "vgicd_set_trgt_hw i h = gicd_set_trgt (vi_id i) (vi_targets i) h"

subsection \<open>Register handlers\<close>

datatype reg_access = Generic_Access | Misc_Access | Pidr_Access | Razwi | Sgiregs_Access

record vgic_reg_handler_info =
  reg_access :: reg_access
  alignment :: nat
  regid :: nat
  regroup_base :: nat
  field_width :: nat
  read_field :: "vm \<Rightarrow> nat \<Rightarrow> vgic_int \<Rightarrow> u64"
  update_field :: "vm \<Rightarrow> u64 \<Rightarrow> vgic_int \<Rightarrow> bool \<times> vgic_int"
  update_hw :: "vgic_int \<Rightarrow> gic_hw \<Rightarrow> gic_hw res"

text \<open>A handler without the fields of a generic access; the null functions are never called.\<close>

definition plain_info :: "reg_access \<Rightarrow> nat \<Rightarrow> vgic_reg_handler_info" where
  "plain_info a al = \<lparr>reg_access = a, alignment = al, regid = 0, regroup_base = 0, field_width = 0,
     read_field = (\<lambda>_ _ _. 0), update_field = (\<lambda>_ _ i. (False, i)), update_hw = (\<lambda>_ _. Inl Bad_Access)\<rparr>"

definition isenabler_info :: vgic_reg_handler_info where
  "isenabler_info = \<lparr>reg_access = Generic_Access, alignment = 4, regid = 0, regroup_base = GICD_ISENABLER 0,
     field_width = 1, read_field = (\<lambda>_ _. vgic_int_get_enable), update_field = (\<lambda>_. vgic_int_set_enable),
     update_hw = vgic_int_enable_hw\<rparr>"

definition ispendr_info :: vgic_reg_handler_info where
  "ispendr_info = \<lparr>reg_access = Generic_Access, alignment = 4, regid = 1, regroup_base = GICD_ISPENDR 0,
     field_width = 1, read_field = (\<lambda>_ _. vgic_int_get_pend), update_field = (\<lambda>_. vgic_int_set_pend),
     update_hw = vgic_int_state_hw\<rparr>"

definition isactiver_info :: vgic_reg_handler_info where
  "isactiver_info = \<lparr>reg_access = Generic_Access, alignment = 4, regid = 2, regroup_base = GICD_ISACTIVER 0,
     field_width = 1, read_field = (\<lambda>_ _. vgic_int_get_act), update_field = (\<lambda>_. vgic_int_set_act),
     update_hw = vgic_int_state_hw\<rparr>"

definition icenabler_info :: vgic_reg_handler_info where
  "icenabler_info = \<lparr>reg_access = Generic_Access, alignment = 4, regid = 3, regroup_base = GICD_ICENABLER 0,
     field_width = 1, read_field = (\<lambda>_ _. vgic_int_get_enable), update_field = (\<lambda>_. vgic_int_clear_enable),
     update_hw = vgic_int_enable_hw\<rparr>"

definition icpendr_info :: vgic_reg_handler_info where
  "icpendr_info = \<lparr>reg_access = Generic_Access, alignment = 4, regid = 4, regroup_base = GICD_ICPENDR 0,
     field_width = 1, read_field = (\<lambda>_ _. vgic_int_get_pend), update_field = (\<lambda>_. vgic_int_clear_pend),
     update_hw = vgic_int_state_hw\<rparr>"

definition iactiver_info :: vgic_reg_handler_info where
  "iactiver_info = \<lparr>reg_access = Generic_Access, alignment = 4, regid = 5, regroup_base = GICD_ICACTIVER 0,
     field_width = 1, read_field = (\<lambda>_ _. vgic_int_get_act), update_field = (\<lambda>_. vgic_int_clear_act),
     update_hw = vgic_int_state_hw\<rparr>"

definition icfgr_info :: vgic_reg_handler_info where
  "icfgr_info = \<lparr>reg_access = Generic_Access, alignment = 4, regid = 6, regroup_base = GICD_ICFGR 0,
     field_width = 2, read_field = (\<lambda>_ _. vgic_int_get_cfg), update_field = (\<lambda>_. vgic_int_set_cfg),
     update_hw = vgic_int_set_cfg_hw\<rparr>"

definition ipriorityr_info :: vgic_reg_handler_info where
  "ipriorityr_info = \<lparr>reg_access = Generic_Access, alignment = 5, regid = 8, regroup_base = GICD_IPRIORITYR 0,
     field_width = 8, read_field = (\<lambda>_ _. vgic_int_get_prio), update_field = (\<lambda>_. vgic_int_set_prio),
     update_hw = vgic_int_set_prio_hw\<rparr>"

definition itargetr_info :: vgic_reg_handler_info where
  "itargetr_info = \<lparr>reg_access = Generic_Access, alignment = 5, regid = 9, regroup_base = GICD_ITARGETSR 0,
     field_width = 8, read_field = vgicd_get_trgt, update_field = vgicd_set_trgt,
     update_hw = vgicd_set_trgt_hw\<rparr>"

definition sgir_info :: vgic_reg_handler_info where "sgir_info = plain_info Sgiregs_Access 4"
definition irouter_info :: vgic_reg_handler_info where "irouter_info = plain_info Razwi 4"
definition vgicd_misc_info :: vgic_reg_handler_info where "vgicd_misc_info = plain_info Misc_Access 4"
definition vgicd_pidr_info :: vgic_reg_handler_info where "vgicd_pidr_info = plain_info Pidr_Access 4"
definition razwi_info :: vgic_reg_handler_info where "razwi_info = plain_info Razwi 4"

definition reg_handler_info_table :: "vgic_reg_handler_info list" where
  "reg_handler_info_table = [isenabler_info, ispendr_info, isactiver_info, icenabler_info, icpendr_info,
     iactiver_info, icfgr_info, irouter_info, ipriorityr_info, itargetr_info]"

definition vgic_get_reg_handler_info :: "nat \<Rightarrow> vgic_reg_handler_info option" where
  "vgic_get_reg_handler_info i =
     (if i < length reg_handler_info_table then Some (reg_handler_info_table ! i) else None)"

definition GICD_REG_MASK :: "u64 \<Rightarrow> u64" where "GICD_REG_MASK addr = addr AND 0xfff"

definition GICD_REG_GROUP :: "nat \<Rightarrow> nat" where "GICD_REG_GROUP off = off mod 0x10000 div 0x80"

text \<open>\<open>GICD_IS_REG\<close> for a register of \<open>sz\<close> bytes at offset \<open>base\<close>.\<close>

definition GICD_IS_REG :: "nat \<Rightarrow> nat \<Rightarrow> nat \<Rightarrow> bool" where
  "GICD_IS_REG base sz offset \<longleftrightarrow> base \<le> offset \<and> offset < base + sz"

definition vgicd_reg_handler :: "u64 \<Rightarrow> vgic_reg_handler_info" where
  "vgicd_reg_handler addr =
     (let group = unat (lsr (GICD_REG_MASK addr) 7)
      in if group = GICD_REG_GROUP GICD_CTLR then vgicd_misc_info
         else if group = GICD_REG_GROUP (GICD_ISENABLER 0) then isenabler_info
         else if group = GICD_REG_GROUP (GICD_ISPENDR 0) then ispendr_info
         else if group = GICD_REG_GROUP (GICD_ISACTIVER 0) then isactiver_info
         else if group = GICD_REG_GROUP (GICD_ICENABLER 0) then icenabler_info
         else if group = GICD_REG_GROUP (GICD_ICPENDR 0) then icpendr_info
         else if group = GICD_REG_GROUP (GICD_ICACTIVER 0) then iactiver_info
         else if group = GICD_REG_GROUP (GICD_ICFGR 0) then icfgr_info
         else if group = GICD_REG_GROUP GICD_SGIR then sgir_info
         else
           let acc_off = unat (GICD_REG_MASK addr)
           in if GICD_IS_REG (GICD_IPRIORITYR 0) 0x400 acc_off then ipriorityr_info
              else if GICD_IS_REG (GICD_ITARGETSR 0) 0x400 acc_off then itargetr_info
              else if GICD_IS_REG (GICD_IROUTER 0) 0x2000 acc_off then irouter_info
              else if GICD_IS_REG (GICD_ID 0) 0x30 acc_off then vgicd_pidr_info
              else razwi_info)"

definition vgic_check_reg_alignment :: "emul_access \<Rightarrow> vgic_reg_handler_info \<Rightarrow> bool" where
  "vgic_check_reg_alignment acc handlers \<longleftrightarrow>
     alignment handlers AND ac_width acc \<noteq> 0 \<and> ac_addr acc AND word_of_nat (ac_width acc - 1) = 0"

subsection \<open>Accesses\<close>

text \<open>
  \<open>vgic_int_set_field\<close> in three parts: the update of the field and of the hardware, what an
  owner does, and the locking around it.
\<close>

definition update_field_hw :: "vgic_reg_handler_info \<Rightarrow> node \<Rightarrow> u64 \<Rightarrow> vgic_sys \<Rightarrow> vgic_sys res" where
  "update_field_hw handlers p data s =
     (let (changed, i) = update_field handlers (gs_vm s) data (gs_ints s p);
          s = upd_int p (\<lambda>_. i) s
      in if changed \<and> vgic_int_is_hw i
         then bindr (update_hw handlers i (gs_hw s)) (\<lambda>h. Inr (s\<lparr>gs_hw := h\<rparr>))
         else Inr s)"

definition set_owned_field :: "vgic_reg_handler_info \<Rightarrow> nat \<Rightarrow> node \<Rightarrow> u64 \<Rightarrow> vgic_sys \<Rightarrow> vgic_sys res" where
  "set_owned_field handlers vcpu p data s =
     bindr (vgic_remove_lr vcpu p s) (\<lambda>(_, s).
     bindr (update_field_hw handlers p data s) (\<lambda>s.
     bindr (vgic_route vcpu p s) (vgic_yield_ownership vcpu p)))"

definition vgic_int_set_field :: "vgic_reg_handler_info \<Rightarrow> nat \<Rightarrow> node \<Rightarrow> u64 \<Rightarrow> vgic_sys \<Rightarrow> vgic_sys res" where
  "vgic_int_set_field handlers vcpu p data s =
     bindr (lock_int p s) (\<lambda>s.
     bindr (let (own, s) = vgic_get_ownership vcpu p s
            in if own then set_owned_field handlers vcpu p data s
               else
                 case vi_owner (gs_ints s p) of
                   None \<Rightarrow> Inl Bad_Access
                 | Some owner \<Rightarrow> send_msg (p_id_of s owner)
                     (vgic_msg s VGIC_SET_REG (VGIC_MSG_DATA (vm_id (gs_vm s)) 0
                        (word_of_nat (vi_id (gs_ints s p))) (word_of_nat (regid handlers)) data)) s)
       (\<lambda>s. Inr (unlock_int p s)))"

text \<open>
  The loop of \<open>vgic_emul_generic_access\<close>: the indices still to visit, and the word read so
  far (on a write, the word to be written). It ends early at the first interrupt that does
  not exist.
\<close>

fun generic_loop :: "emul_access \<Rightarrow> vgic_reg_handler_info \<Rightarrow> nat \<Rightarrow> nat \<Rightarrow> nat list \<Rightarrow> u64 \<Rightarrow> vgic_sys \<Rightarrow>
    (u64 \<times> vgic_sys) res" where
  "generic_loop acc handlers vgicr_id first_int [] val s = Inr (val, s)"
| "generic_loop acc handlers vgicr_id first_int (i # is) val s =
     bindr (vgic_get_int s (gs_vcpu s) (first_int + i) vgicr_id) (\<lambda>p.
       if p = 0 then Inr (val, s)
       else if ac_write acc then
         let data = bit_extract val (i * field_width handlers) (field_width handlers)
         in bindr (vgic_int_set_field handlers (gs_vcpu s) p data s)
              (generic_loop acc handlers vgicr_id first_int is val)
       else
         bindr (load_int p s) (\<lambda>interrupt.
           let fld = read_field handlers (gs_vm s) (gs_vcpu s) interrupt AND (lsl 1 (field_width handlers) - 1)
           in generic_loop acc handlers vgicr_id first_int is (val OR lsl fld (i * field_width handlers)) s))"

definition vgic_emul_generic_access :: "emul_access \<Rightarrow> vgic_reg_handler_info \<Rightarrow> nat \<Rightarrow> vgic_sys \<Rightarrow> vgic_sys res" where
  "vgic_emul_generic_access acc handlers vgicr_id s =
     (let fw = field_width handlers;
          first_int = (unat (GICD_REG_MASK (ac_addr acc)) - regroup_base handlers) * 8 div fw;
          val = (if ac_write acc then cur_readreg s (ac_reg acc) else 0)
      in bindr (generic_loop acc handlers vgicr_id first_int [0..<ac_width acc * 8 div fw] val s) (\<lambda>(val, s).
           Inr (if \<not> ac_write acc then cur_writereg (ac_reg acc) val s else s)))"

definition vgic_update_enable :: "vgic_sys \<Rightarrow> vgic_sys" where
  "vgic_update_enable s =
     (if vd_CTLR (gs_vgicd s) AND 1 \<noteq> 0
      then s\<lparr>gs_hw := gich_set_hcr (gich_get_hcr (gs_hw s) OR 1) (gs_hw s)\<rparr>
      else s\<lparr>gs_hw := gich_set_hcr (gich_get_hcr (gs_hw s) AND NOT 1) (gs_hw s)\<rparr>)"

definition vgicd_emul_misc_access :: "emul_access \<Rightarrow> vgic_sys \<Rightarrow> vgic_sys res" where
  "vgicd_emul_misc_access acc s =
     (let reg = unat (ac_addr acc AND 0x7F)
      in if reg = 0 then
           if ac_write acc then
             let prev_ctrl = vd_CTLR (gs_vgicd s);
                 s = s\<lparr>gs_vgicd := (gs_vgicd s)\<lparr>vd_CTLR := ucast (cur_readreg s (ac_reg acc) AND 1)\<rparr>\<rparr>
             in if prev_ctrl XOR vd_CTLR (gs_vgicd s) \<noteq> 0
                then let s = vgic_update_enable s
                     in bindr (vm_msg_broadcast (gs_vm s)
                          (vgic_msg s VGIC_UPDATE_ENABLE (VGIC_MSG_DATA (vm_id (gs_vm s)) 0 0 0 0)) (gs_msg s))
                          (\<lambda>m. Inr (s\<lparr>gs_msg := m\<rparr>))
                else Inr s
           else Inr (cur_writereg (ac_reg acc) (ucast (vd_CTLR (gs_vgicd s) OR 0x10)) s)
         else if reg = 4 then
           Inr (if \<not> ac_write acc then cur_writereg (ac_reg acc) (ucast (vd_TYPER (gs_vgicd s))) s else s)
         else if reg = 8 then
           Inr (if \<not> ac_write acc then cur_writereg (ac_reg acc) (ucast (vd_IIDR (gs_vgicd s))) s else s)
         else Inr s)"

definition vgicd_emul_pidr_access :: "emul_access \<Rightarrow> vgic_sys \<Rightarrow> vgic_sys" where
  "vgicd_emul_pidr_access acc s =
     (if \<not> ac_write acc
      then cur_writereg (ac_reg acc) (ucast (gicd (gs_hw s) (GICD_ID (unat ((ac_addr acc AND 0xff) - 0xd0) div 4)))) s
      else s)"

definition vgic_emul_razwi :: "emul_access \<Rightarrow> vgic_sys \<Rightarrow> vgic_sys" where
  "vgic_emul_razwi acc s = (if \<not> ac_write acc then cur_writereg (ac_reg acc) 0 s else s)"

definition vgicd_emul_sgiregs_access :: "emul_access \<Rightarrow> vgic_sys \<Rightarrow> vgic_sys res" where
  "vgicd_emul_sgiregs_access acc s =
     (let val = (if ac_write acc then cur_readreg s (ac_reg acc) else 0)
      in if unat (ac_addr acc AND 0xfff) = GICD_SGIR \<and> ac_write acc then
           let int_id = bit_extract (ucast val :: u32) 0 4;
               flt = bit_extract (ucast val :: u32) 24 2
           in if flt = 0 then
                vgic_send_sgi_msg (vm_translate_to_pcpu_mask (gs_vm s)
                  (ucast (bit_extract (ucast val :: u32) 16 8)) 8) (ucast int_id) s
              else if flt = 1 then
                vgic_send_sgi_msg (vm_cpus (gs_vm s) AND ucast (NOT (lsl (1 :: u32) (p_id_of s (gs_vcpu s)))))
                  (ucast int_id) s
              else if flt = 2 then
                vgic_send_sgi_msg (ucast (lsl (1 :: u32) (gs_cpu s))) (ucast int_id) s
              else Inr s
         else Inr s)"

definition run_reg_access :: "emul_access \<Rightarrow> vgic_reg_handler_info \<Rightarrow> nat \<Rightarrow> vgic_sys \<Rightarrow> vgic_sys res" where
  "run_reg_access acc handlers vgicr_id s =
     (case reg_access handlers of
        Generic_Access \<Rightarrow> vgic_emul_generic_access acc handlers vgicr_id s
      | Misc_Access \<Rightarrow> vgicd_emul_misc_access acc s
      | Pidr_Access \<Rightarrow> Inr (vgicd_emul_pidr_access acc s)
      | Razwi \<Rightarrow> Inr (vgic_emul_razwi acc s)
      | Sgiregs_Access \<Rightarrow> vgicd_emul_sgiregs_access acc s)"

definition vgicd_emul_handler :: "emul_access \<Rightarrow> vgic_sys \<Rightarrow> (bool \<times> vgic_sys) res" where
  "vgicd_emul_handler acc s =
     (let handler_info = vgicd_reg_handler (ac_addr acc)
      in if vgic_check_reg_alignment acc handler_info then
           bindr (spin_lock (vd_lock (gs_vgicd s))) (\<lambda>l.
           bindr (run_reg_access acc handler_info (gs_vcpu s) (s\<lparr>gs_vgicd := (gs_vgicd s)\<lparr>vd_lock := l\<rparr>\<rparr>)) (\<lambda>s.
             Inr (True, s\<lparr>gs_vgicd := (gs_vgicd s)\<lparr>vd_lock := spin_unlock (vd_lock (gs_vgicd s))\<rparr>\<rparr>)))
         else Inr (False, s))"

subsection \<open>Injection\<close>

definition vgic_inject_hw :: "nat \<Rightarrow> nat \<Rightarrow> vgic_sys \<Rightarrow> vgic_sys res" where
  "vgic_inject_hw vcpu int_id s =
     bindr (vgic_get_int s vcpu int_id vcpu) (\<lambda>p.
       if p = 0 then Inl Bad_Access
       else
         bindr (lock_int p s) (\<lambda>s.
           let s = upd_int p (\<lambda>i. i\<lparr>vi_owner := Some vcpu, vi_state := PEND, vi_in_lr := False\<rparr>) s
           in bindr (vgic_add_lr vcpu p s) (\<lambda>(_, s). Inr (unlock_int p s))))"

definition vgic_inject_sgi :: "nat \<Rightarrow> node \<Rightarrow> nat \<Rightarrow> vgic_sys \<Rightarrow> vgic_sys res" where
  "vgic_inject_sgi vcpu p source s =
     bindr (lock_int p s) (\<lambda>s.
     bindr (vgic_remove_lr vcpu p s) (\<lambda>(_, s).
       let pendstate = vi_sgi_pend (gs_ints s p);
           new_pendstate = pendstate OR ucast (lsl (1 :: u32) source)
       in bindr (if pendstate XOR new_pendstate \<noteq> 0 then
                   let s = upd_int p (\<lambda>i. i\<lparr>vi_byte1 := new_pendstate,
                             vi_state := (if new_pendstate \<noteq> 0 then vi_state i OR PEND
                                          else vi_state i AND NOT PEND)\<rparr>) s
                   in if vi_state (gs_ints s p) \<noteq> INV
                      then bindr (vgic_add_lr vcpu p s) (\<lambda>(_, s). Inr s) else Inr s
                 else Inr s) (\<lambda>s.
            Inr (unlock_int p s))))"

definition vgic_inject :: "nat \<Rightarrow> nat \<Rightarrow> nat \<Rightarrow> vgic_sys \<Rightarrow> vgic_sys res" where
  "vgic_inject vcpu int_id source s =
     bindr (vgic_get_int s vcpu int_id vcpu) (\<lambda>p.
       if p \<noteq> 0 then
         bindr (load_int p s) (\<lambda>interrupt.
           if vgic_int_is_hw interrupt then vgic_inject_hw vcpu int_id s
           else if gic_is_sgi int_id then vgic_inject_sgi vcpu p source s
           else vgic_int_set_field ispendr_info vcpu p 1 s)
       else Inr s)"

definition vgic_ipi_handler :: "u32 \<Rightarrow> u64 \<Rightarrow> vgic_sys \<Rightarrow> vgic_sys res" where
  "vgic_ipi_handler event data s =
     (let vmid = VGIC_MSG_VM data AND 0xffff;
          vgicr_id = unat (VGIC_MSG_VGICRID data);
          int_id = unat (VGIC_MSG_INTID data);
          val = VGIC_MSG_VAL data;
          vcpu = gs_vcpu s
      in if vmid \<noteq> vm_id (gs_vm s) then Inl Error
         else if event = event_num VGIC_UPDATE_ENABLE then Inr (vgic_update_enable s)
         else if event = event_num VGIC_ROUTE then
           bindr (vgic_get_int s vcpu int_id vcpu) (\<lambda>p.
             if p \<noteq> 0 then
               bindr (lock_int p s) (\<lambda>s.
                 let (own, s) = vgic_get_ownership vcpu p s
                 in bindr (if own then
                             bindr (if vgic_int_vcpu_is_target s vcpu (gs_ints s p)
                                    then bindr (vgic_add_lr vcpu p s) (\<lambda>(_, s). Inr s) else Inr s)
                               (vgic_yield_ownership vcpu p)
                           else Inr s) (\<lambda>s. Inr (unlock_int p s)))
             else Inr s)
         else if event = event_num VGIC_INJECT then vgic_inject vcpu int_id (unat val) s
         else if event = event_num VGIC_SET_REG then
           bindr (vgic_get_int s vcpu int_id vgicr_id) (\<lambda>p.
             case vgic_get_reg_handler_info (unat (VGIC_MSG_REG data)) of
               None \<Rightarrow> Inr s
             | Some handlers \<Rightarrow> if p \<noteq> 0 then vgic_int_set_field handlers vcpu p val s else Inr s)
         else Inr s)"

subsection \<open>Spilled interrupts\<close>

text \<open>
  One entry of \<open>vgic_highest_prio_spilled\<close>: \<open>(irq, outlist)\<close> is the best candidate so far
  with the list it is in; the address 0 is NULL.
\<close>

definition better_spilled :: "(node \<Rightarrow> vgic_int) \<Rightarrow> node \<Rightarrow> node \<Rightarrow> bool" where
  "better_spilled ints temp_irq irq \<longleftrightarrow>
     (let irq_prio = (if irq = 0 then GIC_LOWEST_PRIO else vi_prio (ints irq));
          irq_id = (if irq = 0 then GIC_MAX_VALID_INTERRUPTS else vi_id (ints irq));
          t = ints temp_irq
      in vi_prio t < irq_prio \<or> vi_prio t = irq_prio \<and> vi_id t < irq_id)"

fun scan_spilled :: "vgic_sys \<Rightarrow> u8 \<Rightarrow> (node \<times> node) list \<Rightarrow> node \<times> node \<Rightarrow> (node \<times> node) res" where
  "scan_spilled s flags [] best = Inr best"
| "scan_spilled s flags ((lst, temp_irq) # rest) best =
     bindr (vgic_get_state s (gs_ints s temp_irq)) (\<lambda>state.
       if state AND flags = 0 then scan_spilled s flags rest best
       else scan_spilled s flags rest
              (if better_spilled (gs_ints s) temp_irq (fst best) then (temp_irq, lst) else best))"

definition vgic_highest_prio_spilled :: "nat \<Rightarrow> u8 \<Rightarrow> vgic_sys \<Rightarrow> (node \<times> node) res option" where
  "vgic_highest_prio_spilled vcpu flags s =
     Option.bind (list_for_each (gs_spilled s vcpu) (gs_heap s)) (\<lambda>own.
     Option.bind (list_for_each (gs_vm_spilled s) (gs_heap s)) (\<lambda>shared.
       Some (scan_spilled s flags
         (map (Pair (gs_spilled s vcpu)) own @ map (Pair (gs_vm_spilled s)) shared) (0, 0))))"

text \<open>A 64-bit status word as the bitmap the code casts it to.\<close>

definition word_bitmap :: "u64 \<Rightarrow> bitmap" where
  "word_bitmap w i = ucast (lsr w (32 * i))"

definition find_status_lr :: "gic_hw \<Rightarrow> u64 \<Rightarrow> nat option" where
  "find_status_lr h w =
     (let i = bitmap_find_nth (word_bitmap w) (NUM_LRS h) 1 0 True
      in if i \<ge> 2 ^ 63 then None else Some i)"

definition HCR_NPIE_UIE :: u32 where "HCR_NPIE_UIE = GICH_HCR_NPIE_BIT OR GICH_HCR_UIE_BIT"

partial_function (option) refill_loop :: "nat \<Rightarrow> nat option \<Rightarrow> u8 \<Rightarrow> vgic_sys \<Rightarrow> vgic_sys res option" where
  "refill_loop vcpu lr_ind flags s =
     (case lr_ind of
        None \<Rightarrow> Some (Inr s)
      | Some i \<Rightarrow>
          (case vgic_highest_prio_spilled vcpu flags s of
             None \<Rightarrow> None
           | Some (Inl e) \<Rightarrow> Some (Inl e)
           | Some (Inr (irq, lst)) \<Rightarrow>
               if irq \<noteq> 0 then
                 case bindr (lock_int irq s) (\<lambda>s.
                   let (own, s) = vgic_get_ownership vcpu irq s
                   in bindr (if own
                             then vgic_write_lr vcpu irq i (s\<lparr>gs_heap := list_del irq (gs_heap s)\<rparr>)
                             else Inr s) (\<lambda>s. Inr (own, unlock_int irq s))) of
                   Inl e \<Rightarrow> Some (Inl e)
                 | Inr (own, s) \<Rightarrow>
                     if \<not> own then refill_loop vcpu lr_ind flags s
                     else refill_loop vcpu
                            (find_status_lr (gs_hw s) (gich_get_elrsr (gs_dev s (gs_hw s)))) (ACT OR PEND) s
               else
                 Some (Inr (s\<lparr>gs_hw := gich_set_hcr (gich_get_hcr (gs_hw s) AND NOT HCR_NPIE_UIE) (gs_hw s)\<rparr>))))"

definition vgic_refill_lrs :: "nat \<Rightarrow> bool \<Rightarrow> vgic_sys \<Rightarrow> vgic_sys res option" where
  "vgic_refill_lrs vcpu npie s =
     (let lr_ind = find_status_lr (gs_hw s) (gich_get_elrsr (gs_dev s (gs_hw s)));
          flags = (if npie then PEND else ACT OR PEND)
      in case spin_lock (gs_spilled_lock s) of
           Inl e \<Rightarrow> Some (Inl e)
         | Inr l \<Rightarrow> map_option (\<lambda>r. bindr r (\<lambda>s.
               Inr (s\<lparr>gs_spilled_lock := spin_unlock (gs_spilled_lock s)\<rparr>)))
             (refill_loop vcpu lr_ind flags (s\<lparr>gs_spilled_lock := l\<rparr>)))"

definition vgic_eoir_highest_spilled_active :: "nat \<Rightarrow> vgic_sys \<Rightarrow> vgic_sys res option" where
  "vgic_eoir_highest_spilled_active vcpu s =
     map_option (\<lambda>r. bindr r (\<lambda>(p, _).
       if p \<noteq> 0 then
         bindr (lock_int p s) (\<lambda>s.
           let (own, s) = vgic_get_ownership vcpu p s
           in bindr (if own then
                       let s = upd_int p (\<lambda>i. i\<lparr>vi_state := vi_state i AND NOT ACT\<rparr>) s
                       in if vgic_int_is_hw (gs_ints s p)
                          then Inr (s\<lparr>gs_hw := gic_set_act (vi_id (gs_ints s p)) False (gs_hw s)\<rparr>)
                          else if vi_state (gs_ints s p) AND PEND \<noteq> 0
                          then bindr (vgic_add_lr vcpu p s) (\<lambda>(_, s). Inr s) else Inr s
                     else Inr s) (\<lambda>s. Inr (unlock_int p s)))
       else Inr s))
     (vgic_highest_prio_spilled vcpu ACT s)"

partial_function (option) eoir_loop :: "nat \<Rightarrow> nat option \<Rightarrow> vgic_sys \<Rightarrow> vgic_sys res option" where
  "eoir_loop vcpu lr_ind s =
     (case lr_ind of
        None \<Rightarrow> Some (Inr s)
      | Some i \<Rightarrow>
          (case bindr (gich_read_lr (gs_hw s) i) (\<lambda>lr_val.
             bindr (gich_write_lr i 0 (gs_hw s)) (\<lambda>h.
               let s = s\<lparr>gs_hw := h\<rparr>
               in bindr (vgic_get_int s vcpu (unat (GICH_LR_VID lr_val)) vcpu) (\<lambda>p. Inr (p, s)))) of
             Inl e \<Rightarrow> Some (Inl e)
           | Inr (p, s) \<Rightarrow>
               if p = 0 then eoir_loop vcpu lr_ind s
               else
                 case bindr (lock_int p s) (\<lambda>s.
                   let s = upd_int p (vi_in_lr_update (\<lambda>_. False)) s
                   in bindr (if vi_id (gs_ints s p) < GIC_MAX_SGIS
                             then bindr (vgic_add_lr vcpu p s) (\<lambda>(_, s). Inr s)
                             else vgic_yield_ownership vcpu p s) (\<lambda>s. Inr (unlock_int p s))) of
                   Inl e \<Rightarrow> Some (Inl e)
                 | Inr s \<Rightarrow>
                     eoir_loop vcpu (find_status_lr (gs_hw s) (gich_get_eisr (gs_dev s (gs_hw s)))) s))"

definition vgic_handle_trapped_eoir :: "nat \<Rightarrow> vgic_sys \<Rightarrow> vgic_sys res option" where
  "vgic_handle_trapped_eoir vcpu s =
     eoir_loop vcpu (find_status_lr (gs_hw s) (gich_get_eisr (gs_dev s (gs_hw s)))) s"

definition GICH_HCR_EOICount_MASK :: u32 where "GICH_HCR_EOICount_MASK = BIT_MASK 27 5"

partial_function (option) lrpen_loop :: "u32 \<Rightarrow> vgic_sys \<Rightarrow> vgic_sys res option" where
  "lrpen_loop hcr_el2 s =
     (if hcr_el2 AND GICH_HCR_EOICount_MASK \<noteq> 0 then
        case vgic_eoir_highest_spilled_active (gs_vcpu s) s of
          None \<Rightarrow> None
        | Some (Inl e) \<Rightarrow> Some (Inl e)
        | Some (Inr s) \<Rightarrow>
            let hcr_el2 = hcr_el2 - lsl 1 27;
                s = s\<lparr>gs_hw := gich_set_hcr hcr_el2 (gs_hw s)\<rparr>
            in lrpen_loop (gich_get_hcr (gs_hw s)) s
      else Some (Inr s))"

definition bind_opt :: "'a res option \<Rightarrow> ('a \<Rightarrow> 'b res option) \<Rightarrow> 'b res option" where
  "bind_opt m f = (case m of None \<Rightarrow> None | Some (Inl e) \<Rightarrow> Some (Inl e) | Some (Inr x) \<Rightarrow> f x)"

definition gic_maintenance_handler :: "vgic_sys \<Rightarrow> vgic_sys res option" where
  "gic_maintenance_handler s =
     (let misr = gich_get_misr (gs_dev s (gs_hw s))
      in bind_opt (if misr AND 1 \<noteq> 0 then vgic_handle_trapped_eoir (gs_vcpu s) s else Some (Inr s)) (\<lambda>s.
         bind_opt (if misr AND (lsl 1 3 OR lsl 1 1) \<noteq> 0
                   then vgic_refill_lrs (gs_vcpu s) (misr AND lsl 1 3 \<noteq> 0) s else Some (Inr s)) (\<lambda>s.
         if misr AND lsl 1 2 \<noteq> 0 then lrpen_loop (gich_get_hcr (gs_hw s)) s else Some (Inr s))))"

subsection \<open>Initialisation\<close>

record vgic_dscrp =
  dsc_gicd_addr :: u64
  dsc_gicc_addr :: u64
  dsc_gicr_addr :: u64
  dsc_interrupt_num :: u64

definition vgic_get_itln :: "gic_hw \<Rightarrow> vgic_dscrp \<Rightarrow> u64" where
  "vgic_get_itln h dsc =
     (let vtyper_itln = ucast (bit_extract (gicd h GICD_TYPER) 0 5)
      in if dsc_interrupt_num dsc > 16
         then (ALIGN (dsc_interrupt_num dsc) 32 div 32 - 1) AND ucast (BIT_MASK 0 5 :: u32)
         else vtyper_itln)"

definition set_int_hw :: "node \<Rightarrow> vgic_sys \<Rightarrow> vgic_sys res" where
  "set_int_hw p s =
     bindr (lock_int p s) (\<lambda>s. Inr (unlock_int p (upd_int p (vi_hw_update (\<lambda>_. True)) s)))"

definition vgic_set_hw :: "nat \<Rightarrow> vgic_sys \<Rightarrow> vgic_sys res" where
  "vgic_set_hw int_id s =
     (if int_id < GIC_MAX_SGIS then Inr s
      else if int_id < GIC_CPU_PRIV then
        fold_res (\<lambda>vcpuid s. bindr (vgic_get_int s vcpuid int_id vcpuid) (\<lambda>p.
            if p \<noteq> 0 then set_int_hw p s else Inr s)) [0..<vm_nr_cpus (gs_vm s)] s
      else
        case vm_get_vcpu (gs_vm s) 0 of
          None \<Rightarrow> Inl Bad_Access
        | Some v \<Rightarrow> bindr (vgic_get_int s v int_id 0) (\<lambda>p.
            if p \<noteq> 0 then set_int_hw p s else Inr s))"

definition init_spi :: "nat \<Rightarrow> vgic_int \<Rightarrow> vgic_int" where
  "init_spi i v = v\<lparr>vi_owner := None, vi_lock := SPINLOCK_INITVAL, vi_id := i + GIC_CPU_PRIV,
     vi_state := INV, vi_prio := GIC_LOWEST_PRIO, vi_cfg := 0, vi_byte0 := 0, vi_hw := False,
     vi_in_lr := False, vi_enabled := False\<rparr>"

definition init_priv :: "nat \<Rightarrow> nat \<Rightarrow> vgic_int \<Rightarrow> vgic_int" where
  "init_priv vcpu i v = v\<lparr>vi_owner := Some vcpu, vi_lock := SPINLOCK_INITVAL, vi_id := i,
     vi_state := INV, vi_prio := GIC_LOWEST_PRIO, vi_cfg := 0, vi_byte0 := 0, vi_byte1 := 0,
     vi_hw := False, vi_in_lr := False, vi_enabled := False\<rparr>"

text \<open>\<open>gicv\<close> is the platform's address of the virtual CPU interface.\<close>

definition vgic_init :: "u64 \<Rightarrow> vgic_dscrp \<Rightarrow> vgic_sys \<times> mm \<Rightarrow> (vgic_sys \<times> mm) res option" where
  "vgic_init gicv dsc = (\<lambda>(s, m).
     let vtyper_itln = vgic_get_itln (gs_hw s) dsc;
         int_num = 32 * (vtyper_itln + 1);
         s = s\<lparr>gs_vgicd := (gs_vgicd s)\<lparr>vd_CTLR := 0, vd_int_num := unat int_num,
           vd_TYPER := ucast ((lsl vtyper_itln 0 AND ucast (BIT_MASK 0 5 :: u32)) OR
              (lsl (word_of_nat (vm_nr_cpus (gs_vm s)) - 1) 5 AND ucast (BIT_MASK 5 3 :: u32))),
           vd_IIDR := gicd (gs_hw s) GICD_IIDR\<rparr>\<rparr>
     in bind_opt (mem_alloc_map_dev (dsc_gicc_addr dsc) gicv (NUM_PAGES 0x2000) m) (\<lambda>(_, m).
        bind_opt (mem_alloc_page (mm_pool m) (unat (NUM_PAGES (int_num * VGIC_INT_SIZE))) False) (\<lambda>(pool, base).
          let m = m\<lparr>mm_pool := pool\<rparr>;
              s = s\<lparr>gs_vgicd := (gs_vgicd s)\<lparr>vd_interrupts := base\<rparr>\<rparr>
          in if base = 0 then Some (Inl Error)
             else
               let s = fold (\<lambda>i. upd_int (base + VGIC_INT_SIZE * word_of_nat i) (init_spi i))
                         [0..<unat int_num] s;
                   s = s\<lparr>gs_emuls := (gs_emuls s)(gs_vgicd_emul s :=
                           \<lparr>em_base = dsc_gicd_addr dsc, em_sz = ALIGN 0x10000 PAGE_SIZE,
                            em_handler = H_vgicd_emul\<rparr>)\<rparr>;
                   s = s\<lparr>gs_heap := INIT_LIST_HEAD (gs_vgicd_emul s) (gs_heap s)\<rparr>;
                   s = s\<lparr>gs_heap := vm_emul_add_mem (gs_emul_list s) (gs_vgicd_emul s) (gs_heap s)\<rparr>;
                   s = s\<lparr>gs_heap := INIT_LIST_HEAD (gs_vm_spilled s) (gs_heap s)\<rparr>
               in Some (Inr (s\<lparr>gs_spilled_lock := SPINLOCK_INITVAL\<rparr>, m)))))"

definition vgic_cpu_init :: "nat \<Rightarrow> vgic_sys \<Rightarrow> vgic_sys" where
  "vgic_cpu_init vcpu s =
     (let s = fold (\<lambda>i. upd_int (gs_priv s vcpu + VGIC_INT_SIZE * word_of_nat i) (init_priv vcpu i))
                [0..<GIC_CPU_PRIV] s;
          s = fold (\<lambda>i. upd_int (gs_priv s vcpu + VGIC_INT_SIZE * word_of_nat i) (vi_enabled_update (\<lambda>_. True)))
                [0..<GIC_MAX_SGIS] s
      in s\<lparr>gs_heap := INIT_LIST_HEAD (gs_spilled s vcpu) (gs_heap s)\<rparr>)"

end
