(* ===== verification/Vgic_Props.thy ===== *)
theory Vgic_Props
  imports Vgic_Inv
begin

text \<open>
  What the virtual interrupt controller computes: the register map of the emulated
  distributor, the order in which spilled interrupts come back, the way of an interrupt into
  a list register and out of it, and the refilling that never ends.
\<close>

unbundle bit_operations_syntax

subsection \<open>The register map\<close>

text \<open>The offsets that the emulated distributor decodes, as a table of intervals.\<close>

definition vgicd_map :: "(nat \<times> nat \<times> vgic_reg_handler_info) list" where
  "vgicd_map =
     [(0x000, 0x080, vgicd_misc_info), (0x100, 0x180, isenabler_info), (0x180, 0x200, icenabler_info),
      (0x200, 0x280, ispendr_info), (0x280, 0x300, icpendr_info), (0x300, 0x380, isactiver_info),
      (0x380, 0x400, iactiver_info), (0x400, 0x800, ipriorityr_info), (0x800, 0xC00, itargetr_info),
      (0xC00, 0xC80, icfgr_info), (0xF00, 0xF80, sgir_info)]"

definition vgicd_lookup :: "nat \<Rightarrow> vgic_reg_handler_info" where
  "vgicd_lookup off = (case find (\<lambda>(lo, hi, _). lo \<le> off \<and> off < hi) vgicd_map of
     Some (_, _, h) \<Rightarrow> h | None \<Rightarrow> razwi_info)"

lemma reg_offset:
  "unat (lsr (GICD_REG_MASK a) 7) = unat (GICD_REG_MASK a) div 128" "unat (GICD_REG_MASK a) < 4096"
proof -
  have "GICD_REG_MASK a = take_bit 12 a"
    by (simp add: GICD_REG_MASK_def take_bit_eq_mask mask_eq_exp_minus_1)
  then show "unat (GICD_REG_MASK a) < 4096"
    by (simp add: unsigned_take_bit_eq) (simp add: take_bit_eq_mod)
  show "unat (lsr (GICD_REG_MASK a) 7) = unat (GICD_REG_MASK a) div 128"
    by (simp add: lsr_eq drop_bit_eq_div unat_div)
qed

text \<open>C20: the decoding of a guest's address into a register handler, a chain of comparisons of
  register groups and ranges, is the lookup of the address modulo 4096 in the table of
  intervals above. The table shows what the code does not reach: the identification registers
  at 0xFFD0 (the mask cuts them off), and the second half of the configuration registers
  (interrupts from 512 on), both read as zero and ignore writes.\<close>

theorem vgicd_reg_decode: "vgicd_reg_handler a = vgicd_lookup (unat (a AND 0xfff))"
proof -
  define o1 where "o1 = unat (GICD_REG_MASK a)"
  have g: "o1 div 128 = k \<longleftrightarrow> 128 * k \<le> o1 \<and> o1 < 128 * k + 128" for k
    by (auto simp: div_nat_eqI)
  have lt: "o1 < 4096" by (simp add: o1_def reg_offset)
  have "vgicd_reg_handler a = vgicd_lookup o1"
    unfolding vgicd_reg_handler_def Let_def reg_offset(1) o1_def[symmetric]
    using lt
    by (simp add: g GICD_REG_GROUP_def GICD_CTLR_def GICD_ISENABLER_def GICD_ISPENDR_def GICD_ISACTIVER_def
        GICD_ICENABLER_def GICD_ICPENDR_def GICD_ICACTIVER_def GICD_ICFGR_def GICD_SGIR_def GICD_IS_REG_def
        GICD_IPRIORITYR_def GICD_ITARGETSR_def GICD_IROUTER_def GICD_ID_def vgicd_lookup_def vgicd_map_def)
  then show ?thesis by (simp add: o1_def GICD_REG_MASK_def)
qed

subsection \<open>Spilled interrupts\<close>

definition urgent_le :: "vgic_int \<Rightarrow> vgic_int \<Rightarrow> bool" where
  "urgent_le i j \<longleftrightarrow> vi_prio i < vi_prio j \<or> vi_prio i = vi_prio j \<and> vi_id i \<le> vi_id j"

definition state_matches :: "vgic_sys \<Rightarrow> u8 \<Rightarrow> node \<Rightarrow> bool" where
  "state_matches s flags p \<longleftrightarrow> (\<exists>st. vgic_get_state s (gs_ints s p) = Inr st \<and> st AND flags \<noteq> 0)"

text \<open>The order of the scan, in which NULL stands for the lowest priority and number 1020.\<close>

definition cand_le :: "(node \<Rightarrow> vgic_int) \<Rightarrow> node \<Rightarrow> node \<Rightarrow> bool" where
  "cand_le m p q \<longleftrightarrow>
     (let key = (\<lambda>p. if p = 0 then (0xff, 1020) else (vi_prio (m p), vi_id (m p)))
      in fst (key p) < fst (key q) \<or> fst (key p) = fst (key q) \<and> snd (key p) \<le> snd (key q))"

lemma cand_le_refl [simp]: "cand_le m p p"
  by (simp add: cand_le_def)

lemma cand_le_trans: "cand_le m p q \<Longrightarrow> cand_le m q r \<Longrightarrow> cand_le m p r"
  by (auto simp: cand_le_def Let_def)

lemma better_spilled_cand:
  assumes "t \<noteq> 0"
  shows "\<not> better_spilled m t p \<Longrightarrow> cand_le m p t" "better_spilled m t p \<Longrightarrow> cand_le m t p"
  using assms by (auto simp: better_spilled_def cand_le_def Let_def)

lemma cand_le_urgent: "p \<noteq> 0 \<Longrightarrow> q \<noteq> 0 \<Longrightarrow> cand_le m p q = urgent_le (m p) (m q)"
  by (simp add: cand_le_def urgent_le_def)

lemma cand_le_0: "q \<noteq> 0 \<Longrightarrow> cand_le m 0 q \<Longrightarrow> 1020 \<le> vi_id (m q)"
proof -
  have "\<not> 0xff < vi_prio (m q)"
    using unsigned_less[where 'a = nat, of "vi_prio (m q)"] by (simp add: word_less_nat_alt)
  then show "q \<noteq> 0 \<Longrightarrow> cand_le m 0 q \<Longrightarrow> 1020 \<le> vi_id (m q)"
    by (auto simp: cand_le_def)
qed

text \<open>The scan from a candidate \<open>b\<close> ends with \<open>r\<close>.\<close>

lemma scan_spilled_spec:
  assumes "scan_spilled s fl xs b = Inr r" "0 \<notin> snd ` set xs"
  shows "(r = b \<or> (snd r, fst r) \<in> set xs \<and> fst r \<noteq> 0 \<and> state_matches s fl (fst r)) \<and>
    cand_le (gs_ints s) (fst r) (fst b) \<and>
    (\<forall>t \<in> snd ` set xs. state_matches s fl t \<longrightarrow> cand_le (gs_ints s) (fst r) t)"
  using assms
proof (induction xs arbitrary: b)
  case (Cons x xs)
  obtain l t where x: "x = (l, t)" by fastforce
  from Cons.prems(1) obtain st where st: "vgic_get_state s (gs_ints s t) = Inr st"
    by (auto simp: x bindr_eq_Inr_iff)
  have m: "state_matches s fl t \<longleftrightarrow> st AND fl \<noteq> 0" by (simp add: state_matches_def st)
  have t: "t \<noteq> 0" "0 \<notin> snd ` set xs" using Cons.prems(2) by (auto simp: x)
  define b' where "b' = (if st AND fl \<noteq> 0 \<and> better_spilled (gs_ints s) t (fst b) then (t, l) else b)"
  have run: "scan_spilled s fl xs b' = Inr r"
    using Cons.prems(1) by (auto simp: x st b'_def split: if_splits)
  have b': "cand_le (gs_ints s) (fst b') (fst b)" "state_matches s fl t \<Longrightarrow> cand_le (gs_ints s) (fst b') t"
    "b' = b \<or> b' = (t, l) \<and> state_matches s fl t"
    using better_spilled_cand[OF t(1)] m by (auto simp: b'_def)
  show ?case
    using Cons.IH[OF run t(2)] b' t(1) by (auto simp: x intro: cand_le_trans)
qed auto

text \<open>C24: \<open>vgic_highest_prio_spilled\<close> returns, from the vCPU's own spilled list and the VM's, an
  interrupt in a state the flags ask for that no such interrupt in the two lists precedes in
  the order of priority and then of number, together with the list it is in; and it returns
  NULL only when no interrupt with a valid number is in such a state.\<close>

theorem vgic_highest_prio_spilled_first:
  assumes "list_for_each (gs_spilled s v) (gs_heap s) = Some own"
    and "list_for_each (gs_vm_spilled s) (gs_heap s) = Some shared"
    and "0 \<notin> set own \<union> set shared"
    and "vgic_highest_prio_spilled v flags s = Some (Inr (irq, lst))"
  shows "if irq = 0 then \<forall>t \<in> set own \<union> set shared. state_matches s flags t \<longrightarrow> 1020 \<le> vi_id (gs_ints s t)
    else (lst = gs_spilled s v \<and> irq \<in> set own \<or> lst = gs_vm_spilled s \<and> irq \<in> set shared) \<and>
      state_matches s flags irq \<and>
      (\<forall>t \<in> set own \<union> set shared. state_matches s flags t \<longrightarrow> urgent_le (gs_ints s irq) (gs_ints s t))"
proof -
  let ?xs = "map (Pair (gs_spilled s v)) own @ map (Pair (gs_vm_spilled s)) shared"
  have run: "scan_spilled s flags ?xs (0, 0) = Inr (irq, lst)"
    using assms(1,2,4) by (simp add: vgic_highest_prio_spilled_def)
  have snd: "snd ` set ?xs = set own \<union> set shared" by (simp add: image_Un image_image)
  note spec = scan_spilled_spec[OF run, unfolded snd, OF assms(3)]
  have nz: "t \<noteq> 0" if "t \<in> set own \<union> set shared" for t using assms(3) that by auto
  show ?thesis
  proof (cases "irq = 0")
    case True
    then show ?thesis using spec nz cand_le_0 by (metis fst_conv)
  next
    case False
    then show ?thesis using spec nz cand_le_urgent[OF False] by auto
  qed
qed

definition spilled_vgic :: vgic_sys where
  "spilled_vgic = sample_vgic\<lparr>gs_hw := wr_gich (GICH_ELSR 0) 4 sample_gic,
     gs_heap := \<lparr>nxt = (\<lambda>p. if p = 0x9000 then 0x10038 else if p = 0x10038 then 0x10070 else if p = 0x10070 then 0x9000 else p),
       prv = (\<lambda>p. if p = 0x9000 then 0x10070 else if p = 0x10038 then 0x9000 else if p = 0x10070 then 0x10038 else p)\<rparr>,
     gs_ints := (\<lambda>p. (gs_ints sample_vgic p)\<lparr>vi_id := if p = 0x10070 then 34 else 33, vi_state := PEND,
       vi_owner := if p = 0x10070 then Some 1 else None, vi_prio := if p = 0x10070 then 0x50 else 0xA0\<rparr>)\<rparr>"

lemma spilled_vgic_lists:
  "list_for_each (gs_spilled spilled_vgic v) (gs_heap spilled_vgic) = Some []"
  "list_for_each (gs_vm_spilled spilled_vgic) (gs_heap spilled_vgic) = Some [0x10038, 0x10070]"
  by (simp_all add: spilled_vgic_def sample_vgic_def list_for_each_def list_from.simps)

lemma spilled_vgic_best:
  "vgic_highest_prio_spilled 0 PEND spilled_vgic = Some (Inr (0x10070, 0x9000))"
  unfolding vgic_highest_prio_spilled_def spilled_vgic_lists
  by (simp add: spilled_vgic_def sample_vgic_def vgic_get_state_def gich_get_lr_def better_spilled_def)

theorem vgic_highest_prio_spilled_first_witness:
  "urgent_le (gs_ints spilled_vgic 0x10070) (gs_ints spilled_vgic 0x10038) \<and>
   state_matches spilled_vgic PEND 0x10070"
proof -
  have "state_matches spilled_vgic PEND 0x10038"
    by (simp add: state_matches_def spilled_vgic_def sample_vgic_def vgic_get_state_def gich_get_lr_def)
  then show ?thesis
    using vgic_highest_prio_spilled_first[OF spilled_vgic_lists _ spilled_vgic_best] by simp
qed

subsection \<open>Refilling\<close>

lemma unlock_lock_int:
  assumes "lock_int p s = Inr s'"
  shows "gs_hw (unlock_int p s') = gs_hw s" "gs_heap (unlock_int p s') = gs_heap s"
  using assms by (auto simp: lock_int_def unlock_int_def spin_lock_def Let_def split: if_splits)

text \<open>
  The parts of the state that the search reads; taking and releasing the lock of an interrupt
  keeps them.
\<close>

definition same_but_locks :: "vgic_sys \<Rightarrow> vgic_sys \<Rightarrow> bool" where
  "same_but_locks s s' \<longleftrightarrow> gs_hw s' = gs_hw s \<and> gs_heap s' = gs_heap s \<and> gs_vm s' = gs_vm s \<and> gs_cpu s' = gs_cpu s \<and>
     gs_spilled s' = gs_spilled s \<and> gs_vm_spilled s' = gs_vm_spilled s \<and>
     (\<forall>p. \<exists>l. gs_ints s' p = (gs_ints s p)\<lparr>vi_lock := l\<rparr>)"

lemma same_but_locks_get_state:
  assumes "same_but_locks s s'"
  shows "vgic_get_state s' (gs_ints s' p) = vgic_get_state s (gs_ints s p)"
proof -
  obtain l where "gs_ints s' p = (gs_ints s p)\<lparr>vi_lock := l\<rparr>" using assms by (auto simp: same_but_locks_def)
  then show ?thesis using assms
    by (simp add: vgic_get_state_def gich_get_lr_def same_but_locks_def Let_def
        cong: if_cong option.case_cong)
qed

lemma same_but_locks_better:
  assumes "same_but_locks s s'"
  shows "better_spilled (gs_ints s') p q = better_spilled (gs_ints s) p q"
proof -
  have "vi_prio (gs_ints s' r) = vi_prio (gs_ints s r) \<and> vi_id (gs_ints s' r) = vi_id (gs_ints s r)" for r
  proof -
    obtain l where "gs_ints s' r = (gs_ints s r)\<lparr>vi_lock := l\<rparr>" using assms by (auto simp: same_but_locks_def)
    then show ?thesis by simp
  qed
  then show ?thesis by (simp add: better_spilled_def Let_def)
qed

lemma same_but_locks_scan:
  assumes "same_but_locks s s'"
  shows "scan_spilled s' fl xs b = scan_spilled s fl xs b"
proof (induction xs arbitrary: b)
  case (Cons x xs)
  then show ?case
    by (cases x) (simp add: same_but_locks_get_state[OF assms] same_but_locks_better[OF assms] cong: if_cong)
qed simp

lemma same_but_locks_highest:
  "same_but_locks s s' \<Longrightarrow> vgic_highest_prio_spilled v fl s' = vgic_highest_prio_spilled v fl s"
  by (simp add: vgic_highest_prio_spilled_def same_but_locks_scan) (simp add: same_but_locks_def)

lemma lock_update_same: "vi_lock_update f i = i\<lparr>vi_lock := f (vi_lock i)\<rparr>"
  by (cases i) simp

lemma lock_self [simp]: "\<exists>l. i = vi_lock_update (\<lambda>_. l) i"
  by (rule exI[of _ "vi_lock i"]) simp

text \<open>The best spilled interrupt is owned by another vCPU, and its lock is free.\<close>

definition refill_blocked :: "nat \<Rightarrow> u8 \<Rightarrow> vgic_sys \<Rightarrow> bool" where
  "refill_blocked v fl s \<longleftrightarrow> (\<exists>irq lst w. vgic_highest_prio_spilled v fl s = Some (Inr (irq, lst)) \<and> irq \<noteq> 0 \<and>
     vi_owner (gs_ints s irq) = Some w \<and> w \<noteq> v \<and> ticket (vi_lock (gs_ints s irq)) = next_tk (vi_lock (gs_ints s irq)))"

lemma lock_unlock_same:
  assumes "p \<noteq> 0" "ticket (vi_lock (gs_ints s p)) = next_tk (vi_lock (gs_ints s p))"
  obtains s1 where "lock_int p s = Inr s1" "same_but_locks s (unlock_int p s1)"
    "ticket (vi_lock (gs_ints (unlock_int p s1) p)) = next_tk (vi_lock (gs_ints (unlock_int p s1) p))"
    "vi_owner (gs_ints s1 p) = vi_owner (gs_ints s p)"
proof
  let ?l = "(vi_lock (gs_ints s p))\<lparr>ticket := ticket (vi_lock (gs_ints s p)) + 1\<rparr>"
  let ?s1 = "upd_int p (vi_lock_update (\<lambda>_. ?l)) s"
  show "lock_int p s = Inr ?s1" using assms by (simp add: lock_int_def spin_lock_def Let_def)
  show "same_but_locks s (unlock_int p ?s1)"
    unfolding same_but_locks_def unlock_int_def
    by (auto simp: lock_update_same[of "_ \<circ> _"])
  show "ticket (vi_lock (gs_ints (unlock_int p ?s1) p)) = next_tk (vi_lock (gs_ints (unlock_int p ?s1) p))"
    using assms by (simp add: unlock_int_def spin_unlock_def)
qed simp

lemma refill_round:
  assumes "refill_blocked v fl s"
  obtains irq lst s1 where "vgic_highest_prio_spilled v fl s = Some (Inr (irq, lst))" "irq \<noteq> 0"
    "lock_int irq s = Inr s1" "vgic_get_ownership v irq s1 = (False, s1)" "refill_blocked v fl (unlock_int irq s1)"
proof -
  from assms obtain irq lst w where best: "vgic_highest_prio_spilled v fl s = Some (Inr (irq, lst))" "irq \<noteq> 0"
    and own: "vi_owner (gs_ints s irq) = Some w" "w \<noteq> v"
    and free: "ticket (vi_lock (gs_ints s irq)) = next_tk (vi_lock (gs_ints s irq))"
    by (auto simp: refill_blocked_def)
  from lock_unlock_same[OF best(2) free] obtain s1 where s1: "lock_int irq s = Inr s1" "same_but_locks s (unlock_int irq s1)"
    "ticket (vi_lock (gs_ints (unlock_int irq s1) irq)) = next_tk (vi_lock (gs_ints (unlock_int irq s1) irq))"
    "vi_owner (gs_ints s1 irq) = vi_owner (gs_ints s irq)" .
  have "vi_owner (gs_ints (unlock_int irq s1) irq) = Some w"
    using s1(4) own by (simp add: unlock_int_def)
  then have "refill_blocked v fl (unlock_int irq s1)"
    using best own s1(3) same_but_locks_highest[OF s1(2)] by (auto simp: refill_blocked_def)
  moreover have "vgic_get_ownership v irq s1 = (False, s1)"
    using own s1(4) by (simp add: vgic_get_ownership_def)
  ultimately show ?thesis using that best s1(1) by blast
qed

lemma refill_loop_spins:
  assumes "refill_loop v lr fl s = Some r"
  shows "\<not> (lr \<noteq> None \<and> refill_blocked v fl s)"
proof (rule refill_loop.raw_induct[OF _ assms, where P = "\<lambda>v lr fl s r. \<not> (lr \<noteq> None \<and> refill_blocked v fl s)"], goal_cases)
  case (1 w v lr fl s r)
  show ?case
  proof
    assume blocked: "lr \<noteq> None \<and> refill_blocked v fl s"
    then obtain irq lst s1 where round: "vgic_highest_prio_spilled v fl s = Some (Inr (irq, lst))" "irq \<noteq> 0"
      "lock_int irq s = Inr s1" "vgic_get_ownership v irq s1 = (False, s1)"
      "refill_blocked v fl (unlock_int irq s1)"
      using refill_round by blast
    from blocked obtain i where lr: "lr = Some i" by auto
    have "w v lr fl (unlock_int irq s1) = Some r"
      using 1(2) round by (simp add: lr)
    from 1(1)[OF this] round(5) blocked show False by simp
  qed
qed

text \<open>C40: when a list register is free and the best spilled interrupt is owned by another vCPU, the
  loop that refills the list registers takes and releases the lock of that interrupt and picks
  it again, for ever: \<open>vgic_refill_lrs\<close> does not return unless another processor gives the
  interrupt up in the meantime.\<close>

theorem vgic_refill_spins:
  assumes "vgic_highest_prio_spilled v (if npie then PEND else ACT OR PEND) s = Some (Inr (irq, lst))" "irq \<noteq> 0"
    and "vi_owner (gs_ints s irq) = Some w" "w \<noteq> v"
    and "ticket (vi_lock (gs_ints s irq)) = next_tk (vi_lock (gs_ints s irq))"
    and "ticket (gs_spilled_lock s) = next_tk (gs_spilled_lock s)"
    and "find_status_lr (gs_hw s) (gich_get_elrsr (gs_dev s (gs_hw s))) \<noteq> None"
  shows "vgic_refill_lrs v npie s = None"
proof -
  let ?fl = "if npie then PEND else ACT OR PEND"
  obtain l where l: "spin_lock (gs_spilled_lock s) = Inr l"
    using assms(6) by (simp add: spin_lock_def Let_def)
  have same: "same_but_locks s (s\<lparr>gs_spilled_lock := l\<rparr>)"
    by (simp add: same_but_locks_def)
  have "refill_blocked v ?fl (s\<lparr>gs_spilled_lock := l\<rparr>)"
    using assms(1-5) same_but_locks_highest[OF same] by (simp add: refill_blocked_def)
  then have "refill_loop v (find_status_lr (gs_hw s) (gich_get_elrsr (gs_dev s (gs_hw s)))) ?fl
      (s\<lparr>gs_spilled_lock := l\<rparr>) = None"
    using refill_loop_spins assms(7) by (metis not_None_eq)
  then show ?thesis by (simp add: vgic_refill_lrs_def l)
qed

theorem vgic_refill_spins_witness: "vgic_refill_lrs 0 True spilled_vgic = None"
proof (rule vgic_refill_spins[where irq = "0x10070" and lst = "0x9000" and w = 1])
  show "vgic_highest_prio_spilled 0 (if True then PEND else ACT OR PEND) spilled_vgic = Some (Inr (0x10070, 0x9000))"
    using spilled_vgic_best by simp
  show "find_status_lr (gs_hw spilled_vgic) (gich_get_elrsr (gs_dev spilled_vgic (gs_hw spilled_vgic))) \<noteq> None"
    by (simp add: spilled_vgic_def sample_vgic_def sample_gic_def find_status_lr_def gich_get_elrsr_def
        GICH_ELSR_def GICH_VTR_def word_bitmap_def bitmap_find_nth_def find_nth_loop.simps bitmap_get_def lsr_def lsl_def)
qed (simp_all add: spilled_vgic_def sample_vgic_def SPINLOCK_INITVAL_def)

subsection \<open>Into a list register and back\<close>

text \<open>
  The interrupt that the register \<open>i\<close> held before, if there is one, is a different one and its
  lock is free; then releasing it succeeds and does not touch \<open>p\<close>.
\<close>

definition prev_free :: "nat \<Rightarrow> node \<Rightarrow> nat \<Rightarrow> vgic_sys \<Rightarrow> bool" where
  "prev_free v p i s \<longleftrightarrow> (\<forall>q. vgic_get_int s v (gs_curr_lrs s v i) v = Inr q \<longrightarrow>
     q \<noteq> 0 \<longrightarrow> q \<noteq> p \<and> ticket (vi_lock (gs_ints s q)) = next_tk (vi_lock (gs_ints s q)))"

definition keeps :: "node \<Rightarrow> vgic_sys \<Rightarrow> vgic_sys \<Rightarrow> bool" where
  "keeps p s s' \<longleftrightarrow> gs_ints s' p = gs_ints s p \<and> gs_hw s' = gs_hw s \<and> gs_cpu s' = gs_cpu s \<and> gs_vm s' = gs_vm s"

lemma yield_keeps:
  assumes "vgic_wf n c s" "q \<noteq> p"
  shows "ens {} (keeps p s) (vgic_yield_ownership v q s)"
  using assms get_state_ok[of n c s "{}" q]
  by (auto simp: vgic_yield_ownership_def Let_def keeps_def elim!: ens_conseq)

lemma release_prev_returns:
  assumes wf: "vgic_wf n c s" and prev: "prev_free v p i s"
  obtains s' where "release_prev_lr v p i s = Inr s'" "keeps p s s'" "vgic_wf n c s'"
proof -
  have "ens {} (\<lambda>s'. keeps p s s' \<and> vgic_wf n c s') (release_prev_lr v p i s)"
  proof (cases "gs_curr_lrs s v i \<noteq> vi_id (gs_ints s p) \<and> \<not> gic_is_priv (gs_curr_lrs s v i)")
    case True
    obtain q where q: "vgic_get_int s v (gs_curr_lrs s v i) v = Inr q"
      using get_own_int[of "{}" s v "gs_curr_lrs s v i"] by (cases "vgic_get_int s v (gs_curr_lrs s v i) v") auto
    show ?thesis
    proof (cases "q = 0")
      case True
      then show ?thesis using q by (simp add: release_prev_lr_def Let_def wf keeps_def)
    next
      case q0: False
      define s1 where "s1 = upd_int q (vi_lock_update (\<lambda>_. (vi_lock (gs_ints s q))\<lparr>ticket := ticket (vi_lock (gs_ints s q)) + 1\<rparr>)) s"
      have lock: "lock_int q s = Inr s1" and qp: "q \<noteq> p"
        using prev q q0 by (simp_all add: prev_free_def lock_int_def spin_lock_def Let_def s1_def)
      have s1: "vgic_wf n c s1" "keeps p s s1"
        using wf qp by (auto simp: s1_def keeps_def wf_int)
      let ?s2 = "upd_int q (vi_in_lr_update (\<lambda>_. False)) s1"
      have s2: "vgic_wf n c ?s2" "keeps p s ?s2"
        using s1 qp by (auto simp: keeps_def)
      have y: "ens {} (\<lambda>s'. keeps p s s' \<and> vgic_wf n c s') (vgic_yield_ownership v q ?s2)"
        using yield_keeps[OF s2(1) qp, of v] yield_wf[OF s2(1), of "{}" v q] s2(2)
        by (auto simp: ens_def keeps_def split: sum.splits)
      have u: "keeps p s (unlock_int q s') \<and> vgic_wf n c (unlock_int q s')" if "keeps p s s' \<and> vgic_wf n c s'" for s'
        using that qp unlock_wf[of n c q s'] by (simp add: keeps_def unlock_int_def del: unlock_wf)
      show ?thesis
        using True q lock u s1 by (auto simp: release_prev_lr_def wf keeps_def[of p s s] intro!: ens_conseq[OF y])
    qed
  qed (use wf in \<open>auto simp: release_prev_lr_def keeps_def Let_def\<close>)
  then show thesis using that by (auto simp: ens_def split: sum.splits)
qed

text \<open>The state that a write puts into the register; the two state bits are the whole state.\<close>

definition lr_state_of :: "vgic_int \<Rightarrow> u8" where
  "lr_state_of i = (if vgic_int_is_hw i \<and> vi_state i = PENDACT then ACT else vi_state i)"

lemma ucast_u64_u32 [simp]: "ucast (ucast x :: u64) = (x :: u32)"
  by (rule bit_word_eqI) (simp add: bit_ucast_iff)

text \<open>Writing any interrupt, whatever its kind, into a register.\<close>

lemma write_lr_runs:
  assumes wf: "vgic_wf n c s" and prev: "prev_free v p i s" and i: "i < n"
    and int: "\<not> vi_in_lr (gs_ints s p)"
  obtains st s' where "vgic_get_state s (gs_ints s p) = Inr st" "vgic_write_lr v p i s = Inr s'"
    "gs_ints s' p = (gs_ints s p)\<lparr>vi_byte1 := snd (lr_value (gs_ints s p) st), vi_state := 0, vi_in_lr := True,
       vi_lr := word_of_nat i\<rparr>"
    "gs_hw s' = wr_gich (GICH_LR i) (fst (lr_value (gs_ints s p) st)) (gs_hw s)"
    "gs_curr_lrs s' v i = vi_id (gs_ints s p)" "gs_cpu s' = gs_cpu s" "gs_vm s' = gs_vm s"
proof -
  from release_prev_returns[OF wf prev] obtain s1 where
    s1: "release_prev_lr v p i s = Inr s1" "keeps p s s1" "vgic_wf n c s1" .
  obtain st where st: "vgic_get_state s (gs_ints s p) = Inr st" "vgic_get_state s1 (gs_ints s1 p) = Inr st"
    using s1(2) int by (auto simp: vgic_get_state_def gich_get_lr_def keeps_def Let_def)
  have N: "NUM_LRS (gs_hw s) = n" using wf by (simp add: vgic_wf_def)
  let ?s' = "upd_int p (\<lambda>i'. i'\<lparr>vi_byte1 := snd (lr_value (gs_ints s p) st),
      vi_state := 0, vi_in_lr := True, vi_lr := word_of_nat i\<rparr>) s1
      \<lparr>gs_curr_lrs := (gs_curr_lrs s1)(v := (gs_curr_lrs s1 v)(i := vi_id (gs_ints s p))),
       gs_hw := wr_gich (GICH_LR i) (fst (lr_value (gs_ints s p) st)) (gs_hw s)\<rparr>"
  show thesis
  proof (rule that[OF st(1), of ?s'])
    show "vgic_write_lr v p i s = Inr ?s'"
      using s1(1,2) st(2) i N by (simp add: vgic_write_lr_def keeps_def gich_write_lr_def case_prod_beta Let_def)
  qed (use s1(2) in \<open>simp_all add: keeps_def\<close>)
qed

lemma write_lr_result:
  assumes wf: "vgic_wf n c s" and prev: "prev_free v p i s" and i: "i < n"
    and int: "\<not> vi_in_lr (gs_ints s p)" "\<not> vi_id (gs_ints s p) < GIC_MAX_SGIS"
  obtains s' where "vgic_write_lr v p i s = Inr s'"
    "gs_ints s' p = (gs_ints s p)\<lparr>vi_state := 0, vi_in_lr := True, vi_lr := word_of_nat i\<rparr>"
    "gs_hw s' = wr_gich (GICH_LR i) (fst (lr_value (gs_ints s p) (vi_state (gs_ints s p)))) (gs_hw s)"
    "gs_curr_lrs s' v i = vi_id (gs_ints s p)" "gs_cpu s' = gs_cpu s" "gs_vm s' = gs_vm s"
proof -
  from write_lr_runs[OF wf prev i int(1)] obtain st s' where
    w: "vgic_get_state s (gs_ints s p) = Inr st" "vgic_write_lr v p i s = Inr s'"
    "gs_ints s' p = (gs_ints s p)\<lparr>vi_byte1 := snd (lr_value (gs_ints s p) st), vi_state := 0, vi_in_lr := True,
       vi_lr := word_of_nat i\<rparr>"
    "gs_hw s' = wr_gich (GICH_LR i) (fst (lr_value (gs_ints s p) st)) (gs_hw s)"
    "gs_curr_lrs s' v i = vi_id (gs_ints s p)" "gs_cpu s' = gs_cpu s" "gs_vm s' = gs_vm s" .
  have "st = vi_state (gs_ints s p)"
    using w(1) int by (simp add: vgic_get_state_def gich_get_lr_def)
  moreover have "snd (lr_value (gs_ints s p) st) = vi_byte1 (gs_ints s p)"
    using int(2) by (simp add: lr_value_def Let_def)
  ultimately show thesis using w that[of s'] by simp
qed

lemma small_state_bits:
  assumes "st \<in> {INV, PEND, ACT, PENDACT}"
  shows "\<forall>k \<ge> 2. \<not> bit st k"
proof -
  have "take_bit 2 st = st" using assms by auto
  then show ?thesis by (metis bit_take_bit_iff not_less)
qed

lemma lr_reads_back:
  assumes "gs_ints s p = i\<lparr>vi_state := 0, vi_in_lr := True, vi_lr := word_of_nat k\<rparr>"
    and "gich (gs_hw s) (GICH_LR k) = fst (lr_value i (vi_state i))"
    and "vi_owner i = Some v" "p_id_of s v = gs_cpu s" "k < NUM_LRS (gs_hw s)" "NUM_LRS (gs_hw s) \<le> 64"
    and "\<not> vi_id i < GIC_MAX_SGIS" "vi_id i < 1024" "vi_state i \<in> {INV, PEND, ACT, PENDACT}"
  shows "gich_get_lr s (gs_ints s p) =
      Inr (if lr_state_of i = 0 then None else Some (k, ucast (fst (lr_value i (vi_state i)))))"
    "lr_state_of i \<noteq> 0 \<Longrightarrow> ucast (GICH_LR_STATE (ucast (fst (lr_value i (vi_state i))))) = lr_state_of i"
proof -
  note bits = small_state_bits[OF assms(9)]
  have st: "ucast (GICH_LR_STATE (ucast (fst (lr_value i (vi_state i))))) = lr_state_of i"
    using lr_value_STATE[OF assms(7) bits] by (simp add: lr_state_of_def)
  then show "lr_state_of i \<noteq> 0 \<Longrightarrow> ucast (GICH_LR_STATE (ucast (fst (lr_value i (vi_state i))))) = lr_state_of i"
    by simp
  have zero: "GICH_LR_STATE w = 0 \<longleftrightarrow> (ucast (GICH_LR_STATE w) :: u8) = 0" for w
  proof
    assume "(ucast (GICH_LR_STATE w) :: u8) = 0"
    then have "\<not> bit (GICH_LR_STATE w) k" if "k < 2" for k
      using that by (auto simp: bit_eq_iff bit_ucast_iff)
    then show "GICH_LR_STATE w = 0" by (auto simp: bit_eq_iff STATE_bit)
  qed simp
  have k: "unat (word_of_nat k :: u8) = k" using assms(5,6) by (simp add: unat_of_nat)
  show "gich_get_lr s (gs_ints s p) =
      Inr (if lr_state_of i = 0 then None else Some (k, ucast (fst (lr_value i (vi_state i)))))"
    using assms(1-5) k lr_value_VID[OF assms(8), of "vi_state i"] st zero
    by (simp add: gich_get_lr_def gich_read_lr_def)
qed

text \<open>C19: take a peripheral interrupt, private or shared (numbers 16 to 1023; software-generated
  interrupts are not covered, a pending and active one comes back active only), that the vCPU on
  this processor owns and that is in no list register. Writing it into a list register, when the
  interrupt the register held before is another one with a free lock, and taking it
  out again gives back the state it had, except that a hardware interrupt that was pending
  and active comes back active only; while it is in the register its software state is
  inactive, and afterwards the register is empty. Both calls return.\<close>

theorem lr_write_remove_roundtrip:
  assumes "vgic_wf n c s" "prev_free v p k s" "k < n"
    and "\<not> vi_in_lr (gs_ints s p)" "vi_owner (gs_ints s p) = Some v" "p_id_of s v = gs_cpu s"
    and "GIC_MAX_SGIS \<le> vi_id (gs_ints s p)" "vi_id (gs_ints s p) < 1024"
    and "vi_state (gs_ints s p) \<in> {INV, PEND, ACT, PENDACT}"
  shows "\<exists>s1 b s2. vgic_write_lr v p k s = Inr s1 \<and> vi_in_lr (gs_ints s1 p) \<and> vi_state (gs_ints s1 p) = INV \<and>
    vgic_remove_lr v p s1 = Inr (b, s2) \<and> \<not> vi_in_lr (gs_ints s2 p) \<and>
    vi_state (gs_ints s2 p) = lr_state_of (gs_ints s p) \<and>
    (b \<longleftrightarrow> lr_state_of (gs_ints s p) \<noteq> INV) \<and> (b \<longrightarrow> gich (gs_hw s2) (GICH_LR k) = 0)"
proof -
  let ?i = "gs_ints s p"
  have id: "\<not> vi_id ?i < GIC_MAX_SGIS" using assms(7) by simp
  from write_lr_result[OF assms(1-4) id] obtain s1 where s1: "vgic_write_lr v p k s = Inr s1"
    "gs_ints s1 p = ?i\<lparr>vi_state := 0, vi_in_lr := True, vi_lr := word_of_nat k\<rparr>"
    "gs_hw s1 = wr_gich (GICH_LR k) (fst (lr_value ?i (vi_state ?i))) (gs_hw s)"
    "gs_cpu s1 = gs_cpu s" "gs_vm s1 = gs_vm s" .
  have N: "NUM_LRS (gs_hw s1) = n" "n \<le> 64" using assms(1) s1(3) by (simp_all add: vgic_wf_def)
  have lr: "gich_get_lr s1 (gs_ints s1 p) =
      Inr (if lr_state_of ?i = 0 then None else Some (k, ucast (fst (lr_value ?i (vi_state ?i)))))"
    "lr_state_of ?i \<noteq> 0 \<Longrightarrow> ucast (GICH_LR_STATE (ucast (fst (lr_value ?i (vi_state ?i))))) = lr_state_of ?i"
    using lr_reads_back[OF s1(2) _ assms(5) _ _ _ id assms(8,9)] s1(3-5) assms(3,6) N by simp_all
  have owns: "vgic_owns v (gs_ints s1 p) \<and> vi_in_lr (gs_ints s1 p)"
    using s1(2) assms(5) by (simp add: vgic_owns_def)
  have hcr: "GICH_LR k \<noteq> GICH_HCR" by (simp add: GICH_LR_def GICH_HCR_def)
  show ?thesis
  proof (cases "lr_state_of ?i = 0")
    case True
    have "GICH_LR_STATE 0 = 0" by (simp add: bit_eq_iff STATE_bit)
    then show ?thesis using s1(1,2) owns lr(1) True
      by (simp add: vgic_remove_lr_def exI[of _ False])
  next
    case False
    have "GICH_LR_STATE (ucast (fst (lr_value ?i (vi_state ?i)))) \<noteq> 0" using False lr(2) by auto
    then show ?thesis using s1(1,2) owns lr False N assms(3) id hcr
      by (simp add: vgic_remove_lr_def gich_write_lr_def Let_def gich_set_hcr_def exI[of _ True])
  qed
qed

definition owned_vgic :: vgic_sys where
  "owned_vgic = sample_vgic\<lparr>gs_ints := (gs_ints sample_vgic)(0x10038 := (gs_ints sample_vgic 0x10038)
     \<lparr>vi_id := 33, vi_owner := Some 0, vi_state := PENDACT, vi_hw := True\<rparr>),
     gs_hw := wr_gich (GICH_ELSR 0) 4 sample_gic\<rparr>"

lemma owned_vgic:
  "vgic_wf 4 0 owned_vgic" "prev_free 0 0x10038 k owned_vgic" "gs_hw owned_vgic = wr_gich (GICH_ELSR 0) 4 sample_gic"
  "gs_ints owned_vgic 0x10038 = \<lparr>vi_owner = Some 0, vi_lock = SPINLOCK_INITVAL, vi_id = 33, vi_state = PENDACT,
     vi_prio = 0xA0, vi_cfg = 0, vi_lr = 0, vi_byte0 = 2, vi_byte1 = 0, vi_hw = True, vi_in_lr = False, vi_enabled = True\<rparr>"
  "p_id_of owned_vgic 0 = 1" "gs_cpu owned_vgic = 1"
  using sample_vgic_wf
  by (auto simp: owned_vgic_def prev_free_def sample_vgic_def vgic_get_int_def sample_vm_def vgic_wf_def int_ok_def
      SPINLOCK_INITVAL_def)

theorem lr_write_remove_roundtrip_witness:
  "\<exists>s1 b s2. vgic_write_lr 0 0x10038 2 owned_vgic = Inr s1 \<and> vi_state (gs_ints s1 0x10038) = INV \<and>
     vgic_remove_lr 0 0x10038 s1 = Inr (b, s2) \<and> vi_state (gs_ints s2 0x10038) = ACT"
proof -
  have "lr_state_of (gs_ints owned_vgic 0x10038) = ACT"
    by (simp add: owned_vgic lr_state_of_def vgic_int_is_hw_def)
  then show ?thesis
    using lr_write_remove_roundtrip[OF owned_vgic(1) owned_vgic(2), of 2]
    by (fastforce simp: owned_vgic)
qed

text \<open>C22: an enabled interrupt of any kind (its number is below 1024, as every number the registers
  can name) that is in no list register yet goes into the lowest register that the
  status word reports as free, when the interrupt this register held before is another one with a free
  lock: the call returns, the register then names the interrupt, and no other register changes.\<close>

theorem vgic_add_lr_lowest_free:
  assumes "vgic_wf n c s" "vi_enabled (gs_ints s p)" "\<not> vi_in_lr (gs_ints s p)"
    and "vi_id (gs_ints s p) < 1024"
    and "k < n" "bit (gich_get_elrsr (gs_dev s (gs_hw s))) k"
    and "\<forall>j < k. \<not> bit (gich_get_elrsr (gs_dev s (gs_hw s))) j" "prev_free v p k s"
  shows "\<exists>s'. vgic_add_lr v p s = Inr (True, s') \<and> vi_in_lr (gs_ints s' p) \<and> unat (vi_lr (gs_ints s' p)) = k \<and>
    unat (GICH_LR_VID (ucast (gich (gs_hw s') (GICH_LR k)))) = vi_id (gs_ints s p) \<and>
    gs_curr_lrs s' v k = vi_id (gs_ints s p) \<and>
    (\<forall>j. j \<noteq> k \<longrightarrow> gich (gs_hw s') (GICH_LR j) = gich (gs_hw s) (GICH_LR j))"
proof -
  have n: "NUM_LRS (gs_hw s) = n" "n \<le> 64" using assms(1) by (simp_all add: vgic_wf_def)
  let ?w = "gich_get_elrsr (gs_dev s (gs_hw s))"
  have get: "bit_get ?w j \<noteq> 0 \<longleftrightarrow> bit ?w j" if "j < n" for j
    using that n by (simp add: bit_get_def lsl_eq and_exp_eq_0_iff_not_bit)
  have "free_lr (gs_hw s) ?w = Some k"
    unfolding free_lr_def n find_Some_iff
    using assms(5-7) get by (intro exI[of _ k]) simp
  moreover from write_lr_runs[OF assms(1,8,5,3)] obtain st s' where
    s': "vgic_write_lr v p k s = Inr s'"
    "gs_ints s' p = (gs_ints s p)\<lparr>vi_byte1 := snd (lr_value (gs_ints s p) st), vi_state := 0, vi_in_lr := True,
       vi_lr := word_of_nat k\<rparr>"
    "gs_hw s' = wr_gich (GICH_LR k) (fst (lr_value (gs_ints s p) st)) (gs_hw s)"
    "gs_curr_lrs s' v k = vi_id (gs_ints s p)" by metis
  moreover have "unat (word_of_nat k :: u8) = k" using assms(5) n by (simp add: unat_of_nat)
  ultimately show ?thesis
    using assms(2,3) lr_value_VID[OF assms(4)] by (simp add: vgic_add_lr_def Let_def GICH_LR_def)
qed

theorem vgic_add_lr_lowest_free_witness:
  "\<exists>s'. vgic_add_lr 0 0x10038 owned_vgic = Inr (True, s') \<and> unat (vi_lr (gs_ints s' 0x10038)) = 2"
proof -
  have dev: "gich_get_elrsr (gs_dev owned_vgic (gs_hw owned_vgic)) = 4"
    by (simp add: owned_vgic_def sample_vgic_def gich_get_elrsr_def sample_gic_def GICH_ELSR_def GICH_VTR_def)
  have "bit (4 :: u64) j \<longleftrightarrow> j = 2" for j
    using bit_exp_iff[where 'a = u64, of 2 j] by auto
  then show ?thesis
    using vgic_add_lr_lowest_free[OF owned_vgic(1), of "0x10038" 2 0] owned_vgic(2)
    by (fastforce simp: owned_vgic(4) dev simp del: bit_numeral_word_iff)
qed

end
