(* ===== verification/Mmu_Props.thy ===== *)
theory Mmu_Props
  imports Mmu
begin

text \<open>
  What the page tables mean and what mapping does to them. \<open>translate\<close> is the walk of the
  processor through the tables; \<open>pt_tree\<close> says that the tables form a tree, that is, that two
  paths lead to the same table only if they are the same path. Mapping physical pages at a region
  whose tables exist is then an update of the translation at exactly that region.
\<close>

unbundle bit_operations_syntax

subsection \<open>Paths\<close>

abbreviation idx :: "page_table \<Rightarrow> nat \<Rightarrow> vaddr_t \<Rightarrow> u64" where
  "idx pt l va \<equiv> pt_getpteindex_by_va pt va l"

fun table_at :: "pte_mem \<Rightarrow> page_table \<Rightarrow> vaddr_t \<Rightarrow> nat \<Rightarrow> u64" where
  "table_at mem pt va 0 = pt_root pt"
| "table_at mem pt va (Suc l) = pte_addr (mem (table_at mem pt va l + 8 * idx pt l va))"

definition slot :: "pte_mem \<Rightarrow> page_table \<Rightarrow> vaddr_t \<Rightarrow> nat \<Rightarrow> u64" where
  "slot mem pt va l = table_at mem pt va l + 8 * idx pt l va"

lemma pt_walk_slot: "pt_walk mem pt va i k (table_at mem pt va i) = slot mem pt va (i + k)"
proof (induction k arbitrary: i)
  case (Suc k)
  then show ?case using Suc[of "i + 1"] by (simp add: slot_def)
qed (simp add: slot_def)

lemma pt_get_pte_slot: "pt_get_pte mem pt l va = slot mem pt va l"
  using pt_walk_slot[of mem pt va 0 l] by (simp add: pt_get_pte_def)

definition reach :: "pte_mem \<Rightarrow> page_table \<Rightarrow> vaddr_t \<Rightarrow> nat \<Rightarrow> bool" where
  "reach mem pt va l \<longleftrightarrow> (\<forall>k < l. pte_table pt (mem (slot mem pt va k)) k)"

definition pt_tree :: "pte_mem \<Rightarrow> page_table \<Rightarrow> bool" where
  "pt_tree mem pt \<longleftrightarrow> pt_dscr pt = armv8_pt_s2_dscr \<and> pt_root pt AND mask 12 = 0 \<and>
     (\<forall>va va' l l'. l < 4 \<longrightarrow> l' < 4 \<longrightarrow> reach mem pt va l \<longrightarrow> reach mem pt va' l' \<longrightarrow>
        table_at mem pt va l = table_at mem pt va' l' \<longrightarrow> l = l' \<and> (\<forall>k < l. idx pt k va = idx pt k va'))"

subsection \<open>Translation\<close>

fun translate_from :: "pte_mem \<Rightarrow> page_table \<Rightarrow> vaddr_t \<Rightarrow> nat \<Rightarrow> nat \<Rightarrow> paddr_t option" where
  "translate_from mem pt va l 0 = None"
| "translate_from mem pt va l (Suc k) =
     (let e = mem (slot mem pt va l)
      in if pte_page pt e l then Some (pte_addr e OR (va AND mask (lvl_off (pt_dscr pt) ! l)))
         else if pte_table pt e l then translate_from mem pt va (l + 1) k
         else None)"

definition translate :: "pte_mem \<Rightarrow> page_table \<Rightarrow> vaddr_t \<Rightarrow> paddr_t option" where
  "translate mem pt va = translate_from mem pt va 0 4"

subsection \<open>Indices\<close>

lemma s2_dscr:
  assumes "pt_dscr pt = armv8_pt_s2_dscr" "l < 4"
  shows "lvl_off (pt_dscr pt) ! l = 39 - 9 * l" "pt_nentries pt l = 512" "lvls (pt_dscr pt) = 4"
proof -
  have "l = 0 \<or> l = 1 \<or> l = 2 \<or> l = 3" using assms(2) by linarith
  then show "lvl_off (pt_dscr pt) ! l = 39 - 9 * l" "pt_nentries pt l = 512" "lvls (pt_dscr pt) = 4"
    using assms(1) by (auto simp: armv8_pt_s2_dscr_def pt_nentries_def lsl_def lsr_def push_bit_eq_mult drop_bit_eq_div)
qed

lemma idx_bits:
  assumes "pt_dscr pt = armv8_pt_s2_dscr" "l < 4"
  shows "bit (idx pt l va) i \<longleftrightarrow> i < 9 \<and> bit va (i + (39 - 9 * l))"
proof -
  have "(511 :: u64) = mask 9" by (simp add: mask_eq_exp_minus_1)
  then have "idx pt l va = lsr va (39 - 9 * l) AND mask 9"
    using s2_dscr[OF assms] by (simp add: pt_getpteindex_by_va_def)
  then show ?thesis using assms(2) by (auto simp: lsr_eq bit_and_iff bit_drop_bit_eq add.commute)
qed

lemma idx_same:
  assumes "pt_dscr pt = armv8_pt_s2_dscr" "a < 2 ^ 48" "v < 2 ^ 48"
  shows "(\<forall>k < 4. idx pt k a = idx pt k v) \<longleftrightarrow> drop_bit 12 a = drop_bit 12 v"
proof
  assume same: "\<forall>k < 4. idx pt k a = idx pt k v"
  have b: "bit a (i + (39 - 9 * k)) = bit v (i + (39 - 9 * k))" if "k < 4" "i < 9" for i k
    using same that idx_bits[OF assms(1) that(1), of a i] idx_bits[OF assms(1) that(1), of v i] by simp
  have high: "\<not> bit a i" "\<not> bit v i" if "48 \<le> i" for i
    using assms(2,3) that by (metis bit_take_bit_iff less_mask_eq linorder_not_less take_bit_eq_mask)+
  show "drop_bit 12 a = drop_bit 12 v"
  proof (rule bit_eqI)
    fix i
    show "bit (drop_bit 12 a) i = bit (drop_bit 12 v) i"
    proof (cases "i < 36")
      case True
      then have "i div 9 \<le> 3" by simp
      then have "39 - 9 * (3 - i div 9) = 12 + 9 * (i div 9)" by arith
      then have eq: "12 + i = i mod 9 + (39 - 9 * (3 - i div 9))" using mod_mult_div_eq[of i 9] by linarith
      have "bit a (12 + i) = bit v (12 + i)" unfolding eq by (rule b) simp_all
      then show ?thesis by (simp add: bit_drop_bit_eq)
    next
      case False
      then show ?thesis using high[of "i + 12"] by (simp add: bit_drop_bit_eq add.commute)
    qed
  qed
next
  assume same: "drop_bit 12 a = drop_bit 12 v"
  have "bit a j = bit v j" if "12 \<le> j" for j
  proof -
    have "bit (drop_bit 12 a) (j - 12) = bit (drop_bit 12 v) (j - 12)" using same by simp
    then show ?thesis using that by (simp add: bit_drop_bit_eq)
  qed
  then show "\<forall>k < 4. idx pt k a = idx pt k v"
    by (intro allI impI bit_eqI) (simp add: idx_bits[OF assms(1)])
qed

lemma idx_less: "pt_dscr pt = armv8_pt_s2_dscr \<Longrightarrow> l < 4 \<Longrightarrow> idx pt l va < 512"
proof -
  assume "pt_dscr pt = armv8_pt_s2_dscr" "l < 4"
  then have "idx pt l va = take_bit 9 (idx pt l va)"
    by (intro bit_eqI) (simp add: bit_take_bit_iff idx_bits)
  moreover have "take_bit 9 (idx pt l va) < 2 ^ 9"
    unfolding take_bit_eq_mask by (rule and_mask_less') simp
  ultimately show "idx pt l va < 512" by simp
qed

lemma entry_address_unique:
  fixes b b' i i' :: u64
  assumes "b AND mask 12 = 0" "b' AND mask 12 = 0" "i < 512" "i' < 512" "b + 8 * i = b' + 8 * i'"
  shows "b = b' \<and> i = i'"
proof -
  have mod: "unat c mod 4096 = 0" if "c AND mask 12 = 0" for c :: u64
  proof -
    have "take_bit 12 c = 0" using that by (simp add: take_bit_eq_mask)
    then have "unat (take_bit 12 c) = 0" by simp
    then have "take_bit 12 (unat c) = 0" by (simp only: unsigned_take_bit_eq)
    then show ?thesis by (simp add: take_bit_eq_mod)
  qed
  have small: "unat (8 * j) = 8 * unat j" "unat (8 * j) < 4096" if "j < 512" for j :: u64
    using that by (simp_all add: unat_word_ariths word_less_nat_alt)
  have sum: "unat (c + 8 * j) = unat c + 8 * unat j" if "c AND mask 12 = 0" "j < 512" for c j :: u64
  proof -
    obtain q where q: "unat c = 4096 * q" using mod[OF \<open>c AND mask 12 = 0\<close>] by (auto simp: mod_eq_0_iff_dvd)
    have "unat c < 2 ^ 64" using unsigned_less[of c] by simp
    then have "4096 * q < 4096 * 2 ^ 52" using q by simp
    then have "4096 * q + 4096 \<le> 2 ^ 64" by simp
    then show ?thesis using q small[OF that(2)] by (simp add: unat_word_ariths)
  qed
  have eq: "unat b + 8 * unat i = unat b' + 8 * unat i'"
    using sum[OF assms(1,3)] sum[OF assms(2,4)] assms(5) by simp
  then have "(unat b + 8 * unat i) mod 4096 = (unat b' + 8 * unat i') mod 4096" by simp
  then have "8 * unat i = 8 * unat i'"
    using mod[OF assms(1)] mod[OF assms(2)] small assms(3,4) by (simp add: mod_add_eq[symmetric, of "unat b"] mod_add_eq[symmetric, of "unat b'"])
  with eq show ?thesis by (simp add: word_unat_eq_iff)
qed

lemma table_aligned: "pt_tree mem pt \<Longrightarrow> table_at mem pt va l AND mask 12 = 0"
  by (cases l) (simp_all add: pt_tree_def pte_addr_aligned)

lemma slot_unique:
  assumes "pt_tree mem pt" "reach mem pt va l" "reach mem pt va' l'" "l < 4" "l' < 4"
    and "slot mem pt va l = slot mem pt va' l'"
  shows "l = l' \<and> (\<forall>k \<le> l. idx pt k va = idx pt k va')"
proof -
  have d: "pt_dscr pt = armv8_pt_s2_dscr" using assms(1) by (simp add: pt_tree_def)
  have "table_at mem pt va l = table_at mem pt va' l' \<and> idx pt l va = idx pt l' va'"
    using assms(6) unfolding slot_def
    by (rule entry_address_unique[OF table_aligned[OF assms(1)] table_aligned[OF assms(1)] idx_less[OF d assms(4)] idx_less[OF d assms(5)]])
  with assms show ?thesis unfolding pt_tree_def by (metis le_neq_implies_less)
qed

subsection \<open>Writing one entry of the last level\<close>

lemma reach_Suc: "reach mem pt va (Suc l) \<longleftrightarrow> reach mem pt va l \<and> pte_table pt (mem (slot mem pt va l)) l"
  by (auto simp: reach_def less_Suc_eq)

lemma same_path:
  "\<forall>k < l. idx pt k a = idx pt k v \<Longrightarrow> table_at mem pt a l = table_at mem pt v l \<and> reach mem pt a l = reach mem pt v l"
  by (induction l) (auto simp: reach_Suc slot_def, auto simp: reach_def)

lemma write_keeps_path:
  fixes e :: pte_t
  assumes "pt_tree mem pt" "reach mem pt v 3" "l \<le> 3"
  defines "mem' \<equiv> mem(slot mem pt v 3 := e)"
  shows "reach mem' pt a l = reach mem pt a l \<and> (reach mem pt a l \<longrightarrow> table_at mem' pt a l = table_at mem pt a l)"
  using assms(3)
proof (induction l)
  case (Suc l)
  then have IH: "reach mem' pt a l = reach mem pt a l" "reach mem pt a l \<Longrightarrow> slot mem' pt a l = slot mem pt a l"
    by (auto simp: slot_def)
  have "mem' (slot mem pt a l) = mem (slot mem pt a l)" if "reach mem pt a l"
    using slot_unique[OF assms(1) that assms(2)] Suc.prems by (auto simp: mem'_def)
  with IH show ?case by (auto simp: reach_Suc slot_def)
qed (simp add: reach_def)

lemma write_keeps_tree:
  assumes "pt_tree mem pt" "reach mem pt v 3"
  shows "pt_tree (mem(slot mem pt v 3 := e)) pt"
proof -
  let ?mem = "mem(slot mem pt v 3 := e)"
  have path: "reach ?mem pt va l = reach mem pt va l"
    "reach mem pt va l \<Longrightarrow> table_at ?mem pt va l = table_at mem pt va l" if "l < 4" for va l
    using write_keeps_path[OF assms, of l e va] that by simp_all
  show ?thesis
    unfolding pt_tree_def
  proof (intro conjI allI impI)
    fix va va' l l'
    assume "l < 4" "l' < 4" "reach ?mem pt va l" "reach ?mem pt va' l'" "table_at ?mem pt va l = table_at ?mem pt va' l'"
    then have "l < 4" "l' < 4" "reach mem pt va l" "reach mem pt va' l'" "table_at mem pt va l = table_at mem pt va' l'"
      using path by simp_all
    with assms(1) have "l = l' \<and> (\<forall>k < l. idx pt k va = idx pt k va')" unfolding pt_tree_def by blast
    then show "l = l'" "\<And>k. k < l \<Longrightarrow> idx pt k va = idx pt k va'" by simp_all
  qed (use assms(1) in \<open>simp_all add: pt_tree_def\<close>)
qed

lemma translate_write:
  assumes "pt_tree mem pt" "reach mem pt v 3" "pte_page pt e 3" "a < 2 ^ 48" "v < 2 ^ 48"
  defines "mem' \<equiv> mem(slot mem pt v 3 := e)"
  shows "translate mem' pt a =
    (if drop_bit 12 a = drop_bit 12 v then Some (pte_addr e OR (a AND mask 12)) else translate mem pt a)"
proof -
  have d: "pt_dscr pt = armv8_pt_s2_dscr" using assms(1) by (simp add: pt_tree_def)
  define same where "same = (drop_bit 12 a = drop_bit 12 v)"
  have same: "same \<longleftrightarrow> (\<forall>k < 4. idx pt k a = idx pt k v)" unfolding same_def using idx_same[OF d assms(4,5)] by simp
  have path: "slot mem' pt a l = slot mem pt a l" if "reach mem pt a l" "l < 4" for l
    using write_keeps_path[OF assms(1,2), of l e a] that by (simp add: slot_def mem'_def)
  have other: "mem' (slot mem pt a l) = mem (slot mem pt a l)" if "reach mem pt a l" "l < 3 \<or> l = 3 \<and> \<not> same" for l
    using slot_unique[OF assms(1) that(1) assms(2)] that(2) same by (auto simp: mem'_def less_Suc_eq_le numeral_eq_Suc)
  have reach: "reach mem pt a l" "l < 3 \<Longrightarrow> pte_table pt (mem (slot mem pt a l)) l" if "same" "l \<le> 3" for l
    using same_path[of 3 pt a v mem] that same assms(2) by (auto simp: reach_def)
  have here: "mem' (slot mem pt a 3) = e" if "same"
    using same_path[of 3 pt a v mem] that same by (simp add: mem'_def slot_def)
  have "translate_from mem' pt a l k = (if same then Some (pte_addr e OR (a AND mask 12)) else translate_from mem pt a l k)"
    if "l + k = 4" "reach mem pt a l" "0 < k" for l k
    using that
  proof (induction k arbitrary: l)
    case (Suc k)
    show ?case
    proof (cases "l < 3")
      case True
      have e: "mem' (slot mem' pt a l) = mem (slot mem pt a l)" using path[of l] other[of l] Suc.prems True by simp
      have excl: "\<not> pte_page pt w l" if "pte_table pt w l" for w
        using that True s2_dscr(3)[OF d, of 0] by (auto simp: pte_table_def pte_page_def split: if_splits)
      have IH: "pte_table pt (mem (slot mem pt a l)) l \<Longrightarrow> translate_from mem' pt a (l + 1) k =
          (if same then Some (pte_addr e OR (a AND mask 12)) else translate_from mem pt a (l + 1) k)"
        using Suc.IH[of "l + 1"] Suc.prems True by (simp add: reach_Suc)
      show ?thesis
      proof (cases same)
        case True
        then show ?thesis using IH reach(2)[OF True, of l] \<open>l < 3\<close> excl by (simp add: e)
      next
        case False
        then show ?thesis using IH by (simp add: e Let_def)
      qed
    next
      case False
      then have l: "l = 3" "k = 0" using Suc.prems by auto
      show ?thesis
      proof (cases same)
        case True
        then show ?thesis using l path[of 3] here Suc.prems assms(3) s2_dscr(1)[OF d, of 3] by simp
      next
        case False
        then show ?thesis using l path[of 3] other[of 3] Suc.prems by (simp add: Let_def)
      qed
    qed
  qed simp
  from this[of 0 4] show ?thesis by (simp add: translate_def same_def reach_def)
qed

subsection \<open>Regions\<close>

abbreviation pgno :: "u64 \<Rightarrow> nat" where "pgno a \<equiv> unat a div 4096"

definition in_region :: "vaddr_t \<Rightarrow> nat \<Rightarrow> vaddr_t \<Rightarrow> bool" where
  "in_region va n a \<longleftrightarrow> unat va \<le> unat a \<and> unat a < unat va + n * 4096"

lemma same_page: "drop_bit 12 a = drop_bit 12 v \<longleftrightarrow> pgno a = pgno v" for a v :: u64
  by (simp add: word_unat_eq_iff unat_drop_bit_eq) (simp add: drop_bit_eq_div)

lemma unat_page:
  fixes va :: u64
  assumes "unat va + n * 4096 \<le> 2 ^ 48" "j \<le> n"
  shows "unat (va + word_of_nat j * 0x1000) = unat va + j * 4096"
proof -
  have j: "j * 4096 \<le> n * 4096" using assms(2) by simp
  then have "j < 2 ^ 64" using assms(1) by simp
  then have "unat (word_of_nat j :: u64) = j" by (rule unat_word_of_nat64)
  then have "unat (word_of_nat j * 0x1000 :: u64) = j * 4096"
    using j assms(1) by (simp add: unat_word_ariths)
  then show ?thesis using j assms(1) by (simp add: unat_word_ariths)
qed

lemma page_in_region:
  assumes "unat va + n * 4096 \<le> 2 ^ 48" "j < n"
  shows "in_region va n (va + word_of_nat j * 0x1000)"
proof -
  have "j * 4096 < n * 4096" using assms(2) by simp
  then show ?thesis using unat_page[OF assms(1), of j] assms(2) by (simp add: in_region_def)
qed

lemma pgno_page:
  fixes va :: u64
  assumes "unat va + n * 4096 \<le> 2 ^ 48" "j \<le> n"
  shows "pgno (va + word_of_nat j * 0x1000) = pgno va + j"
  by (simp add: unat_page[OF assms])

subsection \<open>Mapping\<close>

abbreviation stage2 :: "mm \<Rightarrow> vaddr_t \<Rightarrow> paddr_t option" where
  "stage2 s \<equiv> translate (mm_mem s) (pt_of s)"

lemma pte_page_make: "pte_page pt (pte_make b PTE_PAGE fl) 3" if "pt_dscr pt = armv8_pt_s2_dscr"
proof -
  have "pte_make b PTE_PAGE fl AND PTE_TYPE_MSK = PTE_PAGE"
    by (rule bit_eqI) (auto simp: pte_make_def pte_bits simp del: bit_numeral_word_iff)
  then show ?thesis using that by (simp add: pte_page_def pt_lvl_terminal_def armv8_pt_s2_dscr_def)
qed

lemma map_pages_translate:
  fixes b fl :: u64
  assumes "i \<le> n" "unat va + n * 4096 \<le> 2 ^ 48" "pt_tree (mm_mem s) (pt_of s)"
    and "\<And>a. in_region va n a \<Longrightarrow> reach (mm_mem s) (pt_of s) a 3"
  defines "s' \<equiv> map_pages [i..<n] b fl (va + word_of_nat i * 0x1000) s"
  shows "s' = s\<lparr>mm_mem := mm_mem s'\<rparr> \<and> pt_tree (mm_mem s') (pt_of s) \<and>
    (\<forall>a < 2 ^ 48. translate (mm_mem s') (pt_of s) a =
      (if pgno va + i \<le> pgno a \<and> pgno a < pgno va + n
       then Some (pte_addr (pte_make (b + word_of_nat (pgno a - pgno va) * 0x1000) PTE_PAGE fl) OR (a AND mask 12))
       else stage2 s a))"
  using assms(1,3,4) unfolding s'_def
proof (induction "n - i" arbitrary: i s)
  case 0
  then show ?case by auto
next
  case (Suc k)
  then have lt: "i < n" by simp
  let ?pt = "pt_of s" and ?v = "va + word_of_nat i * 0x1000"
  let ?e = "pte_make (b + word_of_nat i * 0x1000) PTE_PAGE fl"
  have d: "pt_dscr ?pt = armv8_pt_s2_dscr" using Suc.prems(2) by (simp add: pt_tree_def)
  have r: "reach (mm_mem s) ?pt ?v 3" by (rule Suc.prems(3)[OF page_in_region[OF assms(2) lt]])
  define s1 where "s1 = upd_mem (pte_set (slot (mm_mem s) ?pt ?v 3) (b + word_of_nat i * 0x1000) PTE_PAGE fl) s"
  have s1: "s1 = s\<lparr>mm_mem := (mm_mem s)(slot (mm_mem s) ?pt ?v 3 := ?e)\<rparr>"
    by (simp add: s1_def upd_mem_def pte_set_def)
  have "[i..<n] = i # [Suc i..<n]" using lt by (rule upt_conv_Cons)
  moreover have "last_lvl s = 3" using s2_dscr(3)[OF d, of 0] by simp
  ultimately have step: "map_pages [i..<n] b fl ?v s = map_pages [Suc i..<n] b fl (va + word_of_nat (Suc i) * 0x1000) s1"
    by (simp add: s1_def pt_get_pte_slot Let_def algebra_simps)
  have tree: "pt_tree (mm_mem s1) ?pt" unfolding s1 using write_keeps_tree[OF Suc.prems(2) r] by simp
  have "reach (mm_mem s1) ?pt a 3" if "in_region va n a" for a
    unfolding s1 using write_keeps_path[OF Suc.prems(2) r, of 3 ?e a] Suc.prems(3)[OF that] by simp
  moreover define s2 where "s2 = map_pages [Suc i..<n] b fl (va + word_of_nat (Suc i) * 0x1000) s1"
  ultimately have IH: "s2 = s1\<lparr>mm_mem := mm_mem s2\<rparr> \<and> pt_tree (mm_mem s2) ?pt \<and>
    (\<forall>a < 2 ^ 48. translate (mm_mem s2) ?pt a =
      (if pgno va + Suc i \<le> pgno a \<and> pgno a < pgno va + n
       then Some (pte_addr (pte_make (b + word_of_nat (pgno a - pgno va) * 0x1000) PTE_PAGE fl) OR (a AND mask 12))
       else translate (mm_mem s1) ?pt a))"
    using Suc.hyps(1)[of "Suc i" s1] Suc.hyps(2) lt tree s1 by simp
  have vlt: "?v < 2 ^ 48" using unat_page[OF assms(2), of i] assms(2) lt by (simp add: word_less_nat_alt)
  have "translate (mm_mem s1) ?pt a = (if pgno a = pgno va + i then Some (pte_addr ?e OR (a AND mask 12)) else stage2 s a)"
    if "a < 2 ^ 48" for a
    using translate_write[OF Suc.prems(2) r pte_page_make[OF d] that vlt] lt pgno_page[OF assms(2), of i]
    by (simp add: s1 same_page)
  with IH s1 lt show ?case unfolding step s2_def[symmetric] by auto
qed

subsection \<open>Nothing to inflate\<close>

lemma expand_noop:
  assumes "pt_tree (mm_mem s) (pt_of s)" "reach (mm_mem s) (pt_of s) v 3" "l < 3"
  shows "mem_expand_pte v l s = Inr s"
  using assms s2_dscr(3)[of "pt_of s" 0] by (simp add: mem_expand_pte_def pt_get_pte_slot reach_def pt_tree_def)

lemma inflate_lvl_noop:
  assumes "pt_tree (mm_mem s) (pt_of s)" "l < 3" "unat stop \<le> 2 ^ 48" "unat sz \<le> 2 ^ 39" "0 < unat sz"
    and "\<And>a. va \<le> a \<Longrightarrow> a < stop \<Longrightarrow> reach (mm_mem s) (pt_of s) a 3"
  shows "inflate_lvl l sz stop va s = Some (Inr s)"
  using assms(6)
proof (induction "unat stop - unat va" arbitrary: va rule: less_induct)
  case less
  show ?case
  proof (cases "va < stop")
    case True
    have add: "unat (va + sz) = unat va + unat sz"
      using True assms(3,4) by (simp add: unat_word_ariths word_less_nat_alt)
    have "inflate_lvl l sz stop (va + sz) s = Some (Inr s)"
      using True assms(5) add less.prems
      by (intro less.hyps) (auto simp: word_less_nat_alt word_le_nat_alt)
    moreover have "mem_expand_pte va l s = Inr s"
      using expand_noop[OF assms(1) less.prems[of va] assms(2)] True by simp
    ultimately show ?thesis using True by (subst inflate_lvl.simps) simp
  qed (simp add: inflate_lvl.simps)
qed

lemma inflate_noop:
  assumes "pt_tree (mm_mem s) (pt_of s)" "unat va + n * 4096 \<le> 2 ^ 48"
    and "\<And>a. in_region va n a \<Longrightarrow> reach (mm_mem s) (pt_of s) a 3"
  shows "mem_inflate_pt va (word_of_nat n * PAGE_SIZE) s = Some (Inr s)"
proof -
  let ?stop = "va + word_of_nat n * PAGE_SIZE"
  have d: "pt_dscr (pt_of s) = armv8_pt_s2_dscr" using assms(1) by (simp add: pt_tree_def)
  have stop: "unat ?stop = unat va + n * 4096" by (rule unat_page[OF assms(2)]) simp
  have "reach (mm_mem s) (pt_of s) a 3" if "va \<le> a" "a < ?stop" for a
    using that assms(3)[of a] stop by (simp add: in_region_def word_less_nat_alt word_le_nat_alt)
  then have "inflate_lvl l (pt_lvlsize (pt_of s) l) ?stop va s = Some (Inr s)" if "l < 3" for l
    using that stop assms(2) s2_dscr(1)[OF d, of l]
    by (intro inflate_lvl_noop[OF assms(1) that])
      (auto simp: pt_lvlsize_def lsl_def less_Suc_eq numeral_3_eq_3)
  moreover have "[0..<last_lvl s] = [0, 1, 2]" using s2_dscr(3)[OF d, of 0] by (simp add: upt_rec)
  ultimately show ?thesis by (simp add: mem_inflate_pt_def)
qed

subsection \<open>Mapping refines an update of the translation\<close>

lemma aligned_mod: "c AND mask 12 = 0 \<longleftrightarrow> unat c mod 4096 = 0" for c :: u64
proof -
  have "c AND mask 12 = 0 \<longleftrightarrow> unat (take_bit 12 c) = 0" by (simp add: take_bit_eq_mask word_unat_eq_iff)
  also have "\<dots> \<longleftrightarrow> take_bit 12 (unat c) = 0" by (simp only: unsigned_take_bit_eq)
  finally show ?thesis by (simp add: take_bit_eq_mod)
qed

lemma aligned_bit: "c AND mask 12 = 0 \<Longrightarrow> bit c i \<Longrightarrow> 12 \<le> i" for c :: u64
proof (rule ccontr)
  assume z: "c AND mask 12 = 0" and b: "bit c i" and "\<not> 12 \<le> i"
  then have "i < 12" by simp
  with b have "bit (c AND mask 12) i" by (simp add: bit_and_iff)
  then show False unfolding z by simp
qed

lemma frame_address:
  assumes "c AND mask 12 = 0" "c < 2 ^ 48"
  shows "c AND PTE_ADDR_MSK = c"
proof (rule bit_eqI)
  fix i
  have "bit c i \<Longrightarrow> 12 \<le> i" by (rule aligned_bit[OF assms(1)])
  moreover have "bit c i \<Longrightarrow> i < 48" using assms(2) by (metis bit_take_bit_iff less_mask_eq take_bit_eq_mask)
  ultimately show "bit (c AND PTE_ADDR_MSK) i = bit c i" by (auto simp: bit_and_iff bit_PTE_ADDR_MSK)
qed

lemma page_frame:
  assumes "b AND mask 12 = 0" "unat b + n * 4096 \<le> 2 ^ 48" "va AND mask 12 = 0"
    and "j < n" "unat a = unat va + j * 4096 + r" "r < 4096"
  shows "pte_addr (pte_make (b + word_of_nat j * 0x1000) PTE_PAGE fl) OR (a AND mask 12) = b + (a - va)"
proof -
  let ?f = "b + word_of_nat j * 0x1000"
  have f: "unat ?f = unat b + j * 4096" using unat_page[OF assms(2)] assms(4) by simp
  have "j * 4096 + 4096 \<le> n * 4096" using assms(4) by simp
  then have bound: "unat ?f + 4096 \<le> 2 ^ 48" using f assms(2) by linarith
  have al: "?f AND mask 12 = 0" using assms(1) f by (simp add: aligned_mod)
  have "unat (a AND mask 12) = unat a mod 4096"
    by (simp only: take_bit_eq_mask[symmetric] unsigned_take_bit_eq) (simp add: take_bit_eq_mod)
  also have "unat a = r + 4096 * (pgno va + j)"
    using assms(3,5) mult_div_mod_eq[of 4096 "unat va"] unfolding aligned_mod by (simp add: distrib_left)
  also have "\<dots> mod 4096 = r" using assms(6) by (simp only: mod_mult_self2) simp
  finally have low: "unat (a AND mask 12) = r" .
  have diff: "unat (a - va) = j * 4096 + r" using assms(5) by (simp add: unat_sub word_le_nat_alt)
  have "?f AND (a AND mask 12) = 0" using al by (metis and.assoc and.left_commute and_zero_eq)
  then have "?f OR (a AND mask 12) = ?f + (a AND mask 12)" by (rule disjunctive_add_eq_or[symmetric])
  moreover have "pte_addr (pte_make ?f PTE_PAGE fl) = ?f"
    using frame_address[OF al] bound by (simp add: pte_addr_make word_less_nat_alt)
  moreover have "?f + (a AND mask 12) = b + (a - va)"
    using low diff f bound assms(6) by (simp add: word_unat_eq_iff unat_word_ariths)
  ultimately show ?thesis by simp
qed

lemma page_base: "va AND NOT (PAGE_SIZE - 1) = va" if "va AND mask 12 = 0" for va :: u64
proof (rule bit_eqI)
  fix i
  have "(PAGE_SIZE - 1 :: u64) = mask 12" by (simp add: mask_eq_exp_minus_1)
  then show "bit (va AND NOT (PAGE_SIZE - 1)) i = bit va i"
    using aligned_bit[OF that, of i]
    by (simp only: bit_and_iff bit_not_iff bit_mask_iff_lt) (auto dest: bit_imp_le_length)
qed

lemma region_pages:
  assumes "va AND mask 12 = 0"
  shows "in_region va n a \<longleftrightarrow> pgno va \<le> pgno a \<and> pgno a < pgno va + n"
    and "in_region va n a \<Longrightarrow> unat a = unat va + (pgno a - pgno va) * 4096 + unat a mod 4096"
proof -
  have q: "unat va = pgno va * 4096" using assms unfolding aligned_mod by auto
  then show region: "in_region va n a \<longleftrightarrow> pgno va \<le> pgno a \<and> pgno a < pgno va + n"
    by (simp add: in_region_def less_eq_div_iff_mult_less_eq div_less_iff_less_mult distrib_right)
  assume "in_region va n a"
  then obtain k where "pgno a = pgno va + k" using region le_Suc_ex by metis
  then show "unat a = unat va + (pgno a - pgno va) * 4096 + unat a mod 4096"
    using q mult_div_mod_eq[of 4096 "unat a"] by (simp add: distrib_right)
qed

text \<open>C1: mapping \<open>n\<close> given physical pages at a region whose page tables exist always returns, and
  refines an update of the address translation: every address of the region is translated to the
  corresponding address of the physical pages, every other address is translated as before, the
  tables still form a tree, and neither the page pool nor anything but page-table entries
  changes. In particular no mapping of a VM reaches a physical page that it was not given.\<close>
theorem mem_map_refines:
  assumes "pt_tree (mm_mem s) (pt_of s)" "ticket (as_lock (mm_as s)) = next_tk (as_lock (mm_as s))"
    and "va AND mask 12 = 0" "unat va + n * 4096 \<le> 2 ^ 48"
    and "b AND mask 12 = 0" "unat b + n * 4096 \<le> 2 ^ 48"
    and "\<forall>a. in_region va n a \<longrightarrow> reach (mm_mem s) (pt_of s) a 3"
  shows "\<exists>s'. mem_map va (Some (mem_ppages_get b n)) (word_of_nat n) fl s = Some (Inr (True, s')) \<and>
    (\<forall>a < 2 ^ 48. stage2 s' a = (if in_region va n a then Some (b + (a - va)) else stage2 s a)) \<and>
    pt_tree (mm_mem s') (pt_of s') \<and> mm_pool s' = mm_pool s \<and> mm_tlb s' = mm_tlb s"
proof -
  obtain l where l: "spin_lock (as_lock (mm_as s)) = Inr l" using spin_lock_free[OF assms(2)] by blast
  define s0 where "s0 = set_as_lock l s"
  have s0: "mm_mem s0 = mm_mem s" "pt_of s0 = pt_of s" "mm_pool s0 = mm_pool s" "mm_tlb s0 = mm_tlb s"
    by (simp_all add: s0_def set_as_lock_def)
  define s1 where "s1 = map_pages [0..<n] b fl va s0"
  have map: "s1 = s0\<lparr>mm_mem := mm_mem s1\<rparr> \<and> pt_tree (mm_mem s1) (pt_of s0) \<and>
    (\<forall>a < 2 ^ 48. translate (mm_mem s1) (pt_of s0) a =
      (if pgno va \<le> pgno a \<and> pgno a < pgno va + n
       then Some (pte_addr (pte_make (b + word_of_nat (pgno a - pgno va) * 0x1000) PTE_PAGE fl) OR (a AND mask 12))
       else stage2 s0 a))"
    using map_pages_translate[of 0 n va s0 b fl] assms(1,4,7) s0 by (simp add: s1_def)
  have as1: "mm_as s1 = mm_as s0" using conjunct1[OF map] by (cases s1; cases s0) simp
  have inf: "mem_inflate_pt va (word_of_nat n * PAGE_SIZE) s0 = Some (Inr s0)"
    using inflate_noop[of s0 va n] assms(1,4,7) s0 by simp
  have run: "mem_map va (Some (mem_ppages_get b n)) (word_of_nat n) fl s = Some (Inr (True, unlock_as s1))"
    using l inf page_base[OF assms(3)] by (simp add: mem_map_def s0_def[symmetric] mem_ppages_get_def s1_def)
  note region = region_pages(1)[OF assms(3)]
  have "stage2 (unlock_as s1) a = (if in_region va n a then Some (b + (a - va)) else stage2 s a)" if "a < 2 ^ 48" for a
  proof (cases "in_region va n a")
    case True
    then have "pgno a - pgno va < n" using region by auto
    note page_frame[OF assms(5,6,3) this region_pages(2)[OF assms(3) True], of fl]
    moreover have "stage2 s1 a = Some (pte_addr (pte_make (b + word_of_nat (pgno a - pgno va) * 0x1000) PTE_PAGE fl) OR (a AND mask 12))"
      using map True region that s0 as1 by simp
    ultimately show ?thesis using True by (simp add: unlock_as_def set_as_lock_def)
  next
    case False
    then show ?thesis using map region that s0 as1 by (auto simp: unlock_as_def set_as_lock_def)
  qed
  moreover have "pt_tree (mm_mem (unlock_as s1)) (pt_of (unlock_as s1))" "mm_pool (unlock_as s1) = mm_pool s" "mm_tlb (unlock_as s1) = mm_tlb s"
    using map s0 as1 by (simp_all add: unlock_as_def set_as_lock_def) (cases s1; cases s0; simp)+
  ultimately show ?thesis using run by blast
qed

text \<open>The tables for the gigabyte from \<open>0x40000000\<close> on, down to the last level.\<close>

definition sample_chain :: pte_mem where
  "sample_chain = (\<lambda>_. 0)(0x1000 := 0x2003, 0x2008 := 0x3003, 0x3000 := 0x4003)"

definition sample_pt :: page_table where
  "sample_pt = \<lparr>pt_root = 0x1000, pt_dscr = armv8_pt_s2_dscr\<rparr>"

definition sample_space :: mm where
  "sample_space = \<lparr>mm_mem = sample_chain, mm_pool = sample_pool 0 32 0 0,
     mm_as = \<lparr>as_pt = sample_pt, as_ty = AS_VM, as_asid = 1, as_lock = SPINLOCK_INITVAL\<rparr>, mm_tlb = []\<rparr>"

lemma sample_entry:
  assumes "i < 512"
  shows "sample_chain (0x1000 + 8 * i) = (if i = 0 then 0x2003 else 0)"
    and "sample_chain (0x2000 + 8 * i) = (if i = 1 then 0x3003 else 0)"
    and "sample_chain (0x3000 + 8 * i) = (if i = 0 then 0x4003 else 0)"
proof -
  have al: "(0x1000 :: u64) AND mask 12 = 0" "(0x2000 :: u64) AND mask 12 = 0" "(0x3000 :: u64) AND mask 12 = 0"
    by (simp_all add: mask_eq_exp_minus_1)
  have "(0x1000 + 8 * i = 0x1000 + 8 * 0) = (i = 0)" "(0x2000 + 8 * i = 0x2000 + 8 * 1) = (i = 1)"
    "(0x3000 + 8 * i = 0x3000 + 8 * 0) = (i = 0)" "0x1000 + 8 * i \<noteq> 0x2000 + 8 * 1" "0x1000 + 8 * i \<noteq> 0x3000 + 8 * 0"
    "0x2000 + 8 * i \<noteq> 0x1000 + 8 * 0" "0x2000 + 8 * i \<noteq> 0x3000 + 8 * 0"
    "0x3000 + 8 * i \<noteq> 0x1000 + 8 * 0" "0x3000 + 8 * i \<noteq> 0x2000 + 8 * 1"
    using entry_address_unique[OF al(1) al(1) assms, of 0] entry_address_unique[OF al(2) al(2) assms, of 1]
      entry_address_unique[OF al(3) al(3) assms, of 0] entry_address_unique[OF al(1) al(2) assms, of 1]
      entry_address_unique[OF al(1) al(3) assms, of 0] entry_address_unique[OF al(2) al(1) assms, of 0]
      entry_address_unique[OF al(2) al(3) assms, of 0] entry_address_unique[OF al(3) al(1) assms, of 0]
      entry_address_unique[OF al(3) al(2) assms, of 1] by auto
  then show "sample_chain (0x1000 + 8 * i) = (if i = 0 then 0x2003 else 0)"
    "sample_chain (0x2000 + 8 * i) = (if i = 1 then 0x3003 else 0)"
    "sample_chain (0x3000 + 8 * i) = (if i = 0 then 0x4003 else 0)"
    by (simp_all add: sample_chain_def)
qed

definition on_chain :: "vaddr_t \<Rightarrow> nat \<Rightarrow> bool" where
  "on_chain va l \<longleftrightarrow> (\<forall>k < l. idx sample_pt k va = [0, 1, 0] ! k)"

lemma sample_path:
  assumes "l < 4"
  shows "reach sample_chain sample_pt va l = on_chain va l \<and>
    (on_chain va l \<longrightarrow> table_at sample_chain sample_pt va l = [0x1000, 0x2000, 0x3000, 0x4000] ! l)"
  using assms
proof (induction l)
  case 0
  then show ?case by (simp add: reach_def on_chain_def sample_pt_def)
next
  case (Suc l)
  have d: "pt_dscr sample_pt = armv8_pt_s2_dscr" by (simp add: sample_pt_def)
  have lvl: "l = 0 \<or> l = 1 \<or> l = 2" using Suc.prems by linarith
  have addr: "pte_addr 0x2003 = 0x2000" "pte_addr 0x3003 = 0x3000" "pte_addr 0x4003 = 0x4000"
    by (simp_all add: pte_addr_def PTE_ADDR_MSK_def ADDR_MSK_def lsl_def)
  have table: "pte_table sample_pt 0x2003 k" "pte_table sample_pt 0x3003 k" "pte_table sample_pt 0x4003 k"
    "\<not> pte_table sample_pt 0 k" if "k < 3" for k
    using that by (simp_all add: pte_table_def sample_pt_def armv8_pt_s2_dscr_def)
  have "idx sample_pt l va < 512" using idx_less[OF d, of l va] Suc.prems by simp
  note entry = sample_entry[OF this]
  have chain: "on_chain va (Suc l) \<longleftrightarrow> on_chain va l \<and> idx sample_pt l va = [0, 1, 0] ! l"
    by (auto simp: on_chain_def less_Suc_eq)
  show ?case
  proof (cases "on_chain va l")
    case True
    then show ?thesis using Suc lvl entry table[of l] addr by (auto simp: reach_Suc chain slot_def split: if_splits)
  qed (use Suc in \<open>simp add: reach_Suc chain\<close>)
qed

lemma sample_tree: "pt_tree sample_chain sample_pt"
proof -
  have inj: "l = l'" if "l < 4" "l' < 4" "[0x1000, 0x2000, 0x3000, 0x4000 :: u64] ! l = [0x1000, 0x2000, 0x3000, 0x4000] ! l'" for l l'
    using that nth_eq_iff_index_eq[of "[0x1000, 0x2000, 0x3000, 0x4000 :: u64]" l l'] by simp
  have "l = l' \<and> (\<forall>k < l. idx sample_pt k va = idx sample_pt k va')"
    if "l < 4" "l' < 4" "reach sample_chain sample_pt va l" "reach sample_chain sample_pt va' l'"
      "table_at sample_chain sample_pt va l = table_at sample_chain sample_pt va' l'" for va va' l l'
    using that inj[OF that(1,2)] sample_path[OF that(1), of va] sample_path[OF that(2), of va'] by (auto simp: on_chain_def)
  then show ?thesis
    unfolding pt_tree_def by (auto simp: sample_pt_def mask_eq_exp_minus_1)
qed

lemma sample_region:
  assumes "in_region 0x40000000 2 a"
  shows "reach sample_chain sample_pt a 3"
proof -
  have d: "pt_dscr sample_pt = armv8_pt_s2_dscr" by (simp add: sample_pt_def)
  have "drop_bit 13 a = drop_bit 13 0x40000000"
    using assms by (simp add: word_unat_eq_iff unat_drop_bit_eq in_region_def) (simp add: drop_bit_eq_div unat_div div_nat_eqI)
  then have "bit (drop_bit 13 a) j = bit (drop_bit 13 0x40000000 :: u64) j" for j by (rule arg_cong)
  then have b: "bit a (13 + j) = bit (0x40000000 :: u64) (13 + j)" for j by (simp only: bit_drop_bit_eq comp_apply)
  have high: "bit a j = bit (0x40000000 :: u64) j" if "13 \<le> j" for j using b[of "j - 13"] that by simp
  have "idx sample_pt k a = idx sample_pt k 0x40000000" if "k < 3" for k
    using that by (intro bit_eqI) (simp add: idx_bits[OF d] high)
  moreover have "on_chain 0x40000000 3"
    by (auto simp: on_chain_def sample_pt_def pt_getpteindex_by_va_def pt_nentries_def armv8_pt_s2_dscr_def
        less_Suc_eq numeral_3_eq_3 lsl_def lsr_def drop_bit_eq_div)
  ultimately show ?thesis using sample_path[of 3 a] by (simp add: on_chain_def)
qed

theorem mem_map_refines_witness:
  "\<exists>s'. mem_map 0x40000000 (Some (mem_ppages_get 0x80000000 2)) 2 PTE_VM_FLAGS sample_space = Some (Inr (True, s')) \<and>
     stage2 s' 0x40001234 = Some 0x80001234"
proof -
  have "\<exists>s'. mem_map 0x40000000 (Some (mem_ppages_get 0x80000000 2)) (word_of_nat 2) PTE_VM_FLAGS sample_space =
      Some (Inr (True, s')) \<and>
    (\<forall>a < 2 ^ 48. stage2 s' a = (if in_region 0x40000000 2 a then Some (0x80000000 + (a - 0x40000000)) else stage2 sample_space a)) \<and>
    pt_tree (mm_mem s') (pt_of s') \<and> mm_pool s' = mm_pool sample_space \<and> mm_tlb s' = mm_tlb sample_space"
    by (rule mem_map_refines)
      (use sample_tree sample_region in \<open>auto simp: sample_space_def SPINLOCK_INITVAL_def mask_eq_exp_minus_1\<close>)
  then show ?thesis by (auto simp: in_region_def)
qed

end
