(* ===== verification/Config.thy ===== *)
theory Config
  imports Vgic_Regs
begin

unbundle bit_operations_syntax

text \<open>
  \<open>config.c\<close> and the platform tables: the records of \<open>config.h\<close>, \<open>vm.h\<close> and \<open>rq.h\<close> and the
  configuration of the four guests. Where an image is and how large it is comes from the
  linker, so the table is a function of these values.
\<close>

record vm_dev_region =
  dev_id :: u64
  dev_pa :: paddr_t
  dev_va :: vaddr_t
  dev_size :: u64
  dev_interrupt_num :: nat
  dev_interrupts :: "nat list"

record rq_config_vm =
  rqc_vbase :: vaddr_t
  rqc_size :: u64

record rq_vm =
  rq_vbase :: vaddr_t
  rq_pbase :: paddr_t
  rq_size :: u64

record dtb_config =
  dtb_base_addr :: vaddr_t
  dtb_load_addr :: paddr_t
  dtb_size :: u64

record vm_config =
  vc_base_addr :: vaddr_t
  vc_load_addr :: paddr_t
  vc_size :: u64
  vc_entry :: vaddr_t
  vc_dmem_size :: u64
  vc_nr_cpus :: nat
  vc_devs :: "vm_dev_region list"
  vc_rq :: rq_config_vm
  vc_gic :: vgic_dscrp

record hyp_config_table =
  cfg_nr_cpus :: nat
  cfg_vms :: "vm_config list"
  cfg_dtb :: dtb_config

text \<open>A member that the initialiser leaves out is zero.\<close>

definition guest_devs :: "nat \<Rightarrow> vm_dev_region list" where
  "guest_devs irq =
     [\<lparr>dev_id = 1, dev_pa = 0x1C0B0000, dev_va = 0x1c090000, dev_size = 0x10000,
       dev_interrupt_num = 1, dev_interrupts = [irq]\<rparr>,
      \<lparr>dev_id = 2, dev_pa = 0, dev_va = 0, dev_size = 0, dev_interrupt_num = 1, dev_interrupts = [27]\<rparr>]"

definition guest_config :: "paddr_t \<Rightarrow> u64 \<Rightarrow> nat \<Rightarrow> vm_config" where
  "guest_config load sz irq =
     \<lparr>vc_base_addr = 0x40100000, vc_load_addr = load, vc_size = sz, vc_entry = 0x0000000040100cd0,
      vc_dmem_size = 0x8000000, vc_nr_cpus = 4, vc_devs = guest_devs irq,
      vc_rq = \<lparr>rqc_vbase = 0x10000000, rqc_size = 1024 * 1024\<rparr>,
      vc_gic = \<lparr>dsc_gicd_addr = 0x08000000, dsc_gicc_addr = 0x08010000, dsc_gicr_addr = 0x080A0000,
        dsc_interrupt_num = 0\<rparr>\<rparr>"

definition config :: "paddr_t \<times> u64 \<Rightarrow> paddr_t \<times> u64 \<Rightarrow> paddr_t \<times> u64 \<Rightarrow> hyp_config_table" where
  "config vm1 vm2 dtb1 =
     \<lparr>cfg_nr_cpus = 2,
      cfg_vms = [guest_config (fst vm1) (snd vm1) 39, guest_config (fst vm2) (snd vm2) 40,
        guest_config (fst vm2) (snd vm2) 41, guest_config (fst vm2) (snd vm2) 42],
      cfg_dtb = \<lparr>dtb_base_addr = 0x40000000, dtb_load_addr = fst dtb1, dtb_size = snd dtb1\<rparr>\<rparr>"

subsection \<open>The platform\<close>

record gic_dscrp =
  plat_gicc_addr :: paddr_t
  plat_gich_addr :: paddr_t
  plat_gicv_addr :: paddr_t
  plat_gicd_addr :: paddr_t
  plat_gicr_addr :: paddr_t
  maintenance_id :: nat

record platform =
  cpu_num :: nat
  plat_gic :: gic_dscrp
  smmu_base :: paddr_t
  smmu_interrupt_id :: nat

text \<open>The initialiser does not set \<open>cpu_num\<close>.\<close>

definition platform_table :: platform where
  "platform_table =
     \<lparr>cpu_num = 0,
      plat_gic = \<lparr>plat_gicc_addr = 0x08010000, plat_gich_addr = 0x08030000, plat_gicv_addr = 0x08040000,
        plat_gicd_addr = 0x08000000, plat_gicr_addr = 0x080A0000, maintenance_id = 25\<rparr>,
      smmu_base = 0x9050000, smmu_interrupt_id = 187\<rparr>"

definition platform_arch_cpuid_to_mpidr :: "platform \<Rightarrow> nat \<Rightarrow> u64" where
  "platform_arch_cpuid_to_mpidr plat cpuid =
     (if cpuid > cpu_num plat then NOT (NOT MPIDR_RES1 AND MPIDR_RES0_MSK)
      else
        let mpidr = word_of_nat cpuid OR MPIDR_RES1
        in if cpu_num plat = 1 then mpidr OR MPIDR_U_BIT else mpidr)"

definition cpu_id_to_mpidr :: "nat \<Rightarrow> u64" where
  "cpu_id_to_mpidr cpuid = platform_arch_cpuid_to_mpidr platform_table cpuid"

end
