(* ===== verification/Strings.thy ===== *)
theory Strings
  imports Locks Bits
begin

text \<open>
  \<open>lib/string.c\<close> and \<open>lib/printk.c\<close>: memory as a function from addresses to bytes, the copy
  and string functions on it, and the formatting of messages. Sizes are natural numbers; the
  only place where a size wraps is \<open>count - 1\<close> at zero, which is written out.
\<close>

unbundle bit_operations_syntax

type_synonym bytes = "u64 \<Rightarrow> u8"

subsection \<open>Copying\<close>

text \<open>Eight bytes are read before any is written.\<close>

definition copy_word :: "u64 \<Rightarrow> u64 \<Rightarrow> bytes \<Rightarrow> bytes" where
  "copy_word dst src m = (\<lambda>a. if unat (a - dst) < 8 then m (src + (a - dst)) else m a)"

function memcpy_words :: "nat \<Rightarrow> nat \<Rightarrow> u64 \<Rightarrow> u64 \<Rightarrow> bytes \<Rightarrow> nat \<times> u64 \<times> u64 \<times> bytes" where
  "memcpy_words count i dst_tmp src_tmp m =
     (if i < count then
        if i + (8 - 1) > count - 1 then (i, dst_tmp, src_tmp, m)
        else memcpy_words count (i + 8) (dst_tmp + 8) (src_tmp + 8) (copy_word dst_tmp src_tmp m)
      else (i, dst_tmp, src_tmp, m))"
  by pat_completeness auto
termination
  by (relation "measure (\<lambda>(count, i, _). count - i)") auto

fun memcpy_bytes :: "nat \<Rightarrow> u64 \<Rightarrow> u64 \<Rightarrow> bytes \<Rightarrow> bytes" where
  "memcpy_bytes 0 dst src m = m"
| "memcpy_bytes (Suc n) dst src m = memcpy_bytes n (dst + 1) (src + 1) (m(dst := m src))"

definition memcpy :: "u64 \<Rightarrow> u64 \<Rightarrow> nat \<Rightarrow> bytes \<Rightarrow> bytes" where
  "memcpy dst src count m =
     (if src AND 7 = 0 \<and> dst AND 7 = 0 then
        let (i, dst_tmp, src_tmp, m) = memcpy_words count 0 dst src m
        in if i \<le> (if count = 0 then 2 ^ 64 - 1 else count - 1)
           then memcpy_bytes (count - i) dst_tmp src_tmp m else m
      else memcpy_bytes count dst src m)"

fun memset :: "u64 \<Rightarrow> u8 \<Rightarrow> nat \<Rightarrow> bytes \<Rightarrow> bytes" where
  "memset d c 0 m = m"
| "memset d c (Suc count) m = memset (d + 1) c count (m(d := c))"

subsection \<open>Strings\<close>

text \<open>The searches for a terminator; \<open>None\<close> is a search that never finds one.\<close>

partial_function (option) strlen_from :: "bytes \<Rightarrow> u64 \<Rightarrow> u64 option" where
  "strlen_from m sc = (if m sc \<noteq> 0 then strlen_from m (sc + 1) else Some sc)"

definition strlen :: "bytes \<Rightarrow> u64 \<Rightarrow> u64 option" where
  "strlen m s = map_option (\<lambda>sc. sc - s) (strlen_from m s)"

fun strnlen_from :: "bytes \<Rightarrow> nat \<Rightarrow> u64 \<Rightarrow> u64" where
  "strnlen_from m 0 str = str"
| "strnlen_from m (Suc n) str = (if m str \<noteq> 0 then strnlen_from m n (str + 1) else str)"

definition strnlen :: "bytes \<Rightarrow> u64 \<Rightarrow> nat \<Rightarrow> u64" where
  "strnlen m s n = strnlen_from m n s - s"

partial_function (option) strcpy_loop :: "u64 \<Rightarrow> u64 \<Rightarrow> bytes \<Rightarrow> bytes option" where
  "strcpy_loop dest src m =
     (let m' = m(dest := m src)
      in if m' dest \<noteq> 0 then strcpy_loop (dest + 1) (src + 1) m' else Some m')"

definition strcpy :: "u64 \<Rightarrow> u64 \<Rightarrow> bytes \<Rightarrow> (u64 \<times> bytes) option" where
  "strcpy dest src m = map_option (Pair dest) (strcpy_loop dest src m)"

definition strcat :: "u64 \<Rightarrow> u64 \<Rightarrow> bytes \<Rightarrow> (u64 \<times> bytes) option" where
  "strcat dest src m =
     Option.bind (strlen_from m dest) (\<lambda>e. map_option (Pair dest) (strcpy_loop e src m))"

partial_function (option) strcmp_loop :: "bytes \<Rightarrow> u64 \<Rightarrow> u64 \<Rightarrow> (u64 \<times> u64) option" where
  "strcmp_loop m tmp0 tmp1 =
     (if m tmp0 = m tmp1 \<and> (m tmp0 \<noteq> 0 \<and> m tmp1 \<noteq> 0) then strcmp_loop m (tmp0 + 1) (tmp1 + 1)
      else Some (tmp0, tmp1))"

definition strcmp :: "bytes \<Rightarrow> u64 \<Rightarrow> u64 \<Rightarrow> u32 option" where
  "strcmp m str0 str1 = map_option (\<lambda>(tmp0, tmp1). ucast (tmp0 - tmp1)) (strcmp_loop m str0 str1)"

subsection \<open>Formatting\<close>

abbreviation PRINT_TEXT_LEN :: nat where "PRINT_TEXT_LEN \<equiv> 0x100"

definition hex_char :: "u8 \<Rightarrow> u8" where
  "hex_char byte = (if byte \<le> 9 then byte + 0x30 else byte + (0x61 - 0xa))"

text \<open>The digits \<open>i\<close> to \<open>length - 1\<close> of the case \<open>x\<close>.\<close>

fun hex_loop :: "bool \<Rightarrow> u64 \<Rightarrow> nat \<Rightarrow> nat list \<Rightarrow> bool \<Rightarrow> u8 list" where
  "hex_loop zero_padding number len [] keep_zeros = []"
| "hex_loop zero_padding number len (i # is) keep_zeros =
     (let byte = ucast (lsr number (len * 4 - (i + 1) * 4)) AND 0xF;
          keep_zeros = (keep_zeros \<or> byte \<noteq> 0 \<or> i = len - 1)
      in (if keep_zeros \<or> zero_padding then [hex_char byte] else []) @
         hex_loop zero_padding number len is keep_zeros)"

text \<open>The repeated subtraction: the remainder and the quotient.\<close>

function sub_loop :: "u64 \<Rightarrow> u64 \<Rightarrow> u64 \<Rightarrow> u64 \<times> u64" where
  "sub_loop number divisor q =
     (if number \<ge> divisor \<and> divisor \<noteq> 0 then sub_loop (number - divisor) divisor (q + 1) else (number, q))"
  by pat_completeness auto
termination
proof (relation "measure (\<lambda>(number, _, _). unat number)")
  fix number divisor q :: u64
  assume "number \<ge> divisor \<and> divisor \<noteq> 0"
  moreover from this have "0 < unat divisor" by (simp add: unat_gt_0)
  ultimately show "((number - divisor, divisor, q + 1), number, divisor, q) \<in> measure (\<lambda>(number, _, _). unat number)"
    by (simp add: unat_sub word_le_nat_alt)
qed simp

text \<open>
  The loop over the nine higher decimal places from place \<open>i\<close> on, with the divisor of that
  place, and the last digit. The divisor is positive, so the subtraction ends.
\<close>

fun dec_loop :: "bool \<Rightarrow> nat list \<Rightarrow> u64 \<Rightarrow> u64 \<Rightarrow> bool \<Rightarrow> u8 list" where
  "dec_loop zero_padding [] number divisor keep_zeros = [ucast (number + 0x30)]"
| "dec_loop zero_padding (i # is) number divisor keep_zeros =
     (let (number, q) = sub_loop number divisor 0;
          keep_zeros = (keep_zeros \<or> q \<noteq> 0);
          new_div_val = fold (\<lambda>_ v. v * 10) [i..<9 - 1] 1
      in (if keep_zeros \<or> zero_padding then [ucast (q + 0x30)] else []) @
         dec_loop zero_padding is number new_div_val keep_zeros)"

definition print_dec :: "bool \<Rightarrow> u64 \<Rightarrow> u8 list" where
  "print_dec zero_padding number = dec_loop zero_padding [0..<9] number 1000000000 False"

definition print_signed :: "bool \<Rightarrow> u64 \<Rightarrow> u8 list" where
  "print_signed zero_padding number =
     (if sint number < 0 then 0x2d # print_dec zero_padding (- number) else print_dec zero_padding number)"

text \<open>The case \<open>s\<close>: the text ends at its terminator or when \<open>len\<close> reaches the limit.\<close>

fun print_str :: "bytes \<Rightarrow> u64 \<Rightarrow> nat \<Rightarrow> u8 list" where
  "print_str m p 0 = []"
| "print_str m p (Suc n) = (if m p \<noteq> 0 then m p # print_str m (p + 1) n else [])"

text \<open>
  \<open>va_arg\<close> takes the next argument as a 64-bit slot, an \<open>unsigned\<close> is its lower half; reading
  more arguments than there are is a wild access.
\<close>

definition va_unsigned :: "bool \<Rightarrow> u64 \<Rightarrow> u64" where
  "va_unsigned is_long a = (if is_long then a else ucast (ucast a :: u32))"

definition va_signed :: "bool \<Rightarrow> u64 \<Rightarrow> u64" where
  "va_signed is_long a = (if is_long then a else scast (ucast a :: u32))"

text \<open>One conversion: the text it appends, the arguments that remain and the new \<open>len\<close>.\<close>

definition conversion :: "bytes \<Rightarrow> u8 \<Rightarrow> bool \<Rightarrow> bool \<Rightarrow> u64 list \<Rightarrow> nat \<Rightarrow> (u8 list \<times> u64 list \<times> nat) res" where
  "conversion m c zero_padding is_long args len =
     (if c \<in> {0x78, 0x75, 0x69, 0x64, 0x73, 0x63} \<and> args = [] then Inl Bad_Access
      else if c = 0x78 then
        let n = (if is_long then 16 else 8)
        in Inr (hex_loop zero_padding (va_unsigned is_long (hd args)) n [0..<n] False, tl args, len)
      else if c = 0x75 then Inr (print_dec zero_padding (va_unsigned is_long (hd args)), tl args, len)
      else if c = 0x69 \<or> c = 0x64 then
        Inr (print_signed zero_padding (va_signed is_long (hd args)), tl args, len)
      else if c = 0x73 then
        let out = print_str m (hd args) (PRINT_TEXT_LEN - len)
        in Inr (out, tl args, len + length out)
      else if c = 0x63 then Inr ([ucast (hd args)], tl args, len)
      else if c = 0x25 then Inr ([c], args, len)
      else if c = 0x09 then Inr ([0x25, c], args, len)
      else if c = 0x0A then Inr ([0x25, 0x0D, 0x0A], args, len)
      else Inr ([], args, len))"

definition line_end :: "u8 \<Rightarrow> u8 list" where
  "line_end c = (if c = 0x0A then [0x0D, 0x0A] else if c = 0x09 then [c] else [])"

text \<open>
  The format is the list of its characters; its terminator is the end of the list. A format
  that ends inside a conversion makes the loop step over the terminator.
\<close>

function format_loop :: "bytes \<Rightarrow> u8 list \<Rightarrow> u64 list \<Rightarrow> nat \<Rightarrow> u8 list res" where
  "format_loop m [] args len = Inr []"
| "format_loop m (c # fmt) args len =
     (if c \<noteq> 0x25 then
        bindr (format_loop m fmt args len) (\<lambda>out.
          Inr ((if c \<noteq> 0x0A \<and> c \<noteq> 0x09 then [c] else line_end c) @ out))
      else
        let (zero_padding, fmt1) = (if fmt \<noteq> [] \<and> hd fmt = 0x30 then (True, tl fmt) else (False, fmt));
            (is_long, fmt2) = (if fmt1 \<noteq> [] \<and> hd fmt1 = 0x6C then (True, tl fmt1) else (False, fmt1))
        in case fmt2 of
             [] \<Rightarrow> Inl Bad_Access
           | c # fmt \<Rightarrow>
               bindr (conversion m c zero_padding is_long args len) (\<lambda>(out, args, len).
               bindr (format_loop m fmt args len) (\<lambda>rest. Inr (out @ line_end c @ rest))))"
  by pat_completeness auto
termination
  by (relation "measure (\<lambda>(_, fmt, _, _). length fmt)") (auto split: if_splits dest!: arg_cong[of _ _ length])

text \<open>The result of \<open>vsprintk\<close> is the length of what is left of the format, which is empty.\<close>

definition vsprintk :: "bytes \<Rightarrow> u8 list \<Rightarrow> u64 list \<Rightarrow> (nat \<times> u8 list) res" where
  "vsprintk m fmt args =
     bindr (format_loop m fmt args (min (length fmt) PRINT_TEXT_LEN)) (\<lambda>out. Inr (0, out @ [0]))"

text \<open>
  \<open>uart_print_string\<close> writes the first character before it looks for the terminator, so the
  empty string makes it read on behind the text. The text goes through a buffer of
  \<open>PRINT_TEXT_LEN\<close> bytes on the stack.
\<close>

definition uart_print_string :: "u8 list \<Rightarrow> u8 list res" where
  "uart_print_string s =
     (if s \<noteq> [] \<and> 0 \<in> set (tl s) then Inr (hd s # takeWhile (\<lambda>c. c \<noteq> 0) (tl s)) else Inl Bad_Access)"

definition console_write :: "u8 list \<Rightarrow> spinlock \<Rightarrow> (u8 list \<times> spinlock) res" where
  "console_write str lock =
     bindr (spin_lock lock) (\<lambda>l.
     bindr (uart_print_string str) (\<lambda>out. Inr (out, spin_unlock l)))"

definition printk :: "bytes \<Rightarrow> u8 list \<Rightarrow> u64 list \<Rightarrow> spinlock \<Rightarrow> (nat \<times> u8 list \<times> spinlock) res" where
  "printk m fmt args lock =
     bindr (vsprintk m fmt args) (\<lambda>(i, buf).
       if length buf > PRINT_TEXT_LEN then Inl Bad_Access
       else bindr (console_write buf lock) (\<lambda>r. Inr (i, r)))"

declare memcpy_words.simps [simp del] sub_loop.simps [simp del]

subsection \<open>Copying is copying\<close>

definition copied :: "u64 \<Rightarrow> u64 \<Rightarrow> nat \<Rightarrow> bytes \<Rightarrow> bytes" where
  "copied dst src n m = (\<lambda>a. if unat (a - dst) < n then m (src + (a - dst)) else m a)"

definition apart :: "u64 \<Rightarrow> u64 \<Rightarrow> nat \<Rightarrow> bool" where
  "apart dst src n \<longleftrightarrow> (\<forall>j < n. \<forall>k < n. dst + word_of_nat j \<noteq> src + word_of_nat k)"

lemma copied_0 [simp]: "copied dst src 0 m = m"
  by (simp add: copied_def)

lemma apart_offset:
  assumes "apart dst src n" "unat d < n" "k \<le> n"
  shows "k \<le> unat (src + d - dst)"
proof (rule ccontr)
  let ?j = "unat (src + d - dst)"
  assume "\<not> k \<le> ?j"
  then have "?j < n" using assms(3) by simp
  from assms(1)[unfolded apart_def, rule_format, OF this assms(2)] show False by simp
qed

lemma unat_sub_nat:
  assumes "k < 2 ^ 64"
  shows "unat ((d :: u64) - word_of_nat k) = (if k \<le> unat d then unat d - k else 2 ^ 64 + unat d - k)"
proof -
  have u: "unat (word_of_nat k :: u64) = k" using assms by (rule unat_word_of_nat64)
  have c: "unat d + 2 ^ LENGTH(64) = 2 ^ 64 + unat d" by simp
  show ?thesis unfolding unat_sub_if'[of d "word_of_nat k"] u c by (rule refl)
qed

lemma apartI:
  assumes "unat src + n \<le> unat dst \<or> unat dst + n \<le> unat src" "unat dst + n \<le> 2 ^ 64" "unat src + n \<le> 2 ^ 64"
  shows "apart dst src n"
  unfolding apart_def
proof (intro allI impI notI)
  fix j k assume jk: "j < n" "k < n" and eq: "dst + word_of_nat j = src + word_of_nat k"
  have n: "n \<le> 2 ^ 64" using assms(2) by simp
  have "unat (word_of_nat j :: u64) = j" "unat (word_of_nat k :: u64) = k"
    using jk n by (auto intro!: unat_word_of_nat64)
  then have "unat (dst + word_of_nat j) = unat dst + j" "unat (src + word_of_nat k) = unat src + k"
    using assms(2,3) jk by (auto simp: unat_word_ariths)
  then show False using eq assms(1) jk by simp
qed

lemma copied_compose:
  assumes "k + n < 2 ^ 64" "apart dst src (k + n)"
  shows "copied (dst + word_of_nat k) (src + word_of_nat k) n (copied dst src k m) = copied dst src (k + n) m"
proof
  fix a
  let ?d = "a - dst"
  have sub: "a - (dst + word_of_nat k) = ?d - word_of_nat k" by simp
  have off: "src + word_of_nat k + (?d - word_of_nat k) = src + ?d" by simp
  have u: "unat (?d - word_of_nat k) = (if k \<le> unat ?d then unat ?d - k else 2 ^ 64 + unat ?d - k)"
    by (rule unat_sub_nat) (use assms(1) in simp)
  have lt: "unat ?d < 2 ^ 64" using unsigned_less[of ?d] by simp
  show "copied (dst + word_of_nat k) (src + word_of_nat k) n (copied dst src k m) a = copied dst src (k + n) m a"
  proof (cases "k \<le> unat ?d \<and> unat ?d < k + n")
    case True
    then have "k \<le> unat (src + ?d - dst)" using apart_offset[OF assms(2), of ?d k] by simp
    with True show ?thesis unfolding copied_def sub off u by auto
  next
    case False
    then show ?thesis unfolding copied_def sub u using assms(1) by auto
  qed
qed

lemma copied_1: "copied dst src 1 m = m(dst := m src)"
proof
  fix a
  have "unat (a - dst) < 1 \<longleftrightarrow> a = dst" by (simp add: unat_eq_0)
  then show "copied dst src 1 m a = (m(dst := m src)) a" by (simp add: copied_def)
qed

lemma apart_shift: "apart dst src (k + n) \<Longrightarrow> apart (dst + word_of_nat k) (src + word_of_nat k) n"
  unfolding apart_def by (metis (no_types, lifting) add.assoc add_less_cancel_left of_nat_add)

lemma memcpy_bytes_copied:
  "n < 2 ^ 64 \<Longrightarrow> apart dst src n \<Longrightarrow> memcpy_bytes n dst src m = copied dst src n m"
proof (induction n arbitrary: dst src m)
  case (Suc n)
  have "apart (dst + 1) (src + 1) n" using apart_shift[of dst src 1 n] Suc.prems(2) by simp
  then have "memcpy_bytes (Suc n) dst src m = copied (dst + 1) (src + 1) n (copied dst src 1 m)"
    using Suc.IH[of "dst + 1" "src + 1"] Suc.prems(1) copied_1[of dst src m] by simp
  also have "\<dots> = copied dst src (Suc n) m"
    using copied_compose[of 1 n dst src m] Suc.prems by simp
  finally show ?case .
qed simp

lemma copy_word_copied: "copy_word dst src m = copied dst src 8 m"
  by (simp add: copy_word_def copied_def)

lemma memcpy_words_copied:
  assumes "i \<le> count" "count < 2 ^ 64" "apart dst src count"
  shows "\<exists>j \<le> count. memcpy_words count i (dst + word_of_nat i) (src + word_of_nat i) (copied dst src i m) =
    (j, dst + word_of_nat j, src + word_of_nat j, copied dst src j m)"
  using assms
proof (induction "count - i" arbitrary: i rule: less_induct)
  case less
  show ?case
  proof (cases "i < count \<and> \<not> i + (8 - 1) > count - 1")
    case True
    then have le: "i + 8 \<le> count" by linarith
    have "apart dst src (i + 8)" using less.prems(3) le by (simp add: apart_def)
    then have "copy_word (dst + word_of_nat i) (src + word_of_nat i) (copied dst src i m) = copied dst src (i + 8) m"
      unfolding copy_word_copied using copied_compose[of i 8 dst src m] le less.prems(2) by simp
    moreover have "count - (i + 8) < count - i" using True by linarith
    ultimately show ?thesis
      using less.hyps[of "i + 8"] le less.prems(2,3) True
      by (subst memcpy_words.simps) (simp add: add.assoc)
  next
    case False
    then show ?thesis using less.prems(1)
      by (subst memcpy_words.simps) auto
  qed
qed

text \<open>C32: for source and destination areas without a common byte, \<open>memcpy\<close> copies exactly the
  bytes of the source, whether it goes by words (both addresses aligned) or by bytes, for
  every count (zero and counts that are no multiple of the word size included).\<close>

theorem memcpy_copies:
  assumes "count < 2 ^ 64" "apart dst src count"
  shows "memcpy dst src count m = copied dst src count m"
proof -
  from memcpy_words_copied[of 0 count dst src m] assms obtain j where
    j: "j \<le> count" "memcpy_words count 0 dst src m = (j, dst + word_of_nat j, src + word_of_nat j, copied dst src j m)"
    by auto
  have "apart (dst + word_of_nat j) (src + word_of_nat j) (count - j)"
    using apart_shift[of dst src j "count - j"] assms(2) j(1) by simp
  then have "memcpy_bytes (count - j) (dst + word_of_nat j) (src + word_of_nat j) (copied dst src j m) =
      copied dst src count m"
    using copied_compose[of j "count - j" dst src m] assms j(1) by (simp add: memcpy_bytes_copied)
  moreover have "j = count" if "\<not> j \<le> (if count = 0 then 2 ^ 64 - 1 else count - 1)"
    using that j(1) assms(1) by (auto split: if_splits)
  ultimately show ?thesis
    using j memcpy_bytes_copied[OF assms] by (auto simp: memcpy_def)
qed

theorem memcpy_copies_witness: "memcpy 0x2000 0x1000 11 (\<lambda>a. ucast a) 0x200A = 0x0A"
proof -
  have "apart 0x2000 0x1000 11" by (rule apartI) simp_all
  then show ?thesis by (subst memcpy_copies) (simp_all add: copied_def)
qed

subsection \<open>Decimal numbers\<close>

definition digit_val :: "u8 \<Rightarrow> nat" where "digit_val c = unat (c - 0x30)"

definition parse_dec :: "nat \<Rightarrow> u8 list \<Rightarrow> nat" where
  "parse_dec acc cs = foldl (\<lambda>v c. v * 10 + digit_val c) acc cs"

definition is_dec :: "u8 list \<Rightarrow> bool" where
  "is_dec cs \<longleftrightarrow> cs \<noteq> [] \<and> (\<forall>c \<in> set cs. 0x30 \<le> c \<and> c \<le> 0x39) \<and> (hd cs \<noteq> 0x30 \<or> length cs = 1)"

lemma parse_dec_simps [simp]:
  "parse_dec acc [] = acc" "parse_dec acc (c # cs) = parse_dec (acc * 10 + digit_val c) cs"
  by (simp_all add: parse_dec_def)

lemma sub_loop_spec:
  "d \<noteq> 0 \<Longrightarrow> sub_loop n d q = (n mod d, q + n div d)"
proof (induction n d q rule: sub_loop.induct)
  case (1 n d q)
  have d: "0 < unat d" using 1(2) by (simp add: unat_gt_0)
  show ?case
  proof (cases "d \<le> n")
    case True
    have le: "unat d \<le> unat n" using True by (simp add: word_le_nat_alt)
    have sub: "unat (n - d) = unat n - unat d" using True by (simp add: unat_sub word_le_nat_alt)
    have "unat ((n - d) mod d) = unat (n mod d)"
      by (simp add: unat_mod sub le_mod_geq[OF le])
    then have md: "(n - d) mod d = n mod d" by (simp add: word_unat_eq_iff)
    have "unat ((n - d) div d) + 1 = unat (n div d)"
      by (simp add: unat_div sub le_div_geq[OF d le])
    then have "word_of_nat (unat ((n - d) div d) + 1) = (word_of_nat (unat (n div d)) :: u64)" by (rule arg_cong)
    then have dv: "(n - d) div d + 1 = n div d" by (simp add: add.commute)
    show ?thesis
      using 1 True md dv by (subst sub_loop.simps) (simp add: add.assoc add.commute[of 1])
  next
    case False
    then have lt: "unat n < unat d" by (simp add: word_le_nat_alt)
    then have "n mod d = n" "n div d = 0"
      by (simp_all add: word_unat_eq_iff unat_mod unat_div)
    then show ?thesis using False by (subst sub_loop.simps) simp
  qed
qed

lemma fold_times_10: "i \<le> k \<Longrightarrow> fold (\<lambda>_ v. v * 10) [i..<k] (1 :: u64) = 10 ^ (k - i)"
proof (induction k)
  case (Suc k)
  then show ?case by (cases "i \<le> k") (auto simp: Suc_diff_le le_Suc_eq)
qed simp

lemma unat_10_power: "k \<le> 9 \<Longrightarrow> unat (10 ^ k :: u64) = 10 ^ k"
proof -
  assume "k \<le> 9"
  then have "(10 :: nat) ^ k \<le> 10 ^ 9" by (intro power_increasing) auto
  then have "unat (word_of_nat (10 ^ k) :: u64) = 10 ^ k" by (intro unat_word_of_nat64) simp
  then show ?thesis by simp
qed

lemma dec_char:
  assumes "unat (q :: u64) < 10"
  shows "digit_val (ucast (q + 0x30)) = unat q" "0x30 \<le> (ucast (q + 0x30) :: u8)" "(ucast (q + 0x30) :: u8) \<le> 0x39"
    "(ucast (q + 0x30) :: u8) = 0x30 \<longleftrightarrow> q = 0"
proof -
  have u: "unat (q + 0x30) = unat q + 0x30" using assms by (simp add: unat_word_ariths)
  have "unat (ucast (q + 0x30) :: u8) = unat q + 0x30"
    using assms by (simp add: unsigned_ucast_eq u take_bit_nat_eq_self)
  then show "digit_val (ucast (q + 0x30)) = unat q" "0x30 \<le> (ucast (q + 0x30) :: u8)"
    "(ucast (q + 0x30) :: u8) \<le> 0x39" "(ucast (q + 0x30) :: u8) = 0x30 \<longleftrightarrow> q = 0"
    using assms
    by (simp_all add: digit_val_def word_le_nat_alt unat_sub word_unat_eq_iff[of "ucast _"] word_unat_eq_iff[of q])
qed

lemma dec_loop_spec:
  fixes keep :: bool
  assumes "k \<le> 9" "unat number < 10 ^ (10 - k)"
  defines "out \<equiv> dec_loop False [k..<9] number (10 ^ (9 - k)) keep"
  shows "(\<forall>c \<in> set out. 0x30 \<le> c \<and> c \<le> 0x39) \<and> out \<noteq> [] \<and>
    (keep \<longrightarrow> (\<forall>acc. parse_dec acc out = acc * 10 ^ (10 - k) + unat number)) \<and>
    (\<not> keep \<longrightarrow> parse_dec 0 out = unat number \<and> (hd out \<noteq> 0x30 \<or> length out = 1))"
  using assms(1,2) unfolding out_def
proof (induction "9 - k" arbitrary: k number keep)
  case 0
  then have "k = 9" "unat number < 10" by simp_all
  then show ?case using dec_char[of number] by simp
next
  case (Suc r)
  then have k: "k < 9" "r = 9 - Suc k" "9 - k = Suc (9 - Suc k)" "10 - k = Suc (9 - k)" by simp_all
  let ?d = "10 ^ (9 - k) :: u64"
  have d: "unat ?d = 10 ^ (9 - k)" by (rule unat_10_power) simp
  then have "?d \<noteq> 0" by (metis power_not_zero unsigned_0 zero_neq_numeral)
  note sub = sub_loop_spec[OF this, of number 0]
  define q n' where "q = number div ?d" and "n' = number mod ?d"
  have uq: "unat q = unat number div 10 ^ (9 - k)" and un: "unat n' = unat number mod 10 ^ (9 - k)"
    by (simp_all only: q_def n'_def unat_div unat_mod d)
  have q10: "unat q < 10"
    using Suc.prems(2) unfolding uq k(4) power_Suc
    by (metis div_less_iff_less_mult mult.commute zero_less_numeral zero_less_power)
  have n'lt: "unat n' < 10 ^ (10 - Suc k)" unfolding un using k by simp
  have num: "unat number = unat q * 10 ^ (9 - k) + unat n'"
    unfolding uq un by (rule div_mult_mod_eq[symmetric])
  have upt: "[k..<9] = k # [Suc k..<9]" using k(1) by (simp add: upt_conv_Cons)
  have nd: "fold (\<lambda>_ v. v * 10) [k..<9 - 1] (1 :: u64) = 10 ^ (9 - Suc k)"
    using fold_times_10[of k 8] k(1) by simp
  define kp where "kp = (keep \<or> q \<noteq> 0)"
  define rest where "rest = dec_loop False [Suc k..<9] n' (10 ^ (9 - Suc k)) kp"
  have step: "dec_loop False [k..<9] number ?d keep = (if kp then [ucast (q + 0x30)] else []) @ rest"
    unfolding upt by (simp only: dec_loop.simps sub Let_def prod.case nd) (simp add: q_def n'_def kp_def rest_def)
  note ih = Suc.hyps(1)[OF k(2) _ n'lt, of kp, folded rest_def]
  have ih: "(\<forall>c \<in> set rest. 0x30 \<le> c \<and> c \<le> 0x39) \<and> rest \<noteq> [] \<and>
    (kp \<longrightarrow> (\<forall>acc. parse_dec acc rest = acc * 10 ^ (10 - Suc k) + unat n')) \<and>
    (\<not> kp \<longrightarrow> parse_dec 0 rest = unat n' \<and> (hd rest \<noteq> 0x30 \<or> length rest = 1))"
    using ih k(1) by simp
  note ch = dec_char[OF q10]
  show ?case
  proof (cases kp)
    case True
    have pow: "10 - Suc k = 9 - k" "(10 :: nat) ^ (10 - k) = 10 * 10 ^ (9 - k)" using k by simp_all
    have "parse_dec acc (ucast (q + 0x30) # rest) = acc * 10 ^ (10 - k) + unat number" for acc
      using ih True ch(1) by (simp add: pow num algebra_simps)
    from this this[of 0] show ?thesis using ih True ch step num by (auto simp: kp_def)
  next
    case False
    then have "q = 0" "\<not> keep" by (simp_all add: kp_def)
    then show ?thesis using ih False step num by simp
  qed
qed

lemma print_dec_spec:
  assumes "unat number < 2 ^ 32"
  shows "is_dec (print_dec False number)" "parse_dec 0 (print_dec False number) = unat number"
  using dec_loop_spec[of 0 number False] assms by (auto simp: print_dec_def is_dec_def)

text \<open>C33: the conversions for numbers print what they should: \<open>%u\<close> prints a 32-bit argument as its
  decimal digits without leading zeros, so that reading the text back gives the argument, and
  \<open>%d\<close> prints the digits of the absolute value, after a minus sign when it is negative.\<close>

theorem vsprintk_decimal:
  "\<exists>u d. format_loop m [0x25, 0x75] [a] len = Inr u \<and> is_dec u \<and> parse_dec 0 u = unat (ucast a :: u32) \<and>
     format_loop m [0x25, 0x64] [a] len = Inr (if sint (ucast a :: u32) < 0 then 0x2d # d else d) \<and>
     is_dec d \<and> int (parse_dec 0 d) = \<bar>sint (ucast a :: u32)\<bar>"
proof -
  let ?w = "ucast a :: u32" and ?n = "sint (ucast a :: u32)"
  have w: "unat ?w < 2 ^ 32" using unsigned_less[of ?w] by simp
  have u: "unat (ucast ?w :: u64) = unat ?w"
    using w by (simp add: unsigned_ucast_eq unsigned_take_bit_eq take_bit_nat_eq_self)
  have b: "- (2 ^ 31) \<le> ?n" "?n < 2 ^ 31" using sint_greater_eq[of ?w] sint_less[of ?w] by simp_all
  let ?x = "scast ?w :: u64"
  have x: "?x = word_of_int ?n" by simp
  have nat: "unat (word_of_int k :: u64) = nat k" if "0 \<le> k" "k < 2 ^ 32" for k
    using that by (simp only: unsigned_of_int) (simp add: take_bit_int_eq_self)
  have sx: "sint ?x = ?n"
    using b by (simp add: signed_scast_eq signed_take_bit_int_eq_self)
  have neg: "unat (- ?x) = nat (- ?n)" if "?n < 0"
    using nat[of "- ?n"] b that by (simp add: x del: of_int_sint) 
  have pos: "unat ?x = nat ?n" if "\<not> ?n < 0"
    using nat[of ?n] b that by (simp add: x del: of_int_sint)
  let ?d = "if ?n < 0 then print_dec False (- ?x) else print_dec False ?x"
  have d: "is_dec ?d" "int (parse_dec 0 ?d) = \<bar>?n\<bar>"
    using print_dec_spec[of "- ?x"] print_dec_spec[of ?x] neg pos b by auto
  have out: "format_loop m [0x25, 0x64] [a] len = Inr (if ?n < 0 then 0x2d # ?d else ?d)"
    by (simp add: conversion_def va_signed_def print_signed_def sx line_end_def)
  have "format_loop m [0x25, 0x75] [a] len = Inr (print_dec False (ucast ?w))"
    by (simp add: conversion_def va_unsigned_def line_end_def)
  then show ?thesis using out d print_dec_spec[of "ucast ?w"] w u by metis
qed

subsection \<open>Comparing strings\<close>

text \<open>\<open>strcmp\<close> advances both pointers together and returns their difference.\<close>

lemma strcmp_loop_diff:
  assumes "strcmp_loop m a b = Some r"
  shows "fst r - snd r = a - b"
  by (rule strcmp_loop.raw_induct[OF _ assms, where P = "\<lambda>m a b r. fst r - snd r = a - b"])
    (auto split: if_splits)

lemma strcmp_addresses: "strcmp m a b = Some r \<Longrightarrow> r = ucast (a - b)"
  using strcmp_loop_diff[of m a b] by (auto simp: strcmp_def)

lemma strcmp_empty: "m a = 0 \<Longrightarrow> strcmp m a b = Some (ucast (a - b))"
  by (simp add: strcmp_def strcmp_loop.simps)

end
