(* ===== verification/Lcm.thy ===== *)
theory Lcm
  imports Config Strings Vgic
begin

text \<open>
  \<open>core/lcm.c\<close>, \<open>core/inc/lcm.h\<close> and \<open>mem_translate\<close> of \<open>arch_mem.c\<close>: snapshots of a guest.
  The state \<open>guest\<close> is what one processor sees while it serves a hypercall of the VM it runs.
  Guest memory is the byte memory \<open>g_mem\<close>; the headers of the snapshots are a separate store
  \<open>g_ss\<close>, since nothing reads them as bytes. \<open>g_ss_sz\<close> and \<open>g_pool_sz\<close> are the sizes of the
  two structures; \<open>g_at\<close> is the address translation of the processor, which follows the page tables
  and answers with a value of the register PAR. A \<open>struct vcpu\<close> is \<open>g_vcpu\<close> with its saved
  registers and \<open>g_arch\<close> with what its \<open>struct vcpu_arch\<close> holds of the virtual interrupt
  controller; a snapshot has a copy of both. The pointer to the VM in it is that of the one VM
  this state is about.
\<close>

unbundle bit_operations_syntax

text \<open>
  \<open>struct vcpu_arch\<close> by value: the private interrupts with the list pointers inside them, the
  numbers in the list registers, and the head of the list of spilled interrupts. A pair of
  pointers is \<open>next\<close> and \<open>prev\<close>.
\<close>

record vcpu_arch =
  va_curr_lrs :: "nat \<Rightarrow> nat"
  va_interrupts :: "nat \<Rightarrow> vgic_int"
  va_links :: "nat \<Rightarrow> node \<times> node"
  va_spilled :: "node \<times> node"

record snapshot =
  ss_id :: u64
  ss_size :: u64
  ss_vm_id :: u32
  ss_vcpu :: vcpu
  ss_arch :: vcpu_arch

record snapshot_pool =
  sp_base :: paddr_t
  sp_size :: u64
  sp_last :: paddr_t

record guest =
  g_mem :: bytes
  g_ss :: "paddr_t \<Rightarrow> snapshot"
  g_ss_sz :: u64
  g_pool_sz :: u64
  g_pools :: "snapshot_pool list"
  g_latest :: paddr_t
  g_latest_id :: u64
  g_restore_cnt :: nat
  g_ck_init :: bool
  g_first :: bool
  g_vcpu :: vcpu
  g_arch :: vcpu_arch
  g_vm_id :: u64
  g_cfg :: vm_config
  g_boot_dmem :: u64
  g_at :: "mm \<Rightarrow> vaddr_t \<Rightarrow> u64"
  g_mm :: mm
  g_rqs :: "u64 \<Rightarrow> rq_vm"
  g_vms :: "u64 list"

abbreviation NUM_MAX_SNAPSHOT_RESOTRE :: nat where "NUM_MAX_SNAPSHOT_RESOTRE \<equiv> 1"
abbreviation LATEST_SSID :: u64 where "LATEST_SSID \<equiv> - 1"
abbreviation PSCI_FNID_SYSTEM_OFF :: u64 where "PSCI_FNID_SYSTEM_OFF \<equiv> 0x84000008"
abbreviation PSCI_FNID_SYSTEM_RESET :: u64 where "PSCI_FNID_SYSTEM_RESET \<equiv> 0x84000009"

subsection \<open>Translation\<close>

abbreviation PAR_F :: u64 where "PAR_F \<equiv> 1"
definition PAR_PA_MSK :: u64 where "PAR_PA_MSK = lsl 0x3ffffff 12"

definition mem_translate :: "vaddr_t \<Rightarrow> guest \<Rightarrow> paddr_t res" where
  "mem_translate va s =
     (let par = g_at s (g_mm s) va
      in if par AND PAR_F \<noteq> 0 then Inl Error
         else Inr ((par AND PAR_PA_MSK) OR (va AND (PAGE_SIZE - 1))))"

subsection \<open>The pool of snapshots\<close>

text \<open>The last entry of an empty pool list would be a wild pointer.\<close>

definition last_pool :: "guest \<Rightarrow> snapshot_pool res" where
  "last_pool s = (if g_pools s = [] then Inl Bad_Access else Inr (last (g_pools s)))"

definition get_new_ss :: "guest \<Rightarrow> paddr_t res" where
  "get_new_ss s = bindr (last_pool s) (\<lambda>p. Inr (sp_last p))"

definition update_ss_pool_last :: "u64 \<Rightarrow> guest \<Rightarrow> guest res" where
  "update_ss_pool_last sz s =
     bindr (last_pool s) (\<lambda>p.
       Inr (s\<lparr>g_latest := sp_last p, g_pools := butlast (g_pools s) @ [p\<lparr>sp_last := sp_last p + sz\<rparr>]\<rparr>))"

definition alloc_ss_pool :: "guest \<Rightarrow> (snapshot_pool \<times> guest) res option" where
  "alloc_ss_pool s =
     (let pool_size = (g_boot_dmem s + g_ss_sz s) * 5
      in map_option (\<lambda>r. bindr r (\<lambda>(pool, a).
           if a = 0 then Inl Bad_Access
           else Inr (\<lparr>sp_base = a + g_pool_sz s, sp_size = pool_size, sp_last = a + g_pool_sz s\<rparr>,
                     s\<lparr>g_mm := (g_mm s)\<lparr>mm_pool := pool\<rparr>\<rparr>)))
         (mem_alloc_page (mm_pool (g_mm s)) (unat (NUM_PAGES pool_size)) False))"

definition ss_pool_init :: "guest \<Rightarrow> guest res option" where
  "ss_pool_init s =
     map_option (\<lambda>r. bindr r (\<lambda>(p, s). Inr (s\<lparr>g_pools := [p]\<rparr>))) (alloc_ss_pool (s\<lparr>g_pools := []\<rparr>))"

definition get_new_ss_id :: "guest \<Rightarrow> u64 \<times> guest" where
  "get_new_ss_id s = (g_latest_id s, s\<lparr>g_latest_id := g_latest_id s + 1\<rparr>)"

subsection \<open>Checkpoint and restore\<close>

definition take_snapshot :: "guest \<Rightarrow> guest res" where
  "take_snapshot s =
     bindr (get_new_ss s) (\<lambda>ss.
       if ss = 0 then Inl Error
       else
         let (sid, s) = get_new_ss_id s;
             sz = vc_dmem_size (g_cfg s) + vc_dmem_size (g_cfg s) + g_ss_sz s;
             s = s\<lparr>g_ss := (g_ss s)(ss := \<lparr>ss_id = sid, ss_size = sz, ss_vm_id = ucast (g_vm_id s),
                     ss_vcpu = g_vcpu s, ss_arch = g_arch s\<rparr>)\<rparr>
         in bindr (mem_translate (vc_base_addr (g_cfg s)) s) (\<lambda>pa.
              let s = s\<lparr>g_mem := memcpy (ss + g_ss_sz s) pa
                          (unat (vc_size (g_cfg s) + vc_dmem_size (g_cfg s))) (g_mem s)\<rparr>
              in bindr (update_ss_pool_last sz s) (\<lambda>s.
                   Inr (s\<lparr>g_vcpu := vcpu_writereg 0 sid (g_vcpu s)\<rparr>))))"

definition checkpoint_snapshot_hanlder :: "guest \<Rightarrow> guest res option" where
  "checkpoint_snapshot_hanlder s =
     map_option (\<lambda>r. bindr r take_snapshot)
       (if \<not> g_ck_init s
        then map_option (\<lambda>r. bindr r (\<lambda>s. Inr (s\<lparr>g_ck_init := True\<rparr>))) (ss_pool_init s)
        else Some (Inr s))"

definition get_latest_ss :: "guest \<Rightarrow> paddr_t" where
  "get_latest_ss s = g_latest s"

definition restart_vm :: "guest \<Rightarrow> guest res" where
  "restart_vm s =
     (let dmem = vc_dmem_size (g_cfg s)
      in bindr (mem_translate (vc_base_addr (g_cfg s)) s) (\<lambda>pa.
           let m = memset pa 0 (unat (dmem + dmem)) (g_mem s);
               m = memcpy pa (vc_load_addr (g_cfg s)) (unat dmem) m
           in Inr (s\<lparr>g_mem := m, g_vcpu := vcpu_arch_reset (vc_entry (g_cfg s)) (g_vcpu s)\<rparr>)))"

definition restore_snapshot_hanlder_by_ss :: "paddr_t \<Rightarrow> guest \<Rightarrow> guest res" where
  "restore_snapshot_hanlder_by_ss ss s =
     (let dmem = vc_dmem_size (g_cfg s);
          s = s\<lparr>g_vcpu := ss_vcpu (g_ss s ss), g_arch := ss_arch (g_ss s ss)\<rparr>
      in bindr (mem_translate (vc_base_addr (g_cfg s)) s) (\<lambda>pa.
           Inr (s\<lparr>g_mem := memcpy pa (ss + g_ss_sz s) (unat (dmem + dmem)) (g_mem s)\<rparr>)))"

text \<open>
  The walk through one pool. The counter is an \<open>int\<close>: counting past its range is undefined.
\<close>

function walk_ss :: "u64 \<Rightarrow> snapshot_pool \<Rightarrow> nat \<Rightarrow> paddr_t \<Rightarrow> guest \<Rightarrow> (nat \<times> paddr_t) res" where
  "walk_ss sid pool i ss s =
     (if i < unat sid \<and> ss + ss_size (g_ss s ss) \<le> sp_base pool + sp_size pool then
        if i + 1 < 2 ^ 31 then walk_ss sid pool (i + 1) (ss + ss_size (g_ss s ss)) s else Inl Bad_Access
      else Inr (i, ss))"
  by pat_completeness auto
termination
  by (relation "measure (\<lambda>(sid, _, i, _). unat sid - i)") auto

declare walk_ss.simps [simp del]

fun find_ss :: "u64 \<Rightarrow> nat \<Rightarrow> snapshot_pool list \<Rightarrow> guest \<Rightarrow> paddr_t res" where
  "find_ss sid i [] s = Inl Error"
| "find_ss sid i (p # ps) s =
     bindr (walk_ss sid p i (sp_base p) s) (\<lambda>(i, ss). if unat sid = i then Inr ss else find_ss sid i ps s)"

definition get_ss_by_id :: "u64 \<Rightarrow> guest \<Rightarrow> paddr_t res" where
  "get_ss_by_id sid s = find_ss sid 0 (g_pools s) s"

text \<open>The loop \<open>while (1)\<close> of a second restore by number is \<open>Spin\<close>.\<close>

definition restore_snapshot_hanlder :: "u64 \<Rightarrow> guest \<Rightarrow> guest res" where
  "restore_snapshot_hanlder ssid s =
     (if ssid = LATEST_SSID then
        let ss = get_latest_ss s
        in if ss = 0 then restart_vm s else restore_snapshot_hanlder_by_ss ss s
      else if \<not> g_first s then Inl Spin
      else
        bindr (get_ss_by_id ssid s) (\<lambda>ss.
          if ss = 0 then Inl Error
          else bindr (restore_snapshot_hanlder_by_ss ss s) (\<lambda>s. Inr (s\<lparr>g_first := False\<rparr>))))"

definition guest_halt_hanlder :: "u64 \<Rightarrow> guest \<Rightarrow> guest res" where
  "guest_halt_hanlder reason s =
     (if reason = PSCI_FNID_SYSTEM_OFF then Inr s
      else if reason = PSCI_FNID_SYSTEM_RESET then
        if g_restore_cnt s < NUM_MAX_SNAPSHOT_RESOTRE
        then restore_snapshot_hanlder reason (s\<lparr>g_restore_cnt := g_restore_cnt s + 1\<rparr>)
        else Inl Error
      else Inr s)"

subsection \<open>A snapshot brings the guest back\<close>

text \<open>
  What may happen to the system between a checkpoint and the restore: the guest runs, so its
  registers and its memory change, but nothing writes the area of the snapshot.
\<close>

definition snapshot_kept :: "paddr_t \<Rightarrow> guest \<Rightarrow> guest \<Rightarrow> bool" where
  "snapshot_kept ss s s' \<longleftrightarrow> g_ss s' ss = g_ss s ss \<and> g_latest s' = g_latest s \<and> g_cfg s' = g_cfg s \<and>
     g_at s' = g_at s \<and> g_mm s' = g_mm s \<and> g_ss_sz s' = g_ss_sz s \<and>
     (\<forall>j < unat (vc_size (g_cfg s) + vc_dmem_size (g_cfg s)).
        g_mem s' (ss + g_ss_sz s + word_of_nat j) = g_mem s (ss + g_ss_sz s + word_of_nat j))"

lemma copied_at:
  assumes "j < n" "n < 2 ^ 64"
  shows "copied dst src n m (dst + word_of_nat j) = m (src + word_of_nat j)"
proof -
  have "unat (word_of_nat j :: u64) = j" using assms by (intro unat_word_of_nat64) simp
  then show ?thesis using assms(1) by (simp add: copied_def)
qed

lemma apart_sym: "apart a b n \<Longrightarrow> apart b a n"
  unfolding apart_def by metis

lemma take_snapshot_eq:
  assumes "g_pools s = ps @ [p]" "sp_last p \<noteq> 0" "mem_translate (vc_base_addr (g_cfg s)) s = Inr pa"
  defines "sz \<equiv> vc_dmem_size (g_cfg s) + vc_dmem_size (g_cfg s) + g_ss_sz s"
  shows "take_snapshot s = Inr (s\<lparr>g_latest_id := g_latest_id s + 1,
     g_ss := (g_ss s)(sp_last p := \<lparr>ss_id = g_latest_id s, ss_size = sz, ss_vm_id = ucast (g_vm_id s),
       ss_vcpu = g_vcpu s, ss_arch = g_arch s\<rparr>),
     g_mem := memcpy (sp_last p + g_ss_sz s) pa (unat (vc_size (g_cfg s) + vc_dmem_size (g_cfg s))) (g_mem s),
     g_latest := sp_last p, g_pools := ps @ [p\<lparr>sp_last := sp_last p + sz\<rparr>],
     g_vcpu := vcpu_writereg 0 (g_latest_id s) (g_vcpu s)\<rparr>)"
proof -
  have tr: "mem_translate va (s\<lparr>g_latest_id := i, g_ss := h\<rparr>) = mem_translate va s" for va i h
    by (simp add: mem_translate_def)
  show ?thesis
    using assms(1-3)
    by (simp add: take_snapshot_def get_new_ss_def last_pool_def get_new_ss_id_def Let_def tr sz_def
        update_ss_pool_last_def)
qed

lemma take_snapshot_result:
  assumes "g_pools s = ps @ [p]" "sp_last p \<noteq> 0" "mem_translate (vc_base_addr (g_cfg s)) s = Inr pa"
    and "apart (sp_last p + g_ss_sz s) pa (unat (vc_size (g_cfg s) + vc_dmem_size (g_cfg s)))"
  obtains s1 where "take_snapshot s = Inr s1" "g_latest s1 = sp_last p"
    "g_ss s1 (sp_last p) = \<lparr>ss_id = g_latest_id s,
       ss_size = vc_dmem_size (g_cfg s) + vc_dmem_size (g_cfg s) + g_ss_sz s, ss_vm_id = ucast (g_vm_id s),
       ss_vcpu = g_vcpu s, ss_arch = g_arch s\<rparr>"
    "g_mem s1 = copied (sp_last p + g_ss_sz s) pa (unat (vc_size (g_cfg s) + vc_dmem_size (g_cfg s))) (g_mem s)"
    "g_cfg s1 = g_cfg s" "g_at s1 = g_at s" "g_mm s1 = g_mm s" "g_ss_sz s1 = g_ss_sz s" "g_vcpu s1 = vcpu_writereg 0 (g_latest_id s) (g_vcpu s)"
    "g_latest_id s1 = g_latest_id s + 1"
proof -
  have cp: "memcpy (sp_last p + g_ss_sz s) pa (unat (vc_size (g_cfg s) + vc_dmem_size (g_cfg s))) (g_mem s) =
      copied (sp_last p + g_ss_sz s) pa (unat (vc_size (g_cfg s) + vc_dmem_size (g_cfg s))) (g_mem s)"
    by (rule memcpy_copies[OF _ assms(4)]) (use unsigned_less[of "vc_size (g_cfg s) + vc_dmem_size (g_cfg s)"] in simp)
  show thesis
    by (rule that[OF take_snapshot_eq[OF assms(1-3)]]) (simp_all add: cp)
qed

lemma restore_result:
  assumes "mem_translate (vc_base_addr (g_cfg s)) s = Inr pa"
    and "apart pa (ss + g_ss_sz s) (unat (vc_dmem_size (g_cfg s) + vc_dmem_size (g_cfg s)))"
  shows "restore_snapshot_hanlder_by_ss ss s = Inr (s\<lparr>g_vcpu := ss_vcpu (g_ss s ss), g_arch := ss_arch (g_ss s ss),
    g_mem := copied pa (ss + g_ss_sz s) (unat (vc_dmem_size (g_cfg s) + vc_dmem_size (g_cfg s))) (g_mem s)\<rparr>)"
proof -
  have "memcpy pa (ss + g_ss_sz s) (unat (vc_dmem_size (g_cfg s) + vc_dmem_size (g_cfg s))) (g_mem s) =
      copied pa (ss + g_ss_sz s) (unat (vc_dmem_size (g_cfg s) + vc_dmem_size (g_cfg s))) (g_mem s)"
    by (rule memcpy_copies[OF _ assms(2)]) (use unsigned_less[of "vc_dmem_size (g_cfg s) + vc_dmem_size (g_cfg s)"] in simp)
  moreover have "mem_translate va (s\<lparr>g_vcpu := v, g_arch := a\<rparr>) = mem_translate va s" for va v a
    by (simp add: mem_translate_def)
  ultimately show ?thesis using assms(1) by (simp add: restore_snapshot_hanlder_by_ss_def Let_def)
qed

text \<open>C17: a checkpoint followed, after the guest has run on, by a restore of the latest snapshot
  brings back the registers of the vCPU and its part of the virtual interrupt controller as they
  were at the checkpoint and, byte for byte, the guest memory that both copies cover: the checkpoint copies the image size and the dynamic
  memory, the restore twice the dynamic memory. Both calls return, and the checkpoint answers
  the number of the snapshot in register 0.\<close>

theorem snapshot_roundtrip:
  assumes "g_ck_init s" "g_pools s = ps @ [p]" "sp_last p \<noteq> 0" "mem_translate (vc_base_addr (g_cfg s)) s = Inr pa"
    and "n = unat (vc_size (g_cfg s) + vc_dmem_size (g_cfg s))" "apart (sp_last p + g_ss_sz s) pa n"
    and "n' = unat (vc_dmem_size (g_cfg s) + vc_dmem_size (g_cfg s))" "apart pa (sp_last p + g_ss_sz s) n'"
  shows "\<exists>s1. checkpoint_snapshot_hanlder s = Some (Inr s1) \<and> x_regs (v_regs (g_vcpu s1)) 0 = g_latest_id s \<and>
    (\<forall>s2. snapshot_kept (sp_last p) s1 s2 \<longrightarrow> (\<exists>s3. restore_snapshot_hanlder LATEST_SSID s2 = Inr s3 \<and>
       g_vcpu s3 = g_vcpu s \<and> g_arch s3 = g_arch s \<and>
       (\<forall>j < min n n'. g_mem s3 (pa + word_of_nat j) = g_mem s (pa + word_of_nat j))))"
proof -
  from take_snapshot_result[OF assms(2-4)] assms(5,6) obtain s1 where s1: "take_snapshot s = Inr s1" "g_latest s1 = sp_last p"
    "ss_vcpu (g_ss s1 (sp_last p)) = g_vcpu s" "ss_arch (g_ss s1 (sp_last p)) = g_arch s" "g_mem s1 = copied (sp_last p + g_ss_sz s) pa n (g_mem s)"
    "g_cfg s1 = g_cfg s" "g_at s1 = g_at s" "g_mm s1 = g_mm s" "g_ss_sz s1 = g_ss_sz s" "g_vcpu s1 = vcpu_writereg 0 (g_latest_id s) (g_vcpu s)"
    by (metis snapshot.select_convs(4,5))
  have n: "n < 2 ^ 64" "n' < 2 ^ 64" unfolding assms(5,7)
    using unsigned_less[of "vc_size (g_cfg s) + vc_dmem_size (g_cfg s)"]
      unsigned_less[of "vc_dmem_size (g_cfg s) + vc_dmem_size (g_cfg s)"] by simp_all
  have restore: "\<exists>s3. restore_snapshot_hanlder LATEST_SSID s2 = Inr s3 \<and> g_vcpu s3 = g_vcpu s \<and>
      g_arch s3 = g_arch s \<and> (\<forall>j < min n n'. g_mem s3 (pa + word_of_nat j) = g_mem s (pa + word_of_nat j))"
    if kept: "snapshot_kept (sp_last p) s1 s2" for s2
  proof -
    have eq: "g_ss s2 (sp_last p) = g_ss s1 (sp_last p)" "g_latest s2 = sp_last p" "g_cfg s2 = g_cfg s" "g_at s2 = g_at s" "g_mm s2 = g_mm s"
      "g_ss_sz s2 = g_ss_sz s" "\<And>j. j < n \<Longrightarrow> g_mem s2 (sp_last p + g_ss_sz s + word_of_nat j) =
         g_mem s1 (sp_last p + g_ss_sz s + word_of_nat j)"
      using kept s1 assms(5) by (simp_all add: snapshot_kept_def)
    have tr: "mem_translate (vc_base_addr (g_cfg s2)) s2 = Inr pa"
      using assms(4) eq by (simp add: mem_translate_def)
    have run: "restore_snapshot_hanlder LATEST_SSID s2 = Inr (s2\<lparr>g_vcpu := g_vcpu s, g_arch := g_arch s,
        g_mem := copied pa (sp_last p + g_ss_sz s) n' (g_mem s2)\<rparr>)"
      using restore_result[OF tr, of "sp_last p"] assms(3,7,8) eq s1(3,4)
      by (simp add: restore_snapshot_hanlder_def get_latest_ss_def)
    have "copied pa (sp_last p + g_ss_sz s) n' (g_mem s2) (pa + word_of_nat j) = g_mem s (pa + word_of_nat j)"
      if j: "j < min n n'" for j
      using j copied_at[of j n' pa] copied_at[of j n "sp_last p + g_ss_sz s" pa "g_mem s"] n eq(7)[of j] s1(5) by simp
    then show ?thesis using run by auto
  qed
  have "checkpoint_snapshot_hanlder s = Some (Inr s1)"
    using assms(1) s1(1) by (simp add: checkpoint_snapshot_hanlder_def)
  moreover have "x_regs (v_regs (g_vcpu s1)) 0 = g_latest_id s"
    by (simp add: s1(10) vcpu_writereg_def)
  ultimately show ?thesis using restore by blast
qed

definition sample_mm :: mm where
  "sample_mm = \<lparr>mm_mem = (\<lambda>_. 0), mm_pool = sample_pool 0 32 0 0,
     mm_as = \<lparr>as_pt = \<lparr>pt_root = 0, pt_dscr = armv8_pt_s2_dscr\<rparr>, as_ty = AS_VM, as_asid = 1, as_lock = SPINLOCK_INITVAL\<rparr>,
     mm_tlb = []\<rparr>"

text \<open>A private interrupt that has never been delivered.\<close>

definition idle_int :: "nat \<Rightarrow> vgic_int" where
  "idle_int i = \<lparr>vi_owner = Some 0, vi_lock = SPINLOCK_INITVAL, vi_id = i, vi_state = INV, vi_prio = 0xff,
     vi_cfg = 0, vi_lr = 0, vi_byte0 = 0, vi_byte1 = 0, vi_hw = False, vi_in_lr = False, vi_enabled = False\<rparr>"

definition idle_arch :: vcpu_arch where
  "idle_arch = \<lparr>va_curr_lrs = (\<lambda>_. 0), va_interrupts = idle_int, va_links = (\<lambda>_. (0, 0)), va_spilled = (0xE000, 0xE000)\<rparr>"

definition sample_guest :: guest where
  "sample_guest = \<lparr>g_mem = (\<lambda>a. ucast a), g_ss = (\<lambda>_. \<lparr>ss_id = 0, ss_size = 0, ss_vm_id = 0, ss_vcpu = vm_vcpus sample_vm 0,
       ss_arch = idle_arch\<rparr>),
     g_ss_sz = 0x400, g_pool_sz = 0x28, g_pools = [\<lparr>sp_base = 0x60000000, sp_size = 0x10000, sp_last = 0x60000000\<rparr>],
     g_latest = 0, g_latest_id = 7, g_restore_cnt = 0, g_ck_init = True, g_first = True,
     g_vcpu = vm_vcpus sample_vm 0, g_arch = idle_arch, g_vm_id = 1,
     g_cfg = guest_config 0x1000 0x100 39\<lparr>vc_dmem_size := 0x100\<rparr>, g_boot_dmem = 0x100,
     g_at = (\<lambda>_ va. va - 0x10000000), g_mm = sample_mm, g_rqs = (\<lambda>_. \<lparr>rq_vbase = 0, rq_pbase = 0, rq_size = 0\<rparr>), g_vms = [1]\<rparr>"

lemma sample_guest_translate: "mem_translate (vc_base_addr (g_cfg sample_guest)) sample_guest = Inr 0x30100000"
  by (simp add: mem_translate_def sample_guest_def guest_config_def PAR_PA_MSK_def lsl_def)

theorem snapshot_roundtrip_witness:
  "\<exists>s1 s3. checkpoint_snapshot_hanlder sample_guest = Some (Inr s1) \<and> x_regs (v_regs (g_vcpu s1)) 0 = 7 \<and>
     restore_snapshot_hanlder LATEST_SSID s1 = Inr s3 \<and> x_regs (v_regs (g_vcpu s3)) 0 = 0"
proof -
  have sizes: "vc_size (g_cfg sample_guest) + vc_dmem_size (g_cfg sample_guest) = 0x200"
    "vc_dmem_size (g_cfg sample_guest) + vc_dmem_size (g_cfg sample_guest) = 0x200"
    by (simp_all add: sample_guest_def guest_config_def)
  have apart: "apart 0x60000400 0x30100000 0x200" "apart 0x30100000 0x60000400 0x200"
    by (rule apartI; simp)+
  let ?p = "\<lparr>sp_base = 0x60000000, sp_size = 0x10000, sp_last = 0x60000000\<rparr>"
  have pools: "g_pools sample_guest = [] @ [?p]" "sp_last ?p \<noteq> 0" "g_ck_init sample_guest" "g_ss_sz sample_guest = 0x400"
    "g_latest_id sample_guest = 7" "x_regs (v_regs (g_vcpu sample_guest)) 0 = 0"
    by (simp_all add: sample_guest_def sample_vm_def)
  have kept: "snapshot_kept ss s1 s1" for ss s1 by (simp add: snapshot_kept_def)
  show ?thesis
    using snapshot_roundtrip[OF pools(3,1,2) sample_guest_translate refl _ refl] apart pools(4-6) kept
    unfolding sizes by fastforce
qed

subsection \<open>A guest's reset request\<close>

lemma walk_ss_small:
  "i < 2 ^ 31 \<Longrightarrow> walk_ss sid pool i ss s = Inr (j, ss') \<Longrightarrow> j < 2 ^ 31"
proof (induction sid pool i ss s rule: walk_ss.induct)
  case (1 sid pool i ss s)
  from 1(3) show ?case
    by (subst (asm) walk_ss.simps) (use 1(1,2) in \<open>auto split: if_splits\<close>)
qed

lemma find_ss_small:
  "2 ^ 31 \<le> unat sid \<Longrightarrow> i < 2 ^ 31 \<Longrightarrow> find_ss sid i ps s \<noteq> Inr r"
proof (induction ps arbitrary: i)
  case (Cons p ps)
  then show ?case
    by (auto simp: bindr_eq_Inr_iff dest!: walk_ss_small[OF Cons.prems(2)])
qed simp

text \<open>A guest's request for a system reset is never granted: \<open>guest_halt_hanlder\<close> passes the
  function number of the request on as the number of the snapshot to restore, and the walk
  through the snapshots counts in an \<open>int\<close>, so it cannot reach that number; the call ends in an
  error whatever snapshots there are.\<close>

theorem guest_reset_fails: "\<exists>e. guest_halt_hanlder PSCI_FNID_SYSTEM_RESET s = Inl e"
proof -
  have "find_ss PSCI_FNID_SYSTEM_RESET 0 ps s' \<noteq> Inr r" for ps s' r
    by (rule find_ss_small) simp_all
  then have "\<exists>e. get_ss_by_id PSCI_FNID_SYSTEM_RESET s' = Inl e" for s'
    unfolding get_ss_by_id_def by (metis sumE)
  then show ?thesis
    by (auto simp: guest_halt_hanlder_def restore_snapshot_hanlder_def)
      (metis bindr_Inl)
qed

end
