(* ===== verification/Sched.thy ===== *)
theory Sched
  imports Bitmaps Locks Bits "HOL-Library.Multiset"
begin

text \<open>
  The two-level scheduler of \<open>core/sched.c\<close>. The nodes of the VM run queue live in the array
  \<open>rqnode_memory\<close>, the vCPU nodes in \<open>vpnode_memory\<close>: a pointer to a node is its index, and
  \<open>None\<close> is NULL, whose dereference is \<open>Bad_Access\<close>. The row \<open>multi_queue\<close> of a run queue node
  is a slice of \<open>multi_queue_memory\<close> that starts at \<open>rn_mqb\<close>. A traversal that visits more nodes
  than the array has meets a node twice and never ends, as does a \<open>while\<close> loop waiting for
  another processor: both are the outcome \<open>Spin\<close>. A vCPU is the pair of its VM's id and its
  index; \<open>sc_ratio\<close> is \<open>prio_ratios\<close>, the counters of the C type \<open>int\<close> are integers.
\<close>

unbundle bit_operations_syntax

abbreviation MAX_VM_NUM :: nat where "MAX_VM_NUM \<equiv> 4"
abbreviation MAX_VCPU_NUM :: nat where "MAX_VCPU_NUM \<equiv> 16"
abbreviation RNODE_NUM :: nat where "RNODE_NUM \<equiv> 12"
abbreviation VNODE_NUM :: nat where "VNODE_NUM \<equiv> 24"
abbreviation PRIO_WIDTH :: nat where "PRIO_WIDTH \<equiv> 10"
abbreviation BMQ_BITMAP_SIZE :: nat where "BMQ_BITMAP_SIZE \<equiv> 10"
abbreviation MAXPRIO_ADJ :: int where "MAXPRIO_ADJ \<equiv> 5"

datatype task_state = TASK_READY | TASK_RUNNING | TASK_PENDING

type_synonym vcpu_id = "nat \<times> nat"

record rqnode =
  rn_vm :: "nat option"
  rn_nr_vcpu_ready :: u32
  rn_prio :: u32
  rn_vdeadline_diff :: u64
  rn_vdeadline :: u64
  rn_prev :: "nat option"
  rn_next :: "nat option"
  rn_bitmap :: u64
  rn_mqb :: nat
  rn_run_vnode :: "nat option"
  rn_state :: task_state
  rn_time_slice :: u64
  rn_need_resched :: u32
  rn_vq_ptr :: "nat option"

record vnode =
  vn_cur :: vcpu_id
  vn_static_prio :: u32
  vn_prio_adj :: int
  vn_prio :: u32
  vn_next :: "nat option"
  vn_state :: task_state
  vn_time_slice :: u64
  vn_need_resched :: u32

record sched =
  rqn :: "nat \<Rightarrow> rqnode"
  vpn :: "nat \<Rightarrow> vnode"
  mq :: "nat \<Rightarrow> nat option"
  rqnode_mem_bitmap :: bitmap
  vpnode_mem_bitmap :: bitmap
  rqnode_memory_lock :: spinlock
  vpnode_memory_lock :: spinlock
  rq_spin_lock :: spinlock
  rq_ptr :: "nat option"
  sc_ratio :: "nat \<Rightarrow> int"
  bfs_clock :: u64
  io_sleep_flag :: int
  sleep_vnode :: "nat option"
  with_sleep_vnode_rqnode :: "nat option"
  cpu_rqnode :: "nat \<Rightarrow> nat option"
  cpu_vcpu :: "nat \<Rightarrow> vcpu_id option"
  cpu_flag :: "nat \<Rightarrow> int"
  vttbr_vm :: "nat \<Rightarrow> nat option"
  vm_nr_cpus :: "nat \<Rightarrow> nat"
  vm_master :: "nat \<Rightarrow> nat"
  vcpu_pid :: "vcpu_id \<Rightarrow> nat"
  vcpu_regs :: "vcpu_id \<Rightarrow> regs"

abbreviation bfs_rr_interval :: int where "bfs_rr_interval \<equiv> 4000"
abbreviation bmq_rr_interval :: u64 where "bmq_rr_interval \<equiv> 1000"

definition upd_rqn :: "nat \<Rightarrow> (rqnode \<Rightarrow> rqnode) \<Rightarrow> sched \<Rightarrow> sched" where
  "upd_rqn i f s = s\<lparr>rqn := (rqn s)(i := f (rqn s i))\<rparr>"

definition upd_vpn :: "nat \<Rightarrow> (vnode \<Rightarrow> vnode) \<Rightarrow> sched \<Rightarrow> sched" where
  "upd_vpn i f s = s\<lparr>vpn := (vpn s)(i := f (vpn s i))\<rparr>"

definition set_mq :: "nat \<Rightarrow> nat option \<Rightarrow> sched \<Rightarrow> sched" where
  "set_mq i v s = s\<lparr>mq := (mq s)(i := v)\<rparr>"

definition deref :: "'a option \<Rightarrow> 'a res" where
  "deref p = (case p of None \<Rightarrow> Inl Bad_Access | Some i \<Rightarrow> Inr i)"

definition ASSERT :: "bool \<Rightarrow> unit res" where
  "ASSERT b = (if b then Inr () else Inl Assertion)"

subsection \<open>Memory management\<close>

text \<open>A full array makes \<open>pos\<close> -1, and the functions go on to write before their arrays.\<close>

definition malloc_rqnode :: "sched \<Rightarrow> (nat \<times> sched) res" where
  "malloc_rqnode s =
     bindr (spin_lock (rqnode_memory_lock s)) (\<lambda>l.
       let pos = bitmap_find_nth (rqnode_mem_bitmap s) RNODE_NUM 1 0 False
       in if pos = SIZE_MAX then Inl Bad_Access
          else Inr (pos, s\<lparr>rqnode_mem_bitmap := bitmap_set (rqnode_mem_bitmap s) pos,
                           rqnode_memory_lock := spin_unlock l\<rparr>))"

definition malloc_vpnode :: "sched \<Rightarrow> (nat \<times> sched) res" where
  "malloc_vpnode s =
     bindr (spin_lock (vpnode_memory_lock s)) (\<lambda>l.
       let pos = bitmap_find_nth (vpnode_mem_bitmap s) VNODE_NUM 1 0 False
       in if pos = SIZE_MAX then Inl Bad_Access
          else Inr (pos, s\<lparr>vpnode_mem_bitmap := bitmap_set (vpnode_mem_bitmap s) pos,
                           vpnode_memory_lock := spin_unlock l\<rparr>))"

subsection \<open>The VM run queue\<close>

fun pr_loop :: "nat list \<Rightarrow> (nat \<Rightarrow> int) \<Rightarrow> nat \<Rightarrow> int" where
  "pr_loop [] r = r"
| "pr_loop (i # is) r = pr_loop is (r(i := (r (i - 1) * 11) div 10))"

definition init_pr :: "sched \<Rightarrow> sched" where
  "init_pr s = s\<lparr>sc_ratio := pr_loop [1..<PRIO_WIDTH] ((sc_ratio s)(0 := 128))\<rparr>"

text \<open>The product is an \<open>int\<close>, the quotient is converted to \<open>uint64_t\<close>.\<close>

definition prio_deadline_diff :: "sched \<Rightarrow> nat \<Rightarrow> u64" where
  "prio_deadline_diff s user_prio = word_of_int ((sc_ratio s user_prio * bfs_rr_interval) div 128)"

definition initialize_rqnode :: "nat option \<Rightarrow> u32 \<Rightarrow> sched \<Rightarrow> (nat \<times> sched) res" where
  "initialize_rqnode vm prio s =
     bindr (malloc_rqnode s) (\<lambda>(pos, s).
       let d = prio_deadline_diff s (unat prio);
           s = upd_rqn pos (\<lambda>n. n\<lparr>rn_prev := None, rn_next := None, rn_vm := vm,
             rn_nr_vcpu_ready := (case vm of Some v \<Rightarrow> word_of_nat (vm_nr_cpus s v) | None \<Rightarrow> rn_nr_vcpu_ready n),
             rn_prio := prio, rn_vdeadline_diff := d, rn_vdeadline := bfs_clock s + d, rn_bitmap := 0,
             rn_mqb := pos * PRIO_WIDTH, rn_run_vnode := None, rn_state := TASK_READY,
             rn_time_slice := 0, rn_need_resched := 1\<rparr>) s;
           s = fold (\<lambda>i. set_mq (pos * PRIO_WIDTH + i) None) [0..<BMQ_BITMAP_SIZE] s
       in Inr (pos, s))"

definition rq_insert :: "nat \<Rightarrow> sched \<Rightarrow> sched res" where
  "rq_insert n s =
     bindr (spin_lock (rq_spin_lock s)) (\<lambda>l.
     bindr (deref (rq_ptr s)) (\<lambda>h.
       let s = upd_rqn n (\<lambda>x. x\<lparr>rn_next := rn_next (rqn s h)\<rparr>) s;
           s = upd_rqn n (\<lambda>x. x\<lparr>rn_prev := Some h\<rparr>) s;
           s = (case rn_next (rqn s h) of
                  None \<Rightarrow> s
                | Some m \<Rightarrow> upd_rqn m (\<lambda>x. x\<lparr>rn_prev := Some n\<rparr>) s);
           s = upd_rqn h (\<lambda>x. x\<lparr>rn_next := Some n\<rparr>) s
       in Inr (s\<lparr>rq_spin_lock := spin_unlock l\<rparr>)))"

definition rq_remove :: "nat \<Rightarrow> sched \<Rightarrow> sched res" where
  "rq_remove n s =
     bindr (deref (rn_prev (rqn s n))) (\<lambda>p.
       let s = upd_rqn p (\<lambda>x. x\<lparr>rn_next := rn_next (rqn s n)\<rparr>) s;
           s = (case rn_next (rqn s n) of
                  None \<Rightarrow> s
                | Some m \<Rightarrow> upd_rqn m (\<lambda>x. x\<lparr>rn_prev := rn_prev (rqn s n)\<rparr>) s)
       in Inr (upd_rqn n (\<lambda>x. x\<lparr>rn_prev := None, rn_next := None\<rparr>) s))"

definition better :: "sched \<Rightarrow> nat \<Rightarrow> nat option \<Rightarrow> bool" where
  "better s n target \<longleftrightarrow> 0 < rn_nr_vcpu_ready (rqn s n) \<and>
     (case target of None \<Rightarrow> True | Some t \<Rightarrow> rn_vdeadline (rqn s n) < rn_vdeadline (rqn s t))"

fun p_scan :: "nat \<Rightarrow> sched \<Rightarrow> nat option \<Rightarrow> nat option \<Rightarrow> nat option res" where
  "p_scan k s None target = Inr target"
| "p_scan 0 s (Some n) target = Inl Spin"
| "p_scan (Suc k) s (Some n) target =
     p_scan k s (rn_next (rqn s n)) (if better s n target then Some n else target)"

definition p_task_lookup :: "sched \<Rightarrow> (nat option \<times> sched) res" where
  "p_task_lookup s =
     bindr (spin_lock (rq_spin_lock s)) (\<lambda>l.
     bindr (deref (rq_ptr s)) (\<lambda>h.
     bindr (p_scan RNODE_NUM s (rn_next (rqn s h)) None) (\<lambda>target.
       case target of
         Some t \<Rightarrow> bindr (rq_remove t s) (\<lambda>s. Inr (Some t, s\<lparr>rq_spin_lock := spin_unlock l\<rparr>))
       | None \<Rightarrow> Inr (None, s\<lparr>rq_spin_lock := spin_unlock l\<rparr>))))"

definition p_task_insert :: "nat option \<Rightarrow> u32 \<Rightarrow> sched \<Rightarrow> sched res" where
  "p_task_insert vm prio s = bindr (initialize_rqnode vm prio s) (\<lambda>(n, s). rq_insert n s)"

definition prepare_to_switch :: "nat \<Rightarrow> nat \<Rightarrow> sched \<Rightarrow> sched" where
  "prepare_to_switch c vm s = s\<lparr>vttbr_vm := (vttbr_vm s)(c := Some vm)\<rparr>"

text \<open>The processor's own state does not change while it waits for a ready VM.\<close>

definition bfs_scheduler :: "nat \<Rightarrow> sched \<Rightarrow> sched res" where
  "bfs_scheduler c s =
     bindr (case cpu_rqnode s c of
        None \<Rightarrow> Inr s
      | Some n \<Rightarrow>
          bindr (ASSERT (rn_time_slice (rqn s n) = 0)) (\<lambda>_.
            rq_insert n (upd_rqn n (\<lambda>x. x\<lparr>rn_vdeadline := bfs_clock s + rn_vdeadline_diff x,
              rn_state := TASK_READY, rn_need_resched := 1\<rparr>) s))) (\<lambda>s.
     bindr (p_task_lookup s) (\<lambda>(target, s).
       case target of
         None \<Rightarrow> Inl Spin
       | Some n \<Rightarrow>
           let s = upd_rqn n (\<lambda>x. x\<lparr>rn_state := TASK_RUNNING, rn_time_slice := word_of_int bfs_rr_interval,
                 rn_need_resched := 0\<rparr>) s;
               s = s\<lparr>cpu_rqnode := (cpu_rqnode s)(c := Some n)\<rparr>
           in bindr (deref (rn_vm (rqn s n))) (\<lambda>vm.
                Inr (prepare_to_switch c vm (s\<lparr>vm_master := (vm_master s)(vm := c)\<rparr>)))))"

subsection \<open>The vCPU multi-level queue\<close>

definition initialize_vCpuNode :: "vcpu_id \<Rightarrow> u32 \<Rightarrow> sched \<Rightarrow> (nat \<times> sched) res" where
  "initialize_vCpuNode vp static_prio s =
     bindr (malloc_vpnode s) (\<lambda>(pos, s).
       Inr (pos, upd_vpn pos (\<lambda>_. \<lparr>vn_cur = vp, vn_static_prio = static_prio, vn_prio_adj = 0,
         vn_prio = static_prio, vn_next = None, vn_state = TASK_READY, vn_time_slice = 0,
         vn_need_resched = 1\<rparr>) s))"

fun vq_tail :: "nat \<Rightarrow> sched \<Rightarrow> nat \<Rightarrow> nat res" where
  "vq_tail 0 s n = Inl Spin"
| "vq_tail (Suc k) s n = (case vn_next (vpn s n) of None \<Rightarrow> Inr n | Some m \<Rightarrow> vq_tail k s m)"

definition v_task_insert :: "nat \<Rightarrow> nat \<Rightarrow> sched \<Rightarrow> sched res" where
  "v_task_insert v r s =
     (let p = unat (vn_prio (vpn s v));
          q = rn_mqb (rqn s r) + p;
          s = upd_rqn r (\<lambda>x. x\<lparr>rn_bitmap := rn_bitmap x OR lsl 1 p\<rparr>) s
      in bindr (case mq s q of
            None \<Rightarrow> Inr (upd_vpn v (\<lambda>x. x\<lparr>vn_next := None\<rparr>) (set_mq q (Some v) s))
          | Some f \<Rightarrow>
              bindr (vq_tail VNODE_NUM s f) (\<lambda>t.
                Inr (upd_vpn v (\<lambda>x. x\<lparr>vn_next := None\<rparr>) (upd_vpn t (\<lambda>x. x\<lparr>vn_next := Some v\<rparr>) s))))
         (\<lambda>s. Inr (upd_rqn r (\<lambda>x. x\<lparr>rn_nr_vcpu_ready := rn_nr_vcpu_ready x + 1\<rparr>) s)))"

fun v_scan :: "nat list \<Rightarrow> nat \<Rightarrow> sched \<Rightarrow> (nat option \<times> sched) res" where
  "v_scan [] r s = Inr (None, s)"
| "v_scan (i # is) r s =
     (if lsr (rn_bitmap (rqn s r)) i AND 1 = 1
      then bindr (deref (mq s (rn_mqb (rqn s r) + i))) (\<lambda>v.
        let s = (if vn_next (vpn s v) = None
                 then upd_rqn r (\<lambda>x. x\<lparr>rn_bitmap := rn_bitmap x AND NOT (lsl 1 i)\<rparr>) s else s);
            s = set_mq (rn_mqb (rqn s r) + i) (vn_next (vpn s v)) s;
            s = upd_rqn r (\<lambda>x. x\<lparr>rn_nr_vcpu_ready := rn_nr_vcpu_ready x - 1\<rparr>) s
        in Inr (Some v, upd_vpn v (\<lambda>x. x\<lparr>vn_next := None\<rparr>) s))
      else v_scan is r s)"

definition v_task_lookup :: "nat \<Rightarrow> sched \<Rightarrow> (nat option \<times> sched) res" where
  "v_task_lookup r s = v_scan [0..<BMQ_BITMAP_SIZE] r s"

text \<open>\<open>temp_prio\<close> is the \<open>int\<close> value of the 32-bit sum.\<close>

definition prio_manage :: "int \<Rightarrow> vnode \<Rightarrow> vnode" where
  "prio_manage up_or_down v =
     (let v = (if up_or_down = 1 \<and> vn_prio_adj v > - MAXPRIO_ADJ
               then v\<lparr>vn_prio_adj := vn_prio_adj v - 1\<rparr>
               else if vn_prio_adj v < MAXPRIO_ADJ then v\<lparr>vn_prio_adj := vn_prio_adj v + 1\<rparr>
               else v);
          temp_prio = sint (vn_static_prio v + word_of_int (vn_prio_adj v))
      in if temp_prio \<le> int PRIO_WIDTH - 1 \<and> temp_prio \<ge> 0
         then v\<lparr>vn_prio := word_of_int temp_prio\<rparr> else v)"

definition switch_to :: "nat \<Rightarrow> nat \<Rightarrow> sched \<Rightarrow> sched" where
  "switch_to c v s = (let vc = vn_cur (vpn s v) in
     s\<lparr>cpu_vcpu := (cpu_vcpu s)(c := Some vc), vcpu_pid := (vcpu_pid s)(vc := c)\<rparr>)"

definition bmq_scheduler :: "nat \<Rightarrow> nat \<Rightarrow> sched \<Rightarrow> sched res" where
  "bmq_scheduler c r s =
     bindr (case rn_run_vnode (rqn s r) of
        None \<Rightarrow> Inr s
      | Some v \<Rightarrow>
          bindr (ASSERT (vn_time_slice (vpn s v) = 0)) (\<lambda>_.
            if sleep_vnode s = None \<or> Some v \<noteq> sleep_vnode s
            then v_task_insert v r (upd_vpn v (\<lambda>x. (prio_manage 0 x)
                   \<lparr>vn_state := TASK_READY, vn_need_resched := 1\<rparr>) s)
            else Inr s)) (\<lambda>s.
     bindr (v_task_lookup r s) (\<lambda>(target, s).
       case target of
         None \<Rightarrow> Inl Spin
       | Some v \<Rightarrow>
           let s = upd_vpn v (\<lambda>x. x\<lparr>vn_state := TASK_RUNNING, vn_time_slice := bmq_rr_interval,
                 vn_need_resched := 0\<rparr>) s;
               s = upd_rqn r (\<lambda>x. x\<lparr>rn_run_vnode := Some v\<rparr>) s
           in Inr (switch_to c v s)))"

definition try_reschedule :: "nat \<Rightarrow> sched \<Rightarrow> sched res" where
  "try_reschedule c s =
     (if cpu_flag s c = 1 then Inr s
      else
        let s = s\<lparr>cpu_flag := (cpu_flag s)(c := 1)\<rparr>
        in bindr (case cpu_rqnode s c of
             None \<Rightarrow> bindr (bfs_scheduler c s) (\<lambda>s.
               bindr (deref (cpu_rqnode s c)) (\<lambda>r. bmq_scheduler c r s))
           | Some r \<Rightarrow>
               if rn_need_resched (rqn s r) = 1
               then bindr (bfs_scheduler c s) (\<lambda>s.
                 bindr (deref (cpu_rqnode s c)) (\<lambda>r. bmq_scheduler c r s))
               else (case rn_run_vnode (rqn s r) of
                   None \<Rightarrow> bmq_scheduler c r s
                 | Some v \<Rightarrow> if vn_need_resched (vpn s v) = 1 then bmq_scheduler c r s else Inr s))
           (\<lambda>s. Inr (s\<lparr>cpu_flag := (cpu_flag s)(c := 0)\<rparr>)))"

definition tick :: "u64 \<Rightarrow> u64 \<Rightarrow> u64 \<times> bool" where
  "tick left wait = (if left \<le> wait then (0, True) else (left - wait, False))"

text \<open>
  \<open>update_task_times\<close> on one processor: the barrier in its middle synchronises with the other
  processors and leaves this state alone.
\<close>

definition update_task_times :: "u64 \<Rightarrow> nat \<Rightarrow> sched \<Rightarrow> sched res" where
  "update_task_times TIMER_WAIT c s =
     bindr (deref (cpu_rqnode s c)) (\<lambda>r.
       let cv = rn_run_vnode (rqn s r)
       in bindr (if c = 0 then
              let s = s\<lparr>bfs_clock := bfs_clock s + TIMER_WAIT\<rparr>
              in if io_sleep_flag s > 0 then
                   let s = s\<lparr>io_sleep_flag := io_sleep_flag s - 1\<rparr>
                   in if io_sleep_flag s = 0 then
                        bindr (deref (sleep_vnode s)) (\<lambda>v.
                        bindr (deref (with_sleep_vnode_rqnode s)) (\<lambda>w.
                        bindr (v_task_insert v w (upd_vpn v (\<lambda>x. x\<lparr>vn_need_resched := 1\<rparr>) s)) (\<lambda>s.
                          Inr (s\<lparr>sleep_vnode := None, with_sleep_vnode_rqnode := None\<rparr>))))
                      else Inr s
                 else Inr s
            else Inr s) (\<lambda>s.
          bindr (deref cv) (\<lambda>v.
            let (vs, ve) = tick (vn_time_slice (vpn s v)) TIMER_WAIT;
                s = upd_vpn v (\<lambda>x. x\<lparr>vn_time_slice := vs,
                      vn_need_resched := (if ve then 1 else vn_need_resched x)\<rparr>) s;
                (ms, me) = tick (rn_time_slice (rqn s r)) TIMER_WAIT
            in Inr (upd_rqn r (\<lambda>x. x\<lparr>rn_time_slice := ms,
                      rn_need_resched := (if me then 1 else rn_need_resched x)\<rparr>) s))))"

subsection \<open>Round robin\<close>

definition rr_vm_lookup :: "sched \<Rightarrow> (nat option \<times> sched) res" where
  "rr_vm_lookup s =
     bindr (spin_lock (rq_spin_lock s)) (\<lambda>l.
     bindr (deref (rq_ptr s)) (\<lambda>h.
       case rn_next (rqn s h) of
         None \<Rightarrow> Inr (None, s\<lparr>rq_spin_lock := spin_unlock l\<rparr>)
       | Some t \<Rightarrow> Inr (Some t, (upd_rqn h (\<lambda>x. x\<lparr>rn_next := rn_next (rqn s t)\<rparr>) s)
             \<lparr>rq_spin_lock := spin_unlock l\<rparr>)))"

fun rq_tail :: "nat \<Rightarrow> sched \<Rightarrow> nat \<Rightarrow> nat res" where
  "rq_tail 0 s n = Inl Spin"
| "rq_tail (Suc k) s n = (case rn_next (rqn s n) of None \<Rightarrow> Inr n | Some m \<Rightarrow> rq_tail k s m)"

definition rr_rq_insert :: "nat \<Rightarrow> sched \<Rightarrow> sched res" where
  "rr_rq_insert n s =
     bindr (spin_lock (rq_spin_lock s)) (\<lambda>l.
     bindr (deref (rq_ptr s)) (\<lambda>h.
     bindr (rq_tail (Suc RNODE_NUM) s h) (\<lambda>prev.
       let s = upd_rqn n (\<lambda>x. x\<lparr>rn_next := rn_next (rqn s prev)\<rparr>) s;
           s = upd_rqn prev (\<lambda>x. x\<lparr>rn_next := Some n\<rparr>) s
       in Inr (s\<lparr>rq_spin_lock := spin_unlock l\<rparr>))))"

definition rr_scheduler_vm :: "nat \<Rightarrow> sched \<Rightarrow> sched res" where
  "rr_scheduler_vm c s =
     bindr (case cpu_rqnode s c of
        None \<Rightarrow> Inr s
      | Some n \<Rightarrow> bindr (ASSERT (rn_time_slice (rqn s n) = 0)) (\<lambda>_. rr_rq_insert n s)) (\<lambda>s.
     bindr (rr_vm_lookup s) (\<lambda>(target, s).
       case target of
         None \<Rightarrow> Inl Spin
       | Some n \<Rightarrow>
           let s = upd_rqn n (\<lambda>x. x\<lparr>rn_state := TASK_RUNNING, rn_time_slice := word_of_int bfs_rr_interval,
                 rn_need_resched := 0\<rparr>) s;
               s = s\<lparr>cpu_rqnode := (cpu_rqnode s)(c := Some n)\<rparr>
           in bindr (deref (rn_vm (rqn s n))) (\<lambda>vm. Inr (prepare_to_switch c vm s))))"

definition rr_vcpu_lookup :: "nat \<Rightarrow> sched \<Rightarrow> (nat option \<times> sched) res" where
  "rr_vcpu_lookup r s =
     bindr (deref (rn_vq_ptr (rqn s r))) (\<lambda>h.
       case vn_next (vpn s h) of
         None \<Rightarrow> Inr (None, s)
       | Some t \<Rightarrow> Inr (Some t, upd_vpn h (\<lambda>x. x\<lparr>vn_next := vn_next (vpn s t)\<rparr>) s))"

definition rr_vnode_insert :: "nat \<Rightarrow> nat \<Rightarrow> sched \<Rightarrow> sched res" where
  "rr_vnode_insert v r s =
     bindr (deref (rn_vq_ptr (rqn s r))) (\<lambda>h.
     bindr (vq_tail (Suc VNODE_NUM) s h) (\<lambda>prev.
       let s = upd_vpn v (\<lambda>x. x\<lparr>vn_next := vn_next (vpn s prev)\<rparr>) s;
           s = upd_vpn prev (\<lambda>x. x\<lparr>vn_next := Some v\<rparr>) s
       in Inr (upd_rqn r (\<lambda>x. x\<lparr>rn_nr_vcpu_ready := rn_nr_vcpu_ready x + 1\<rparr>) s)))"

definition rr_scheduler_vcpu :: "nat \<Rightarrow> nat \<Rightarrow> sched \<Rightarrow> sched res" where
  "rr_scheduler_vcpu c r s =
     bindr (case rn_run_vnode (rqn s r) of
        None \<Rightarrow> Inr s
      | Some v \<Rightarrow> bindr (ASSERT (vn_time_slice (vpn s v) = 0)) (\<lambda>_.
          if sleep_vnode s = None \<or> Some v \<noteq> sleep_vnode s then rr_vnode_insert v r s else Inr s)) (\<lambda>s.
     bindr (rr_vcpu_lookup r s) (\<lambda>(target, s).
       case target of
         None \<Rightarrow> Inl Spin
       | Some v \<Rightarrow>
           let s = upd_vpn v (\<lambda>x. x\<lparr>vn_state := TASK_RUNNING, vn_time_slice := bmq_rr_interval,
                 vn_need_resched := 0\<rparr>) s;
               s = upd_rqn r (\<lambda>x. x\<lparr>rn_run_vnode := Some v\<rparr>) s
           in Inr (switch_to c v s)))"

definition rr_try_reschedule :: "nat \<Rightarrow> int \<Rightarrow> int \<Rightarrow> sched \<Rightarrow> sched res" where
  "rr_try_reschedule c vm_reschedule vcpu_reschedule s =
     (if vm_reschedule = 1
      then bindr (rr_scheduler_vm c s) (\<lambda>s. bindr (deref (cpu_rqnode s c)) (\<lambda>r. rr_scheduler_vcpu c r s))
      else if vcpu_reschedule = 1
      then bindr (deref (cpu_rqnode s c)) (\<lambda>r. rr_scheduler_vcpu c r s)
      else Inr s)"

subsection \<open>Hypercalls of the scheduler\<close>

text \<open>The part of \<open>vm_init\<close> (\<open>core/vm.c\<close>) that makes a VM known to the scheduler.\<close>

definition vm_sched_init :: "nat \<Rightarrow> sched \<Rightarrow> sched res" where
  "vm_sched_init vm s =
     bindr (if rq_ptr s = None
            then bindr (initialize_rqnode None 0 (init_pr s)) (\<lambda>(h, s). Inr (s\<lparr>rq_ptr := Some h\<rparr>))
            else Inr s) (\<lambda>s.
     bindr (initialize_rqnode (Some vm) 5 s) (\<lambda>(r, s).
     bindr (initialize_vCpuNode (vm, 0) 5 s) (\<lambda>(v, s).
     bindr (v_task_insert v r s) (\<lambda>s. rq_insert r s))))"

text \<open>The VM's vCPU array has \<open>vm_nr_cpus\<close> entries; a larger index is outside it.\<close>

definition sched_start_handler :: "nat \<Rightarrow> u64 \<Rightarrow> u64 \<Rightarrow> sched \<Rightarrow> sched res" where
  "sched_start_handler c arg0 arg1 s =
     bindr (deref (cpu_rqnode s c)) (\<lambda>r.
     bindr (deref (rn_vm (rqn s r))) (\<lambda>vm.
     bindr (deref (cpu_vcpu s c)) (\<lambda>me.
       if vm_nr_cpus s vm \<le> unat arg0 then Inl Bad_Access
       else
         let t = (vm, unat arg0);
             s = s\<lparr>vcpu_regs := (vcpu_regs s)(t := (vcpu_regs s me)\<lparr>elr_el2 := arg1\<rparr>)\<rparr>
         in bindr (initialize_vCpuNode t 5 s) (\<lambda>(v, s). v_task_insert v r s))))"

definition sched_io_handler :: "nat \<Rightarrow> sched \<Rightarrow> sched res" where
  "sched_io_handler c s =
     (let s = s\<lparr>with_sleep_vnode_rqnode := cpu_rqnode s c\<rparr>
      in bindr (deref (with_sleep_vnode_rqnode s)) (\<lambda>r.
         let s = s\<lparr>sleep_vnode := rn_run_vnode (rqn s r)\<rparr>
         in bindr (deref (sleep_vnode s)) (\<lambda>v.
              Inr ((upd_vpn v (\<lambda>x. prio_manage 1 (x\<lparr>vn_need_resched := 0\<rparr>)) s)\<lparr>io_sleep_flag := 4\<rparr>))))"


subsection \<open>The run queue as a list\<close>

lemma upd_rqn_sel [simp]:
  "rqn (upd_rqn i f s) j = (if j = i then f (rqn s i) else rqn s j)"
  "vpn (upd_rqn i f s) = vpn s" "mq (upd_rqn i f s) = mq s" "rq_ptr (upd_rqn i f s) = rq_ptr s"
  "rq_spin_lock (upd_rqn i f s) = rq_spin_lock s"
  by (simp_all add: upd_rqn_def)

lemma upd_vpn_sel [simp]:
  "vpn (upd_vpn i g s) j = (if j = i then g (vpn s i) else vpn s j)"
  "rqn (upd_vpn i g s) = rqn s" "mq (upd_vpn i g s) = mq s" "rq_ptr (upd_vpn i g s) = rq_ptr s"
  "rq_spin_lock (upd_vpn i g s) = rq_spin_lock s"
  by (simp_all add: upd_vpn_def)

lemma set_mq_sel [simp]:
  "mq (set_mq i v s) j = (if j = i then v else mq s j)"
  "rqn (set_mq i v s) = rqn s" "vpn (set_mq i v s) = vpn s" "rq_ptr (set_mq i v s) = rq_ptr s"
  by (simp_all add: set_mq_def)

lemma deref_Some [simp, res_simps]: "deref (Some i) = Inr i"
  by (simp add: deref_def)

lemma ASSERT_True [simp, res_simps]: "ASSERT True = Inr ()"
  by (simp add: ASSERT_def)

fun seg :: "sched \<Rightarrow> nat list \<Rightarrow> bool" where
  "seg s (a # b # r) \<longleftrightarrow> rn_next (rqn s a) = Some b \<and> rn_prev (rqn s b) = Some a \<and> seg s (b # r)"
| "seg s _ \<longleftrightarrow> True"

lemma seg_split: "seg s (as @ b # cs) \<longleftrightarrow> seg s (as @ [b]) \<and> seg s (b # cs)"
  by (induction s as rule: seg.induct) (auto simp: neq_Nil_conv elim: seg.elims)

lemma seg_cong:
  "(\<forall>x \<in> set (butlast L). rn_next (rqn s' x) = rn_next (rqn s x)) \<Longrightarrow>
   (\<forall>x \<in> set (tl L). rn_prev (rqn s' x) = rn_prev (rqn s x)) \<Longrightarrow> seg s' L = seg s L"
  by (induction s L rule: seg.induct) auto

definition rq_rep :: "sched \<Rightarrow> nat \<Rightarrow> nat list \<Rightarrow> bool" where
  "rq_rep s h xs \<longleftrightarrow> rq_ptr s = Some h \<and> distinct (h # xs) \<and> set (h # xs) \<subseteq> {..<RNODE_NUM} \<and>
     seg s (h # xs) \<and> rn_next (rqn s (last (h # xs))) = None \<and>
     ticket (rq_spin_lock s) = next_tk (rq_spin_lock s)"

text \<open>The fields of a node that the list operations leave alone.\<close>

definition rn_data :: "rqnode \<Rightarrow> rqnode" where
  "rn_data n = n\<lparr>rn_prev := None, rn_next := None\<rparr>"

definition rq_frame :: "sched \<Rightarrow> sched \<Rightarrow> bool" where
  "rq_frame s s' \<longleftrightarrow> s' = s\<lparr>rqn := rqn s', rq_spin_lock := rq_spin_lock s'\<rparr> \<and>
     (\<forall>n. rn_data (rqn s' n) = rn_data (rqn s n))"

lemma rn_data_sel:
  "rn_data a = rn_data b \<Longrightarrow> rn_vdeadline a = rn_vdeadline b \<and> rn_nr_vcpu_ready a = rn_nr_vcpu_ready b \<and>
     rn_vm a = rn_vm b \<and> rn_vdeadline_diff a = rn_vdeadline_diff b \<and> rn_time_slice a = rn_time_slice b \<and>
     rn_run_vnode a = rn_run_vnode b \<and> rn_bitmap a = rn_bitmap b \<and> rn_mqb a = rn_mqb b \<and>
     rn_state a = rn_state b \<and> rn_need_resched a = rn_need_resched b"
  by (cases a; cases b) (simp add: rn_data_def)

lemma rq_rep_lock:
  "rq_rep s h xs \<Longrightarrow> \<exists>l. spin_lock (rq_spin_lock s) = Inr l \<and> ticket (spin_unlock l) = next_tk (spin_unlock l)"
  using spin_lock_free[of "rq_spin_lock s"] spin_lock_unlock[of "rq_spin_lock s"]
  by (auto simp: rq_rep_def)

lemma rq_next_head: "rq_rep s h xs \<Longrightarrow> rn_next (rqn s h) = (case xs of [] \<Rightarrow> None | x # _ \<Rightarrow> Some x)"
  by (cases xs) (auto simp: rq_rep_def)

lemma rq_insert_spec:
  assumes "rq_rep s h xs" "n \<notin> set (h # xs)" "n < RNODE_NUM"
  obtains s' where "rq_insert n s = Inr s'" "rq_rep s' h (n # xs)" "rq_frame s s'"
proof -
  obtain l where l: "spin_lock (rq_spin_lock s) = Inr l" "ticket (spin_unlock l) = next_tk (spin_unlock l)"
    using rq_rep_lock[OF assms(1)] by blast
  have h: "rq_ptr s = Some h" "n \<noteq> h" using assms by (auto simp: rq_rep_def)
  define s' where "s' = projr (rq_insert n s)"
  have eq: "rq_insert n s = Inr s'" using l h by (simp add: rq_insert_def s'_def Let_def)
  have sel: "rn_next (rqn s' x) = (if x = h then Some n else if x = n then rn_next (rqn s h) else rn_next (rqn s x))"
    "rn_prev (rqn s' x) = (if rn_next (rqn s h) = Some x \<and> x \<noteq> n then Some n else if x = n then Some h else rn_prev (rqn s x))"
    if "rn_next (rqn s h) \<noteq> Some n" for x
    using l h that by (auto simp: s'_def rq_insert_def Let_def split: option.splits)
  have nn: "rn_next (rqn s h) \<noteq> Some n"
    using rq_next_head[OF assms(1)] assms(2) by (auto split: list.splits)
  have fr: "rq_frame s s'"
    using l h by (auto simp: rq_frame_def s'_def rq_insert_def Let_def rn_data_def upd_rqn_def split: option.splits)
  have ptr: "rq_ptr s' = Some h" "ticket (rq_spin_lock s') = next_tk (rq_spin_lock s')"
    using l h by (auto simp: s'_def rq_insert_def Let_def split: option.splits)
  have "seg s' (h # n # xs) \<and> rn_next (rqn s' (last (h # n # xs))) = None"
  proof (cases xs)
    case Nil
    then show ?thesis using sel[OF nn] rq_next_head[OF assms(1)] h by simp
  next
    case (Cons y ys)
    have "seg s' (y # ys) = seg s (y # ys)"
      using sel[OF nn] rq_next_head[OF assms(1)] assms Cons
      by (intro seg_cong) (auto simp: rq_rep_def dest: in_set_butlastD)
    moreover have "last (y # ys) \<in> set xs" unfolding Cons by simp
    then have "last (y # ys) \<noteq> h" "last (y # ys) \<noteq> n" using assms by (auto simp: rq_rep_def)
    ultimately show ?thesis
      using sel[OF nn] rq_next_head[OF assms(1)] assms Cons by (auto simp: rq_rep_def)
  qed
  then have "rq_rep s' h (n # xs)" using ptr assms by (auto simp: rq_rep_def)
  with eq fr show ?thesis using that by blast
qed

lemma rq_remove_spec:
  assumes "rq_rep s h (ys @ n # zs)"
  obtains s' where "rq_remove n s = Inr s'" "rq_rep s' h (ys @ zs)" "rq_frame s s'"
    "rq_spin_lock s' = rq_spin_lock s"
proof -
  obtain as p where ap: "h # ys = as @ [p]" by (metis append_butlast_last_id list.distinct(1))
  have L: "h # ys @ n # zs = as @ p # n # zs" using ap by (metis append.assoc append_Cons append_Nil)
  have d: "distinct (as @ p # n # zs)" and sg: "seg s (as @ p # n # zs)"
    and lst: "rn_next (rqn s (last (as @ p # n # zs))) = None"
    using assms unfolding rq_rep_def L[symmetric] by simp_all
  have s3: "seg s (as @ [p])" "seg s (p # n # zs)" using sg seg_split[of s as p "n # zs"] by auto
  then have pn: "rn_prev (rqn s n) = Some p" "seg s (n # zs)" by simp_all
  have nx: "rn_next (rqn s n) = (case zs of [] \<Rightarrow> None | z # _ \<Rightarrow> Some z)"
    using pn(2) lst by (cases zs) auto
  define s' where "s' = projr (rq_remove n s)"
  have ne: "p \<noteq> n" "\<And>z. z \<in> set zs \<Longrightarrow> z \<noteq> n \<and> z \<noteq> p" using d by auto
  have eq: "rq_remove n s = Inr s'" using pn(1) by (simp add: s'_def rq_remove_def Let_def)
  have sel: "rn_next (rqn s' x) = (if x = n then None else if x = p then rn_next (rqn s n) else rn_next (rqn s x))"
    "rn_prev (rqn s' x) = (if x = n then None else if rn_next (rqn s n) = Some x then Some p else rn_prev (rqn s x))" for x
    using pn(1) ne nx by (auto simp: s'_def rq_remove_def Let_def split: option.splits list.splits)
  have fr: "rq_frame s s'" "rq_spin_lock s' = rq_spin_lock s" "rq_ptr s' = rq_ptr s"
    using pn(1) by (auto simp: rq_frame_def s'_def rq_remove_def Let_def rn_data_def upd_rqn_def split: option.splits)
  have tp: "set (tl (as @ [p])) \<subseteq> set as \<union> {p}" by (cases as) auto
  have "seg s' (as @ [p]) = seg s (as @ [p])"
    using d nx tp by (intro seg_cong) (auto simp: sel split: list.splits)
  moreover have "seg s' (p # zs) \<and> rn_next (rqn s' (last (p # zs))) = None"
  proof (cases zs)
    case Nil
    with nx ne show ?thesis by (simp add: sel)
  next
    case (Cons z zs')
    have "seg s' (z # zs') = seg s (z # zs')"
      using d nx Cons by (intro seg_cong) (auto simp: sel dest: in_set_butlastD)
    moreover have "last (z # zs') \<in> set zs" unfolding Cons by simp
    ultimately show ?thesis using pn(2) nx ne lst Cons by (auto simp: sel)
  qed
  moreover have L': "h # ys @ zs = as @ p # zs" using ap by (metis append.assoc append_Cons append_Nil)
  ultimately have "seg s' (h # ys @ zs)" "rn_next (rqn s' (last (h # ys @ zs))) = None"
    using s3 seg_split[of s' as p zs] unfolding L' by auto
  then have "rq_rep s' h (ys @ zs)" using assms fr by (auto simp: rq_rep_def)
  with eq fr show ?thesis using that by blast
qed


subsection \<open>Choosing the VM with the earliest virtual deadline\<close>

definition ready :: "sched \<Rightarrow> nat \<Rightarrow> bool" where
  "ready s n \<longleftrightarrow> 0 < rn_nr_vcpu_ready (rqn s n)"

fun pick :: "sched \<Rightarrow> nat list \<Rightarrow> nat option \<Rightarrow> nat option" where
  "pick s [] t = t"
| "pick s (n # ns) t = pick s ns (if better s n t then Some n else t)"

lemma p_scan_pick:
  assumes "seg s ns" "ns \<noteq> [] \<Longrightarrow> rn_next (rqn s (last ns)) = None" "length ns \<le> k"
  shows "p_scan k s (case ns of [] \<Rightarrow> None | n # _ \<Rightarrow> Some n) t = Inr (pick s ns t)"
  using assms
proof (induction ns arbitrary: k t)
  case Nil
  then show ?case by simp
next
  case (Cons n ns)
  then obtain k' where k: "k = Suc k'" by (cases k) auto
  have "rn_next (rqn s n) = (case ns of [] \<Rightarrow> None | n # _ \<Rightarrow> Some n)"
    using Cons.prems by (cases ns) auto
  moreover have "seg s ns" using Cons.prems(1) by (cases ns) auto
  ultimately show ?case
    using Cons.IH[of k' "if better s n t then Some n else t"] Cons.prems k by (cases ns) auto
qed

lemma pick_Some:
  "pick s ns (Some t) = Some u \<Longrightarrow> ready s t \<Longrightarrow>
   ready s u \<and> u \<in> insert t (set ns) \<and> rn_vdeadline (rqn s u) \<le> rn_vdeadline (rqn s t) \<and>
   (\<forall>n \<in> set ns. ready s n \<longrightarrow> rn_vdeadline (rqn s u) \<le> rn_vdeadline (rqn s n))"
proof (induction ns arbitrary: t)
  case Nil
  then show ?case by simp
next
  case (Cons n ns)
  show ?case
  proof (cases "better s n (Some t)")
    case True
    with Cons.prems have "pick s ns (Some n) = Some u" "ready s n"
      "rn_vdeadline (rqn s n) < rn_vdeadline (rqn s t)" by (auto simp: better_def ready_def)
    with Cons.IH[of n] show ?thesis by auto
  next
    case False
    with Cons.prems have "pick s ns (Some t) = Some u" by simp
    with Cons.IH[of t] Cons.prems False show ?thesis by (auto simp: better_def ready_def)
  qed
qed

lemma pick_not_None: "\<exists>u. pick s ns (Some t) = Some u"
  by (induction ns arbitrary: t) auto

lemma pick_spec:
  "case pick s ns None of
     None \<Rightarrow> \<forall>n \<in> set ns. \<not> ready s n
   | Some u \<Rightarrow> u \<in> set ns \<and> ready s u \<and> (\<forall>n \<in> set ns. ready s n \<longrightarrow> rn_vdeadline (rqn s u) \<le> rn_vdeadline (rqn s n))"
proof (induction ns)
  case Nil
  then show ?case by simp
next
  case (Cons n ns)
  show ?case
  proof (cases "ready s n")
    case True
    obtain u where "pick s ns (Some n) = Some u" using pick_not_None by blast
    with pick_Some[OF this True] True show ?thesis by (auto simp: better_def ready_def)
  next
    case False
    with Cons show ?thesis by (auto simp: better_def ready_def split: option.splits)
  qed
qed

lemma rq_frame_ready:
  "rq_frame s s' \<Longrightarrow> ready s' n \<longleftrightarrow> ready s n"
  "rq_frame s s' \<Longrightarrow> rn_vdeadline (rqn s' n) = rn_vdeadline (rqn s n)"
  unfolding rq_frame_def ready_def using rn_data_sel by metis+

lemma rq_frame_vm: "rq_frame s s' \<Longrightarrow> rn_vm (rqn s' n) = rn_vm (rqn s n)"
  unfolding rq_frame_def using rn_data_sel by metis

lemma rq_rep_lock_upd:
  "rq_rep s h xs \<Longrightarrow> ticket l = next_tk l \<Longrightarrow> rq_rep (s\<lparr>rq_spin_lock := l\<rparr>) h xs"
proof -
  assume a: "rq_rep s h xs" "ticket l = next_tk l"
  have "seg (s\<lparr>rq_spin_lock := l\<rparr>) (h # xs) = seg s (h # xs)" by (rule seg_cong) auto
  with a show ?thesis by (simp add: rq_rep_def)
qed

lemma rq_frame_lock: "rq_frame s s' \<Longrightarrow> rq_frame s (s'\<lparr>rq_spin_lock := l\<rparr>)"
  unfolding rq_frame_def by (cases s'; cases s) simp

lemma p_task_lookup_spec:
  assumes "rq_rep s h xs"
  obtains t s' where "p_task_lookup s = Inr (t, s')" "rq_frame s s'"
    "t = pick s xs None" "case t of None \<Rightarrow> rq_rep s' h xs | Some u \<Rightarrow> rq_rep s' h (remove1 u xs)"
proof -
  obtain l where l: "spin_lock (rq_spin_lock s) = Inr l" "ticket (spin_unlock l) = next_tk (spin_unlock l)"
    using rq_rep_lock[OF assms] by blast
  have d: "distinct (h # xs)" "set (h # xs) \<subseteq> {..<RNODE_NUM}" using assms by (simp_all add: rq_rep_def)
  have "card (set (h # xs)) \<le> RNODE_NUM" using card_mono[OF _ d(2)] by simp
  then have len: "length xs \<le> RNODE_NUM" using d(1) distinct_card[OF d(1)] by simp
  have "seg s xs" "xs \<noteq> [] \<Longrightarrow> rn_next (rqn s (last xs)) = None"
    using assms by (cases xs; simp add: rq_rep_def)+
  from p_scan_pick[OF this len] have scan:
    "p_scan RNODE_NUM s (rn_next (rqn s h)) None = Inr (pick s xs None)"
    using rq_next_head[OF assms] by simp
  have h: "rq_ptr s = Some h" using assms by (simp add: rq_rep_def)
  show ?thesis
  proof (cases "pick s xs None")
    case None
    let ?s = "s\<lparr>rq_spin_lock := spin_unlock l\<rparr>"
    have "p_task_lookup s = Inr (None, ?s)" using l(1) h scan None by (simp add: p_task_lookup_def)
    moreover have "rq_frame s ?s" by (simp add: rq_frame_def)
    ultimately show ?thesis using that[of None ?s] None rq_rep_lock_upd[OF assms l(2)] by simp
  next
    case (Some u)
    with pick_spec[where s = s and ns = xs] have "u \<in> set xs" by simp
    then obtain ys zs where x: "xs = ys @ u # zs" "u \<notin> set ys" by (meson split_list_first)
    from rq_remove_spec[of s h ys u zs] assms x obtain s1 where
      s1: "rq_remove u s = Inr s1" "rq_rep s1 h (ys @ zs)" "rq_frame s s1" by metis
    let ?s = "s1\<lparr>rq_spin_lock := spin_unlock l\<rparr>"
    have "p_task_lookup s = Inr (Some u, ?s)" using l(1) h scan Some s1(1) by (simp add: p_task_lookup_def)
    moreover have "remove1 u xs = ys @ zs" using x by (simp add: remove1_append)
    ultimately have "case Some u of None \<Rightarrow> rq_rep ?s h xs | Some u \<Rightarrow> rq_rep ?s h (remove1 u xs)"
      using rq_rep_lock_upd[OF s1(2) l(2)] by simp
    with \<open>p_task_lookup s = Inr (Some u, ?s)\<close> rq_frame_lock[OF s1(3)] Some[symmetric]
    show ?thesis by (rule that)
  qed
qed

subsection \<open>Pickers by key\<close>

text \<open>
  The contract of a run queue: a pick takes an eligible element with the least key out of the
  queue and leaves the others and their keys alone. A user that keeps picking obtains all
  eligible elements, each once, in the order of their keys.
\<close>

fun pick_n :: "('s \<Rightarrow> ('a option \<times> 's) res) \<Rightarrow> nat \<Rightarrow> 's \<Rightarrow> ('a option list \<times> 's) res" where
  "pick_n pk 0 s = Inr ([], s)"
| "pick_n pk (Suc n) s = bindr (pk s) (\<lambda>(t, s). bindr (pick_n pk n s) (\<lambda>(ts, s). Inr (t # ts, s)))"

locale key_picker =
  fixes rep :: "'s \<Rightarrow> 'a list \<Rightarrow> bool" and elig :: "'s \<Rightarrow> 'a \<Rightarrow> bool"
    and key :: "'s \<Rightarrow> 'a \<Rightarrow> 'k :: linorder" and pk :: "'s \<Rightarrow> ('a option \<times> 's) res"
  assumes pk_some: "rep s xs \<Longrightarrow> filter (elig s) xs \<noteq> [] \<Longrightarrow>
      \<exists>u s'. pk s = Inr (Some u, s') \<and> u \<in> set (filter (elig s) xs) \<and>
        (\<forall>y \<in> set (filter (elig s) xs). key s u \<le> key s y) \<and> rep s' (remove1 u xs) \<and>
        elig s' = elig s \<and> key s' = key s"
begin

lemma pick_n_sorted:
  "rep s xs \<Longrightarrow> n = length (filter (elig s) xs) \<Longrightarrow>
   \<exists>ts s'. pick_n pk n s = Inr (map Some ts, s') \<and> sorted (map (key s) ts) \<and>
     mset ts = mset (filter (elig s) xs) \<and> rep s' (filter (\<lambda>x. \<not> elig s x) xs)"
proof (induction n arbitrary: s xs)
  case 0
  then have "filter (\<lambda>x. \<not> elig s x) xs = xs" by (auto simp: filter_id_conv filter_empty_conv)
  with 0 show ?case by (intro exI[of _ "[]"] exI[of _ s]) simp
next
  case (Suc n)
  then have "filter (elig s) xs \<noteq> []" by auto
  from pk_some[OF Suc.prems(1) this] obtain u s1 where
    u: "pk s = Inr (Some u, s1)" "u \<in> set xs" "elig s u"
    "\<forall>y \<in> set (filter (elig s) xs). key s u \<le> key s y" "rep s1 (remove1 u xs)"
    "elig s1 = elig s" "key s1 = key s" by auto
  have fl: "filter (elig s) (remove1 u xs) = remove1 u (filter (elig s) xs)"
    "filter (\<lambda>x. \<not> elig s x) (remove1 u xs) = filter (\<lambda>x. \<not> elig s x) xs"
    using u(3) by (simp_all add: filter_remove1 remove1_idem)
  have "n = length (filter (elig s1) (remove1 u xs))"
    using Suc.prems(2) u(2,3,6) fl(1) by (simp add: length_remove1)
  from Suc.IH[OF u(5) this] obtain ts s' where
    ts: "pick_n pk n s1 = Inr (map Some ts, s')" "sorted (map (key s) ts)"
    "mset ts = mset (remove1 u (filter (elig s) xs))" "rep s' (filter (\<lambda>x. \<not> elig s x) xs)"
    using u(6,7) fl by auto
  have "set ts \<subseteq> set (filter (elig s) xs)"
    unfolding mset_eq_setD[OF ts(3)] by (rule set_remove1_subset)
  then have "sorted (map (key s) (u # ts))" using ts(2) u(4) by auto
  moreover have "mset (u # ts) = mset (filter (elig s) xs)"
    using ts(3) u(2,3) by simp
  moreover have "pick_n pk (Suc n) s = Inr (map Some (u # ts), s')" using u(1) ts(1) by simp
  ultimately show ?case using ts(4) by blast
qed

end

interpretation bfs: key_picker "\<lambda>s xs. rq_rep s h xs" ready "\<lambda>s n. rn_vdeadline (rqn s n)" p_task_lookup for h
proof
  fix s xs assume a: "rq_rep s h xs" "filter (ready s) xs \<noteq> []"
  obtain t s' where p: "p_task_lookup s = Inr (t, s')" "rq_frame s s'" "t = pick s xs None"
    "case t of None \<Rightarrow> rq_rep s' h xs | Some u \<Rightarrow> rq_rep s' h (remove1 u xs)"
    using p_task_lookup_spec[OF a(1)] by blast
  from a(2) have "\<exists>n \<in> set xs. ready s n" by (auto simp: filter_empty_conv)
  with pick_spec[where s = s and ns = xs] p(3) obtain u where u: "t = Some u" "u \<in> set xs" "ready s u"
    "\<forall>n \<in> set xs. ready s n \<longrightarrow> rn_vdeadline (rqn s u) \<le> rn_vdeadline (rqn s n)"
    by (auto split: option.splits)
  moreover have "ready s' = ready s" "(\<lambda>n. rn_vdeadline (rqn s' n)) = (\<lambda>n. rn_vdeadline (rqn s n))"
    using rq_frame_ready[OF p(2)] by auto
  ultimately show "\<exists>u s'. p_task_lookup s = Inr (Some u, s') \<and> u \<in> set (filter (ready s) xs) \<and>
        (\<forall>y \<in> set (filter (ready s) xs). rn_vdeadline (rqn s u) \<le> rn_vdeadline (rqn s y)) \<and>
        rq_rep s' h (remove1 u xs) \<and> ready s' = ready s \<and>
        (\<lambda>n. rn_vdeadline (rqn s' n)) = (\<lambda>n. rn_vdeadline (rqn s n))"
    using p(1,4) by auto
qed


subsection \<open>The multi-level queue as lists\<close>

fun vpath :: "sched \<Rightarrow> nat option \<Rightarrow> nat list \<Rightarrow> bool" where
  "vpath s p [] \<longleftrightarrow> p = None"
| "vpath s p (x # xs) \<longleftrightarrow> p = Some x \<and> vpath s (vn_next (vpn s x)) xs"

lemma vpath_cong:
  "(\<forall>x \<in> set xs. vn_next (vpn s' x) = vn_next (vpn s x)) \<Longrightarrow> vpath s' p xs = vpath s p xs"
  by (induction s p xs rule: vpath.induct) auto

lemma vq_tail_last:
  "vpath s (Some f) xs \<Longrightarrow> length xs \<le> k \<Longrightarrow> vq_tail k s f = Inr (last xs)"
proof (induction xs arbitrary: f k)
  case Nil
  then show ?case by simp
next
  case (Cons x xs)
  then obtain k' where "k = Suc k'" by (cases k) auto
  with Cons show ?case by (cases xs) auto
qed

lemma vpath_snoc:
  assumes "vpath s p xs" "xs \<noteq> []" "distinct xs" "v \<notin> set xs"
    and "\<And>x. x \<noteq> last xs \<Longrightarrow> x \<noteq> v \<Longrightarrow> vn_next (vpn s' x) = vn_next (vpn s x)"
    and "vn_next (vpn s' (last xs)) = Some v" "vn_next (vpn s' v) = None"
  shows "vpath s' p (xs @ [v])"
  using assms
proof (induction xs arbitrary: p)
  case Nil
  then show ?case by simp
next
  case (Cons x xs)
  show ?case
  proof (cases "xs = []")
    case True
    with Cons.prems show ?thesis by simp
  next
    case False
    then have "last (x # xs) = last xs" "last xs \<in> set xs" by simp_all
    then have "x \<noteq> last (x # xs)" "x \<noteq> v" using Cons.prems(3,4) by auto
    then have "vn_next (vpn s' x) = vn_next (vpn s x)" by (rule Cons.prems(5))
    with \<open>last (x # xs) = last xs\<close> Cons.prems False Cons.IH[of "vn_next (vpn s x)"]
    show ?thesis by simp
  qed
qed

text \<open>\<open>qs i\<close> lists the vCPU nodes waiting at level \<open>i\<close> of run queue node \<open>r\<close>.\<close>

definition mq_rep :: "sched \<Rightarrow> nat \<Rightarrow> (nat \<Rightarrow> nat list) \<Rightarrow> bool" where
  "mq_rep s r qs \<longleftrightarrow>
     (\<forall>i < BMQ_BITMAP_SIZE. vpath s (mq s (rn_mqb (rqn s r) + i)) (qs i) \<and>
        distinct (qs i) \<and> set (qs i) \<subseteq> {..<VNODE_NUM} \<and> (bit (rn_bitmap (rqn s r)) i \<longleftrightarrow> qs i \<noteq> [])) \<and>
     (\<forall>i < BMQ_BITMAP_SIZE. \<forall>j < BMQ_BITMAP_SIZE. i \<noteq> j \<longrightarrow> set (qs i) \<inter> set (qs j) = {})"

lemma lsr_and_one: "i < 64 \<Longrightarrow> lsr (w :: u64) i AND 1 = 1 \<longleftrightarrow> bit w i"
  by (simp add: lsr_def bit_iff_and_drop_bit_eq_1)

lemma length_level:
  assumes "distinct xs" "set xs \<subseteq> {..<VNODE_NUM}"
  shows "length xs \<le> VNODE_NUM"
  using card_mono[OF _ assms(2)] distinct_card[OF assms(1)] by simp

text \<open>Insertion appends to the level of the node's priority and counts one more ready vCPU.\<close>

lemma v_task_insert_spec:
  assumes "mq_rep s r qs" "unat (vn_prio (vpn s v)) = p" "p < BMQ_BITMAP_SIZE" "v < VNODE_NUM"
    and "\<And>i. i < BMQ_BITMAP_SIZE \<Longrightarrow> v \<notin> set (qs i)"
  obtains s' where "v_task_insert v r s = Inr s'" "mq_rep s' r (qs(p := qs p @ [v]))"
    "rn_nr_vcpu_ready (rqn s' r) = rn_nr_vcpu_ready (rqn s r) + 1"
    "\<And>n. n \<noteq> r \<Longrightarrow> rqn s' n = rqn s n"
    "\<And>u. (vpn s' u)\<lparr>vn_next := None\<rparr> = (vpn s u)\<lparr>vn_next := None\<rparr>"
    "rq_ptr s' = rq_ptr s" "rq_spin_lock s' = rq_spin_lock s"
proof -
  note rep = assms(1)[unfolded mq_rep_def]
  let ?q = "rn_mqb (rqn s r) + p"
  have lev: "vpath s (mq s (rn_mqb (rqn s r) + i)) (qs i)" "distinct (qs i)" "set (qs i) \<subseteq> {..<VNODE_NUM}"
    "bit (rn_bitmap (rqn s r)) i \<longleftrightarrow> qs i \<noteq> []" if "i < BMQ_BITMAP_SIZE" for i
    using rep that by simp_all
  have dj: "set (qs i) \<inter> set (qs j) = {}" if "i < BMQ_BITMAP_SIZE" "j < BMQ_BITMAP_SIZE" "i \<noteq> j" for i j
    using rep that by simp
  define t where "t = last (qs p)"
  have res: "\<exists>s'. v_task_insert v r s = Inr s' \<and> rq_ptr s' = rq_ptr s \<and> rq_spin_lock s' = rq_spin_lock s \<and>
      rqn s' = (rqn s)(r := (rqn s r)\<lparr>rn_bitmap := rn_bitmap (rqn s r) OR lsl 1 p,
        rn_nr_vcpu_ready := rn_nr_vcpu_ready (rqn s r) + 1\<rparr>) \<and>
      (if qs p = [] then mq s' = (mq s)(?q := Some v) \<and> vpn s' = (vpn s)(v := (vpn s v)\<lparr>vn_next := None\<rparr>)
       else mq s' = mq s \<and>
         vpn s' = (vpn s)(t := (vpn s t)\<lparr>vn_next := Some v\<rparr>, v := (vpn s v)\<lparr>vn_next := None\<rparr>))"
  proof (cases "qs p")
    case Nil
    with lev(1)[OF assms(3)] have "mq s ?q = None" by simp
    then show ?thesis using assms(2) Nil
      by (auto simp: v_task_insert_def Let_def upd_rqn_def upd_vpn_def set_mq_def)
  next
    case (Cons f fs)
    with lev(1)[OF assms(3)] have f: "mq s ?q = Some f" by simp
    let ?s = "upd_rqn r (\<lambda>x. x\<lparr>rn_bitmap := rn_bitmap x OR lsl 1 p\<rparr>) s"
    have "vpath ?s (Some f) (qs p) = vpath s (Some f) (qs p)" by (rule vpath_cong) simp
    then have "vq_tail VNODE_NUM ?s f = Inr t"
      using vq_tail_last[of ?s f "qs p" VNODE_NUM] length_level lev[OF assms(3)] f t_def by auto
    moreover have "v \<noteq> t" using assms(5)[OF assms(3)] Cons by (auto simp: t_def)
    ultimately show ?thesis using assms(2) Cons f
      by (auto simp: v_task_insert_def Let_def upd_rqn_def upd_vpn_def)
  qed
  then obtain s' where fr: "rq_ptr s' = rq_ptr s" "rq_spin_lock s' = rq_spin_lock s"
    and s': "v_task_insert v r s = Inr s'"
    "rqn s' = (rqn s)(r := (rqn s r)\<lparr>rn_bitmap := rn_bitmap (rqn s r) OR lsl 1 p,
        rn_nr_vcpu_ready := rn_nr_vcpu_ready (rqn s r) + 1\<rparr>)"
    "if qs p = [] then mq s' = (mq s)(?q := Some v) \<and> vpn s' = (vpn s)(v := (vpn s v)\<lparr>vn_next := None\<rparr>)
     else mq s' = mq s \<and>
       vpn s' = (vpn s)(t := (vpn s t)\<lparr>vn_next := Some v\<rparr>, v := (vpn s v)\<lparr>vn_next := None\<rparr>)" by blast
  have tin: "qs p \<noteq> [] \<Longrightarrow> t \<in> set (qs p)" by (simp add: t_def)
  have path: "vpath s' (mq s' (rn_mqb (rqn s' r) + i)) ((qs(p := qs p @ [v])) i)" if i: "i < BMQ_BITMAP_SIZE" for i
  proof (cases "i = p")
    case False
    have "t \<notin> set (qs i)" if "qs p \<noteq> []" using dj[OF i assms(3) False] tin[OF that] by blast
    then have "vpath s' (mq s (rn_mqb (rqn s r) + i)) (qs i) = vpath s (mq s (rn_mqb (rqn s r) + i)) (qs i)"
      using s'(3) assms(5)[OF i] by (intro vpath_cong) (auto split: if_splits)
    moreover have "mq s' (rn_mqb (rqn s' r) + i) = mq s (rn_mqb (rqn s r) + i)"
      using s'(2,3) False by (auto split: if_splits)
    ultimately show ?thesis using lev(1)[OF i] False by simp
  next
    case True
    show ?thesis
    proof (cases "qs p = []")
      case Nil: True
      with True s'(2,3) show ?thesis by simp
    next
      case ne: False
      have "v \<noteq> t" using tin[OF ne] assms(5)[OF assms(3)] by auto
      then have "vpath s' (mq s ?q) (qs p @ [v])"
        using s'(3) ne assms(5)[OF assms(3)] lev[OF assms(3)]
        by (intro vpath_snoc[where s = s]) (auto simp: t_def)
      with True ne s'(2,3) show ?thesis by simp
    qed
  qed
  have bits: "bit (rn_bitmap (rqn s' r)) i \<longleftrightarrow> (qs(p := qs p @ [v])) i \<noteq> []" if i: "i < BMQ_BITMAP_SIZE" for i
    using s'(2) lev(4)[OF i] assms(3) by (simp add: bit_or_iff bit_lsl_one)
  have "mq_rep s' r (qs(p := qs p @ [v]))"
    unfolding mq_rep_def
  proof (intro conjI allI impI)
    fix i assume i: "i < BMQ_BITMAP_SIZE"
    show "vpath s' (mq s' (rn_mqb (rqn s' r) + i)) ((qs(p := qs p @ [v])) i)" by (rule path[OF i])
    show "bit (rn_bitmap (rqn s' r)) i \<longleftrightarrow> (qs(p := qs p @ [v])) i \<noteq> []" by (rule bits[OF i])
    show "distinct ((qs(p := qs p @ [v])) i)" "set ((qs(p := qs p @ [v])) i) \<subseteq> {..<VNODE_NUM}"
      using lev(2,3)[OF i] assms(4) assms(5)[OF i] by auto
    fix j assume j: "j < BMQ_BITMAP_SIZE" "i \<noteq> j"
    show "set ((qs(p := qs p @ [v])) i) \<inter> set ((qs(p := qs p @ [v])) j) = {}"
      using dj[OF i j] assms(5)[OF i] assms(5)[OF j(1)] j(2) by auto
  qed
  moreover have "(vpn s' u)\<lparr>vn_next := None\<rparr> = (vpn s u)\<lparr>vn_next := None\<rparr>" for u
    using s'(3) by (auto split: if_splits)
  ultimately show ?thesis using s'(1) by (intro that[of s']) (simp_all add: s'(2) fr)
qed


text \<open>Lookup takes the front of the lowest non-empty level.\<close>

definition v_take :: "nat \<Rightarrow> nat \<Rightarrow> sched \<Rightarrow> (nat option \<times> sched) res" where
  "v_take i r s = bindr (deref (mq s (rn_mqb (rqn s r) + i))) (\<lambda>v.
        let s = (if vn_next (vpn s v) = None
                 then upd_rqn r (\<lambda>x. x\<lparr>rn_bitmap := rn_bitmap x AND NOT (lsl 1 i)\<rparr>) s else s);
            s = set_mq (rn_mqb (rqn s r) + i) (vn_next (vpn s v)) s;
            s = upd_rqn r (\<lambda>x. x\<lparr>rn_nr_vcpu_ready := rn_nr_vcpu_ready x - 1\<rparr>) s
        in Inr (Some v, upd_vpn v (\<lambda>x. x\<lparr>vn_next := None\<rparr>) s))"

lemma v_scan_find:
  "set is \<subseteq> {..<64} \<Longrightarrow> v_scan is r s =
    (case find (bit (rn_bitmap (rqn s r))) is of None \<Rightarrow> Inr (None, s) | Some i \<Rightarrow> v_take i r s)"
  by (induction "is") (auto simp: lsr_and_one v_take_def)

lemma v_take_spec:
  assumes "mq_rep s r qs" "i < BMQ_BITMAP_SIZE" "qs i = v # vs"
  obtains s' where "v_take i r s = Inr (Some v, s')" "mq_rep s' r (qs(i := vs))"
    "rn_nr_vcpu_ready (rqn s' r) = rn_nr_vcpu_ready (rqn s r) - 1"
    "\<And>n. n \<noteq> r \<Longrightarrow> rqn s' n = rqn s n"
proof -
  have lev: "vpath s (mq s (rn_mqb (rqn s r) + j)) (qs j)" "distinct (qs j)" "set (qs j) \<subseteq> {..<VNODE_NUM}"
    "bit (rn_bitmap (rqn s r)) j \<longleftrightarrow> qs j \<noteq> []" if "j < BMQ_BITMAP_SIZE" for j
    using assms(1) that by (simp_all add: mq_rep_def)
  have dj: "set (qs k) \<inter> set (qs j) = {}" if "k < BMQ_BITMAP_SIZE" "j < BMQ_BITMAP_SIZE" "k \<noteq> j" for k j
    using assms(1) that by (simp add: mq_rep_def)
  let ?q = "rn_mqb (rqn s r) + i"
  have q: "mq s ?q = Some v" "vpath s (vn_next (vpn s v)) vs"
    using lev(1)[OF assms(2)] assms(3) by simp_all
  then have nx: "vn_next (vpn s v) = None \<longleftrightarrow> vs = []" by (cases vs) auto
  obtain s' where s': "v_take i r s = Inr (Some v, s')"
    "mq s' = (mq s)(?q := vn_next (vpn s v))" "vpn s' = (vpn s)(v := (vpn s v)\<lparr>vn_next := None\<rparr>)"
    "\<And>n. n \<noteq> r \<Longrightarrow> rqn s' n = rqn s n" "rn_mqb (rqn s' r) = rn_mqb (rqn s r)"
    "rn_bitmap (rqn s' r) = (if vs = [] then rn_bitmap (rqn s r) AND NOT (lsl 1 i) else rn_bitmap (rqn s r))"
    "rn_nr_vcpu_ready (rqn s' r) = rn_nr_vcpu_ready (rqn s r) - 1"
  proof
    show "v_take i r s = Inr (Some v, snd (projr (v_take i r s)))"
      using q by (simp add: v_take_def Let_def)
  qed (use q nx in \<open>auto simp: v_take_def Let_def fun_eq_iff\<close>)
  have path: "vpath s' (mq s' (rn_mqb (rqn s' r) + j)) ((qs(i := vs)) j)" if j: "j < BMQ_BITMAP_SIZE" for j
  proof (cases "j = i")
    case True
    have "v \<notin> set vs" using lev(2)[OF assms(2)] assms(3) by simp
    then have "vpath s' (vn_next (vpn s v)) vs = vpath s (vn_next (vpn s v)) vs"
      using s'(3) by (intro vpath_cong) auto
    with True q(2) s'(2,5) show ?thesis by simp
  next
    case False
    have "v \<notin> set (qs j)" using dj[OF assms(2) j] False assms(3) by auto
    then have "vpath s' (mq s (rn_mqb (rqn s r) + j)) (qs j) = vpath s (mq s (rn_mqb (rqn s r) + j)) (qs j)"
      using s'(3) by (intro vpath_cong) auto
    with False lev(1)[OF j] s'(2,5) show ?thesis by simp
  qed
  have bits: "bit (rn_bitmap (rqn s' r)) j \<longleftrightarrow> (qs(i := vs)) j \<noteq> []" if j: "j < BMQ_BITMAP_SIZE" for j
    using s'(6) lev(4)[OF j] lev(4)[OF assms(2)] assms(2,3) j
    by (auto simp: bit_and_iff bit_not_iff bit_lsl_one)
  have "mq_rep s' r (qs(i := vs))"
    unfolding mq_rep_def
  proof (intro conjI allI impI)
    fix j assume j: "j < BMQ_BITMAP_SIZE"
    show "vpath s' (mq s' (rn_mqb (rqn s' r) + j)) ((qs(i := vs)) j)" by (rule path[OF j])
    show "bit (rn_bitmap (rqn s' r)) j \<longleftrightarrow> (qs(i := vs)) j \<noteq> []" by (rule bits[OF j])
    show "distinct ((qs(i := vs)) j)" "set ((qs(i := vs)) j) \<subseteq> {..<VNODE_NUM}"
      using lev(2,3)[OF j] lev(2,3)[OF assms(2)] assms(3) by auto
    fix k assume k: "k < BMQ_BITMAP_SIZE" "j \<noteq> k"
    show "set ((qs(i := vs)) j) \<inter> set ((qs(i := vs)) k) = {}"
      using dj[OF j k] assms(3) k(2) by auto
  qed
  with s'(1,4,7) show ?thesis using that by blast
qed

definition first_level :: "(nat \<Rightarrow> nat list) \<Rightarrow> nat option" where
  "first_level qs = find (\<lambda>i. qs i \<noteq> []) [0..<BMQ_BITMAP_SIZE]"

lemma find_cong_set: "(\<forall>x \<in> set xs. P x = Q x) \<Longrightarrow> find P xs = find Q xs"
  by (induction xs) auto

lemma v_task_lookup_spec:
  assumes "mq_rep s r qs"
  shows "v_task_lookup r s = (case first_level qs of None \<Rightarrow> Inr (None, s) | Some i \<Rightarrow> v_take i r s)"
proof -
  have "find (bit (rn_bitmap (rqn s r))) [0..<BMQ_BITMAP_SIZE] = first_level qs"
    unfolding first_level_def
    by (rule find_cong_set) (use assms in \<open>auto simp: mq_rep_def\<close>)
  moreover have "set [0..<BMQ_BITMAP_SIZE] \<subseteq> {..<64}" by auto
  ultimately show ?thesis unfolding v_task_lookup_def by (simp only: v_scan_find)
qed

lemma concat_first_level:
  assumes "first_level qs = Some i"
  obtains v vs where "qs i = v # vs" "i < BMQ_BITMAP_SIZE"
    "concat (map qs [0..<BMQ_BITMAP_SIZE]) = v # concat (map (qs(i := vs)) [0..<BMQ_BITMAP_SIZE])"
proof -
  from assms obtain k where k: "k < BMQ_BITMAP_SIZE" "i = k" "qs k \<noteq> []" "\<forall>j < k. qs j = []"
    by (auto simp: first_level_def find_Some_iff nth_append simp del: upt_Suc)
  then obtain v vs where v: "qs i = v # vs" by (cases "qs i") auto
  have "[0..<BMQ_BITMAP_SIZE] = [0..<i] @ i # [Suc i..<BMQ_BITMAP_SIZE]"
    using k(1,2) by (metis add_0 le_add1 less_imp_le_nat upt_add_eq_append upt_conv_Cons le_add_diff_inverse)
  then have split: "concat (map f [0..<BMQ_BITMAP_SIZE]) =
      concat (map f [0..<i]) @ f i @ concat (map f [Suc i..<BMQ_BITMAP_SIZE])" for f :: "nat \<Rightarrow> nat list"
    by (simp only: map_append concat_append list.map concat.simps)
  have "concat (map qs [0..<i]) = []" "concat (map (qs(i := vs)) [0..<i]) = []"
    using k by auto
  moreover have "map (qs(i := vs)) [Suc i..<BMQ_BITMAP_SIZE] = map qs [Suc i..<BMQ_BITMAP_SIZE]"
    by (rule map_cong) auto
  ultimately have "concat (map qs [0..<BMQ_BITMAP_SIZE]) = v # concat (map (qs(i := vs)) [0..<BMQ_BITMAP_SIZE])"
    by (simp only: split v fun_upd_same append_Nil append_Cons)
  with v k(1,2) show ?thesis using that by blast
qed


lemma first_level_None: "first_level qs = None \<Longrightarrow> concat (map qs [0..<BMQ_BITMAP_SIZE]) = []"
  by (auto simp: first_level_def find_None_iff simp del: upt_Suc)

subsection \<open>A concrete scheduler state\<close>

definition sample_rqnode :: "u64 \<Rightarrow> nat option \<Rightarrow> nat option \<Rightarrow> u64 \<Rightarrow> rqnode" where
  "sample_rqnode d p n b = \<lparr>rn_vm = Some 1, rn_nr_vcpu_ready = 1, rn_prio = 5, rn_vdeadline_diff = 6343,
     rn_vdeadline = d, rn_prev = p, rn_next = n, rn_bitmap = b, rn_mqb = 0, rn_run_vnode = None,
     rn_state = TASK_READY, rn_time_slice = 0, rn_need_resched = 1, rn_vq_ptr = None\<rparr>"

definition sample_vnode :: "int \<Rightarrow> vnode" where
  "sample_vnode a = \<lparr>vn_cur = (1, 0), vn_static_prio = 5, vn_prio_adj = a, vn_prio = 5, vn_next = None,
     vn_state = TASK_READY, vn_time_slice = 0, vn_need_resched = 1\<rparr>"

definition sample_sched :: sched where
  "sample_sched = \<lparr>
     rqn = (\<lambda>_. sample_rqnode 0 None None 0)(0 := sample_rqnode 0 None (Some 2) 0,
       2 := sample_rqnode 50 (Some 0) (Some 1) 0, 1 := sample_rqnode 40 (Some 2) None 0x20),
     vpn = (\<lambda>_. sample_vnode 0), mq = (\<lambda>_. None)(5 := Some 4),
     rqnode_mem_bitmap = (\<lambda>_. 0xF), vpnode_mem_bitmap = (\<lambda>_. 0x1F),
     rqnode_memory_lock = SPINLOCK_INITVAL, vpnode_memory_lock = SPINLOCK_INITVAL,
     rq_spin_lock = SPINLOCK_INITVAL, rq_ptr = Some 0, sc_ratio = (\<lambda>_. 128), bfs_clock = 1000,
     io_sleep_flag = 0, sleep_vnode = None, with_sleep_vnode_rqnode = None,
     cpu_rqnode = (\<lambda>_. Some 3), cpu_vcpu = (\<lambda>_. None), cpu_flag = (\<lambda>_. 0), vttbr_vm = (\<lambda>_. None),
     vm_nr_cpus = (\<lambda>_. 4), vm_master = (\<lambda>_. 0), vcpu_pid = (\<lambda>_. 0),
     vcpu_regs = (\<lambda>_. \<lparr>x_regs = (\<lambda>_. 0), spsr_el2 = 0, elr_el2 = 0, sp_el1 = 0\<rparr>)\<rparr>"

lemma sample_rq_rep: "rq_rep sample_sched 0 [2, 1]"
  by (simp add: rq_rep_def sample_sched_def sample_rqnode_def SPINLOCK_INITVAL_def)

lemma sample_mq_rep: "mq_rep sample_sched 1 ((\<lambda>_. [])(5 := [4]))"
proof -
  have "(0x20 :: u64) = 2 ^ 5" by simp
  then have "\<not> bit (0x20 :: u64) i" if "i \<noteq> 5" for i using that by (simp only: bit_exp_iff) auto
  then show ?thesis by (auto simp: mq_rep_def sample_sched_def sample_rqnode_def sample_vnode_def)
qed

subsection \<open>Properties\<close>

text \<open>Picking from the run queue until no VM with ready vCPUs is left yields every such VM exactly
  once, in the order of the virtual deadlines, and leaves the other VMs in the queue.\<close>

theorem p_task_lookup_deadline_order:
  assumes "rq_rep s h xs"
  shows "\<exists>ts s'. pick_n p_task_lookup (length (filter (ready s) xs)) s = Inr (map Some ts, s') \<and>
     sorted (map (\<lambda>n. rn_vdeadline (rqn s n)) ts) \<and> mset ts = mset (filter (ready s) xs) \<and>
     rq_rep s' h (filter (\<lambda>n. \<not> ready s n) xs)"
  by (rule bfs.pick_n_sorted[OF assms refl])

theorem p_task_lookup_deadline_order_witness:
  "\<exists>ts s'. pick_n p_task_lookup (length (filter (ready sample_sched) [2, 1])) sample_sched = Inr (map Some ts, s') \<and>
     sorted (map (\<lambda>n. rn_vdeadline (rqn sample_sched n)) ts) \<and> mset ts = mset (filter (ready sample_sched) [2, 1]) \<and>
     rq_rep s' 0 (filter (\<lambda>n. \<not> ready sample_sched n) [2, 1])"
  by (rule p_task_lookup_deadline_order[OF sample_rq_rep])

text \<open>Looking up until nothing is left empties the levels one after the other, each from its front.\<close>

lemma v_task_lookup_all:
  assumes "mq_rep s r qs"
  shows "\<exists>s'. pick_n (v_task_lookup r) (length (concat (map qs [0..<BMQ_BITMAP_SIZE]))) s =
      Inr (map Some (concat (map qs [0..<BMQ_BITMAP_SIZE])), s') \<and> v_task_lookup r s' = Inr (None, s')"
  using assms
proof (induction "length (concat (map qs [0..<BMQ_BITMAP_SIZE]))" arbitrary: s qs)
  case 0
  then have "concat (map qs [0..<BMQ_BITMAP_SIZE]) = []" by (metis length_0_conv)
  moreover from this have "first_level qs = None"
    using concat_first_level[of qs] by (cases "first_level qs") fastforce+
  ultimately show ?case
    using v_task_lookup_spec[OF 0(2)] by (simp only: list.size pick_n.simps list.map option.case) blast
next
  case (Suc n)
  then have "concat (map qs [0..<BMQ_BITMAP_SIZE]) \<noteq> []" by (metis length_0_conv nat.distinct(1))
  then obtain i where i: "first_level qs = Some i" using first_level_None by fastforce
  from concat_first_level[OF i] obtain v vs where v: "qs i = v # vs" "i < BMQ_BITMAP_SIZE"
    "concat (map qs [0..<BMQ_BITMAP_SIZE]) = v # concat (map (qs(i := vs)) [0..<BMQ_BITMAP_SIZE])"
    by metis
  from v_take_spec[OF Suc.prems v(2,1)] obtain s1 where
    s1: "v_take i r s = Inr (Some v, s1)" "mq_rep s1 r (qs(i := vs))" by metis
  have "n = length (concat (map (qs(i := vs)) [0..<BMQ_BITMAP_SIZE]))"
    using Suc.hyps(2) unfolding v(3) by simp
  from Suc.hyps(1)[OF this s1(2)] obtain s' where s':
    "pick_n (v_task_lookup r) (length (concat (map (qs(i := vs)) [0..<BMQ_BITMAP_SIZE]))) s1 =
      Inr (map Some (concat (map (qs(i := vs)) [0..<BMQ_BITMAP_SIZE])), s')"
    "v_task_lookup r s' = Inr (None, s')" by blast
  have "v_task_lookup r s = Inr (Some v, s1)"
    using v_task_lookup_spec[OF Suc.prems] i s1(1) by simp
  with s' show ?case
    unfolding v(3)
    by (intro exI[of _ s']) (simp only: length_Cons pick_n.simps bindr_Inr prod.case list.map simp_thms)
qed

text \<open>Queueing a sequence of vCPUs appends each to the level of its priority.\<close>

lemma v_task_insert_all:
  assumes "mq_rep s r qs" "distinct vs"
    and "\<And>v. v \<in> set vs \<Longrightarrow> v < VNODE_NUM \<and> unat (vn_prio (vpn s v)) < BMQ_BITMAP_SIZE \<and>
           (\<forall>i < BMQ_BITMAP_SIZE. v \<notin> set (qs i))"
  shows "\<exists>s'. fold_res (\<lambda>v. v_task_insert v r) vs s = Inr s' \<and>
    mq_rep s' r (\<lambda>i. qs i @ filter (\<lambda>v. unat (vn_prio (vpn s v)) = i) vs)"
  using assms
proof (induction vs arbitrary: s qs)
  case (Cons v vs)
  let ?p = "unat (vn_prio (vpn s v))"
  have v: "?p < BMQ_BITMAP_SIZE" "v < VNODE_NUM" "\<And>i. i < BMQ_BITMAP_SIZE \<Longrightarrow> v \<notin> set (qs i)"
    using Cons.prems(3)[of v] by auto
  obtain s1 where s1: "v_task_insert v r s = Inr s1" "mq_rep s1 r (qs(?p := qs ?p @ [v]))"
    "\<And>u. (vpn s1 u)\<lparr>vn_next := None\<rparr> = (vpn s u)\<lparr>vn_next := None\<rparr>"
    using v_task_insert_spec[OF Cons.prems(1) refl v] by metis
  have prio: "vn_prio (vpn s1 u) = vn_prio (vpn s u)" for u
    using arg_cong[OF s1(3)[of u], of vn_prio] by simp
  have "u < VNODE_NUM \<and> unat (vn_prio (vpn s1 u)) < BMQ_BITMAP_SIZE \<and>
      (\<forall>i < BMQ_BITMAP_SIZE. u \<notin> set ((qs(?p := qs ?p @ [v])) i))" if "u \<in> set vs" for u
    using Cons.prems(2) Cons.prems(3)[of u] that by (auto simp: prio)
  from Cons.IH[OF s1(2) _ this] Cons.prems(2) obtain s' where
    s': "fold_res (\<lambda>v. v_task_insert v r) vs s1 = Inr s'"
    "mq_rep s' r (\<lambda>i. (qs(?p := qs ?p @ [v])) i @ filter (\<lambda>v. unat (vn_prio (vpn s v)) = i) vs)"
    by (auto simp: prio)
  have "(\<lambda>i. (qs(?p := qs ?p @ [v])) i @ filter (\<lambda>v. unat (vn_prio (vpn s v)) = i) vs) =
      (\<lambda>i. qs i @ filter (\<lambda>v. unat (vn_prio (vpn s v)) = i) (v # vs))"
    by (auto simp: fun_eq_iff)
  with s' show ?case using s1(1) by (intro exI[of _ s']) simp
qed simp

text \<open>C31: The multi-level queue hands out vCPUs by priority and first-in first-out within a level. Let
  the levels hold the queues \<open>qs\<close>, and let \<open>v_task_insert\<close> queue further vCPUs one after the other (distinct
  ones that wait at no level, with priorities in range). Then all insertions return, and as many lookups as
  there are queued vCPUs return the levels from the lowest number up: at each level first those that waited
  already, in their order, then those that were queued at this priority, in the order of the insertions.
  A further lookup finds nothing.\<close>

theorem v_task_lookup_priority_order:
  assumes "mq_rep s r qs" "distinct vs"
    and "\<And>v. v \<in> set vs \<Longrightarrow> v < VNODE_NUM \<and> unat (vn_prio (vpn s v)) < BMQ_BITMAP_SIZE \<and>
           (\<forall>i < BMQ_BITMAP_SIZE. v \<notin> set (qs i))"
    and "out = concat (map (\<lambda>i. qs i @ filter (\<lambda>v. unat (vn_prio (vpn s v)) = i) vs) [0..<BMQ_BITMAP_SIZE])"
  shows "\<exists>s1 s2. fold_res (\<lambda>v. v_task_insert v r) vs s = Inr s1 \<and>
    pick_n (v_task_lookup r) (length out) s1 = Inr (map Some out, s2) \<and> v_task_lookup r s2 = Inr (None, s2)"
proof -
  obtain s1 where "fold_res (\<lambda>v. v_task_insert v r) vs s = Inr s1"
    "mq_rep s1 r (\<lambda>i. qs i @ filter (\<lambda>v. unat (vn_prio (vpn s v)) = i) vs)"
    using v_task_insert_all[OF assms(1-3)] by blast
  with v_task_lookup_all[OF this(2)] show ?thesis unfolding assms(4) by blast
qed

theorem v_task_lookup_priority_order_witness:
  "\<exists>s1 s2. fold_res (\<lambda>v. v_task_insert v 1) [2, 3] sample_sched = Inr s1 \<and>
     pick_n (v_task_lookup 1) 3 s1 = Inr ([Some 4, Some 2, Some 3], s2) \<and> v_task_lookup 1 s2 = Inr (None, s2)"
proof -
  have prio: "vn_prio (vpn sample_sched v) = 5" for v by (simp add: sample_sched_def sample_vnode_def)
  have out: "[4, 2, 3] = concat (map (\<lambda>i. ((\<lambda>_. [])(5 := [4])) i @
      filter (\<lambda>v. unat (vn_prio (vpn sample_sched v)) = i) [2, 3]) [0..<BMQ_BITMAP_SIZE])"
    by (simp add: prio upt_rec_numeral upt_rec)
  have three: "length [4, 2, 3 :: nat] = 3" by simp
  have new: "v < VNODE_NUM \<and> unat (vn_prio (vpn sample_sched v)) < BMQ_BITMAP_SIZE \<and>
      (\<forall>i < BMQ_BITMAP_SIZE. v \<notin> set (((\<lambda>_. [])(5 := [4 :: nat])) i))" if "v \<in> set [2, 3]" for v
    using that by (auto simp: prio)
  show ?thesis
    using v_task_lookup_priority_order[OF sample_mq_rep _ new out] unfolding three by simp
qed

text \<open>C30: When the processor's VM has used up its time slice and some VM is ready, \<open>bfs_scheduler\<close> puts
  the old VM back with a new virtual deadline and dispatches a ready VM with the earliest
  virtual deadline: it leaves the queue, gets a full time slice and becomes the processor's VM
  and address space.\<close>

theorem bfs_scheduler_dispatches_earliest:
  assumes "rq_rep s h xs" "cpu_rqnode s c = Some n" "n \<notin> set (h # xs)" "n < RNODE_NUM"
    and "rn_time_slice (rqn s n) = 0" "\<forall>x \<in> set (n # xs). rn_vm (rqn s x) \<noteq> None"
    and "\<exists>x \<in> set (n # xs). ready s x"
  defines "dl \<equiv> \<lambda>x. if x = n then bfs_clock s + rn_vdeadline_diff (rqn s n) else rn_vdeadline (rqn s x)"
  shows "\<exists>s' u. bfs_scheduler c s = Inr s' \<and> cpu_rqnode s' c = Some u \<and> u \<in> set (n # xs) \<and> ready s u \<and>
    (\<forall>y \<in> set (n # xs). ready s y \<longrightarrow> dl u \<le> dl y) \<and> rq_rep s' h (remove1 u (n # xs)) \<and>
    vttbr_vm s' c = rn_vm (rqn s u) \<and> rn_time_slice (rqn s' u) = 4000 \<and> rn_state (rqn s' u) = TASK_RUNNING"
proof -
  let ?s1 = "upd_rqn n (\<lambda>x. x\<lparr>rn_vdeadline := bfs_clock s + rn_vdeadline_diff x,
      rn_state := TASK_READY, rn_need_resched := 1\<rparr>) s"
  have "seg ?s1 (h # xs) = seg s (h # xs)" by (rule seg_cong) auto
  then have "rq_rep ?s1 h xs" using assms(1) by (auto simp: rq_rep_def)
  then obtain s2 where s2: "rq_insert n ?s1 = Inr s2" "rq_rep s2 h (n # xs)" "rq_frame ?s1 s2"
    by (rule rq_insert_spec[OF _ assms(3,4)]) (rule that)
  from p_task_lookup_spec[OF s2(2)] obtain t s3 where
    s3: "p_task_lookup s2 = Inr (t, s3)" "rq_frame s2 s3" "t = pick s2 (n # xs) None"
    "case t of None \<Rightarrow> rq_rep s3 h (n # xs) | Some u \<Rightarrow> rq_rep s3 h (remove1 u (n # xs))" by metis
  have rd: "ready s2 x = ready s x" "rn_vdeadline (rqn s2 x) = dl x" for x
    using rq_frame_ready[OF s2(3)] by (auto simp: ready_def dl_def)
  obtain u where u: "t = Some u" "u \<in> set (n # xs)" "ready s u"
    "\<forall>y \<in> set (n # xs). ready s y \<longrightarrow> dl u \<le> dl y"
    using pick_spec[where s = s2 and ns = "n # xs"] s3(3) assms(7) unfolding rd
    by (auto split: option.splits)
  have "rn_vm (rqn s3 u) = rn_vm (rqn s u)"
    using rq_frame_vm[OF s2(3), of u] rq_frame_vm[OF s3(2), of u] by simp
  moreover obtain vm where vm: "rn_vm (rqn s u) = Some vm" using assms(6) u(2) by fastforce
  ultimately have uvm: "rn_vm (rqn s3 u) = Some vm" by simp
  let ?s4 = "upd_rqn u (\<lambda>x. x\<lparr>rn_state := TASK_RUNNING, rn_time_slice := word_of_int bfs_rr_interval,
                 rn_need_resched := 0\<rparr>) s3"
  let ?s5 = "prepare_to_switch c vm (?s4\<lparr>cpu_rqnode := (cpu_rqnode ?s4)(c := Some u),
      vm_master := (vm_master ?s4)(vm := c)\<rparr>)"
  have "bfs_scheduler c s = Inr ?s5"
    using assms(2,5) s2(1) s3(1) u(1) uvm by (simp add: bfs_scheduler_def Let_def)
  moreover have "rq_rep ?s5 h (remove1 u (n # xs))"
  proof -
    have "rq_rep s3 h (remove1 u (n # xs))" using s3(4) u(1) by simp
    moreover have "seg ?s5 (h # remove1 u (n # xs)) = seg s3 (h # remove1 u (n # xs))"
      by (rule seg_cong) (auto simp: prepare_to_switch_def)
    ultimately show ?thesis by (auto simp: rq_rep_def prepare_to_switch_def)
  qed
  ultimately show ?thesis using u vm
    by (intro exI[of _ ?s5] exI[of _ u]) (auto simp: prepare_to_switch_def)
qed


theorem bfs_scheduler_dispatches_earliest_witness:
  "\<exists>s' u. bfs_scheduler 0 sample_sched = Inr s' \<and> cpu_rqnode s' 0 = Some u \<and> u \<in> set [3, 2, 1] \<and>
     rn_time_slice (rqn s' u) = 4000"
proof -
  have "rn_time_slice (rqn sample_sched 3) = 0" "cpu_rqnode sample_sched 0 = Some 3"
    "\<forall>x \<in> set [3, 2, 1]. rn_vm (rqn sample_sched x) \<noteq> None" "ready sample_sched 3"
    by (simp_all add: sample_sched_def sample_rqnode_def ready_def)
  then show ?thesis
    using bfs_scheduler_dispatches_earliest[OF sample_rq_rep, where c = 0 and n = 3] by fastforce
qed

text \<open>\<open>prio_manage\<close> keeps a vCPU's priority inside the ten levels and its adjustment inside
  -5 to 5, whatever the direction.\<close>

theorem prio_manage_bounds:
  assumes "unat (vn_static_prio v) < PRIO_WIDTH" "unat (vn_prio v) < PRIO_WIDTH" "\<bar>vn_prio_adj v\<bar> \<le> MAXPRIO_ADJ"
  shows "(unat (vn_prio (prio_manage d v)) < PRIO_WIDTH) \<and>
    (\<bar>vn_prio_adj (prio_manage d v)\<bar> \<le> MAXPRIO_ADJ) \<and>
    (vn_static_prio (prio_manage d v) = vn_static_prio v)"
proof -
  have "unat (word_of_int t :: u32) < PRIO_WIDTH" if "t \<le> int PRIO_WIDTH - 1" "0 \<le> t" for t
  proof -
    have "unat (word_of_int t :: u32) = nat t" using that by (simp add: unsigned_of_int take_bit_int_eq_self)
    with that show ?thesis by simp
  qed
  from this[of "sint (w :: u32)" for w] have "unat w < PRIO_WIDTH" if "sint w \<le> 9" "0 \<le> sint w" for w :: u32
    using that by simp
  then have "unat (vn_prio (prio_manage d v)) < PRIO_WIDTH"
    using assms(2) by (auto simp: prio_manage_def Let_def)
  moreover have "\<bar>vn_prio_adj (prio_manage d v)\<bar> \<le> MAXPRIO_ADJ"
    using assms(3) by (auto simp: prio_manage_def Let_def)
  moreover have "vn_static_prio (prio_manage d v) = vn_static_prio v"
    by (simp add: prio_manage_def Let_def)
  ultimately show ?thesis by blast
qed

theorem prio_manage_bounds_witness:
  "unat (vn_prio (prio_manage 0 (sample_vnode 5))) < PRIO_WIDTH"
  by (rule prio_manage_bounds[THEN conjunct1]) (simp_all add: sample_vnode_def)

text \<open>Raising the priority of a vCPU that already has the highest adjustment lowers it: the
  \<open>else if\<close> of the limit check belongs to both directions.\<close>

theorem prio_manage_raise_lowers:
  assumes "vn_prio_adj v = - MAXPRIO_ADJ"
  shows "vn_prio_adj (prio_manage 1 v) = - 4"
  using assms by (simp add: prio_manage_def Let_def)

theorem prio_manage_raise_lowers_witness:
  "vn_prio_adj (prio_manage 1 (sample_vnode (- 5))) = - 4"
  by (rule prio_manage_raise_lowers) (simp add: sample_vnode_def)

text \<open>The deadline offsets computed from the table of \<open>init_pr\<close> grow strictly with the priority
  number, from 4000 ms for priority 0, and do not overflow.\<close>

theorem init_pr_offsets:
  "map (prio_deadline_diff (init_pr s)) [0..<PRIO_WIDTH] =
    [4000, 4375, 4812, 5281, 5781, 6343, 6968, 7656, 8406, 9218]"
  by (simp add: init_pr_def prio_deadline_diff_def upt_rec_numeral upt_rec)


subsection \<open>Bringing a VM into the scheduler\<close>

lemma fold_set_mq:
  "rqn (fold (\<lambda>i. set_mq (b + i) None) is s) = rqn s \<and> vpn (fold (\<lambda>i. set_mq (b + i) None) is s) = vpn s \<and>
   rq_ptr (fold (\<lambda>i. set_mq (b + i) None) is s) = rq_ptr s \<and>
   rq_spin_lock (fold (\<lambda>i. set_mq (b + i) None) is s) = rq_spin_lock s \<and>
   vpnode_mem_bitmap (fold (\<lambda>i. set_mq (b + i) None) is s) = vpnode_mem_bitmap s \<and>
   vpnode_memory_lock (fold (\<lambda>i. set_mq (b + i) None) is s) = vpnode_memory_lock s"
  by (induction "is" arbitrary: s) (auto simp: set_mq_def)

lemma fold_set_mq_None:
  "mq (fold (\<lambda>i. set_mq (b + i) None) is s) j = (if \<exists>i \<in> set is. j = b + i then None else mq s j)"
  by (induction "is" arbitrary: s) auto

lemma initialize_rqnode_spec:
  assumes "bitmap_find_nth (rqnode_mem_bitmap s) RNODE_NUM 1 0 False = r" "r \<noteq> SIZE_MAX"
    and "ticket (rqnode_memory_lock s) = next_tk (rqnode_memory_lock s)"
  obtains s' where "initialize_rqnode (Some vm) prio s = Inr (r, s')" "mq_rep s' r (\<lambda>_. [])"
    "rn_nr_vcpu_ready (rqn s' r) = word_of_nat (vm_nr_cpus s vm)"
    "\<And>n. n \<noteq> r \<Longrightarrow> rqn s' n = rqn s n" "vpn s' = vpn s" "rq_ptr s' = rq_ptr s"
    "rq_spin_lock s' = rq_spin_lock s" "vpnode_mem_bitmap s' = vpnode_mem_bitmap s"
    "vpnode_memory_lock s' = vpnode_memory_lock s" "rn_vm (rqn s' r) = Some vm"
proof -
  obtain l where l: "spin_lock (rqnode_memory_lock s) = Inr l"
    using spin_lock_free[OF assms(3)] by blast
  obtain s' where i: "initialize_rqnode (Some vm) prio s = Inr (r, s')"
    using assms(1,2) l by (simp add: initialize_rqnode_def malloc_rqnode_def Let_def del: One_nat_def)
  then have s': "rqn s' n = (if n = r then (rqn s r)\<lparr>rn_prev := None, rn_next := None, rn_vm := Some vm,
             rn_nr_vcpu_ready := word_of_nat (vm_nr_cpus s vm), rn_prio := prio,
             rn_vdeadline_diff := prio_deadline_diff s (unat prio),
             rn_vdeadline := bfs_clock s + prio_deadline_diff s (unat prio), rn_bitmap := 0,
             rn_mqb := r * PRIO_WIDTH, rn_run_vnode := None, rn_state := TASK_READY,
             rn_time_slice := 0, rn_need_resched := 1\<rparr> else rqn s n)"
    "vpn s' = vpn s" "rq_ptr s' = rq_ptr s" "rq_spin_lock s' = rq_spin_lock s"
    "vpnode_mem_bitmap s' = vpnode_mem_bitmap s" "vpnode_memory_lock s' = vpnode_memory_lock s"
    "mq s' j = (if \<exists>i \<in> set [0..<BMQ_BITMAP_SIZE]. j = r * PRIO_WIDTH + i then None else mq s j)" for n j
    using assms(1,2) l
    by (auto simp: initialize_rqnode_def malloc_rqnode_def Let_def fold_set_mq fold_set_mq_None
      prio_deadline_diff_def upd_rqn_def simp del: One_nat_def upt_Suc)
  have "mq_rep s' r (\<lambda>_. [])" using s'(1,7) by (auto simp: mq_rep_def simp del: upt_Suc)
  with i s' that[of s'] show ?thesis by simp
qed

lemma initialize_vCpuNode_spec:
  assumes "bitmap_find_nth (vpnode_mem_bitmap s) VNODE_NUM 1 0 False = v" "v \<noteq> SIZE_MAX"
    and "ticket (vpnode_memory_lock s) = next_tk (vpnode_memory_lock s)"
  obtains s' where "initialize_vCpuNode vp prio s = Inr (v, s')" "rqn s' = rqn s" "mq s' = mq s"
    "rq_ptr s' = rq_ptr s" "rq_spin_lock s' = rq_spin_lock s" "vn_prio (vpn s' v) = prio"
    "\<And>u. u \<noteq> v \<Longrightarrow> vpn s' u = vpn s u"
proof -
  obtain l where l: "spin_lock (vpnode_memory_lock s) = Inr l"
    using spin_lock_free[OF assms(3)] by blast
  obtain s' where i: "initialize_vCpuNode vp prio s = Inr (v, s')"
    using assms(1,2) l by (simp add: initialize_vCpuNode_def malloc_vpnode_def Let_def del: One_nat_def)
  moreover from this have "rqn s' = rqn s" "mq s' = mq s" "rq_ptr s' = rq_ptr s"
    "rq_spin_lock s' = rq_spin_lock s" "vn_prio (vpn s' v) = prio" "u \<noteq> v \<Longrightarrow> vpn s' u = vpn s u" for u
    using assms(1,2) l
    by (auto simp: initialize_vCpuNode_def malloc_vpnode_def Let_def upd_vpn_def simp del: One_nat_def)
  ultimately show ?thesis using that[of s'] by simp
qed

lemma mq_rep_frame:
  "mq_rep s r qs \<Longrightarrow> rq_frame s s' \<Longrightarrow> mq_rep s' r qs"
proof -
  assume a: "mq_rep s r qs" "rq_frame s s'"
  then have eq: "s' = s\<lparr>rqn := rqn s', rq_spin_lock := rq_spin_lock s'\<rparr>"
    and d: "rn_data (rqn s' r) = rn_data (rqn s r)" by (simp_all add: rq_frame_def)
  have "vpn s' = vpn s" "mq s' = mq s" by (subst eq, simp)+
  then have "vpath s' p xs = vpath s p xs" for p xs by (intro vpath_cong) simp
  with a(1) rn_data_sel[OF d] \<open>mq s' = mq s\<close> show ?thesis by (simp add: mq_rep_def)
qed

text \<open>Starting a VM queues one node with its boot vCPU alone at level 5, at the front of the run
  queue; the node's counter of ready vCPUs, though, counts all vCPUs of the VM and the queued
  one once more.\<close>

theorem vm_sched_init_overcounts:
  assumes "rq_rep s h xs"
    and "bitmap_find_nth (rqnode_mem_bitmap s) RNODE_NUM 1 0 False = r" "r \<notin> set (h # xs)" "r < RNODE_NUM"
    and "bitmap_find_nth (vpnode_mem_bitmap s) VNODE_NUM 1 0 False = v" "v < VNODE_NUM"
    and "ticket (rqnode_memory_lock s) = next_tk (rqnode_memory_lock s)"
    and "ticket (vpnode_memory_lock s) = next_tk (vpnode_memory_lock s)"
  shows "\<exists>s'. vm_sched_init vm s = Inr s' \<and> rq_rep s' h (r # xs) \<and>
    mq_rep s' r ((\<lambda>_. [])(5 := [v])) \<and>
    rn_nr_vcpu_ready (rqn s' r) = word_of_nat (vm_nr_cpus s vm) + 1"
proof -
  have rv: "r \<noteq> SIZE_MAX" "v \<noteq> SIZE_MAX" using assms(4,6) by auto
  obtain s1 where s1: "initialize_rqnode (Some vm) 5 s = Inr (r, s1)" "mq_rep s1 r (\<lambda>_. [])"
    "rn_nr_vcpu_ready (rqn s1 r) = word_of_nat (vm_nr_cpus s vm)"
    "\<And>n. n \<noteq> r \<Longrightarrow> rqn s1 n = rqn s n" "vpn s1 = vpn s" "rq_ptr s1 = rq_ptr s"
    "rq_spin_lock s1 = rq_spin_lock s" "vpnode_mem_bitmap s1 = vpnode_mem_bitmap s"
    "vpnode_memory_lock s1 = vpnode_memory_lock s"
    by (rule initialize_rqnode_spec[OF assms(2) rv(1) assms(7)]) (rule that)
  obtain s2 where s2: "initialize_vCpuNode (vm, 0) 5 s1 = Inr (v, s2)" "rqn s2 = rqn s1" "mq s2 = mq s1"
    "rq_ptr s2 = rq_ptr s1" "rq_spin_lock s2 = rq_spin_lock s1" "vn_prio (vpn s2 v) = 5"
    by (rule initialize_vCpuNode_spec[of s1 v "(vm, 0)" 5]) (use assms(5,8) rv(2) s1 that in auto)
  have rep2: "mq_rep s2 r (\<lambda>_. [])" using s1(2) s2 by (simp add: mq_rep_def)
  obtain s3 where s3: "v_task_insert v r s2 = Inr s3" "mq_rep s3 r ((\<lambda>_. [])(5 := [] @ [v]))"
    "rn_nr_vcpu_ready (rqn s3 r) = rn_nr_vcpu_ready (rqn s2 r) + 1"
    "\<And>n. n \<noteq> r \<Longrightarrow> rqn s3 n = rqn s2 n" "rq_ptr s3 = rq_ptr s2" "rq_spin_lock s3 = rq_spin_lock s2"
    by (rule v_task_insert_spec[OF rep2, of v 5]) (use s2(6) assms(6) that in auto)
  have sn: "rqn s3 x = rqn s x" if "x \<in> set (h # xs)" for x
  proof -
    have "x \<noteq> r" using that assms(3) by metis
    then show ?thesis using s1(4) s2(2) s3(4) by simp
  qed
  have "seg s3 (h # xs) = seg s (h # xs)"
  proof (rule seg_cong)
    show "\<forall>x \<in> set (butlast (h # xs)). rn_next (rqn s3 x) = rn_next (rqn s x)"
      using sn in_set_butlastD by metis
    show "\<forall>x \<in> set (tl (h # xs)). rn_prev (rqn s3 x) = rn_prev (rqn s x)"
      using sn by simp
  qed
  moreover have "rqn s3 (last (h # xs)) = rqn s (last (h # xs))" by (rule sn) simp
  ultimately have rep3: "rq_rep s3 h xs"
    using assms(1) s1(6,7) s2(4,5) s3(5,6) by (simp add: rq_rep_def)
  obtain s4 where s4: "rq_insert r s3 = Inr s4" "rq_rep s4 h (r # xs)" "rq_frame s3 s4"
    by (rule rq_insert_spec[OF rep3 assms(3,4)]) (rule that)
  have "rn_nr_vcpu_ready (rqn s4 r) = rn_nr_vcpu_ready (rqn s3 r)"
    using s4(3) rn_data_sel unfolding rq_frame_def by metis
  moreover have "rq_ptr s \<noteq> None" using assms(1) by (simp add: rq_rep_def)
  then have "vm_sched_init vm s = Inr s4"
    using s1(1) s2(1) s3(1) s4(1) by (auto simp: vm_sched_init_def)
  ultimately show ?thesis
    using s4(2) mq_rep_frame[OF s3(2) s4(3)] s3(3) s2(2) s1(3) by auto
qed


theorem vm_sched_init_overcounts_witness:
  "\<exists>s'. vm_sched_init 1 sample_sched = Inr s' \<and> rq_rep s' 0 [4, 2, 1] \<and>
    mq_rep s' 4 ((\<lambda>_. [])(5 := [5])) \<and> rn_nr_vcpu_ready (rqn s' 4) = 5"
proof -
  have "bitmap_find_nth (rqnode_mem_bitmap sample_sched) RNODE_NUM 1 0 False = 4"
    "bitmap_find_nth (vpnode_mem_bitmap sample_sched) VNODE_NUM 1 0 False = 5"
    by (simp_all add: sample_sched_def bitmap_find_nth_def find_nth_loop.simps bitmap_get_eq bmbit_def)
  from vm_sched_init_overcounts[OF sample_rq_rep this(1) _ _ this(2), of 1] show ?thesis
    by (simp add: sample_sched_def SPINLOCK_INITVAL_def)
qed

end
