(* ===== verification/Guest_Calls.thy ===== *)
theory Guest_Calls
  imports Lcm Sched Vgic_Inv
begin

text \<open>
  What a guest can ask of the hypervisor: \<open>core/rq.c\<close> (the queues that VMs share),
  \<open>arch/aarch64/hypercall.c\<close> (the table of hypercalls) and \<open>arch/aarch64/aborts.c\<close> (the
  synchronous exceptions). The state \<open>trap_sys\<close> joins the three views of a processor: its guest
  and memory, its virtual interrupt controller and the scheduler. The registers of the vCPU that
  trapped are \<open>g_vcpu\<close>; \<open>on_vgic\<close> and \<open>on_sched\<close> run an operation of another view with these
  registers and take back what it leaves, and \<open>on_guest\<close> gives a handler the vCPU's part of the
  interrupt controller by value (\<open>arch_of\<close>) and stores what the handler leaves there
  (\<open>put_arch\<close>), because checkpoint and restore copy the \<open>struct vcpu\<close> as a whole. \<open>None\<close> is a call
  that does not return.

  The interrupt controller, the scheduler, the vCPUs, the page tables and the snapshot headers
  are typed state, not bytes of \<open>g_mem\<close>. \<open>t_struct\<close>, a parameter fixed by the linker and the
  allocator, is the set of the addresses they occupy, with those of the device registers. The
  hypervisor's own loads and stores on behalf of a guest (\<open>direct_access\<close>) can reach them; as such
  an access would go behind the typed state, the model ends it in \<open>Bad_Access\<close> and claims nothing
  about what the program does afterwards.
\<close>

unbundle bit_operations_syntax

record trap_sys =
  t_guest :: guest
  t_vgic :: vgic_sys
  t_sched :: sched
  t_esr :: u64
  t_far :: u64
  t_struct :: "u64 \<Rightarrow> bool"

definition own_int :: "vgic_sys \<Rightarrow> nat \<Rightarrow> node" where
  "own_int s i = gs_priv s (gs_vcpu s) + VGIC_INT_SIZE * word_of_nat i"

definition links_at :: "node \<Rightarrow> lheap \<Rightarrow> node \<times> node" where
  "links_at p h = (nxt h p, prv h p)"

definition put_links :: "node \<Rightarrow> node \<times> node \<Rightarrow> lheap \<Rightarrow> lheap" where
  "put_links p l h = set_prv p (snd l) (set_nxt p (fst l) h)"

text \<open>The field \<open>arch\<close> of the running vCPU, and the store of a whole \<open>struct vcpu_arch\<close> there.\<close>

definition arch_of :: "vgic_sys \<Rightarrow> vcpu_arch" where
  "arch_of s =
     \<lparr>va_curr_lrs = gs_curr_lrs s (gs_vcpu s), va_interrupts = (\<lambda>i. gs_ints s (own_int s i)),
      va_links = (\<lambda>i. links_at (own_int s i) (gs_heap s)),
      va_spilled = links_at (gs_spilled s (gs_vcpu s)) (gs_heap s)\<rparr>"

definition put_int :: "vcpu_arch \<Rightarrow> nat \<Rightarrow> vgic_sys \<Rightarrow> vgic_sys" where
  "put_int a i s =
     (upd_int (own_int s i) (\<lambda>_. va_interrupts a i) s)\<lparr>gs_heap := put_links (own_int s i) (va_links a i) (gs_heap s)\<rparr>"

definition put_arch :: "vcpu_arch \<Rightarrow> vgic_sys \<Rightarrow> vgic_sys" where
  "put_arch a s =
     (let s = fold (put_int a) [0..<GIC_CPU_PRIV] s; v = gs_vcpu s
      in s\<lparr>gs_curr_lrs := (gs_curr_lrs s)(v := va_curr_lrs a),
           gs_heap := put_links (gs_spilled s v) (va_spilled a) (gs_heap s)\<rparr>)"

definition on_guest :: "(guest \<Rightarrow> guest res option) \<Rightarrow> trap_sys \<Rightarrow> trap_sys res option" where
  "on_guest f t =
     bind_opt (f ((t_guest t)\<lparr>g_arch := arch_of (t_vgic t)\<rparr>)) (\<lambda>g.
       Some (Inr (t\<lparr>t_guest := g, t_vgic := put_arch (g_arch g) (t_vgic t)\<rparr>)))"

definition put_vcpu :: "vcpu \<Rightarrow> vgic_sys \<Rightarrow> vgic_sys" where
  "put_vcpu v s = s\<lparr>gs_vm := (gs_vm s)\<lparr>vm_vcpus := (vm_vcpus (gs_vm s))(gs_vcpu s := v)\<rparr>\<rparr>"

definition on_vgic :: "(vgic_sys \<Rightarrow> vgic_sys res) \<Rightarrow> trap_sys \<Rightarrow> trap_sys res" where
  "on_vgic f t =
     bindr (f (put_vcpu (g_vcpu (t_guest t)) (t_vgic t))) (\<lambda>s.
       Inr (t\<lparr>t_vgic := s, t_guest := (t_guest t)\<lparr>g_vcpu := vm_vcpus (gs_vm s) (gs_vcpu s)\<rparr>\<rparr>))"

definition on_sched :: "(nat \<Rightarrow> sched \<Rightarrow> sched res) \<Rightarrow> trap_sys \<Rightarrow> trap_sys res" where
  "on_sched f t =
     (let c = gs_cpu (t_vgic t); g = t_guest t; s = t_sched t
      in case cpu_vcpu s c of
           None \<Rightarrow> Inl Bad_Access
         | Some me \<Rightarrow>
             bindr (f c (s\<lparr>vcpu_regs := (vcpu_regs s)(me := v_regs (g_vcpu g))\<rparr>)) (\<lambda>s.
               Inr (t\<lparr>t_sched := s, t_guest := g\<lparr>g_vcpu := (g_vcpu g)\<lparr>v_regs := vcpu_regs s me\<rparr>\<rparr>\<rparr>)))"

subsection \<open>Shared queues\<close>

text \<open>The list of VMs is the list of their numbers, in list order.\<close>

definition find_vm :: "u64 \<Rightarrow> guest \<Rightarrow> u64 option" where
  "find_vm idt s = find (\<lambda>v. v = idt) (g_vms s)"

definition upd_rq :: "u64 \<Rightarrow> (rq_vm \<Rightarrow> rq_vm) \<Rightarrow> guest \<Rightarrow> guest" where
  "upd_rq v f s = s\<lparr>g_rqs := (g_rqs s)(v := f (g_rqs s v))\<rparr>"

definition write_reg :: "u64 \<Rightarrow> u64 \<Rightarrow> guest \<Rightarrow> guest" where
  "write_reg r val s = s\<lparr>g_vcpu := vcpu_writereg r val (g_vcpu s)\<rparr>"

definition vm_rq_init :: "u64 \<Rightarrow> vm_config \<Rightarrow> guest \<Rightarrow> guest" where
  "vm_rq_init vm cfg s =
     upd_rq vm (\<lambda>q. q\<lparr>rq_vbase := rqc_vbase (vc_rq cfg), rq_size := rqc_size (vc_rq cfg)\<rparr>) s"

definition rq_open_hanlder :: "guest \<Rightarrow> guest res option" where
  "rq_open_hanlder s =
     (let me = g_vm_id s; q = g_rqs s me
      in bind_opt (mem_alloc_map None (rq_vbase q) (NUM_PAGES (rq_size q)) PTE_VM_FLAGS (g_mm s)) (\<lambda>(va, m).
         let s = s\<lparr>g_mm := m\<rparr>
         in if va \<noteq> rq_vbase q then Some (Inl Error)
            else Some (bindr (mem_translate va s) (\<lambda>pa.
              let s = upd_rq me (rq_pbase_update (\<lambda>_. pa)) s;
                  s = write_reg 0 me s;
                  s = write_reg 1 (rq_vbase (g_rqs s me)) s;
                  s = write_reg 2 (rq_size (g_rqs s me)) s
              in case find_vm me s of
                   None \<Rightarrow> Inl Error
                 | Some v \<Rightarrow> Inr (upd_rq v (\<lambda>_. g_rqs s me) s)))))"

definition rq_close_hanlder :: "guest \<Rightarrow> guest res option" where
  "rq_close_hanlder s =
     (let q = g_rqs s (g_vm_id s)
      in bind_opt (mem_unmap (rq_vbase q) (NUM_PAGES (rq_size q)) True (g_mm s)) (\<lambda>m.
           Some (Inr (s\<lparr>g_mm := m\<rparr>))))"

definition rq_attach_hanlder :: "u64 \<Rightarrow> u64 \<Rightarrow> guest \<Rightarrow> guest res option" where
  "rq_attach_hanlder rec_vm_id attach_rq_va s =
     (case find_vm rec_vm_id s of
        None \<Rightarrow> Some (Inl Error)
      | Some rec_vm \<Rightarrow>
          let q = g_rqs s rec_vm; va = attach_rq_va; n = NUM_PAGES (rq_size q);
              pages = mem_ppages_get (rq_pbase q) (unat n)
          in bind_opt (mem_map va (Some pages) n PTE_VM_FLAGS (g_mm s)) (\<lambda>(_, m).
             let s = s\<lparr>g_mm := m\<rparr>
             in Some (bindr (mem_translate va s) (\<lambda>pa.
                  if pa \<noteq> rq_pbase (g_rqs s rec_vm) then Inl Error
                  else Inr (write_reg 1 (rq_size (g_rqs s rec_vm)) (write_reg 0 va s))))))"

definition rq_detach_hanlder :: "u64 \<Rightarrow> u64 \<Rightarrow> guest \<Rightarrow> guest res option" where
  "rq_detach_hanlder va rq_sz s =
     bind_opt (mem_unmap va (NUM_PAGES rq_sz) False (g_mm s)) (\<lambda>m. Some (Inr (s\<lparr>g_mm := m\<rparr>)))"

subsection \<open>Hypercalls\<close>

datatype hypercall =
    HYPERCALL_ISS_HALT | HYPERCALL_ISS_CHECKPOINT_SNAPSHOT | HYPERCALL_ISS_RESTORE_SNAPSHOT
  | HYPERCALL_ISS_RQ_OPEN | HYPERCALL_ISS_RQ_CLOSE | HYPERCALL_ISS_RQ_ATTACH | HYPERCALL_ISS_RQ_DETACH
  | HYPERCALL_ISS_SCHE_START | HYPERCALL_ISS_IO_START

definition hypercall_handlers :: "hypercall list" where
  "hypercall_handlers =
     [HYPERCALL_ISS_HALT, HYPERCALL_ISS_CHECKPOINT_SNAPSHOT, HYPERCALL_ISS_RESTORE_SNAPSHOT,
      HYPERCALL_ISS_RQ_OPEN, HYPERCALL_ISS_RQ_CLOSE, HYPERCALL_ISS_RQ_ATTACH, HYPERCALL_ISS_RQ_DETACH,
      HYPERCALL_ISS_SCHE_START, HYPERCALL_ISS_IO_START]"

fun run_hypercall :: "hypercall \<Rightarrow> u64 \<Rightarrow> u64 \<Rightarrow> trap_sys \<Rightarrow> trap_sys res option" where
  "run_hypercall HYPERCALL_ISS_HALT arg0 arg1 = on_guest (\<lambda>g. Some (guest_halt_hanlder arg0 g))"
| "run_hypercall HYPERCALL_ISS_CHECKPOINT_SNAPSHOT arg0 arg1 = on_guest checkpoint_snapshot_hanlder"
| "run_hypercall HYPERCALL_ISS_RESTORE_SNAPSHOT arg0 arg1 = on_guest (\<lambda>g. Some (restore_snapshot_hanlder arg0 g))"
| "run_hypercall HYPERCALL_ISS_RQ_OPEN arg0 arg1 = on_guest rq_open_hanlder"
| "run_hypercall HYPERCALL_ISS_RQ_CLOSE arg0 arg1 = on_guest rq_close_hanlder"
| "run_hypercall HYPERCALL_ISS_RQ_ATTACH arg0 arg1 = on_guest (rq_attach_hanlder arg0 arg1)"
| "run_hypercall HYPERCALL_ISS_RQ_DETACH arg0 arg1 = on_guest (rq_detach_hanlder arg0 arg1)"
| "run_hypercall HYPERCALL_ISS_SCHE_START arg0 arg1 = (\<lambda>t. Some (on_sched (\<lambda>c. sched_start_handler c arg0 arg1) t))"
| "run_hypercall HYPERCALL_ISS_IO_START arg0 arg1 = (\<lambda>t. Some (on_sched sched_io_handler t))"

text \<open>The index is the guest's, and nothing compares it with the nine entries of the table.\<close>

definition hypercall_handler :: "u64 \<Rightarrow> u64 \<Rightarrow> u64 \<Rightarrow> u64 \<Rightarrow> trap_sys \<Rightarrow> trap_sys res option" where
  "hypercall_handler iss arg0 arg1 arg2 t =
     (if unat iss < length hypercall_handlers
      then run_hypercall (hypercall_handlers ! unat iss) arg0 arg1 t
      else Some (Inl Bad_Access))"

subsection \<open>Data aborts\<close>

text \<open>Loads and stores of \<open>n\<close> bytes, little endian.\<close>

fun load_le :: "nat \<Rightarrow> u64 \<Rightarrow> bytes \<Rightarrow> u64" where
  "load_le 0 a m = 0"
| "load_le (Suc n) a m = ucast (m a) OR push_bit 8 (load_le n (a + 1) m)"

fun store_le :: "nat \<Rightarrow> u64 \<Rightarrow> u64 \<Rightarrow> bytes \<Rightarrow> bytes" where
  "store_le 0 a val m = m"
| "store_le (Suc n) a val m = store_le n (a + 1) (drop_bit 8 val) (m(a := ucast val))"

definition addr_write :: "u64 \<Rightarrow> nat \<Rightarrow> u64 \<Rightarrow> bytes \<Rightarrow> bytes res" where
  "addr_write addr width val m =
     (if width \<in> {1, 2, 4, 8} then Inr (store_le width addr val m) else Inl Error)"

text \<open>
  The two arms of the conditional have one type: for one and two bytes both are promoted to
  \<open>int\<close>, which keeps the sign; for four bytes the signed arm is converted to the unsigned type
  of the other.
\<close>

definition addr_read :: "u64 \<Rightarrow> nat \<Rightarrow> bool \<Rightarrow> bytes \<Rightarrow> u64 res" where
  "addr_read addr width sign_ext m =
     (if width = 1 then Inr (if sign_ext then signed_take_bit 7 (load_le 1 addr m) else load_le 1 addr m)
      else if width = 2 then Inr (if sign_ext then signed_take_bit 15 (load_le 2 addr m) else load_le 2 addr m)
      else if width = 4 then Inr (load_le 4 addr m)
      else if width = 8 then Inr (load_le 8 addr m)
      else Inl Error)"

text \<open>The same two functions on an \<open>emul_access\<close> (\<open>emul.h\<close>).\<close>

definition emul_write :: "emul_access \<Rightarrow> u64 \<Rightarrow> bytes \<Rightarrow> bytes res" where
  "emul_write emul val m = addr_write (ac_addr emul) (ac_width emul) val m"

definition emul_read :: "emul_access \<Rightarrow> bytes \<Rightarrow> u64 res" where
  "emul_read emul m = addr_read (ac_addr emul) (ac_width emul) (ac_sign_ext emul) m"

definition ESR_ISS_DA_ISV_BIT :: u64 where "ESR_ISS_DA_ISV_BIT = lsl 1 24"
definition ESR_ISS_DA_FnV_BIT :: u64 where "ESR_ISS_DA_FnV_BIT = lsl 1 10"
definition ESR_ISS_DA_WnR_BIT :: u64 where "ESR_ISS_DA_WnR_BIT = lsl 1 6"
abbreviation ESR_ISS_DA_DSFC_TRNSLT :: u64 where "ESR_ISS_DA_DSFC_TRNSLT \<equiv> 4"
abbreviation ESR_ISS_DA_DSFC_PERMIS :: u64 where "ESR_ISS_DA_DSFC_PERMIS \<equiv> 0xC"
abbreviation ESR_EC_DALEL :: u64 where "ESR_EC_DALEL \<equiv> 0x24"
abbreviation ESR_EC_HVC64 :: u64 where "ESR_EC_HVC64 \<equiv> 0x16"

definition abort_access :: "u64 \<Rightarrow> u64 \<Rightarrow> emul_access" where
  "abort_access iss addr =
     \<lparr>ac_addr = addr, ac_write = (iss AND ESR_ISS_DA_WnR_BIT \<noteq> 0),
      ac_sign_ext = (bit_extract iss 21 1 \<noteq> 0), ac_width = 2 ^ unat (bit_extract iss 22 2),
      ac_reg = bit_extract iss 16 5\<rparr>"

text \<open>Whether one of the bytes of an access belongs to the typed state.\<close>

definition hits_struct :: "(u64 \<Rightarrow> bool) \<Rightarrow> emul_access \<Rightarrow> bool" where
  "hits_struct st a \<longleftrightarrow> (\<exists>k \<in> set [0..<ac_width a]. st (ac_addr a + word_of_nat k))"

definition direct_access :: "(u64 \<Rightarrow> bool) \<Rightarrow> emul_access \<Rightarrow> guest \<Rightarrow> guest res" where
  "direct_access st a g =
     (if hits_struct st a then Inl Bad_Access
      else if ac_write a then
        let val = vcpu_readreg (g_vcpu g) (ac_reg a) AND BIT_MASK 0 (ac_width a * 8)
        in bindr (addr_write (ac_addr a) (ac_width a) val (g_mem g)) (\<lambda>m. Inr (g\<lparr>g_mem := m\<rparr>))
      else
        bindr (addr_read (ac_addr a) (ac_width a) (ac_sign_ext a) (g_mem g)) (\<lambda>v.
          Inr (write_reg (ac_reg a) v g)))"

definition step_pc :: "u64 \<Rightarrow> guest \<Rightarrow> guest" where
  "step_pc il g = g\<lparr>g_vcpu := vcpu_writepc (vcpu_readpc (g_vcpu g) + (2 + 2 * il)) (g_vcpu g)\<rparr>"

definition aborts_data_lower :: "u64 \<Rightarrow> u64 \<Rightarrow> u64 \<Rightarrow> trap_sys \<Rightarrow> trap_sys res option" where
  "aborts_data_lower iss far il t =
     (let DSFC = bit_extract iss 0 6 AND lsl 0xf 2; s = t_vgic t
      in if iss AND ESR_ISS_DA_ISV_BIT = 0 \<or> iss AND ESR_ISS_DA_FnV_BIT \<noteq> 0 then Some (Inl Error)
         else if DSFC \<noteq> ESR_ISS_DA_DSFC_TRNSLT \<and> DSFC \<noteq> ESR_ISS_DA_DSFC_PERMIS then Some (Inl Error)
         else case vm_emul_get_mem (gs_emul_list s) (gs_emuls s) (gs_heap s) far of
           None \<Rightarrow> None
         | Some h \<Rightarrow>
             bind_opt (Some (case h of
                 None \<Rightarrow> bindr (direct_access (t_struct t) (abort_access iss far) (t_guest t)) (\<lambda>g. Inr (t\<lparr>t_guest := g\<rparr>))
               | Some H_vgicd_emul \<Rightarrow>
                   on_vgic (\<lambda>s. bindr (vgicd_emul_handler (abort_access iss far) s) (\<lambda>(_, s). Inr s)) t)) (\<lambda>t.
             Some (Inr (t\<lparr>t_guest := step_pc il (t_guest t)\<rparr>))))"

definition aborts_sync_hanlder :: "trap_sys \<Rightarrow> trap_sys res option" where
  "aborts_sync_hanlder t =
     (let hsr = t_esr t; ec = bit_extract hsr 26 6; iss = bit_extract hsr 0 25; il = bit_extract hsr 25 1
      in bind_opt (if ec = ESR_EC_DALEL then aborts_data_lower iss (t_far t) il t else Some (Inr t)) (\<lambda>t.
         if ec = ESR_EC_HVC64 then
           let v = g_vcpu (t_guest t)
           in hypercall_handler iss (vcpu_readreg v 0) (vcpu_readreg v 1) (vcpu_readreg v 2) t
         else Some (Inr t)))"

subsection \<open>Memory accesses\<close>

lemma unat_diff_Suc: "x \<noteq> a \<Longrightarrow> unat (x - a) = Suc (unat (x - (a + 1)))" for x a :: u64
proof -
  assume "x \<noteq> a"
  then have "x - a \<noteq> 0" by simp
  then have "unat (x - a) = Suc (unat (x - a - 1))" by (simp add: unat_minus_one unat_gt_0 Suc_leI)
  then show ?thesis by (simp add: diff_diff_eq)
qed

lemma store_le_at:
  "store_le n a v m x = (if unat (x - a) < n then ucast (drop_bit (8 * unat (x - a)) v) else m x)" if "n < 2 ^ 64"
  using that
proof (induction n arbitrary: a v m)
  case (Suc n)
  have wrap: "unat (a - (a + 1)) = 2 ^ 64 - 1" by (simp add: unsigned_minus_1_eq_mask mask_eq_exp_minus_1)
  show ?case
  proof (cases "x = a")
    case True
    then show ?thesis using Suc wrap by simp
  next
    case False
    with Suc unat_diff_Suc[OF False] show ?thesis by (simp add: add.commute[of "8 * _"])
  qed
qed simp

lemma bit_load_le:
  "bit (load_le n a m) i \<longleftrightarrow> i < 64 \<and> i < 8 * n \<and> bit (m (a + word_of_nat (i div 8))) (i mod 8)"
proof (induction n arbitrary: a i)
  case (Suc n)
  show ?case
  proof (cases "i < 8")
    case True
    then show ?thesis by (simp add: bit_or_iff bit_ucast_iff bit_push_bit_iff)
  next
    case False
    then have "i div 8 = Suc ((i - 8) div 8)" "i mod 8 = (i - 8) mod 8" by (simp_all add: le_div_geq le_mod_geq)
    moreover have "\<not> bit (ucast (m a) :: u64) i" using False by (auto simp: bit_ucast_iff dest: bit_imp_le_length)
    ultimately show ?thesis using False Suc[of "a + 1" "i - 8"]
      by (auto simp: bit_or_iff bit_push_bit_iff add.assoc)
  qed
qed simp

lemma load_store_le:
  assumes "n \<le> 8"
  shows "load_le n a (store_le n a v m) = take_bit (8 * n) v"
proof (rule bit_eqI)
  fix i
  have "unat (word_of_nat (i div 8) :: u64) = i div 8" if "i < 64"
    using that by (intro unat_word_of_nat64) simp
  then show "bit (load_le n a (store_le n a v m)) i \<longleftrightarrow> bit (take_bit (8 * n) v) i"
    using assms by (auto simp: bit_load_le store_le_at bit_ucast_iff bit_drop_bit_eq bit_take_bit_iff
        less_mult_imp_div_less dest: bit_imp_le_length)
qed

subsection \<open>Aborts outside the emulated regions\<close>

definition abort_ok :: "u64 \<Rightarrow> bool" where
  "abort_ok iss \<longleftrightarrow> iss AND ESR_ISS_DA_ISV_BIT \<noteq> 0 \<and> iss AND ESR_ISS_DA_FnV_BIT = 0 \<and>
     bit_extract iss 0 6 AND lsl 0xf 2 \<in> {ESR_ISS_DA_DSFC_TRNSLT, ESR_ISS_DA_DSFC_PERMIS}"

definition not_emulated :: "trap_sys \<Rightarrow> u64 \<Rightarrow> bool" where
  "not_emulated t far \<longleftrightarrow>
     vm_emul_get_mem (gs_emul_list (t_vgic t)) (gs_emuls (t_vgic t)) (gs_heap (t_vgic t)) far = Some None"

lemma not_emulatedI:
  assumes "is_list (gs_heap (t_vgic t)) (gs_emul_list (t_vgic t)) xs"
    and "\<forall>e \<in> set xs. far < em_base (gs_emuls (t_vgic t) e) \<or>
           em_base (gs_emuls (t_vgic t) e) + em_sz (gs_emuls (t_vgic t) e) \<le> far"
  shows "not_emulated t far"
  using assms(2) by (auto simp: not_emulated_def vm_emul_get_mem_def list_find_spec[OF assms(1)] find_None_iff
      not_less not_le)

lemma access_width: "ac_width (abort_access iss a) \<in> {1, 2, 4, 8}"
proof -
  have "unat (bit_extract iss 22 2) < 4"
    using take_bit_nat_less_exp[of 2 "unat (drop_bit 22 iss)"] by (simp add: bit_extract_eq unsigned_take_bit_eq)
  then have "unat (bit_extract iss 22 2) \<in> {0, 1, 2, 3}" by auto
  then show ?thesis by (auto simp: abort_access_def)
qed

lemma and_width_mask:
  "n \<in> {1, 2, 4, 8} \<Longrightarrow> v AND BIT_MASK 0 (n * 8) = take_bit (n * 8) v" for v :: u64
  by (auto simp: BIT_MASK_eq take_bit_eq_mask)

text \<open>The value a load returns for the stored bytes \<open>v\<close>.\<close>

definition extended :: "nat \<Rightarrow> bool \<Rightarrow> u64 \<Rightarrow> u64" where
  "extended width sign_ext v =
     (if sign_ext \<and> width \<le> 2 then signed_take_bit (8 * width - 1) v else take_bit (8 * width) v)"

lemma addr_read_stored:
  assumes "w \<in> {1, 2, 4, 8}"
  shows "addr_read a w se (store_le w a (take_bit (w * 8) v) m) = Inr (extended w se v)"
proof -
  have "addr_read a w se (store_le w a (take_bit (w * 8) v) m) =
      Inr (if se \<and> w \<le> 2 then signed_take_bit (8 * w - 1) (take_bit (8 * w) v) else take_bit (8 * w) v)"
    using assms load_store_le[of w a "take_bit (w * 8) v" m] by (auto simp: addr_read_def mult.commute)
  moreover have "signed_take_bit (8 * w - 1) (take_bit (8 * w) v) = signed_take_bit (8 * w - 1) v"
    using assms by (intro signed_take_bit_take_bit[THEN trans]) auto
  ultimately show ?thesis by (simp add: extended_def)
qed

lemma abort_store:
  assumes "not_emulated t far" "abort_ok iss" "ac_write (abort_access iss far)"
    and "\<not> hits_struct (t_struct t) (abort_access iss far)"
  defines "w \<equiv> ac_width (abort_access iss far)" and "v \<equiv> vcpu_readreg (g_vcpu (t_guest t)) (ac_reg (abort_access iss far))"
  shows "aborts_data_lower iss far il t = Some (Inr (t\<lparr>t_guest := step_pc il
    ((t_guest t)\<lparr>g_mem := store_le w far (take_bit (w * 8) v) (g_mem (t_guest t))\<rparr>)\<rparr>))"
  using assms access_width[of iss far] and_width_mask[OF access_width[of iss far]]
  by (auto simp: aborts_data_lower_def not_emulated_def abort_ok_def direct_access_def bind_opt_def addr_write_def
      abort_access_def)

lemma abort_load:
  assumes "not_emulated t far" "abort_ok iss" "\<not> ac_write (abort_access iss far)"
    and "\<not> hits_struct (t_struct t) (abort_access iss far)"
    and "addr_read far (ac_width (abort_access iss far)) (ac_sign_ext (abort_access iss far)) (g_mem (t_guest t)) = Inr v"
  shows "aborts_data_lower iss far il t = Some (Inr (t\<lparr>t_guest := step_pc il
    (write_reg (ac_reg (abort_access iss far)) v (t_guest t))\<rparr>))"
  using assms by (auto simp: aborts_data_lower_def not_emulated_def abort_ok_def direct_access_def bind_opt_def
      abort_access_def)

lemma read_written: "r \<le> 30 \<Longrightarrow> vcpu_readreg (g_vcpu (step_pc il (write_reg r v g))) r = v"
  by (simp add: step_pc_def write_reg_def vcpu_writepc_def vcpu_writereg_def vcpu_readreg_def linorder_not_less[symmetric])

text \<open>C16: a guest's store to an address that no emulated region contains is carried out by the
  hypervisor itself, at the guest's address in the hypervisor's own memory: at every address
  outside the hypervisor's typed structures and device registers (\<open>t_struct\<close>, where the model
  stops), the bytes there become those of the guest's register, no other byte and neither the
  interrupt controller nor the scheduler changes, and the guest continues at the next
  instruction. A load from the same address then puts the stored value into
  its register, cut to the width of the access; the sign is extended for one and two bytes, but
  not for four, where a sign-extending load gives the zero-extended word.\<close>
theorem abort_store_load:
  assumes "not_emulated t far" "abort_ok iss" "ac_write (abort_access iss far)"
    and "abort_ok iss'" "\<not> ac_write (abort_access iss' far)"
    and "ac_width (abort_access iss far) = w" "ac_width (abort_access iss' far) = w"
    and "ac_reg (abort_access iss' far) \<le> 30"
    and "\<forall>k < w. \<not> t_struct t (far + word_of_nat k)"
  shows "\<exists>t1 t2. aborts_data_lower iss far il t = Some (Inr t1) \<and>
    (\<forall>a. g_mem (t_guest t1) a =
       (if unat (a - far) < w
        then ucast (drop_bit (8 * unat (a - far)) (vcpu_readreg (g_vcpu (t_guest t)) (ac_reg (abort_access iss far))))
        else g_mem (t_guest t) a)) \<and>
    t_vgic t1 = t_vgic t \<and> t_sched t1 = t_sched t \<and>
    vcpu_readpc (g_vcpu (t_guest t1)) = vcpu_readpc (g_vcpu (t_guest t)) + (2 + 2 * il) \<and>
    aborts_data_lower iss' far il t1 = Some (Inr t2) \<and>
    vcpu_readreg (g_vcpu (t_guest t2)) (ac_reg (abort_access iss' far)) =
      extended w (ac_sign_ext (abort_access iss' far))
        (vcpu_readreg (g_vcpu (t_guest t)) (ac_reg (abort_access iss far)))"
proof -
  let ?v = "vcpu_readreg (g_vcpu (t_guest t)) (ac_reg (abort_access iss far))"
  define m where "m = store_le w far (take_bit (w * 8) ?v) (g_mem (t_guest t))"
  define t1 where "t1 = t\<lparr>t_guest := step_pc il ((t_guest t)\<lparr>g_mem := m\<rparr>)\<rparr>"
  have w: "w \<in> {1, 2, 4, 8}" using access_width[of iss far] assms(6) by simp
  have free: "\<not> hits_struct (t_struct t) (abort_access iss far)" "\<not> hits_struct (t_struct t) (abort_access iss' far)"
    using assms(6,7,9) by (auto simp: hits_struct_def abort_access_def)
  have s: "aborts_data_lower iss far il t = Some (Inr t1)"
    unfolding t1_def m_def assms(6)[symmetric] by (rule abort_store[OF assms(1-3) free(1)])
  have ne: "not_emulated t1 far" using assms(1) by (simp add: not_emulated_def t1_def)
  have mem1: "g_mem (t_guest t1) = m" "t_struct t1 = t_struct t" "t_vgic t1 = t_vgic t" "t_sched t1 = t_sched t"
    by (simp_all add: t1_def step_pc_def)
  have "addr_read far w (ac_sign_ext (abort_access iss' far)) m = Inr (extended w (ac_sign_ext (abort_access iss' far)) ?v)"
    unfolding m_def by (rule addr_read_stored[OF w])
  note l = abort_load[OF ne assms(4,5), unfolded assms(7) mem1, OF free(2) this]
  have "ucast (drop_bit (8 * k) (take_bit (w * 8) ?v)) = (ucast (drop_bit (8 * k) ?v) :: u8)" if "k < w" for k
    using that by (intro bit_word_eqI) (auto simp: bit_ucast_iff bit_drop_bit_eq bit_take_bit_iff)
  then have "\<forall>a. g_mem (t_guest t1) a = (if unat (a - far) < w then ucast (drop_bit (8 * unat (a - far)) ?v)
      else g_mem (t_guest t) a)"
    unfolding mem1(1) m_def by (subst store_le_at) (use w in auto)
  moreover have "vcpu_readpc (g_vcpu (t_guest t1)) = vcpu_readpc (g_vcpu (t_guest t)) + (2 + 2 * il)"
    by (simp add: t1_def step_pc_def vcpu_readpc_def vcpu_writepc_def)
  ultimately show ?thesis using s l[of il] read_written[OF assms(8)] mem1(3,4)
    by - (rule exI[of _ t1], simp)
qed

definition sample_trap :: trap_sys where
  "sample_trap = \<lparr>t_guest = sample_guest,
     t_vgic = sample_vgic\<lparr>gs_heap := INIT_LIST_HEAD 0xA000 (gs_heap sample_vgic)\<rparr>,
     t_sched = undefined, t_esr = 0, t_far = 0,
     t_struct = (\<lambda>a. 0x50000000 \<le> a \<and> a < 0x51000000)\<rparr>"

lemma sample_trap_not_emulated: "not_emulated sample_trap far"
proof (rule not_emulatedI[where xs = "[]"])
  show "is_list (gs_heap (t_vgic sample_trap)) (gs_emul_list (t_vgic sample_trap)) []"
    using is_list_INIT[of "0xA000" "gs_heap sample_vgic"] by (simp add: sample_trap_def sample_vgic_def)
qed simp

text \<open>A store of four bytes from register 3 and a sign-extending load of four bytes into register 4.\<close>

theorem abort_store_load_witness:
  "\<exists>t1 t2. aborts_data_lower 0x1830044 0x40001000 1 sample_trap = Some (Inr t1) \<and>
     g_mem (t_guest t1) 0x40001000 = 0 \<and>
     aborts_data_lower 0x1A40004 0x40001000 1 t1 = Some (Inr t2) \<and>
     vcpu_readreg (g_vcpu (t_guest t2)) 4 = 0"
proof -
  have w: "abort_access 0x1830044 0x40001000 =
      \<lparr>ac_addr = 0x40001000, ac_write = True, ac_sign_ext = False, ac_width = 4, ac_reg = 3\<rparr>" (is "?a = _")
    and r: "abort_access 0x1A40004 0x40001000 =
      \<lparr>ac_addr = 0x40001000, ac_write = False, ac_sign_ext = True, ac_width = 4, ac_reg = 4\<rparr>" (is "?b = _")
    by (simp_all add: abort_access_def bit_extract_eq ESR_ISS_DA_WnR_BIT_def lsl_def)
  have ok: "abort_ok 0x1830044" "abort_ok 0x1A40004"
    by (simp_all add: abort_ok_def bit_extract_eq ESR_ISS_DA_ISV_BIT_def ESR_ISS_DA_FnV_BIT_def lsl_def)
  have "vcpu_readreg (g_vcpu (t_guest sample_trap)) 3 = 0"
    by (simp add: sample_trap_def sample_guest_def sample_vm_def vcpu_readreg_def)
  moreover have "\<forall>k < 4. \<not> t_struct sample_trap (0x40001000 + word_of_nat k)"
  proof (intro allI impI)
    fix k :: nat
    assume "k < 4"
    then have "k \<in> {0, 1, 2, 3}" by auto
    then show "\<not> t_struct sample_trap (0x40001000 + word_of_nat k)" by (auto simp: sample_trap_def)
  qed
  ultimately show ?thesis
    using abort_store_load[OF sample_trap_not_emulated ok(1) _ ok(2), of "0x40001000" 4 1]
    unfolding w r by (auto simp: extended_def)
qed

subsection \<open>Every trap keeps the interrupt controller consistent\<close>

lemma put_vcpu_wf: "vgic_wf n c s \<Longrightarrow> vgic_wf n c (put_vcpu v s)"
  by (simp add: put_vcpu_def)

text \<open>
  The memory that a restore takes for a snapshot holds private interrupts whose list registers
  exist. A checkpoint stores such an image.
\<close>

definition arch_ok :: "nat \<Rightarrow> vcpu_arch \<Rightarrow> bool" where
  "arch_ok n a \<longleftrightarrow> (\<forall>i < GIC_CPU_PRIV. int_ok n (va_interrupts a i))"

definition snapshots_ok :: "nat \<Rightarrow> guest \<Rightarrow> bool" where
  "snapshots_ok n g \<longleftrightarrow> (\<forall>ss. arch_ok n (ss_arch (g_ss g ss)))"

abbreviation trap_ok :: "nat \<Rightarrow> nat \<Rightarrow> trap_sys \<Rightarrow> bool" where
  "trap_ok n c t \<equiv> vgic_wf n c (t_vgic t) \<and> snapshots_ok n (t_guest t)"

lemma arch_of_ok: "vgic_wf n c s \<Longrightarrow> arch_ok n (arch_of s)"
  by (simp add: arch_ok_def arch_of_def wf_int)

lemma put_int_wf: "vgic_wf n c s \<Longrightarrow> int_ok n (va_interrupts a i) \<Longrightarrow> vgic_wf n c (put_int a i s)"
  by (simp add: put_int_def vgic_wf_def)

lemma put_arch_wf:
  assumes "vgic_wf n c s" "arch_ok n a"
  shows "vgic_wf n c (put_arch a s)"
proof -
  have "vgic_wf n c (fold (put_int a) is s)" if "set is \<subseteq> {..<GIC_CPU_PRIV}" for "is"
    using that assms
    by (induction "is" arbitrary: s) (auto simp: arch_ok_def intro: put_int_wf)
  from this[of "[0..<GIC_CPU_PRIV]"] show ?thesis
    by (simp add: put_arch_def Let_def vgic_wf_def atLeast_upt)
qed

lemma put_arch_of: "put_arch (arch_of s) s = s"
proof -
  have "put_int (arch_of s) i s = s" for i
    by (simp add: put_int_def arch_of_def links_at_def put_links_def set_nxt_def set_prv_def)
  then have "fold (put_int (arch_of s)) xs s = s" for xs by (induction xs) simp_all
  then show ?thesis
    by (simp add: put_arch_def arch_of_def links_at_def put_links_def set_nxt_def set_prv_def)
qed

lemma on_vgic_ok:
  assumes "ens E (vgic_wf n c) (f (put_vcpu (g_vcpu (t_guest t)) (t_vgic t)))" "snapshots_ok n (t_guest t)"
  shows "ens E (trap_ok n c) (on_vgic f t)"
  using assms by (auto simp: on_vgic_def snapshots_ok_def elim: ens_conseq)

subsubsection \<open>The handlers that copy a vCPU\<close>

definition image_ok :: "nat \<Rightarrow> guest \<Rightarrow> bool" where
  "image_ok n g \<longleftrightarrow> arch_ok n (g_arch g) \<and> snapshots_ok n g"

lemma image_ok_cong: "g_arch g = g_arch g' \<Longrightarrow> g_ss g = g_ss g' \<Longrightarrow> image_ok n g = image_ok n g'"
  by (simp add: image_ok_def snapshots_ok_def)

lemma take_snapshot_image:
  "image_ok n g \<Longrightarrow> take_snapshot g = Inr g' \<Longrightarrow> image_ok n g'"
  by (auto simp: take_snapshot_def update_ss_pool_last_def get_new_ss_id_def bindr_eq_Inr_iff Let_def snapshots_ok_def image_ok_def
      split: if_splits)

lemma checkpoint_image:
  assumes "image_ok n g" "checkpoint_snapshot_hanlder g = Some (Inr g')"
  shows "image_ok n g'"
proof (cases "g_ck_init g")
  case True
  then show ?thesis using assms take_snapshot_image[of n g g'] by (simp add: checkpoint_snapshot_hanlder_def)
next
  case False
  then obtain g0 where g0: "ss_pool_init g = Some (Inr g0)" "take_snapshot (g0\<lparr>g_ck_init := True\<rparr>) = Inr g'"
    using assms(2) by (auto simp: checkpoint_snapshot_hanlder_def bindr_eq_Inr_iff)
  from g0(1) have "g_arch g0 = g_arch g" "g_ss g0 = g_ss g"
    by (auto simp: ss_pool_init_def alloc_ss_pool_def bindr_eq_Inr_iff Let_def split: if_splits)
  then show ?thesis
    using assms(1) take_snapshot_image[OF _ g0(2), of n] image_ok_cong[of "g0\<lparr>g_ck_init := True\<rparr>" g n] by simp
qed

lemma restore_image:
  "image_ok n g \<Longrightarrow> restore_snapshot_hanlder sid g = Inr g' \<Longrightarrow> image_ok n g'"
  by (auto simp: restore_snapshot_hanlder_def restore_snapshot_hanlder_by_ss_def restart_vm_def
      bindr_eq_Inr_iff Let_def snapshots_ok_def image_ok_def split: if_splits)

lemma halt_image:
  assumes "image_ok n g" "guest_halt_hanlder reason g = Inr g'"
  shows "image_ok n g'"
proof -
  let ?g = "g\<lparr>g_restore_cnt := g_restore_cnt g + 1\<rparr>"
  have "g' = g \<or> restore_snapshot_hanlder reason ?g = Inr g'"
    using assms(2) by (auto simp: guest_halt_hanlder_def split: if_splits)
  moreover have "image_ok n ?g" using assms(1) image_ok_cong[of ?g g n] by simp
  ultimately show ?thesis using assms(1) restore_image[of n ?g reason g'] by auto
qed

lemma bind_opt_returns:
  "bind_opt m f = Some (Inr b) \<longleftrightarrow> (\<exists>a. m = Some (Inr a) \<and> f a = Some (Inr b))"
  by (auto simp: bind_opt_def split: option.splits sum.splits)

lemma write_reg_image [simp]: "g_arch (write_reg r v g) = g_arch g" "g_ss (write_reg r v g) = g_ss g"
  "g_arch (upd_rq q f g) = g_arch g" "g_ss (upd_rq q f g) = g_ss g"
  by (simp_all add: write_reg_def upd_rq_def)

lemma rq_frame:
  "rq_open_hanlder g = Some (Inr g') \<Longrightarrow> g_arch g' = g_arch g \<and> g_ss g' = g_ss g"
  "rq_close_hanlder g = Some (Inr g') \<Longrightarrow> g_arch g' = g_arch g \<and> g_ss g' = g_ss g"
  "rq_attach_hanlder v a g = Some (Inr g') \<Longrightarrow> g_arch g' = g_arch g \<and> g_ss g' = g_ss g"
  "rq_detach_hanlder a sz g = Some (Inr g') \<Longrightarrow> g_arch g' = g_arch g \<and> g_ss g' = g_ss g"
     apply (clarsimp simp: rq_open_hanlder_def Let_def bind_opt_returns split: if_splits)
     apply (clarsimp simp: bindr_eq_Inr_iff split: option.splits)
    apply (clarsimp simp: rq_close_hanlder_def Let_def bind_opt_returns)
   apply (clarsimp simp: rq_attach_hanlder_def Let_def bind_opt_returns bindr_eq_Inr_iff split: option.splits)
   apply (clarsimp split: if_splits)
  apply (clarsimp simp: rq_detach_hanlder_def Let_def bind_opt_returns)
  done

lemma rq_image:
  "image_ok n g \<Longrightarrow> rq_open_hanlder g = Some (Inr g') \<Longrightarrow> image_ok n g'"
  "image_ok n g \<Longrightarrow> rq_close_hanlder g = Some (Inr g') \<Longrightarrow> image_ok n g'"
  "image_ok n g \<Longrightarrow> rq_attach_hanlder v a g = Some (Inr g') \<Longrightarrow> image_ok n g'"
  "image_ok n g \<Longrightarrow> rq_detach_hanlder a sz g = Some (Inr g') \<Longrightarrow> image_ok n g'"
  by (drule rq_frame; simp add: image_ok_cong[of g' g])+

lemma on_guest_ok:
  assumes "trap_ok n c t" "on_guest f t = Some (Inr t')"
    and "\<And>g g'. image_ok n g \<Longrightarrow> f g = Some (Inr g') \<Longrightarrow> image_ok n g'"
  shows "trap_ok n c t'"
proof -
  from assms(2) obtain g where g: "f ((t_guest t)\<lparr>g_arch := arch_of (t_vgic t)\<rparr>) = Some (Inr g)"
    "t' = t\<lparr>t_guest := g, t_vgic := put_arch (g_arch g) (t_vgic t)\<rparr>"
    by (auto simp: on_guest_def bind_opt_def split: option.splits sum.splits)
  have "image_ok n g"
    by (rule assms(3)[OF _ g(1)]) (use assms(1) arch_of_ok in \<open>auto simp: snapshots_ok_def image_ok_def\<close>)
  then show ?thesis using assms(1) g(2) put_arch_wf by (auto simp: image_ok_def)
qed

lemma run_hypercall_ok:
  assumes "trap_ok n c t" "run_hypercall h a0 a1 t = Some (Inr t')"
  shows "trap_ok n c t'"
proof -
  have sched: "trap_ok n c t'" if "on_sched f t = Inr t'" for f
    using assms(1) that by (auto simp: on_sched_def Let_def bindr_eq_Inr_iff snapshots_ok_def split: option.splits)
  note guest = on_guest_ok[OF assms(1), of _ t']
  show ?thesis
  proof (cases h)
    case HYPERCALL_ISS_HALT
    then show ?thesis using assms(2) guest[of "\<lambda>g. Some (guest_halt_hanlder a0 g)"] halt_image by simp
  next
    case HYPERCALL_ISS_CHECKPOINT_SNAPSHOT
    then show ?thesis using assms(2) guest[OF _ checkpoint_image] by simp
  next
    case HYPERCALL_ISS_RESTORE_SNAPSHOT
    then show ?thesis using assms(2) guest[of "\<lambda>g. Some (restore_snapshot_hanlder a0 g)"] restore_image by simp
  qed (use assms(2) guest[OF _ rq_image(1)] guest[OF _ rq_image(2)] guest[OF _ rq_image(3)]
      guest[OF _ rq_image(4)] sched in auto)
qed

lemma snapshots_ok_step_pc [simp]: "snapshots_ok n (step_pc il g) = snapshots_ok n g"
  by (simp add: snapshots_ok_def step_pc_def)

lemma data_abort_vgic:
  assumes "trap_ok n c t" "aborts_data_lower iss far il t = Some r"
  shows "ens ({Spin, Error} \<union> {e. e = Bad_Access \<and> not_emulated t far \<and> hits_struct (t_struct t) (abort_access iss far)})
    (trap_ok n c) r"
proof -
  let ?acc = "abort_access iss far"
  have d: "ens ({Spin, Error} \<union> {e. e = Bad_Access \<and> hits_struct (t_struct t) ?acc}) (trap_ok n c)
      (bindr (direct_access (t_struct t) ?acc (t_guest t)) (\<lambda>g. Inr (t\<lparr>t_guest := g\<rparr>)))"
    using assms(1) access_width[of iss far]
    by (auto simp: direct_access_def Let_def addr_write_def addr_read_def write_reg_def snapshots_ok_def)
  have v: "ens {Spin, Error} (trap_ok n c)
      (on_vgic (\<lambda>s. bindr (vgicd_emul_handler ?acc s) (\<lambda>(_, s). Inr s)) t)"
    using vgicd_emul_handler_ok[OF put_vcpu_wf, of n c "t_vgic t" ?acc] assms(1)
    by (intro on_vgic_ok) (simp_all add: case_prod_unfold)
  show ?thesis
    using assms(2) d v
    by (auto simp: aborts_data_lower_def Let_def bind_opt_def ens_def not_emulated_def
        split: if_splits option.splits sum.splits emul_handler.splits)
qed



end
