(* ===== verification/Interrupts.thy ===== *)
theory Interrupts
  imports Guest_Calls
begin

text \<open>
  Physical interrupts: \<open>core/interrupts.c\<close>, \<open>arch/aarch64/arch_interrupts.c\<close>, \<open>gic_handle\<close> of
  \<open>gic.c\<close> and the timer of \<open>arch/aarch64/timer.c\<close>. The state joins the interrupt controllers, the
  scheduler, the tables of reserved and assigned interrupts, the bitmap of the current VM and
  the timer. The message handler of this configuration is \<open>vgic_ipi_handler\<close>, the only entry of
  the table that the linker collects.
\<close>

unbundle bit_operations_syntax

abbreviation IPI_CPU_MSG :: nat where "IPI_CPU_MSG \<equiv> 1"
abbreviation IRQ_TIMER :: nat where "IRQ_TIMER \<equiv> 26"
abbreviation GIC_FIRST_SPECIAL_INTID :: nat where "GIC_FIRST_SPECIAL_INTID \<equiv> 1020"

subsection \<open>The timer\<close>

text \<open>\<open>tm_cnt\<close> and \<open>tm_frq_reg\<close> are what the counter and the frequency register read.\<close>

record timer =
  TIMER_WAIT :: u64
  cntfrq :: u64
  tm_ctl :: u32
  tm_cval :: u64
  tm_cnt :: u64
  tm_frq_reg :: u64

definition disable_cnthp :: "timer \<Rightarrow> timer" where
  "disable_cnthp t = t\<lparr>tm_ctl := tm_ctl t AND NOT 1\<rparr>"

definition enable_cnthp :: "timer \<Rightarrow> timer" where
  "enable_cnthp t = t\<lparr>tm_ctl := tm_ctl t OR 1\<rparr>"

definition set_el2_timer_sec :: "u64 \<Rightarrow> timer \<Rightarrow> timer" where
  "set_el2_timer_sec s t = t\<lparr>TIMER_WAIT := s * 1000\<rparr>"

definition set_el2_timer_microsec :: "u64 \<Rightarrow> timer \<Rightarrow> timer" where
  "set_el2_timer_microsec ms t = t\<lparr>TIMER_WAIT := ms\<rparr>"

definition timer_handler :: "timer \<Rightarrow> timer" where
  "timer_handler t =
     (let t = disable_cnthp t;
          ticks = TIMER_WAIT t * cntfrq t div 1000;
          t = t\<lparr>tm_cval := tm_cnt t + ticks\<rparr>
      in enable_cnthp t)"

definition timer_init :: "timer \<Rightarrow> timer" where
  "timer_init t =
     (let t = set_el2_timer_sec 1 (disable_cnthp t)
      in enable_cnthp (t\<lparr>cntfrq := tm_frq_reg t\<rparr>))"

subsection \<open>The architecture's operations\<close>

definition interrupts_arch_conflict :: "bitmap \<Rightarrow> nat \<Rightarrow> bool" where
  "interrupts_arch_conflict interrupt_bitmap int_id \<longleftrightarrow>
     bitmap_get interrupt_bitmap int_id \<noteq> 0 \<and> int_id > GIC_CPU_PRIV"

definition interrupts_arch_enable :: "nat \<Rightarrow> nat \<Rightarrow> bool \<Rightarrow> gic_hw \<Rightarrow> gic_hw res" where
  "interrupts_arch_enable cid int_id en h =
     bindr (gic_set_prio int_id 0x01 (gic_set_enable int_id en h)) (\<lambda>h.
       gicd_set_trgt int_id (ucast (lsl (1 :: u32) cid)) h)"

definition interrupts_arch_ipi_send :: "nat \<Rightarrow> nat \<Rightarrow> gic_hw \<Rightarrow> gic_hw" where
  "interrupts_arch_ipi_send target_cpu ipi_id h =
     (if ipi_id < GIC_MAX_SGIS then gic_send_sgi target_cpu ipi_id h else h)"

definition interrupts_arch_clear :: "nat \<Rightarrow> nat \<Rightarrow> gic_hw \<Rightarrow> gic_hw" where
  "interrupts_arch_clear cid int_id h = gic_set_pend cid int_id False (gic_set_act int_id False h)"

definition interrupts_arch_check :: "gic_hw \<Rightarrow> nat \<Rightarrow> bool" where
  "interrupts_arch_check h int_id = gic_get_pend h int_id"

definition interrupts_arch_vm_assign :: "nat \<Rightarrow> vgic_sys \<Rightarrow> vgic_sys res" where
  "interrupts_arch_vm_assign int_id s = vgic_set_hw int_id s"

definition interrupts_arch_init :: "nat \<Rightarrow> nat \<Rightarrow> gic_hw \<times> irq_tab \<Rightarrow> (gic_hw \<times> irq_tab) res" where
  "interrupts_arch_init cid mid s =
     bindr (gic_init cid mid s) (\<lambda>(h, t).
     bindr (interrupts_arch_enable cid mid True h) (\<lambda>h. Inr (h, t)))"

subsection \<open>Dispatching\<close>

datatype irq_res = HANDLED_BY_HYP | FORWARD_TO_VM

record irq_sys =
  iq_vgic :: vgic_sys
  iq_sched :: sched
  iq_tab :: irq_tab
  iq_vm_ints :: bitmap
  iq_timer :: timer

definition interrupts_cpu_enable :: "nat \<Rightarrow> bool \<Rightarrow> irq_sys \<Rightarrow> irq_sys res" where
  "interrupts_cpu_enable int_id en s =
     bindr (interrupts_arch_enable (gs_cpu (iq_vgic s)) int_id en (gs_hw (iq_vgic s))) (\<lambda>h.
       Inr (s\<lparr>iq_vgic := (iq_vgic s)\<lparr>gs_hw := h\<rparr>\<rparr>))"

definition interrupts_cpu_sendipi :: "nat \<Rightarrow> nat \<Rightarrow> gic_hw \<Rightarrow> gic_hw" where
  "interrupts_cpu_sendipi target_cpu ipi_id = interrupts_arch_ipi_send target_cpu ipi_id"

definition interrupts_check :: "gic_hw \<Rightarrow> nat \<Rightarrow> bool" where
  "interrupts_check h int_id = interrupts_arch_check h int_id"

definition interrupts_clear :: "nat \<Rightarrow> nat \<Rightarrow> gic_hw \<Rightarrow> gic_hw" where
  "interrupts_clear cid int_id = interrupts_arch_clear cid int_id"

definition vm_has_interrupt :: "bitmap \<Rightarrow> nat \<Rightarrow> bool" where
  "vm_has_interrupt interrupt_bitmap int_id \<longleftrightarrow> bitmap_get interrupt_bitmap int_id \<noteq> 0"

definition vcpu_inject_hw_irq :: "nat \<Rightarrow> nat \<Rightarrow> vgic_sys \<Rightarrow> vgic_sys res" where
  "vcpu_inject_hw_irq vcpu int_id = vgic_inject_hw vcpu int_id"

definition vcpu_inject_irq :: "nat \<Rightarrow> nat \<Rightarrow> vgic_sys \<Rightarrow> vgic_sys res" where
  "vcpu_inject_irq vcpu int_id = vgic_inject vcpu int_id 0"

partial_function (option) vgic_msg_loop :: "vgic_sys \<Rightarrow> vgic_sys res option" where
  "vgic_msg_loop s =
     (case cpu_get_msg (gs_cpu s) (gs_msg s) of
        Inl e \<Rightarrow> Some (Inl e)
      | Inr (None, m) \<Rightarrow> Some (Inr (s\<lparr>gs_msg := m\<rparr>))
      | Inr (Some msg, m) \<Rightarrow>
          if cm_handler msg < 1 then
            case vgic_ipi_handler (cm_event msg) (cm_data msg) (s\<lparr>gs_msg := m\<rparr>) of
              Inl e \<Rightarrow> Some (Inl e)
            | Inr s \<Rightarrow> vgic_msg_loop s
          else vgic_msg_loop (s\<lparr>gs_msg := m\<rparr>))"

definition set_handling :: "bool \<Rightarrow> vgic_sys \<Rightarrow> vgic_sys" where
  "set_handling b s = s\<lparr>gs_msg := (gs_msg s)\<lparr>ms_handling := (ms_handling (gs_msg s))(gs_cpu s := b)\<rparr>\<rparr>"

definition vgic_cpu_msg_handler :: "vgic_sys \<Rightarrow> vgic_sys res option" where
  "vgic_cpu_msg_handler s =
     bind_opt (vgic_msg_loop (set_handling True s)) (\<lambda>s. Some (Inr (set_handling False s)))"

definition timer_interrupt_handler :: "irq_sys \<Rightarrow> irq_sys res" where
  "timer_interrupt_handler s =
     (let s = s\<lparr>iq_timer := timer_handler (iq_timer s)\<rparr>
      in bindr (update_task_times (TIMER_WAIT (iq_timer s)) (gs_cpu (iq_vgic s)) (iq_sched s)) (\<lambda>sc.
           Inr (s\<lparr>iq_sched := sc\<rparr>)))"

definition on_vgic_irq :: "vgic_sys res option \<Rightarrow> irq_sys \<Rightarrow> irq_sys res option" where
  "on_vgic_irq r s = bind_opt r (\<lambda>v. Some (Inr (s\<lparr>iq_vgic := v\<rparr>)))"

fun run_irq_handler :: "irq_handler \<Rightarrow> irq_sys \<Rightarrow> irq_sys res option" where
  "run_irq_handler H_gic_maintenance s = on_vgic_irq (gic_maintenance_handler (iq_vgic s)) s"
| "run_irq_handler H_cpu_msg s = on_vgic_irq (vgic_cpu_msg_handler (iq_vgic s)) s"
| "run_irq_handler H_timer s = Some (timer_interrupt_handler s)"

text \<open>An entry of \<open>interrupt_handlers\<close> that was never set is a null pointer.\<close>

definition interrupts_handle :: "nat \<Rightarrow> irq_sys \<Rightarrow> (irq_res \<times> irq_sys) res option" where
  "interrupts_handle int_id s =
     (if vm_has_interrupt (iq_vm_ints s) int_id then
        bind_opt (on_vgic_irq (Some (vcpu_inject_hw_irq (gs_vcpu (iq_vgic s)) int_id (iq_vgic s))) s) (\<lambda>s.
          Some (Inr (FORWARD_TO_VM, s)))
      else if interrupt_is_reserved (iq_tab s) int_id then
        case interrupt_handlers (iq_tab s) int_id of
          None \<Rightarrow> Some (Inl Bad_Access)
        | Some h \<Rightarrow> bind_opt (run_irq_handler h s) (\<lambda>s. Some (Inr (HANDLED_BY_HYP, s)))
      else Some (Inl Error))"

definition upd_gic :: "(gic_hw \<Rightarrow> gic_hw) \<Rightarrow> irq_sys \<Rightarrow> irq_sys" where
  "upd_gic f s = s\<lparr>iq_vgic := (iq_vgic s)\<lparr>gs_hw := f (gs_hw (iq_vgic s))\<rparr>\<rparr>"

definition gic_handle :: "irq_sys \<Rightarrow> irq_sys res option" where
  "gic_handle s =
     (let ack = gicc_iar (gs_dev (iq_vgic s) (gs_hw (iq_vgic s)));
          int_id = unat (bit_extract ack 0 10)
      in if int_id < GIC_FIRST_SPECIAL_INTID
         then bind_opt (interrupts_handle int_id s) (\<lambda>(res, s).
                let s = upd_gic (gicc_eoir ack) s
                in Some (Inr (if res = HANDLED_BY_HYP then upd_gic (gicc_dir ack) s else s)))
         else Some (Inr s))"

subsection \<open>Setting up\<close>

definition interrupts_vm_assign :: "nat \<Rightarrow> irq_sys \<Rightarrow> irq_sys res" where
  "interrupts_vm_assign int_id s =
     (if interrupts_arch_conflict (global_interrupt_bitmap (iq_tab s)) int_id then Inl Error
      else bindr (interrupts_arch_vm_assign int_id (iq_vgic s)) (\<lambda>v.
        Inr (s\<lparr>iq_vgic := v, iq_vm_ints := bitmap_set (iq_vm_ints s) int_id,
               iq_tab := (iq_tab s)\<lparr>global_interrupt_bitmap :=
                 bitmap_set (global_interrupt_bitmap (iq_tab s)) int_id\<rparr>\<rparr>)))"

definition physicl_timer_init :: "irq_sys \<Rightarrow> irq_sys res" where
  "physicl_timer_init s =
     (let s = s\<lparr>iq_timer := timer_init (iq_timer s), iq_tab := interrupts_reserve IRQ_TIMER H_timer (iq_tab s)\<rparr>
      in bindr (gic_set_prio IRQ_TIMER 0 (gs_hw (iq_vgic s))) (\<lambda>h.
           Inr (upd_gic (\<lambda>_. gic_set_enable IRQ_TIMER True
             (gic_set_pend (gs_cpu (iq_vgic s)) IRQ_TIMER False h)) s)))"

definition interrupts_init :: "nat \<Rightarrow> irq_sys \<Rightarrow> irq_sys res" where
  "interrupts_init mid s =
     (let cid = gs_cpu (iq_vgic s)
      in bindr (interrupts_arch_init cid mid (gs_hw (iq_vgic s), iq_tab s)) (\<lambda>(h, t).
         let s = upd_gic (\<lambda>_. h) (s\<lparr>iq_tab := (if cid = 0 then interrupts_reserve IPI_CPU_MSG H_cpu_msg t else t)\<rparr>)
         in bindr (physicl_timer_init s) (\<lambda>s. interrupts_cpu_enable IPI_CPU_MSG True s)))"

subsection \<open>Which VM an interrupt belongs to\<close>

text \<open>
  The states of the tables while the VMs are set up: from the tables \<open>t0\<close> after the
  initialisation of the hypervisor, interrupts are assigned to VMs in any order. \<open>b v\<close> is the
  bitmap of VM \<open>v\<close>.
\<close>

inductive vm_setup :: "irq_tab \<Rightarrow> irq_tab \<Rightarrow> (nat \<Rightarrow> bitmap) \<Rightarrow> bool" for t0 where
  start: "vm_setup t0 t0 (\<lambda>_ _. 0)"
| assign: "vm_setup t0 (iq_tab s) b \<Longrightarrow> iq_vm_ints s = b v \<Longrightarrow> interrupts_vm_assign i s = Inr s' \<Longrightarrow>
    vm_setup t0 (iq_tab s') (b(v := iq_vm_ints s'))"

definition ints_exclusive :: "irq_tab \<Rightarrow> (nat \<Rightarrow> bitmap) \<Rightarrow> bool" where
  "ints_exclusive t b \<longleftrightarrow>
     (\<forall>i. interrupt_is_reserved t i \<longrightarrow> bmbit (global_interrupt_bitmap t) i) \<and>
     (\<forall>v i. bmbit (b v) i \<longrightarrow> bmbit (global_interrupt_bitmap t) i) \<and>
     (\<forall>i > GIC_CPU_PRIV. \<forall>v. bmbit (b v) i \<longrightarrow> \<not> interrupt_is_reserved t i \<and> (\<forall>w. bmbit (b w) i \<longrightarrow> v = w))"

lemma bmbit_zero [simp]: "\<not> bmbit (\<lambda>_. 0) i"
  by (simp add: bmbit_def)

lemma assign_result:
  assumes "interrupts_vm_assign i s = Inr s'"
  shows "iq_vm_ints s' = bitmap_set (iq_vm_ints s) i"
    and "global_interrupt_bitmap (iq_tab s') = bitmap_set (global_interrupt_bitmap (iq_tab s)) i"
    and "interrupt_is_reserved (iq_tab s') = interrupt_is_reserved (iq_tab s)"
    and "GIC_CPU_PRIV < i \<Longrightarrow> \<not> bmbit (global_interrupt_bitmap (iq_tab s)) i"
  using assms
  by (auto simp: interrupts_vm_assign_def bindr_eq_Inr_iff interrupts_arch_conflict_def bitmap_get_eq
      interrupt_is_reserved_def fun_eq_iff split: if_splits)

lemma vm_setup_exclusive:
  assumes "vm_setup t0 t b" "\<And>i. interrupt_is_reserved t0 i \<Longrightarrow> bmbit (global_interrupt_bitmap t0) i"
  shows "ints_exclusive t b"
  using assms(1)
proof induction
  case start
  then show ?case using assms(2) by (simp add: ints_exclusive_def)
next
  case (assign s b v i s')
  show ?case
    using assign.IH assign.hyps(2) assign_result[OF assign.hyps(3)]
    unfolding ints_exclusive_def by (auto split: if_splits)
qed

text \<open>C5: however the interrupts of the guests' devices are assigned while the VMs are set up,
  a shared peripheral interrupt above 32 belongs to at most one VM, and to none if the hypervisor
  has reserved it; a second assignment stops with an error. Interrupt 32 itself is not covered:
  the check compares with \<open>>\<close>, so it is never found to be in conflict.\<close>
theorem interrupts_vm_assign_exclusive:
  assumes "vm_setup t0 t b" "\<And>i. interrupt_is_reserved t0 i \<Longrightarrow> bmbit (global_interrupt_bitmap t0) i"
  shows "(\<forall>i > GIC_CPU_PRIV. \<forall>v w. vm_has_interrupt (b v) i \<and> vm_has_interrupt (b w) i \<longrightarrow> v = w) \<and>
    (\<forall>i > GIC_CPU_PRIV. \<forall>v. vm_has_interrupt (b v) i \<longrightarrow> \<not> interrupt_is_reserved t i) \<and>
    (\<forall>i > GIC_CPU_PRIV. \<forall>v s. vm_has_interrupt (b v) i \<longrightarrow> iq_tab s = t \<longrightarrow> interrupts_vm_assign i s = Inl Error) \<and>
    \<not> interrupts_arch_conflict (global_interrupt_bitmap t) GIC_CPU_PRIV"
  using vm_setup_exclusive[OF assms] unfolding ints_exclusive_def
  by (auto simp: vm_has_interrupt_def bitmap_get_eq interrupts_vm_assign_def interrupts_arch_conflict_def)

definition sample_irq :: irq_sys where
  "sample_irq = \<lparr>iq_vgic = sample_vgic, iq_sched = sample_sched, iq_tab = empty_irq_tab, iq_vm_ints = (\<lambda>_. 0),
     iq_timer = \<lparr>TIMER_WAIT = 2000, cntfrq = 0, tm_ctl = 0, tm_cval = 0, tm_cnt = 0, tm_frq_reg = 1000\<rparr>\<rparr>"

lemma sample_assign:
  assumes "i \<in> {32, 40}" "\<not> interrupts_arch_conflict (global_interrupt_bitmap (iq_tab s)) i" "iq_vgic s = sample_vgic"
  shows "\<exists>s'. interrupts_vm_assign i s = Inr s'"
proof -
  have "\<exists>v. vgic_set_hw i sample_vgic = Inr v"
    using assms(1) by (auto simp: vgic_set_hw_def vm_get_vcpu_def vgic_get_int_def set_int_hw_def lock_int_def sample_vgic_def
        sample_vm_def spin_lock_free SPINLOCK_INITVAL_def spin_lock_def)
  then show ?thesis using assms(2,3) by (auto simp: interrupts_vm_assign_def interrupts_arch_vm_assign_def)
qed

theorem interrupts_vm_assign_exclusive_witness:
  "\<exists>s'. interrupts_vm_assign 40 sample_irq = Inr s' \<and> interrupts_vm_assign 40 s' = Inl Error"
proof -
  have "\<not> interrupts_arch_conflict (global_interrupt_bitmap (iq_tab sample_irq)) 40"
    by (simp add: interrupts_arch_conflict_def bitmap_get_eq sample_irq_def empty_irq_tab_def)
  then obtain s' where s': "interrupts_vm_assign 40 sample_irq = Inr s'"
    using sample_assign[of 40 sample_irq] by (auto simp: sample_irq_def)
  have none: "interrupt_is_reserved empty_irq_tab i \<Longrightarrow> bmbit (global_interrupt_bitmap empty_irq_tab) i" for i
    by (simp add: interrupt_is_reserved_def bitmap_get_eq empty_irq_tab_def)
  have "vm_setup empty_irq_tab (iq_tab sample_irq) (\<lambda>_ _. 0)"
    using vm_setup.start[of empty_irq_tab] by (simp add: sample_irq_def)
  then have r: "vm_setup empty_irq_tab (iq_tab s') ((\<lambda>_ _. 0)(0 := iq_vm_ints s'))"
    by (rule vm_setup.assign[OF _ _ s']) (simp add: sample_irq_def)
  have "vm_has_interrupt (iq_vm_ints s') 40"
    by (simp add: vm_has_interrupt_def bitmap_get_eq assign_result(1)[OF s'])
  then have "interrupts_vm_assign 40 s' = Inl Error"
    using interrupts_vm_assign_exclusive[OF r none, THEN conjunct2, THEN conjunct2, THEN conjunct1, rule_format, of 40 0 s']
    by simp
  with s' show ?thesis by blast
qed

text \<open>Two VMs can both be given interrupt 32.\<close>

lemma interrupt_32_shared: "\<exists>t b. vm_setup empty_irq_tab t b \<and> vm_has_interrupt (b 0) 32 \<and> vm_has_interrupt (b 1) 32"
proof -
  have no: "\<not> interrupts_arch_conflict g 32" for g by (simp add: interrupts_arch_conflict_def)
  obtain s1 where s1: "interrupts_vm_assign 32 sample_irq = Inr s1"
    using sample_assign[of 32 sample_irq] no by (auto simp: sample_irq_def)
  define s where "s = sample_irq\<lparr>iq_tab := iq_tab s1\<rparr>"
  obtain s2 where s2: "interrupts_vm_assign 32 s = Inr s2"
    using sample_assign[of 32 s] no by (auto simp: sample_irq_def s_def)
  have "vm_setup empty_irq_tab (iq_tab sample_irq) (\<lambda>_ _. 0)"
    using vm_setup.start[of empty_irq_tab] by (simp add: sample_irq_def)
  then have "vm_setup empty_irq_tab (iq_tab s) ((\<lambda>_ _. 0)(0 := iq_vm_ints s1))"
    using vm_setup.assign[OF _ _ s1, of _ _ 0] by (simp add: sample_irq_def s_def)
  then have "vm_setup empty_irq_tab (iq_tab s2) ((\<lambda>_ _. 0)(0 := iq_vm_ints s1, 1 := iq_vm_ints s2))"
    by (rule vm_setup.assign[OF _ _ s2]) (simp add: sample_irq_def s_def)
  moreover have "bmbit (iq_vm_ints s1) 32" "bmbit (iq_vm_ints s2) 32"
    by (simp_all add: assign_result(1)[OF s1] assign_result(1)[OF s2])
  ultimately show ?thesis
    by (intro exI[of _ "iq_tab s2"] exI[of _ "(\<lambda>_ _. 0)(0 := iq_vm_ints s1, 1 := iq_vm_ints s2)"])
      (simp add: vm_has_interrupt_def bitmap_get_eq)
qed

subsection \<open>Handlers\<close>

text \<open>Every reserved interrupt has a handler.\<close>

definition irq_tab_wf :: "irq_tab \<Rightarrow> bool" where
  "irq_tab_wf t \<longleftrightarrow> (\<forall>i. interrupt_is_reserved t i \<longrightarrow> interrupt_handlers t i \<noteq> None)"

lemma reserve_wf: "irq_tab_wf t \<Longrightarrow> irq_tab_wf (interrupts_reserve i h t)"
  by (auto simp: irq_tab_wf_def interrupts_reserve_def interrupt_is_reserved_def bitmap_get_eq)

lemma reserve_reserved:
  "interrupt_is_reserved (interrupts_reserve i h t) j \<longleftrightarrow> (j = i \<and> i < GIC_MAX_INTERUPTS) \<or> interrupt_is_reserved t j"
  "i < GIC_MAX_INTERUPTS \<Longrightarrow> interrupt_handlers (interrupts_reserve i h t) i = Some h"
  by (auto simp: interrupts_reserve_def interrupt_is_reserved_def bitmap_get_eq)

lemma gic_init_tab:
  "gic_init cid mid (h, t) = Inr (h', t') \<Longrightarrow>
     t' = (if cid = 0 then interrupts_reserve mid H_gic_maintenance t else t)"
  by (auto simp: gic_init_def gicd_init_def Let_def bindr_eq_Inr_iff split: if_splits)

lemma interrupts_init_tab:
  assumes "interrupts_init mid s = Inr s'"
  shows "iq_tab s' = interrupts_reserve IRQ_TIMER H_timer
    (if gs_cpu (iq_vgic s) = 0
     then interrupts_reserve IPI_CPU_MSG H_cpu_msg (interrupts_reserve mid H_gic_maintenance (iq_tab s))
     else iq_tab s)"
proof (cases "gs_cpu (iq_vgic s) = 0")
  case True
  then show ?thesis using assms
    by (auto simp: interrupts_init_def interrupts_arch_init_def physicl_timer_init_def interrupts_cpu_enable_def
        bindr_eq_Inr_iff Let_def upd_gic_def dest!: gic_init_tab)
next
  case False
  then show ?thesis using assms
    by (auto simp: interrupts_init_def interrupts_arch_init_def physicl_timer_init_def interrupts_cpu_enable_def
        bindr_eq_Inr_iff Let_def upd_gic_def dest!: gic_init_tab)
qed

lemma vm_setup_handlers:
  "vm_setup t0 t b \<Longrightarrow> interrupt_handlers t = interrupt_handlers t0 \<and> interrupt_is_reserved t = interrupt_is_reserved t0"
proof (induction rule: vm_setup.induct)
  case (assign s b v i s')
  have "interrupt_handlers (iq_tab s') = interrupt_handlers (iq_tab s)"
    using assign.hyps(3) by (auto simp: interrupts_vm_assign_def bindr_eq_Inr_iff split: if_splits)
  then show ?case using assign.IH assign_result(3)[OF assign.hyps(3)] by simp
qed simp

text \<open>C14: after the master processor has initialised the interrupts of the platform and the VMs
  have been set up, a physical interrupt is dispatched as follows, and nothing else is possible:
  one that is assigned to the current VM is injected into it; the timer interrupt advances the
  timer and the scheduler, the message interrupt runs the message handler, the maintenance
  interrupt that of the virtual controller; any other interrupt stops with an error. In
  particular a handler that is called is never a null pointer.\<close>
theorem interrupt_dispatch:
  assumes "gs_cpu (iq_vgic s) = 0" "iq_tab s = empty_irq_tab"
    and "interrupts_init (maintenance_id (plat_gic platform_table)) s = Inr s0" "vm_setup (iq_tab s0) (iq_tab s') b"
  shows "interrupts_handle i s' =
    (if vm_has_interrupt (iq_vm_ints s') i
     then bind_opt (on_vgic_irq (Some (vgic_inject_hw (gs_vcpu (iq_vgic s')) i (iq_vgic s'))) s') (\<lambda>s. Some (Inr (FORWARD_TO_VM, s)))
     else if i = IRQ_TIMER then bind_opt (Some (timer_interrupt_handler s')) (\<lambda>s. Some (Inr (HANDLED_BY_HYP, s)))
     else if i = IPI_CPU_MSG
     then bind_opt (on_vgic_irq (vgic_cpu_msg_handler (iq_vgic s')) s') (\<lambda>s. Some (Inr (HANDLED_BY_HYP, s)))
     else if i = 25
     then bind_opt (on_vgic_irq (gic_maintenance_handler (iq_vgic s')) s') (\<lambda>s. Some (Inr (HANDLED_BY_HYP, s)))
     else Some (Inl Error))"
proof -
  let ?t = "interrupts_reserve IRQ_TIMER H_timer (interrupts_reserve IPI_CPU_MSG H_cpu_msg
    (interrupts_reserve 25 H_gic_maintenance empty_irq_tab))"
  have "iq_tab s0 = ?t"
    using interrupts_init_tab[OF assms(3)] assms(1,2) by (simp add: platform_table_def)
  then have t: "interrupt_handlers (iq_tab s') = interrupt_handlers ?t"
    "interrupt_is_reserved (iq_tab s') = interrupt_is_reserved ?t"
    using vm_setup_handlers[OF assms(4)] by simp_all
  have "interrupt_is_reserved ?t i \<longleftrightarrow> i = IRQ_TIMER \<or> i = IPI_CPU_MSG \<or> i = 25" for i
    by (auto simp: reserve_reserved) (simp add: interrupt_is_reserved_def bitmap_get_eq empty_irq_tab_def)
  moreover have "interrupt_handlers ?t i = (if i = IRQ_TIMER then Some H_timer else if i = IPI_CPU_MSG then Some H_cpu_msg
      else if i = 25 then Some H_gic_maintenance else None)" for i
    by (simp add: interrupts_reserve_def empty_irq_tab_def)
  ultimately show ?thesis using t
    by (simp add: interrupts_handle_def vcpu_inject_hw_irq_def)
qed

subsection \<open>The initialisation returns\<close>

abbreviation lock_free :: "gic_hw \<Rightarrow> bool" where
  "lock_free h \<equiv> ticket (gicd_lk h) = next_tk (gicd_lk h)"

lemma gicd_lk_fold:
  "gicd_lk (fold (\<lambda>i. gicd_update (g i)) xs h) = gicd_lk h" "gicd_lk (fold gicd_quiet xs h) = gicd_lk h"
  "gicd_lk (fold (\<lambda>i. gich_update (g i)) xs h) = gicd_lk h"
  by (induction xs arbitrary: h) (simp_all add: gicd_quiet_def Let_def)

lemma ffs_no_error: "(bit_ffs (w :: u32) + 1) mod 2 ^ 64 < 2 ^ 63"
proof (cases "w = 0")
  case False
  from bit_imp_le_length[OF bit_ffs_Some(1)[OF this]] show ?thesis by simp
qed simp

lemma gic_init_returns: "\<exists>h' t'. gic_init cid mid (h, t) = Inr (h', t') \<and> gicd_lk h' = gicd_lk h"
proof -
  have "\<exists>h'. gicc_init cid h = Inr h' \<and> gicd_lk h' = gicd_lk h" for h
    using ffs_no_error by (simp add: gicc_init_def Let_def gicd_lk_fold not_le[symmetric])
  moreover have "\<exists>h0. gic_cpu_init cid h = gicc_init cid h0 \<and> gicd_lk h0 = gicd_lk h" for h
    by (rule exI, rule conjI, unfold gic_cpu_init_def Let_def, rule refl) (simp add: gicd_lk_fold)
  ultimately have cpu: "\<exists>h'. gic_cpu_init cid h = Inr h' \<and> gicd_lk h' = gicd_lk h" for h
    by metis
  have dist: "gicd_lk (fst (gicd_init mid (h, t))) = gicd_lk h"
    by (simp add: gicd_init_def Let_def gicd_lk_fold)
  show ?thesis
    using cpu[of h] cpu[of "(fst (gicd_init mid (h, t)))\<lparr>NUM_LRS := gich_num_lrs (fst (gicd_init mid (h, t)))\<rparr>"] dist
    by (auto simp: gic_init_def Let_def split: prod.splits)
qed

lemma with_lock_returns: "lock_free h \<Longrightarrow> (\<And>h. gicd_lk (f h) = gicd_lk h) \<Longrightarrow> \<exists>h'. with_gicd_lock f h = Inr h' \<and> lock_free h'"
  using spin_lock_free[of "gicd_lk h"] spin_lock_unlock[of "gicd_lk h"] by (auto simp: with_gicd_lock_def Let_def)

lemma set_prio_returns: "lock_free h \<Longrightarrow> \<exists>h'. gic_set_prio i p h = Inr h' \<and> lock_free h'"
  unfolding gic_set_prio_def gicd_set_prio_def Let_def by (rule with_lock_returns) simp_all

lemma arch_enable_returns: "lock_free h \<Longrightarrow> \<exists>h'. interrupts_arch_enable cid i en h = Inr h' \<and> lock_free h'"
proof -
  assume h: "lock_free h"
  have "lock_free (gic_set_enable i en h)" using h by (simp add: gic_set_enable_def gicd_set_enable_def Let_def)
  then obtain h1 where "gic_set_prio i 1 (gic_set_enable i en h) = Inr h1" "lock_free h1"
    using set_prio_returns by blast
  moreover have "\<exists>h'. gicd_set_trgt i tr h1 = Inr h' \<and> lock_free h'" for tr
    unfolding gicd_set_trgt_def Let_def by (rule with_lock_returns[OF \<open>lock_free h1\<close>]) simp
  ultimately show ?thesis by (auto simp: interrupts_arch_enable_def)
qed

lemma interrupts_init_returns:
  assumes "lock_free (gs_hw (iq_vgic s))"
  shows "\<exists>s'. interrupts_init mid s = Inr s'"
proof -
  let ?c = "gs_cpu (iq_vgic s)"
  obtain h1 t1 where g: "gic_init ?c mid (gs_hw (iq_vgic s), iq_tab s) = Inr (h1, t1)" "lock_free h1"
    using gic_init_returns[of ?c mid "gs_hw (iq_vgic s)" "iq_tab s"] assms by auto
  obtain h2 where e: "interrupts_arch_enable ?c mid True h1 = Inr h2" "lock_free h2"
    using arch_enable_returns[OF g(2)] by blast
  obtain h3 where p: "gic_set_prio IRQ_TIMER 0 h2 = Inr h3" "lock_free h3"
    using set_prio_returns[OF e(2)] by blast
  have "lock_free (gic_set_enable IRQ_TIMER True (gic_set_pend ?c IRQ_TIMER False h3))"
    using p(2) by (simp add: gic_set_enable_def gicd_set_enable_def gic_set_pend_def gicd_set_pend_def Let_def)
  then obtain h4 where "interrupts_arch_enable ?c IPI_CPU_MSG True
      (gic_set_enable IRQ_TIMER True (gic_set_pend ?c IRQ_TIMER False h3)) = Inr h4"
    using arch_enable_returns by blast
  with g e p show ?thesis
    by (simp add: interrupts_init_def interrupts_arch_init_def physicl_timer_init_def interrupts_cpu_enable_def
        upd_gic_def Let_def)
qed

theorem interrupt_dispatch_witness:
  "\<exists>s0. interrupts_init 25 (sample_irq\<lparr>iq_vgic := sample_vgic\<lparr>gs_cpu := 0\<rparr>\<rparr>) = Inr s0 \<and>
     interrupts_handle 99 (s0\<lparr>iq_vm_ints := (\<lambda>_. 0)\<rparr>) = Some (Inl Error)"
proof -
  let ?s = "sample_irq\<lparr>iq_vgic := sample_vgic\<lparr>gs_cpu := 0\<rparr>\<rparr>"
  have "lock_free (gs_hw (iq_vgic ?s))"
    by (simp add: sample_vgic_def sample_gic_def SPINLOCK_INITVAL_def)
  then obtain s0 where s0: "interrupts_init 25 ?s = Inr s0" using interrupts_init_returns by blast
  have "interrupts_handle 99 (s0\<lparr>iq_vm_ints := (\<lambda>_. 0)\<rparr>) = Some (Inl Error)"
    by (subst interrupt_dispatch[where s = ?s and ?s0.0 = s0 and b = "\<lambda>_ _. 0"])
      (use s0 vm_setup.start[of "iq_tab s0"] in \<open>simp_all add: sample_irq_def platform_table_def vm_has_interrupt_def bitmap_get_eq\<close>)
  with s0 show ?thesis by blast
qed

end
