(* ===== verification/Vm_Init.thy ===== *)
theory Vm_Init
  imports Interrupts
begin

text \<open>
  How the VMs come up: \<open>core/vm.c\<close> (\<open>vm_init\<close> and its parts), \<open>core/vmm.c\<close>,
  \<open>arch/aarch64/arch_vmm.c\<close>, the rest of \<open>arch_vm.c\<close>, \<open>core/io.c\<close> and \<open>iommu.c\<close> in the configuration
  without an IOMMU. \<open>boot\<close> is the state of the master processor while it sets up one VM after the
  other; the address space and the interrupt controller in it are those of the VM in work, and
  \<open>bt_done\<close> keeps those of the finished ones. The sizes and member offsets that the compiler
  chooses are the parameter \<open>vm_layout\<close>. The barriers between the processors are in theory
  \<open>Locks\<close>; entering the guest ends the model.
\<close>

unbundle bit_operations_syntax

record vm_layout =
  sz_vm :: u64
  sz_vcpu :: u64
  al_vcpu :: u64
  o_emul_mem_list :: u64
  o_vgicd_emul :: u64
  o_vgic_spilled :: u64
  o_vcpu_priv :: u64
  o_vcpu_spilled :: u64

record vm_allocation =
  al_base :: vaddr_t
  al_size :: u64
  al_vm :: vaddr_t
  al_vcpus :: vaddr_t

record vm_assignment =
  as_alock :: spinlock
  as_master :: bool
  as_ncpus :: nat
  as_alloc :: vm_allocation

record s2_config =
  min_parange :: nat
  s2_pt_dscr :: page_table_dscr
  s2_vtcr :: u64

record boot =
  bt_guest :: guest
  bt_irq :: irq_sys
  bt_s2 :: s2_config
  bt_mmfr0 :: u64
  bt_hcr :: u64
  bt_cptr :: u64
  bt_vttbr :: u64
  bt_assign :: "nat \<Rightarrow> vm_assignment"
  bt_done :: "(vgic_sys \<times> addr_space \<times> bitmap) list"

abbreviation upd_vgic :: "(vgic_sys \<Rightarrow> vgic_sys) \<Rightarrow> boot \<Rightarrow> boot" where
  "upd_vgic f b \<equiv> b\<lparr>bt_irq := (bt_irq b)\<lparr>iq_vgic := f (iq_vgic (bt_irq b))\<rparr>\<rparr>"

abbreviation upd_guest :: "(guest \<Rightarrow> guest) \<Rightarrow> boot \<Rightarrow> boot" where
  "upd_guest f b \<equiv> b\<lparr>bt_guest := f (bt_guest b)\<rparr>"

subsection \<open>The stage-2 configuration\<close>

text \<open>
  \<open>vmm_arch_init_tcr\<close> on one processor: the smallest physical address range so far, the
  descriptor of the stage-2 tables and the register value. A range that the table does not have
  is an access behind its end. The address spaces of theory \<open>Mmu\<close> are those of the descriptor
  that is not patched, as on the platform's processors (44 bits).
\<close>

fun patch_dscr :: "nat list \<Rightarrow> page_table_dscr \<Rightarrow> page_table_dscr" where
  "patch_dscr [] d = d"
| "patch_dscr (i # is) d = patch_dscr is
     (d\<lparr>lvl_wdt := (lvl_wdt d)[i := lvl_wdt d ! (i + 1)],
        lvl_off := (lvl_off d)[i := lvl_off d ! (i + 1)],
        lvl_term := (lvl_term d)[i := lvl_term d ! (i + 1)]\<rparr>)"

definition vtcr_of :: "nat \<Rightarrow> nat \<Rightarrow> u64" where
  "vtcr_of parange bits =
     lsl 1 31 OR (lsl (word_of_nat parange) 16 AND lsl 7 16) OR lsl 1 10 OR lsl 1 8 OR
     (word_of_nat (64 - bits) AND 0x1f) OR lsl 3 12 OR
     (if bits < 44 then lsl 1 6 AND 0xc0 else lsl 2 6 AND 0xc0)"

definition vmm_arch_init_tcr :: "u64 \<Rightarrow> s2_config \<Rightarrow> s2_config res" where
  "vmm_arch_init_tcr mmfr0 c =
     (let temp_parange = unat (mmfr0 AND BIT_MASK 0 4);
          parange = min temp_parange (min_parange c);
          c = c\<lparr>min_parange := parange\<rparr>
      in if length parange_table \<le> parange then Inl Bad_Access
         else
           let bits = parange_table ! parange;
               d = s2_pt_dscr c;
               d' = (if bits < 44 then
                       let d = patch_dscr [0..<lvls d - 1] d
                       in d\<lparr>lvl_wdt := (lvl_wdt d)[0 := bits], lvls := lvls d - 1\<rparr>
                     else d)
           in Inr (c\<lparr>s2_pt_dscr := d', s2_vtcr := vtcr_of parange bits\<rparr>))"

text \<open>The values of \<open>HCR_EL2\<close> and \<open>CPTR_EL2\<close> as well.\<close>

definition vmm_arch_init :: "u64 \<Rightarrow> s2_config \<Rightarrow> (s2_config \<times> u64 \<times> u64) res" where
  "vmm_arch_init mmfr0 c =
     bindr (vmm_arch_init_tcr mmfr0 c) (\<lambda>c. Inr (c, lsl 1 0 OR lsl 1 31 OR lsl 1 4 OR lsl 1 3, 0))"

subsection \<open>Devices (no IOMMU)\<close>

definition iommu_arch_init :: bool where "iommu_arch_init = True"
definition iommu_arch_vm_add_device :: "u64 \<Rightarrow> bool" where "iommu_arch_vm_add_device d = True"
definition iommu_arch_vm_init :: "vm_config \<Rightarrow> bool" where "iommu_arch_vm_init cfg = True"

definition io_vm_init :: "vm_config \<Rightarrow> bool" where
  "io_vm_init cfg = iommu_arch_vm_init cfg"

definition io_vm_add_device :: "u64 \<Rightarrow> bool" where
  "io_vm_add_device d = (if d \<noteq> 0 then iommu_arch_vm_add_device d else False)"

definition map_dev :: "vm_dev_region \<Rightarrow> boot \<Rightarrow> boot res option" where
  "map_dev dev b =
     (let n = ALIGN (dev_size dev) PAGE_SIZE div PAGE_SIZE
      in bind_opt (if dev_va dev \<noteq> INVALID_VA
                   then bind_opt (mem_alloc_map_dev (dev_va dev) (dev_pa dev) n (g_mm (bt_guest b))) (\<lambda>(_, m). Some (Inr m))
                   else Some (Inr (g_mm (bt_guest b)))) (\<lambda>m.
         let b = upd_guest (g_mm_update (\<lambda>_. m)) b
         in Some (bindr (fold_res interrupts_vm_assign (take (dev_interrupt_num dev) (dev_interrupts dev)) (bt_irq b)) (\<lambda>q.
              Inr (b\<lparr>bt_irq := q\<rparr>)))))"

fun map_devs :: "vm_dev_region list \<Rightarrow> boot \<Rightarrow> boot res option" where
  "map_devs [] b = Some (Inr b)"
| "map_devs (d # ds) b = bind_opt (map_dev d b) (map_devs ds)"

definition vm_init_dev :: "vm_config \<Rightarrow> boot \<Rightarrow> boot res option" where
  "vm_init_dev cfg b =
     bind_opt (map_devs (vc_devs cfg) b) (\<lambda>b.
       Some (if io_vm_init cfg \<and> (\<exists>dev \<in> set (vc_devs cfg). dev_id dev \<noteq> 0 \<and> \<not> io_vm_add_device (dev_id dev))
             then Inl Error else Inr b))"

subsection \<open>One VM\<close>

text \<open>The memory of the VM was cleared when it was allocated.\<close>

definition vm_allocation_init :: "vm_layout \<Rightarrow> vm_allocation \<Rightarrow> vgic_sys \<Rightarrow> vgic_sys" where
  "vm_allocation_init L a s =
     s\<lparr>gs_vm := \<lparr>vm_id = 0, vm.vm_nr_cpus = 0,
         vm_vcpus = (\<lambda>_. \<lparr>v_p_id = 0, v_regs = \<lparr>x_regs = (\<lambda>_. 0), spsr_el2 = 0, elr_el2 = 0, sp_el1 = 0\<rparr>, v_vmpidr = 0\<rparr>),
         vm_cpus = 0, vm.vm_master = 0, vm_lock = SPINLOCK_INITVAL\<rparr>,
       gs_emul_list := al_vm a + o_emul_mem_list L, gs_vgicd_emul := al_vm a + o_vgicd_emul L,
       gs_vm_spilled := al_vm a + o_vgic_spilled L,
       gs_priv := (\<lambda>v. al_vcpus a + word_of_nat v * sz_vcpu L + o_vcpu_priv L),
       gs_spilled := (\<lambda>v. al_vcpus a + word_of_nat v * sz_vcpu L + o_vcpu_spilled L)\<rparr>"

definition vm_master_init :: "vm_config \<Rightarrow> nat \<Rightarrow> boot \<Rightarrow> boot res option" where
  "vm_master_init cfg idt b =
     (let b = upd_vgic (\<lambda>s. s\<lparr>gs_vm := (gs_vm s)\<lparr>vm.vm_master := gs_cpu s, vm.vm_nr_cpus := vc_nr_cpus cfg,
                 vm_id := word_of_nat idt\<rparr>\<rparr>) b;
          b = upd_guest (\<lambda>g. g\<lparr>g_vm_id := word_of_nat idt, g_cfg := cfg\<rparr>) b
      in bind_opt (as_init AS_VM (word_of_nat idt) 0 (g_mm (bt_guest b))) (\<lambda>m.
           Some (Inr (upd_vgic (\<lambda>s. s\<lparr>gs_heap := INIT_LIST_HEAD (gs_emul_list s) (gs_heap s)\<rparr>)
             (upd_guest (g_mm_update (\<lambda>_. m)) b)))))"

definition VTTBR_VMID_MSK :: u64 where "VTTBR_VMID_MSK = BIT_MASK 48 8"

definition vttbr_value :: "u64 \<Rightarrow> u64 \<Rightarrow> u64" where
  "vttbr_value vmid root = (lsl vmid 48 AND VTTBR_VMID_MSK) OR (root AND NOT VTTBR_VMID_MSK)"

definition vcpu_arch_init :: "nat \<Rightarrow> vgic_sys \<Rightarrow> vgic_sys" where
  "vcpu_arch_init i s =
     (let s = s\<lparr>gs_vm := (gs_vm s)\<lparr>vm_vcpus := (vm_vcpus (gs_vm s))(i :=
                  (vm_vcpus (gs_vm s) i)\<lparr>v_vmpidr := vm_cpuid_to_mpidr (gs_vm s) i\<rparr>)\<rparr>\<rparr>
      in vgic_cpu_init i s)"

definition init_vcpu :: "vm_config \<Rightarrow> nat \<Rightarrow> vgic_sys \<Rightarrow> vgic_sys" where
  "init_vcpu cfg i s =
     (let s = vcpu_arch_init i s
      in s\<lparr>gs_vm := (gs_vm s)\<lparr>vm_vcpus := (vm_vcpus (gs_vm s))(i :=
           vcpu_arch_reset (if i = 0 then vc_entry cfg else 0) (vm_vcpus (gs_vm s) i))\<rparr>\<rparr>)"

definition vm_vcpu_init :: "vm_config \<Rightarrow> vgic_sys \<Rightarrow> vgic_sys" where
  "vm_vcpu_init cfg s = fold (init_vcpu cfg) [0..<vm.vm_nr_cpus (gs_vm s)] s"

definition alloc_and_copy :: "vaddr_t \<Rightarrow> u64 \<Rightarrow> paddr_t \<Rightarrow> u64 \<Rightarrow> guest \<Rightarrow> guest res option" where
  "alloc_and_copy base bytes load len g =
     bind_opt (mem_alloc_map None base (NUM_PAGES bytes) PTE_VM_FLAGS (g_mm g)) (\<lambda>(va, m).
       let g = g\<lparr>g_mm := m\<rparr>
       in Some (if va \<noteq> base then Inl Error
                else bindr (mem_translate va g) (\<lambda>pa. Inr (g\<lparr>g_mem := memcpy pa load (unat len) (g_mem g)\<rparr>))))"

definition vm_init_mem_regions :: "vm_config \<Rightarrow> dtb_config \<Rightarrow> guest \<Rightarrow> guest res option" where
  "vm_init_mem_regions cfg dtb g =
     bind_opt (alloc_and_copy (vc_base_addr cfg) (vc_size cfg + vc_dmem_size cfg) (vc_load_addr cfg) (vc_size cfg) g) (\<lambda>g.
       alloc_and_copy (dtb_base_addr dtb) (dtb_size dtb) (dtb_load_addr dtb) (dtb_size dtb) g)"

definition vm_register :: "nat \<Rightarrow> vm_config \<Rightarrow> boot \<Rightarrow> boot res" where
  "vm_register idt cfg b =
     (let q = bt_irq b; sc = iq_sched q
      in bindr (vm_sched_init idt (sc\<lparr>sched.vm_nr_cpus := (sched.vm_nr_cpus sc)(idt := vc_nr_cpus cfg),
                 sched.vm_master := (sched.vm_master sc)(idt := gs_cpu (iq_vgic q))\<rparr>)) (\<lambda>sc.
           Inr (upd_guest (\<lambda>g. g\<lparr>g_vms := word_of_nat idt # g_vms g\<rparr>) (b\<lparr>bt_irq := q\<lparr>iq_sched := sc\<rparr>\<rparr>))))"

definition vm_init :: "vm_layout \<Rightarrow> vm_allocation \<Rightarrow> dtb_config \<Rightarrow> vm_config \<Rightarrow> nat \<Rightarrow> boot \<Rightarrow> boot res option" where
  "vm_init L a dtb cfg idt b =
     (let b = upd_vgic (vm_allocation_init L a) b;
          b = b\<lparr>bt_irq := (bt_irq b)\<lparr>iq_vm_ints := (\<lambda>_. 0)\<rparr>\<rparr>
      in bind_opt (vm_master_init cfg idt b) (\<lambda>b.
         let b = b\<lparr>bt_vttbr := vttbr_value (word_of_nat idt) (pt_root (pt_of (g_mm (bt_guest b))))\<rparr>;
             b = upd_vgic (vm_vcpu_init cfg) b
         in bind_opt (vgic_init (plat_gicv_addr (plat_gic platform_table)) (vc_gic cfg)
                        (iq_vgic (bt_irq b), g_mm (bt_guest b))) (\<lambda>(s, m).
            let b = upd_guest (g_mm_update (\<lambda>_. m)) (upd_vgic (\<lambda>_. s) b)
            in bind_opt (vm_init_mem_regions cfg dtb (bt_guest b)) (\<lambda>g.
               bind_opt (vm_init_dev cfg (b\<lparr>bt_guest := g\<rparr>)) (\<lambda>b.
               Some (vm_register idt cfg (upd_guest (vm_rq_init (word_of_nat idt) cfg) b)))))))"

subsection \<open>All VMs\<close>

definition vmm_assign_vcpu :: "vm_config list \<Rightarrow> boot \<Rightarrow> boot res" where
  "vmm_assign_vcpu cfgs b =
     fold_res (\<lambda>i b. bindr (spin_lock (as_alock (bt_assign b i))) (\<lambda>l.
         let va = (bt_assign b i)\<lparr>as_alock := l\<rparr>;
             va = (if \<not> as_master va then va\<lparr>as_master := True, as_ncpus := vc_nr_cpus (cfgs ! i)\<rparr> else va)
         in Inr (b\<lparr>bt_assign := (bt_assign b)(i := va\<lparr>as_alock := spin_unlock l\<rparr>)\<rparr>)))
       [0..<length cfgs] b"

text \<open>The address 0 is a failed allocation, and \<open>None\<close> in the result is \<open>false\<close>.\<close>

definition vmm_alloc_vm :: "vm_layout \<Rightarrow> vm_config \<Rightarrow> guest \<Rightarrow> (vm_allocation option \<times> guest) res option" where
  "vmm_alloc_vm L cfg g =
     (let vcpus_offset = ALIGN (sz_vm L) (al_vcpu L);
          total_size = ALIGN (vcpus_offset + word_of_nat (vc_nr_cpus cfg) * sz_vcpu L) PAGE_SIZE
      in bind_opt (mem_alloc_page (mm_pool (g_mm g)) (unat (NUM_PAGES total_size)) False) (\<lambda>(pool, a).
           let g = g\<lparr>g_mm := (g_mm g)\<lparr>mm_pool := pool\<rparr>\<rparr>
           in Some (Inr (if a = 0 then (None, g)
                else (Some \<lparr>al_base = a, al_size = total_size, al_vm = a, al_vcpus = a + vcpus_offset\<rparr>,
                      g\<lparr>g_mem := memset a 0 (unat total_size) (g_mem g)\<rparr>)))))"

definition vmm_alloc_install_vm :: "vm_layout \<Rightarrow> vm_config \<Rightarrow> nat \<Rightarrow> boot \<Rightarrow> (vm_allocation \<times> boot) res option" where
  "vmm_alloc_install_vm L cfg idt b =
     bind_opt (vmm_alloc_vm L cfg (bt_guest b)) (\<lambda>(r, g).
       Some (case r of
           None \<Rightarrow> Inl Error
         | Some a \<Rightarrow> Inr (a, b\<lparr>bt_guest := g,
             bt_assign := (bt_assign b)(idt := (bt_assign b idt)\<lparr>as_alloc := a\<rparr>)\<rparr>)))"

definition finish_vm :: "boot \<Rightarrow> boot" where
  "finish_vm b = b\<lparr>bt_done := bt_done b @ [(iq_vgic (bt_irq b), mm_as (g_mm (bt_guest b)), iq_vm_ints (bt_irq b))]\<rparr>"

fun init_vms :: "vm_layout \<Rightarrow> dtb_config \<Rightarrow> (nat \<times> vm_config) list \<Rightarrow> boot \<Rightarrow> boot res option" where
  "init_vms L dtb [] b = Some (Inr b)"
| "init_vms L dtb ((i, cfg) # vs) b =
     bind_opt (vmm_alloc_install_vm L cfg i b) (\<lambda>(a, b).
     bind_opt (vm_init L a dtb cfg i b) (\<lambda>b. init_vms L dtb vs (finish_vm b)))"

definition vmm_init :: "vm_layout \<Rightarrow> hyp_config_table \<Rightarrow> boot \<Rightarrow> boot res option" where
  "vmm_init L cfg b =
     bind_opt (Some (vmm_arch_init (bt_mmfr0 b) (bt_s2 b))) (\<lambda>(s2, hcr, cptr).
     let b = b\<lparr>bt_s2 := s2, bt_hcr := hcr, bt_cptr := cptr\<rparr>;
         c = gs_cpu (iq_vgic (bt_irq b));
         b = upd_guest (\<lambda>g. g\<lparr>g_vms := []\<rparr>) b
     in bind_opt (if c = 0
                  then bind_opt (Some (vmm_assign_vcpu (cfg_vms cfg) b))
                         (init_vms L (cfg_dtb cfg) (enumerate 0 (cfg_vms cfg)))
                  else Some (Inr b)) (\<lambda>b.
        Some (bindr (try_reschedule c (iq_sched (bt_irq b))) (\<lambda>sc.
          Inr (b\<lparr>bt_irq := (bt_irq b)\<lparr>iq_sched := sc\<rparr>\<rparr>)))))"

subsection \<open>What the initialisation of the vCPUs establishes\<close>

lemma fold_upd_int:
  "fold (\<lambda>i. upd_int (a i) (f i)) xs s = gs_ints_update (fold (\<lambda>i m. m(a i := f i (m (a i)))) xs) s"
  by (induction xs arbitrary: s) (simp_all add: o_def)

lemma fold_upd_keeps:
  assumes "\<And>i x. Q x \<Longrightarrow> Q (f i x)" "Q (m p)"
  shows "Q (fold (\<lambda>i m. m(a i := f i (m (a i)))) xs m p)"
  using assms(2)
proof (induction xs arbitrary: m)
  case (Cons i xs)
  have "Q ((m(a i := f i (m (a i)))) p)" using Cons.prems assms(1) by auto
  from Cons.IH[of "m(a i := f i (m (a i)))", OF this] show ?case by (simp del: fun_upd_apply)
qed simp

lemma fold_upd_other:
  assumes "q \<notin> a ` set xs"
  shows "fold (\<lambda>i m. m(a i := f i (m (a i)))) xs m q = m q"
  using assms by (induction xs arbitrary: m) auto

lemma fold_upd_at:
  assumes "inj_on a (set xs)" "distinct xs" "j \<in> set xs"
  shows "fold (\<lambda>i m. m(a i := f i (m (a i)))) xs m (a j) = f j (m (a j))"
  using assms
proof (induction xs arbitrary: m)
  case (Cons i xs)
  show ?case
  proof (cases "j = i")
    case True
    then have "a j \<notin> a ` set xs" using Cons.prems by auto
    from fold_upd_other[OF this, of f] show ?thesis using True by (simp del: fun_upd_apply) simp
  next
    case False
    then have "a j \<noteq> a i" using Cons.prems by (auto simp: inj_on_def)
    then show ?thesis using Cons False by simp
  qed
qed simp

text \<open>The address of private interrupt \<open>i\<close> of vCPU \<open>v\<close>; the structures of different vCPUs do not overlap.\<close>

abbreviation priv_int :: "vgic_sys \<Rightarrow> nat \<Rightarrow> nat \<Rightarrow> node" where
  "priv_int s v i \<equiv> gs_priv s v + VGIC_INT_SIZE * word_of_nat i"

definition priv_distinct :: "nat \<Rightarrow> vgic_sys \<Rightarrow> bool" where
  "priv_distinct k s \<longleftrightarrow> (\<forall>v < k. \<forall>w < k. \<forall>i < GIC_CPU_PRIV. \<forall>j < GIC_CPU_PRIV.
     priv_int s v i = priv_int s w j \<longrightarrow> v = w \<and> i = j)"

text \<open>What initialisation leaves of private interrupt \<open>i\<close> of vCPU \<open>v\<close>.\<close>

definition priv_ready :: "nat \<Rightarrow> nat \<Rightarrow> vgic_int \<Rightarrow> bool" where
  "priv_ready v i x \<longleftrightarrow> vi_owner x = Some v \<and> vi_id x = i \<and> vi_state x = INV \<and> vi_prio x = GIC_LOWEST_PRIO \<and>
     vi_lock x = SPINLOCK_INITVAL \<and> vi_byte0 x = 0 \<and> vi_byte1 x = 0 \<and> \<not> vi_hw x \<and> \<not> vi_in_lr x \<and>
     (vi_enabled x \<longleftrightarrow> i < GIC_MAX_SGIS)"

lemma vgic_cpu_init_spec:
  "gs_vm (vgic_cpu_init v s) = gs_vm s" "gs_priv (vgic_cpu_init v s) = gs_priv s"
  "vgic_wf n c s \<Longrightarrow> vgic_wf n c (vgic_cpu_init v s)"
  "q \<notin> priv_int s v ` {..<GIC_CPU_PRIV} \<Longrightarrow> gs_ints (vgic_cpu_init v s) q = gs_ints s q"
  "inj_on (priv_int s v) {..<GIC_CPU_PRIV} \<Longrightarrow> i < GIC_CPU_PRIV \<Longrightarrow>
     priv_ready v i (gs_ints (vgic_cpu_init v s) (priv_int s v i))"
proof -
  let ?a = "priv_int s v"
  note folds = fold_upd_int[where a = ?a and f = "init_priv v"]
    fold_upd_int[where a = ?a and f = "\<lambda>_. vi_enabled_update (\<lambda>_. True)"]
  show "gs_vm (vgic_cpu_init v s) = gs_vm s" "gs_priv (vgic_cpu_init v s) = gs_priv s"
    by (simp_all add: vgic_cpu_init_def Let_def folds)
  define m where "m = fold (\<lambda>i m. m(?a i := init_priv v i (m (?a i)))) [0..<GIC_CPU_PRIV] (gs_ints s)"
  have ints: "gs_ints (vgic_cpu_init v s) =
      fold (\<lambda>i m. m(?a i := vi_enabled_update (\<lambda>_. True) (m (?a i)))) [0..<GIC_MAX_SGIS] m"
    by (simp add: vgic_cpu_init_def Let_def folds m_def)
  show "vgic_wf n c (vgic_cpu_init v s)" if wf: "vgic_wf n c s"
  proof -
    have m3: "int_ok n (m p)" for p
      unfolding m_def by (rule fold_upd_keeps[where Q = "int_ok n"]) (use wf in \<open>auto simp: vgic_wf_def init_priv_def int_ok_def\<close>)
    have "int_ok n (gs_ints (vgic_cpu_init v s) p)" for p
      unfolding ints by (rule fold_upd_keeps[where Q = "int_ok n"]) (use m3 in simp_all)
    then show ?thesis using wf by (simp add: vgic_wf_def) (simp add: vgic_cpu_init_def Let_def folds)
  qed
  show "gs_ints (vgic_cpu_init v s) q = gs_ints s q" if "q \<notin> ?a ` {..<GIC_CPU_PRIV}"
  proof -
    have n: "q \<notin> ?a ` set [0..<GIC_CPU_PRIV]" "q \<notin> ?a ` set [0..<GIC_MAX_SGIS]"
      using that by (auto simp: image_iff)
    have "gs_ints (vgic_cpu_init v s) q = m q" unfolding ints by (rule fold_upd_other[OF n(2)])
    also have "m q = gs_ints s q" unfolding m_def by (rule fold_upd_other[OF n(1)])
    finally show ?thesis .
  qed
  show "priv_ready v i (gs_ints (vgic_cpu_init v s) (?a i))"
    if inj: "inj_on ?a {..<GIC_CPU_PRIV}" and i: "i < GIC_CPU_PRIV"
  proof -
    have inj': "inj_on ?a (set [0..<GIC_CPU_PRIV])" "inj_on ?a (set [0..<GIC_MAX_SGIS])"
      using inj by (auto intro: inj_on_subset)
    have mi: "m (?a i) = init_priv v i (gs_ints s (?a i))"
      unfolding m_def by (rule fold_upd_at[OF inj'(1)]) (use i in auto)
    have low: "?a i \<in> ?a ` set [0..<GIC_MAX_SGIS] \<longleftrightarrow> i \<in> set [0..<GIC_MAX_SGIS]"
      by (rule inj_on_image_mem_iff[OF inj'(1)]) (use i in auto)
    show ?thesis
    proof (cases "i < GIC_MAX_SGIS")
      case True
      have "gs_ints (vgic_cpu_init v s) (?a i) = vi_enabled_update (\<lambda>_. True) (m (?a i))"
        unfolding ints by (rule fold_upd_at[OF inj'(2)]) (use True in auto)
      then show ?thesis using True by (simp add: mi init_priv_def priv_ready_def)
    next
      case False
      have "gs_ints (vgic_cpu_init v s) (?a i) = m (?a i)"
        unfolding ints by (rule fold_upd_other) (use False low in simp)
      then show ?thesis using False by (simp add: mi init_priv_def priv_ready_def)
    qed
  qed
qed

lemma init_vcpu_spec:
  "gs_priv (init_vcpu cfg v s) = gs_priv s" "vm.vm_nr_cpus (gs_vm (init_vcpu cfg v s)) = vm.vm_nr_cpus (gs_vm s)"
  "vm_vcpus (gs_vm (init_vcpu cfg v s)) w =
     (if w = v then vcpu_arch_reset (if v = 0 then vc_entry cfg else 0)
        ((vm_vcpus (gs_vm s) v)\<lparr>v_vmpidr := vm_cpuid_to_mpidr (gs_vm s) v\<rparr>) else vm_vcpus (gs_vm s) w)"
  "vgic_wf n c s \<Longrightarrow> vgic_wf n c (init_vcpu cfg v s)"
  "q \<notin> priv_int s v ` {..<GIC_CPU_PRIV} \<Longrightarrow> gs_ints (init_vcpu cfg v s) q = gs_ints s q"
  "inj_on (priv_int s v) {..<GIC_CPU_PRIV} \<Longrightarrow> i < GIC_CPU_PRIV \<Longrightarrow>
     priv_ready v i (gs_ints (init_vcpu cfg v s) (priv_int s v i))"
proof -
  let ?s = "s\<lparr>gs_vm := (gs_vm s)\<lparr>vm_vcpus := (vm_vcpus (gs_vm s))
    (v := (vm_vcpus (gs_vm s) v)\<lparr>v_vmpidr := vm_cpuid_to_mpidr (gs_vm s) v\<rparr>)\<rparr>\<rparr>"
  note defs = init_vcpu_def vcpu_arch_init_def Let_def
  show "gs_ints (init_vcpu cfg v s) q = gs_ints s q" if "q \<notin> priv_int s v ` {..<GIC_CPU_PRIV}"
    using vgic_cpu_init_spec(4)[of q ?s v] that by (simp add: defs)
  show "priv_ready v i (gs_ints (init_vcpu cfg v s) (priv_int s v i))"
    if "inj_on (priv_int s v) {..<GIC_CPU_PRIV}" "i < GIC_CPU_PRIV"
    using vgic_cpu_init_spec(5)[of ?s v i] that by (simp add: defs)
qed (simp_all add: init_vcpu_def vcpu_arch_init_def Let_def vgic_cpu_init_spec(1-3))

definition vcpus_ready :: "vm_config \<Rightarrow> nat \<Rightarrow> vgic_sys \<Rightarrow> bool" where
  "vcpus_ready cfg k s \<longleftrightarrow> (\<forall>v < k. (\<forall>i < GIC_CPU_PRIV. priv_ready v i (gs_ints s (priv_int s v i))) \<and>
     vcpu_readpc (vm_vcpus (gs_vm s) v) = (if v = 0 then vc_entry cfg else 0) \<and>
     (\<forall>r \<le> 30. vcpu_readreg (vm_vcpus (gs_vm s) v) r = 0) \<and>
     v_vmpidr (vm_vcpus (gs_vm s) v) = vm_cpuid_to_mpidr (gs_vm s) v)"

lemma mpidr_nr: "vm.vm_nr_cpus vm' = vm.vm_nr_cpus vm \<Longrightarrow> vm_cpuid_to_mpidr vm' v = vm_cpuid_to_mpidr vm v"
  by (simp add: vm_cpuid_to_mpidr_def)

lemma vcpus_ready_step:
  assumes dist: "priv_distinct n s" "k < n" and ready: "vcpus_ready cfg k s"
  shows "vcpus_ready cfg (Suc k) (init_vcpu cfg k s)"
proof -
  have ints: "priv_ready v i (gs_ints (init_vcpu cfg k s) (priv_int s v i))" if "v < Suc k" "i < GIC_CPU_PRIV" for v i
  proof (cases "v = k")
    case True
    have "inj_on (priv_int s k) {..<GIC_CPU_PRIV}"
      using dist unfolding priv_distinct_def inj_on_def by blast
    then show ?thesis using init_vcpu_spec(6) that True by blast
  next
    case False
    then have "v < k" "v < n" using that dist(2) by simp_all
    have "priv_int s v i \<notin> priv_int s k ` {..<GIC_CPU_PRIV}"
    proof
      assume "priv_int s v i \<in> priv_int s k ` {..<GIC_CPU_PRIV}"
      then obtain j where j: "j < GIC_CPU_PRIV" "priv_int s v i = priv_int s k j" by blast
      then have "v = k" using dist \<open>v < n\<close> that(2) unfolding priv_distinct_def by blast
      then show False using False by simp
    qed
    then show ?thesis using init_vcpu_spec(5) ready \<open>v < k\<close> that(2) by (simp add: vcpus_ready_def)
  qed
  show ?thesis
    unfolding vcpus_ready_def init_vcpu_spec(1)
    using ready ints
    by (auto simp: vcpus_ready_def less_Suc_eq init_vcpu_spec(2,3) mpidr_nr[OF init_vcpu_spec(2)] vcpu_arch_reset_def
        vcpu_readpc_def vcpu_writepc_def vcpu_readreg_def)
qed

text \<open>C34: initialising the vCPUs of a VM, whose structures do not overlap, establishes what the
  emulation relies on later. The 32 private interrupts of vCPU \<open>v\<close> are owned by \<open>v\<close> and by no other
  vCPU, carry the numbers 0 to 31, are inactive with the lowest priority, in no list register and
  not backed by hardware, with free locks, and exactly the software-generated ones are enabled; the
  list-register invariant is kept; the boot vCPU starts at the entry point of the
  image and all others at 0, with cleared registers; and every vCPU has the processor number of
  its index.\<close>
theorem vm_vcpu_init_ready:
  assumes "vgic_wf n c s" "priv_distinct (vm.vm_nr_cpus (gs_vm s)) s"
  shows "vgic_wf n c (vm_vcpu_init cfg s) \<and> vcpus_ready cfg (vm.vm_nr_cpus (gs_vm s)) (vm_vcpu_init cfg s)"
proof -
  let ?s = "\<lambda>k. fold (init_vcpu cfg) [0..<k] s"
  have "vgic_wf n c (?s k) \<and> gs_priv (?s k) = gs_priv s \<and> vcpus_ready cfg k (?s k)" if "k \<le> vm.vm_nr_cpus (gs_vm s)" for k
    using that
  proof (induction k)
    case (Suc k)
    then have ih: "vgic_wf n c (?s k)" "gs_priv (?s k) = gs_priv s" "vcpus_ready cfg k (?s k)" by simp_all
    have "priv_distinct (vm.vm_nr_cpus (gs_vm s)) (?s k)" using assms(2) ih(2) by (simp add: priv_distinct_def)
    from vcpus_ready_step[OF this _ ih(3)] show ?case using Suc.prems ih by (simp add: init_vcpu_spec)
  qed (use assms in \<open>simp add: vcpus_ready_def\<close>)
  from this[of "vm.vm_nr_cpus (gs_vm s)"] show ?thesis by (simp add: vm_vcpu_init_def)
qed

theorem vm_vcpu_init_ready_witness:
  "vgic_wf 4 0 (vm_vcpu_init (guest_config 0x1000 0x100 39) sample_vgic) \<and>
   vcpus_ready (guest_config 0x1000 0x100 39) 2 (vm_vcpu_init (guest_config 0x1000 0x100 39) sample_vgic)"
proof -
  have addr: "unat (priv_int sample_vgic v i) = 0x20000 + 0x1000 * v + 56 * i" if "v < 2" "i < GIC_CPU_PRIV" for v i
    using that by (simp add: sample_vgic_def unat_word_ariths unat_of_nat take_bit_nat_eq_self)
  have nr: "vm.vm_nr_cpus (gs_vm sample_vgic) = 2" by (simp add: sample_vgic_def sample_vm_def)
  have "v = w \<and> i = j" if "v < 2" "w < 2" "i < GIC_CPU_PRIV" "j < GIC_CPU_PRIV"
    "priv_int sample_vgic v i = priv_int sample_vgic w j" for v w i j
  proof -
    have "0x1000 * v + 56 * i = 0x1000 * w + 56 * j"
      using arg_cong[OF that(5), of unat] addr that(1-4) by simp
    moreover have "56 * i < 0x1000" "56 * j < 0x1000" using that(3,4) by simp_all
    ultimately have "v = w" using that(1,2) by linarith
    then show ?thesis using \<open>0x1000 * v + 56 * i = _\<close> by simp
  qed
  then have "priv_distinct 2 sample_vgic" unfolding priv_distinct_def by blast
  then show ?thesis using vm_vcpu_init_ready[OF sample_vgic_wf, of "guest_config 0x1000 0x100 39"] nr by simp
qed

subsection \<open>The stage-2 descriptor\<close>

definition s2_start :: s2_config where
  "s2_start = \<lparr>min_parange = 7, s2_pt_dscr = armv8_pt_s2_dscr, s2_vtcr = 0\<rparr>"

text \<open>\<open>vmm_arch_init_tcr\<close> runs on every processor and patches the shared descriptor of the
  stage-2 tables each time. On processors with at least 44 bits of physical address the descriptor
  is left alone, however often it runs. With fewer bits the first processor moves the start of
  the walk to level 1, as the register value it computes says; the second one moves it again, so
  that the tables that are built afterwards have two levels while the hardware walks three.\<close>
theorem vmm_arch_init_tcr_twice:
  assumes "unat (mmfr0 AND BIT_MASK 0 4) = p" "p < 6"
  shows "\<exists>c1 c2. vmm_arch_init_tcr mmfr0 s2_start = Inr c1 \<and> vmm_arch_init_tcr mmfr0 c1 = Inr c2 \<and>
    (if 44 \<le> parange_table ! p then s2_pt_dscr c1 = armv8_pt_s2_dscr \<and> c2 = c1
     else lvls (s2_pt_dscr c1) = 3 \<and> lvl_off (s2_pt_dscr c1) ! 0 = 30 \<and> lvl_wdt (s2_pt_dscr c1) ! 0 = parange_table ! p \<and>
       lvls (s2_pt_dscr c2) = 2 \<and> lvl_off (s2_pt_dscr c2) ! 0 = 21 \<and> s2_vtcr c2 = s2_vtcr c1)"
proof -
  have p: "p = 0 \<or> p = 1 \<or> p = 2 \<or> p = 3 \<or> p = 4 \<or> p = 5" using assms(2) by linarith
  have len: "length parange_table = 6" by (simp add: parange_table_def)
  have upt: "[0..<3] = [0, 1, 2]" "[0..<2] = [0, 1 :: nat]" by (simp_all add: upt_rec)
  have wide: "parange_table ! p < 44 \<longleftrightarrow> p < 4" using p by (auto simp: parange_table_def)
  show ?thesis
  proof (cases "p < 4")
    case True
    then show ?thesis using assms wide len upt
      by (simp add: vmm_arch_init_tcr_def s2_start_def armv8_pt_s2_dscr_def Let_def)
  next
    case False
    then show ?thesis using assms wide len
      by (simp add: vmm_arch_init_tcr_def s2_start_def Let_def)
  qed
qed

theorem vmm_arch_init_tcr_twice_witness:
  "\<exists>c1 c2. vmm_arch_init_tcr 2 s2_start = Inr c1 \<and> vmm_arch_init_tcr 2 c1 = Inr c2 \<and>
     lvls (s2_pt_dscr c1) = 3 \<and> lvls (s2_pt_dscr c2) = 2"
proof -
  have "unat ((2 :: u64) AND BIT_MASK 0 4) = 2" by (simp add: BIT_MASK_eq mask_eq_exp_minus_1)
  from vmm_arch_init_tcr_twice[OF this] show ?thesis by (auto simp: parange_table_def)
qed

end
