(* ===== verification/Smmuv2.thy ===== *)
theory Smmuv2
  imports Vm_Init
begin

text \<open>
  The SMMUv2 driver (\<open>arch/aarch64/smmuv2.c\<close>, \<open>inc/smmuv2.h\<close>) and the part of \<open>iommu.c\<close> that a
  build with \<open>SMMU_VERSION\<close> 2 has. A stream match entry (SME) says with a mask and an identifier
  which device streams it takes, and its \<open>S2CR\<close> register to which context bank, i.e. which
  VM's page table, they go. The abstract view of the table is the relation between streams
  and context banks; \<open>smmu_add_refines\<close> shows that adding an entry for an allocated context bank updates it as
  intended in the driver's own tables.
  The registers keep what is written to them, but for the fault status registers, in which a
  one that is written clears the bit. Identifiers are 15 bits wide.
\<close>

unbundle bit_operations_syntax

subsection \<open>Registers\<close>

definition SMMUV2_CR0_USFCFG :: u32 where "SMMUV2_CR0_USFCFG = lsl 1 10"
definition SMMUV2_CR0_SMCFCFG :: u32 where "SMMUV2_CR0_SMCFCFG = lsl 1 21"
definition SMMUV2_CR0_CLIENTPD :: u32 where "SMMUV2_CR0_CLIENTPD = lsl 1 0"

definition SMMUV2_CR0_CLEAR :: "u32 \<Rightarrow> u32" where
  "SMMUV2_CR0_CLEAR cr0 = cr0 AND (lsl 3 30 OR lsl 1 11)"

definition SMMUV2_IDR0_MASK :: u32 where "SMMUV2_IDR0_MASK = 0xFF"
definition SMMUV2_IDR0_S2TS_BIT :: u32 where "SMMUV2_IDR0_S2TS_BIT = lsl 1 30"
definition SMMUV2_IDR0_SMS_BIT :: u32 where "SMMUV2_IDR0_SMS_BIT = lsl 1 27"
definition SMMUV2_IDR0_BTM_BIT :: u32 where "SMMUV2_IDR0_BTM_BIT = lsl 1 13"
definition SMMUV2_IDR2_PTFSv8_4kB_BIT :: u32 where "SMMUV2_IDR2_PTFSv8_4kB_BIT = lsl 1 12"

abbreviation SMMU_SMR_ID_LEN :: nat where "SMMU_SMR_ID_LEN \<equiv> 15"
abbreviation SMMU_SMR_MASK_OFF :: nat where "SMMU_SMR_MASK_OFF \<equiv> 16"
abbreviation SMMU_SMR_MASK_LEN :: nat where "SMMU_SMR_MASK_LEN \<equiv> 15"

definition SMMU_SMR_ID :: "u32 \<Rightarrow> u32" where "SMMU_SMR_ID smr = bit_extract smr 0 SMMU_SMR_ID_LEN"
definition SMMU_ID_MSK :: u32 where "SMMU_ID_MSK = BIT_MASK 0 SMMU_SMR_ID_LEN"
definition SMMU_SMR_MASK :: "u32 \<Rightarrow> u32" where
  "SMMU_SMR_MASK smr = bit_extract smr SMMU_SMR_MASK_OFF SMMU_SMR_MASK_LEN"
definition SMMUV2_SMR_VALID :: u32 where "SMMUV2_SMR_VALID = lsl 1 31"

definition S2CR_IMPL_MASK :: u32 where "S2CR_IMPL_MASK = BIT_MASK 30 2"
definition S2CR_CBNDX_MASK :: u32 where "S2CR_CBNDX_MASK = BIT_MASK 0 8"
definition S2CR_CBNDX :: "u32 \<Rightarrow> u32" where "S2CR_CBNDX s2cr = bit_extract s2cr 0 8"
definition S2CR_CLEAR :: "u32 \<Rightarrow> u32" where "S2CR_CLEAR s2cr = s2cr AND S2CR_IMPL_MASK"
definition S2CR_DFLT :: u32 where "S2CR_DFLT = 0"

definition SMMUV2_CBAR_VMID :: "u64 \<Rightarrow> u32" where "SMMUV2_CBAR_VMID i = ucast (i AND 0xFF)"
definition SMMUV2_CBAR_VA64 :: u32 where "SMMUV2_CBAR_VA64 = lsl 1 0"
definition SMMUV2_CB_TTBA :: "nat \<Rightarrow> u64" where "SMMUV2_CB_TTBA x = BIT_MASK x (48 - x)"

definition SMMUV2_SCTLR_M :: u32 where "SMMUV2_SCTLR_M = lsl 1 0"
definition SMMUV2_SCTLR_CFCFG :: u32 where "SMMUV2_SCTLR_CFCFG = lsl 1 7"
definition SMMUV2_SCTLR_CLEAR :: "u32 \<Rightarrow> u32" where
  "SMMUV2_SCTLR_CLEAR sctlr = sctlr AND (lsl 0xF 28 OR lsl 1 20 OR lsl 0xF 9 OR lsl 1 11)"
definition SMMUV2_SCTLR_DEFAULT :: u32 where "SMMUV2_SCTLR_DEFAULT = SMMUV2_SCTLR_CFCFG OR SMMUV2_SCTLR_M"

definition SMMUV2_TCR_T0SZ :: "nat \<Rightarrow> u32" where "SMMUV2_TCR_T0SZ sz = word_of_nat sz AND 0x1F"
definition SMMUV2_TCR_SL0_0 :: u32 where "SMMUV2_TCR_SL0_0 = lsl 2 6 AND lsl 3 6"
definition SMMUV2_TCR_SL0_1 :: u32 where "SMMUV2_TCR_SL0_1 = lsl 1 6 AND lsl 3 6"
definition SMMUV2_TCR_IRGN0_WB_RA_WA :: u32 where "SMMUV2_TCR_IRGN0_WB_RA_WA = lsl 1 8"
definition SMMUV2_TCR_ORGN0_WB_RA_WA :: u32 where "SMMUV2_TCR_ORGN0_WB_RA_WA = lsl 1 10"
definition SMMUV2_TCR_SH0_IS :: u32 where "SMMUV2_TCR_SH0_IS = lsl 3 12"
definition SMMUV2_TCR_TG0_4K :: u32 where "SMMUV2_TCR_TG0_4K = lsl 0 14"
definition SMMUV2_TCR_PS_MSK :: u64 where "SMMUV2_TCR_PS_MSK = lsl 7 16"

lemmas smmu_consts =
  SMMUV2_CR0_USFCFG_def SMMUV2_CR0_SMCFCFG_def SMMUV2_CR0_CLIENTPD_def SMMUV2_CR0_CLEAR_def
  SMMUV2_IDR0_MASK_def SMMUV2_IDR0_S2TS_BIT_def SMMUV2_IDR0_SMS_BIT_def SMMUV2_IDR0_BTM_BIT_def
  SMMUV2_IDR2_PTFSv8_4kB_BIT_def SMMU_ID_MSK_def SMMUV2_SMR_VALID_def S2CR_IMPL_MASK_def
  S2CR_CBNDX_MASK_def S2CR_CLEAR_def S2CR_DFLT_def SMMUV2_CBAR_VMID_def SMMUV2_CBAR_VA64_def
  SMMUV2_CB_TTBA_def SMMUV2_SCTLR_M_def SMMUV2_SCTLR_CFCFG_def SMMUV2_SCTLR_CLEAR_def
  SMMUV2_SCTLR_DEFAULT_def SMMUV2_TCR_T0SZ_def SMMUV2_TCR_SL0_0_def SMMUV2_TCR_SL0_1_def
  SMMUV2_TCR_IRGN0_WB_RA_WA_def SMMUV2_TCR_ORGN0_WB_RA_WA_def SMMUV2_TCR_SH0_IS_def
  SMMUV2_TCR_TG0_4K_def SMMUV2_TCR_PS_MSK_def

text \<open>
  The packed structures that the driver lays over the registers, as the sizes of their members
  in order. \<open>offset_of\<close> is the offset at which the compiler puts a member.
\<close>

type_synonym hw_struct = "(string \<times> nat) list"

fun offset_of :: "string \<Rightarrow> hw_struct \<Rightarrow> nat option" where
  "offset_of n [] = None"
| "offset_of n ((m, sz) # fs) = (if m = n then Some 0 else map_option (\<lambda>k. sz + k) (offset_of n fs))"

definition struct_size :: "hw_struct \<Rightarrow> nat" where
  "struct_size fs = sum_list (map snd fs)"

definition smmu_glbl_rs0_hw :: hw_struct where
  "smmu_glbl_rs0_hw =
     [(''CR0'', 4), (''SCR1'', 4), (''CR2'', 4), (''pad1'', 0x10 - 0x0C), (''ACR'', 4),
      (''pad2'', 0x20 - 0x14), (''IDR0'', 4), (''IDR1'', 4), (''IDR2'', 4), (''IDR3'', 4),
      (''IDR4'', 4), (''IDR5'', 4), (''IDR6'', 4), (''IDR7'', 4), (''GFAR'', 8), (''GFSR'', 4),
      (''GFSRRESTORE'', 4), (''GFSYNR0'', 4), (''GFSYNR1'', 4), (''GFSYNR2'', 4),
      (''pad3'', 0x60 - 0x5C), (''STLBIALL'', 4), (''TLBIVMID'', 4), (''TLBIALLNSNH'', 4),
      (''TLBIALLH'', 4), (''TLBGSYNC'', 4), (''TLBGSTATUS'', 4), (''TLBIVAH'', 4), (''pad4'', 4),
      (''impl1'', 0xA0 - 0x80), (''STLBIVALM'', 8), (''STLBIVAM'', 8), (''TLBIVALH64'', 8),
      (''TLBIVMIDS1'', 4), (''STLBIALLM'', 4), (''TLBIVAH64'', 8), (''pad5'', 0x100 - 0xC8),
      (''GATS1UR'', 8), (''GATS1UW'', 8), (''GATS1PR'', 8), (''GATS1PW'', 8), (''GATS12UR'', 8),
      (''GATS12UW'', 8), (''GATS12PR'', 8), (''GATS12PW'', 8), (''pad6'', 0x180 - 0x140),
      (''GPAR'', 8), (''GATSR'', 4), (''pad20'', 0x400 - 0x18C), (''NSCR0'', 4), (''pad7'', 4),
      (''NSCR2'', 4), (''pad8'', 4), (''NSACR'', 4), (''pad9'', 0x420 - 0x414),
      (''pad10'', 0x440 - 0x420), (''NSGFAR'', 8), (''NSGFSR'', 4), (''NSGFSRRESTORE'', 4),
      (''NSGFSYNR0'', 4), (''NSGFSYNR1'', 4), (''NSGFSYNR2'', 4), (''pad11'', 0x470 - 0x45C),
      (''NSTLBGSYNC'', 4), (''NSTLBGSTATUS'', 4), (''pad12'', 0x480 - 0x478),
      (''impl2'', 0x4A0 - 0x480), (''pad13'', 0x500 - 0x4A0), (''NSGATS1UR'', 8), (''NSGATS1UW'', 8),
      (''NSGATS1PR'', 8), (''NSGATS1PW'', 8), (''NSGATS12UR'', 8), (''NSGATS12UW'', 8),
      (''NSGATS12PR'', 8), (''NSGATS12PW'', 8), (''pad14'', 0x580 - 0x540), (''NSGPAR'', 8),
      (''NSGATSR'', 4), (''pad15'', 0x800 - 0x58C), (''SMR'', 4 * 128), (''pad16'', 0xC00 - 0xA00),
      (''S2CR'', 4 * 128), (''pad17'', 0xFD0 - 0xE00), (''impl3'', 0x1000 - 0xFD0)]"

definition smmu_glbl_rs1_hw :: hw_struct where
  "smmu_glbl_rs1_hw =
     [(''CBAR'', 4 * 128), (''res1'', 0x400 - 0x200), (''CBFRSYNRA'', 4 * 128),
      (''res2'', 0x800 - 0x600), (''CBA2R'', 4 * 128), (''res3'', 0x1000 - 0xA00)]"

definition smmu_cntxt_hw :: hw_struct where
  "smmu_cntxt_hw =
     [(''SCTLR'', 4), (''ACTLR'', 4), (''RESUME'', 4), (''res1'', 0x20 - 0xC), (''TTBR0'', 8),
      (''res2'', 0x30 - 0x28), (''TCR'', 4), (''res3'', 0x58 - 0x34), (''FSR'', 4),
      (''FSRRESTORE'', 4), (''FAR'', 8), (''FSYNR0'', 4), (''FSYNR1'', 4), (''IPAFAR'', 8),
      (''res4'', 0x630 - 0x78), (''TLBIIPAS2'', 8), (''TLBIIPAS2L'', 8), (''res5'', 0x7F0 - 0x640),
      (''TLBSYNC'', 4), (''TLBSTATUS'', 4), (''res6'', 0xE00 - 0x7F8), (''PMEVCNTRm'', 4),
      (''res7'', 0xE80 - 0xE3C), (''PMEVTYPERm'', 4), (''res8'', 0xF00 - 0xEBC), (''PMCFGR'', 4),
      (''PMCR'', 4), (''res9'', 0xF20 - 0xF08), (''PMCEID0'', 4), (''PMCEID1'', 4),
      (''res10'', 0xF40 - 0xF28), (''PMCNTENSET'', 4), (''PMCNTENCLR'', 4), (''PMINTENSET'', 4),
      (''PMINTENCLR'', 4), (''PMOVSCLR'', 4), (''res11'', 0xF58 - 0xF54), (''PMOVSSET'', 4),
      (''res12'', 0xFB8 - 0xF5C), (''PMAUTHSTATUS'', 4), (''res13'', 0)]"

text \<open>The registers themselves, those that the driver uses.\<close>

record smmu_rs0 =
  r_CR0 :: u32
  r_IDR0 :: u32
  r_IDR1 :: u32
  r_IDR2 :: u32
  r_IDR7 :: u32
  r_GFSR :: u32
  r_NSGFSR :: u32
  r_SMR :: "nat \<Rightarrow> u32"
  r_S2CR :: "nat \<Rightarrow> u32"

record smmu_rs1 =
  r_CBAR :: "nat \<Rightarrow> u32"
  r_CBA2R :: "nat \<Rightarrow> u32"

record smmu_cb =
  r_SCTLR :: u32
  r_TTBR0 :: u64
  r_TCR :: u32
  r_FSR :: u32

abbreviation SME_MAX_NUM :: nat where "SME_MAX_NUM \<equiv> 128"
abbreviation CTX_MAX_NUM :: nat where "CTX_MAX_NUM \<equiv> 128"

text \<open>\<open>a_rs1\<close> and \<open>a_cntxt\<close> are the addresses that \<open>smmu_init\<close> computes for the other two structures.\<close>

record smmu_priv =
  glbl_rs0 :: smmu_rs0
  glbl_rs1 :: smmu_rs1
  cntxt :: "nat \<Rightarrow> smmu_cb"
  a_rs1 :: u64
  a_cntxt :: u64
  sme_lock :: spinlock
  sme_num :: nat
  sme_bitmap :: bitmap
  grp_bitmap :: bitmap
  ctx_lock :: spinlock
  ctx_num :: nat
  ctxbank_bitmap :: bitmap

abbreviation upd_rs0 :: "(smmu_rs0 \<Rightarrow> smmu_rs0) \<Rightarrow> smmu_priv \<Rightarrow> smmu_priv" where
  "upd_rs0 f s \<equiv> s\<lparr>glbl_rs0 := f (glbl_rs0 s)\<rparr>"

subsection \<open>The driver\<close>

definition smmu_sme_is_group :: "smmu_priv \<Rightarrow> nat \<Rightarrow> bool" where
  "smmu_sme_is_group s sme \<longleftrightarrow> bitmap_get (grp_bitmap s) sme \<noteq> 0"

definition smmu_sme_get_ctx :: "smmu_priv \<Rightarrow> nat \<Rightarrow> nat" where
  "smmu_sme_get_ctx s sme = unat (S2CR_CBNDX (r_S2CR (glbl_rs0 s) sme))"

definition smmu_sme_get_id :: "smmu_priv \<Rightarrow> nat \<Rightarrow> u32" where
  "smmu_sme_get_id s sme = SMMU_SMR_ID (r_SMR (glbl_rs0 s) sme)"

definition smmu_sme_get_mask :: "smmu_priv \<Rightarrow> nat \<Rightarrow> u32" where
  "smmu_sme_get_mask s sme = SMMU_SMR_MASK (r_SMR (glbl_rs0 s) sme)"

definition smmu_check_features :: "nat \<Rightarrow> smmu_rs0 \<Rightarrow> unit res" where
  "smmu_check_features parange r =
     (let pasize = unat (bit_extract (r_IDR2 r) 4 4);
          ipasize = unat (bit_extract (r_IDR2 r) 0 4)
      in if bit_extract (r_IDR7 r) 4 4 \<noteq> 2 then Inl Error
         else if r_IDR0 r AND SMMUV2_IDR0_S2TS_BIT = 0 then Inl Error
         else if r_IDR0 r AND SMMUV2_IDR0_SMS_BIT = 0 then Inl Error
         else if r_IDR0 r AND SMMUV2_IDR0_BTM_BIT = 0 then Inl Error
         else if r_IDR2 r AND SMMUV2_IDR2_PTFSv8_4kB_BIT = 0 then Inl Error
         else if pasize < parange then Inl Error
         else if ipasize < parange then Inl Error
         else Inr ())"

definition write_w1c :: "u32 \<Rightarrow> u32 \<Rightarrow> u32" where
  "write_w1c v old = old AND NOT v"

text \<open>
  More than 128 entries or context banks do not fit into the bitmaps: \<open>bitmap_clear_consecutive\<close>
  writes behind them.
\<close>

definition smmu_init :: "nat \<Rightarrow> u64 \<Rightarrow> smmu_priv \<Rightarrow> smmu_priv res" where
  "smmu_init parange base s =
     (let r = glbl_rs0 s;
          pg_size = (if r_IDR1 r AND lsl 1 31 \<noteq> 0 then 0x10000 else 0x1000);
          num_page = lsl 1 (unat (bit_extract (r_IDR1 r) 28 3 + 1));
          ctx_bank_num = unat (bit_extract (r_IDR1 r) 0 8);
          s = s\<lparr>a_rs1 := base + pg_size, a_cntxt := base + num_page * pg_size\<rparr>
      in bindr (smmu_check_features parange r) (\<lambda>_.
         let n = unat (r_IDR0 r AND SMMUV2_IDR0_MASK);
             cr0 = (SMMUV2_CR0_CLEAR (r_CR0 r) OR (SMMUV2_CR0_USFCFG OR SMMUV2_CR0_SMCFCFG)) AND
               NOT SMMUV2_CR0_CLIENTPD
         in if CTX_MAX_NUM < ctx_bank_num \<or> SME_MAX_NUM < n then Inl Bad_Access
            else Inr (s\<lparr>ctx_lock := SPINLOCK_INITVAL, ctx_num := ctx_bank_num,
              ctxbank_bitmap := bitmap_clear_consecutive (ctxbank_bitmap s) 0 ctx_bank_num,
              sme_lock := SPINLOCK_INITVAL, sme_num := n,
              sme_bitmap := bitmap_clear_consecutive (sme_bitmap s) 0 n,
              grp_bitmap := bitmap_clear_consecutive (grp_bitmap s) 0 n,
              glbl_rs0 := r\<lparr>r_GFSR := write_w1c (r_GFSR r) (r_GFSR r),
                r_NSGFSR := write_w1c (r_NSGFSR r) (r_NSGFSR r),
                r_SMR := (\<lambda>i. if i < n then 0 else r_SMR r i),
                r_CR0 := cr0\<rparr>,
              cntxt := (\<lambda>i. if i < ctx_bank_num
                then (cntxt s i)\<lparr>r_SCTLR := 0, r_FSR := write_w1c (- 1) (r_FSR (cntxt s i))\<rparr>
                else cntxt s i)\<rparr>)))"

text \<open>A bit of a 128-bit bitmap; the index \<open>(size_t)-1\<close> is far behind its end.\<close>

definition get128 :: "bitmap \<Rightarrow> nat \<Rightarrow> bool res" where
  "get128 bm i = (if i < 128 then Inr (bitmap_get bm i \<noteq> 0) else Inl Bad_Access)"

definition set128 :: "bitmap \<Rightarrow> nat \<Rightarrow> bitmap res" where
  "set128 bm i = (if i < 128 then Inr (bitmap_set bm i) else Inl Bad_Access)"

definition smmu_alloc_ctxbnk :: "smmu_priv \<Rightarrow> (nat \<times> smmu_priv) res" where
  "smmu_alloc_ctxbnk s =
     bindr (spin_lock (ctx_lock s)) (\<lambda>l.
       let nth = bitmap_find_nth (ctxbank_bitmap s) (ctx_num s) 1 0 False
       in bindr (if 0 \<le> nth then set128 (ctxbank_bitmap s) nth else Inr (ctxbank_bitmap s)) (\<lambda>bm.
          Inr (nth, s\<lparr>ctxbank_bitmap := bm, ctx_lock := spin_unlock l\<rparr>)))"

definition smmu_cb_ttba_offset :: "nat \<Rightarrow> nat \<Rightarrow> nat" where
  "smmu_cb_ttba_offset parange t0sz =
     (if parange_table ! parange < 44 then if 21 \<le> t0sz \<and> t0sz \<le> 33 then 37 - t0sz else 12
      else if 16 \<le> t0sz \<and> t0sz \<le> 24 then 28 - t0sz else 12)"

definition smmu_tcr :: "nat \<Rightarrow> u32" where
  "smmu_tcr parange =
     ucast (lsl (word_of_nat parange) 16 AND SMMUV2_TCR_PS_MSK) OR SMMUV2_TCR_TG0_4K OR
     SMMUV2_TCR_ORGN0_WB_RA_WA OR SMMUV2_TCR_IRGN0_WB_RA_WA OR
     SMMUV2_TCR_T0SZ (64 - parange_table ! parange) OR SMMUV2_TCR_SH0_IS OR
     (if parange_table ! parange < 44 then SMMUV2_TCR_SL0_1 else SMMUV2_TCR_SL0_0)"

definition smmu_write_ctxbnk :: "nat \<Rightarrow> nat \<Rightarrow> paddr_t \<Rightarrow> u64 \<Rightarrow> smmu_priv \<Rightarrow> smmu_priv res" where
  "smmu_write_ctxbnk parange ctx_id root_pt vmid s =
     bindr (spin_lock (ctx_lock s)) (\<lambda>l.
     bindr (get128 (ctxbank_bitmap s) ctx_id) (\<lambda>allocated.
       if \<not> allocated then Inl Error
       else if length parange_table \<le> parange then Inl Bad_Access
       else
         let cb = cntxt s ctx_id;
             sctlr = SMMUV2_SCTLR_CLEAR (r_SCTLR cb) OR SMMUV2_SCTLR_DEFAULT;
             cb = cb\<lparr>r_TCR := smmu_tcr parange,
               r_TTBR0 := root_pt AND SMMUV2_CB_TTBA (smmu_cb_ttba_offset parange (64 - parange_table ! parange)),
               r_SCTLR := r_SCTLR cb OR sctlr\<rparr>
         in Inr (s\<lparr>glbl_rs1 := (glbl_rs1 s)
                     \<lparr>r_CBAR := (r_CBAR (glbl_rs1 s))(ctx_id := SMMUV2_CBAR_VMID vmid),
                      r_CBA2R := (r_CBA2R (glbl_rs1 s))(ctx_id := SMMUV2_CBAR_VA64)\<rparr>,
                   cntxt := (cntxt s)(ctx_id := cb), ctx_lock := spin_unlock l\<rparr>)))"

definition smmu_alloc_sme :: "smmu_priv \<Rightarrow> (nat \<times> smmu_priv) res" where
  "smmu_alloc_sme s =
     bindr (spin_lock (sme_lock s)) (\<lambda>l.
       let nth = bitmap_find_nth (sme_bitmap s) (sme_num s) 1 0 False
       in bindr (if 0 \<le> nth then set128 (sme_bitmap s) nth else Inr (sme_bitmap s)) (\<lambda>bm.
          Inr (nth, s\<lparr>sme_bitmap := bm, sme_lock := spin_unlock l\<rparr>)))"

text \<open>
  The loop over the entries (\<open>smmu_for_each_sme\<close>). The macro also reads the bit behind the last
  entry, but only to leave the loop.
\<close>

fun sme_loop :: "u32 \<Rightarrow> u32 \<Rightarrow> nat \<Rightarrow> bool \<Rightarrow> nat list \<Rightarrow> smmu_priv \<Rightarrow> (bool \<times> smmu_priv) res" where
  "sme_loop m i ctx grp [] s = Inr (False, s)"
| "sme_loop m i ctx grp (sme # smes) s =
     (if bitmap_get (sme_bitmap s) sme = 0 then sme_loop m i ctx grp smes s
      else
        let sme_mask = smmu_sme_get_mask s sme;
            mask_r = m AND sme_mask;
            diff_id = (smmu_sme_get_id s sme XOR i) AND NOT (m OR sme_mask)
        in if diff_id = 0 then
             if (grp \<or> smmu_sme_is_group s sme) \<and> (mask_r = m \<or> mask_r = sme_mask) \<and>
                ctx = smmu_sme_get_ctx s sme
             then if m > sme_mask
                  then sme_loop m i ctx grp smes (s\<lparr>sme_bitmap := bitmap_clear (sme_bitmap s) sme\<rparr>)
                  else Inr (True, s)
             else Inl Error
           else sme_loop m i ctx grp smes s)"

definition smmu_compatible_sme_exists ::
    "u32 \<Rightarrow> u32 \<Rightarrow> nat \<Rightarrow> bool \<Rightarrow> smmu_priv \<Rightarrow> (bool \<times> smmu_priv) res" where
  "smmu_compatible_sme_exists m i ctx grp s =
     bindr (spin_lock (sme_lock s)) (\<lambda>l.
     bindr (sme_loop m i ctx grp [0..<sme_num s] s) (\<lambda>(included, s).
       Inr (included, s\<lparr>sme_lock := spin_unlock l\<rparr>)))"

definition smmu_write_sme :: "nat \<Rightarrow> u32 \<Rightarrow> u32 \<Rightarrow> bool \<Rightarrow> smmu_priv \<Rightarrow> smmu_priv res" where
  "smmu_write_sme sme m i grp s =
     bindr (spin_lock (sme_lock s)) (\<lambda>l.
     bindr (get128 (sme_bitmap s) sme) (\<lambda>allocated.
       if \<not> allocated then Inl Error
       else
         let v = lsl m SMMU_SMR_MASK_OFF;
             v = v OR (i AND SMMU_ID_MSK);
             v = v OR SMMUV2_SMR_VALID
         in Inr (s\<lparr>glbl_rs0 := (glbl_rs0 s)\<lparr>r_SMR := (r_SMR (glbl_rs0 s))(sme := v)\<rparr>,
                   grp_bitmap := (if grp then bitmap_set (grp_bitmap s) sme else grp_bitmap s),
                   sme_lock := spin_unlock l\<rparr>)))"

definition smmu_write_s2c :: "nat \<Rightarrow> nat \<Rightarrow> smmu_priv \<Rightarrow> smmu_priv res" where
  "smmu_write_s2c sme ctx_id s =
     bindr (spin_lock (sme_lock s)) (\<lambda>l.
     bindr (get128 (ctxbank_bitmap s) ctx_id) (\<lambda>ctx_ok.
       if \<not> ctx_ok then Inl Error
       else bindr (get128 (sme_bitmap s) sme) (\<lambda>sme_ok.
         if \<not> sme_ok then Inl Error
         else
           let s2cr = S2CR_CLEAR (r_S2CR (glbl_rs0 s) sme) OR S2CR_DFLT OR (word_of_nat ctx_id AND S2CR_CBNDX_MASK)
           in Inr (s\<lparr>glbl_rs0 := (glbl_rs0 s)\<lparr>r_S2CR := (r_S2CR (glbl_rs0 s))(sme := s2cr)\<rparr>,
                     sme_lock := spin_unlock l\<rparr>))))"

subsection \<open>\<open>iommu.c\<close>\<close>

record iommu_vm_arch =
  global_mask :: u32
  io_ctx_id :: nat

record smmu_group =
  grp_mask :: u32
  grp_id :: u32

text \<open>\<open>size_t\<close> is unsigned, so that the comparisons with zero are what they are on \<open>nat\<close>.\<close>

definition iommu_vm_arch_init_ctx ::
    "nat \<Rightarrow> paddr_t \<Rightarrow> u64 \<Rightarrow> iommu_vm_arch \<times> smmu_priv \<Rightarrow> (nat \<times> iommu_vm_arch \<times> smmu_priv) res" where
  "iommu_vm_arch_init_ctx parange root vmid = (\<lambda>(io, s).
     let ctx_id = io_ctx_id io
     in if ctx_id < 0 then
          bindr (smmu_alloc_ctxbnk s) (\<lambda>(ctx_id, s).
            if 0 \<le> ctx_id
            then bindr (smmu_write_ctxbnk parange ctx_id root vmid s) (\<lambda>s.
                   Inr (ctx_id, io\<lparr>io_ctx_id := ctx_id\<rparr>, s))
            else Inr (ctx_id, io, s))
        else Inr (ctx_id, io, s))"

definition iommu_vm_arch_add ::
    "nat \<Rightarrow> paddr_t \<Rightarrow> u64 \<Rightarrow> u32 \<Rightarrow> u32 \<Rightarrow> iommu_vm_arch \<times> smmu_priv \<Rightarrow>
     (bool \<times> iommu_vm_arch \<times> smmu_priv) res" where
  "iommu_vm_arch_add parange root vmid m i st =
     bindr (iommu_vm_arch_init_ctx parange root vmid st) (\<lambda>(vm_ctx, io, s).
       let glbl_mask = global_mask io;
           prep_mask = (m AND SMMU_ID_MSK) OR glbl_mask;
           prep_id = i AND SMMU_ID_MSK;
           grp = m \<noteq> 0
       in if vm_ctx < 0 then Inr (False, io, s)
          else bindr (smmu_compatible_sme_exists prep_mask prep_id vm_ctx grp s) (\<lambda>(found, s).
            if \<not> found then
              bindr (smmu_alloc_sme s) (\<lambda>(sme, s).
                if sme < 0 then Inr (False, io, s)
                else bindr (smmu_write_sme sme prep_mask prep_id grp s) (\<lambda>s.
                     bindr (smmu_write_s2c sme vm_ctx s) (\<lambda>s. Inr (True, io, s))))
            else Inr (True, io, s)))"

definition iommu_arch_vm_add_device_v2 ::
    "nat \<Rightarrow> paddr_t \<Rightarrow> u64 \<Rightarrow> u32 \<Rightarrow> iommu_vm_arch \<times> smmu_priv \<Rightarrow> (bool \<times> iommu_vm_arch \<times> smmu_priv) res" where
  "iommu_arch_vm_add_device_v2 parange root vmid i st = iommu_vm_arch_add parange root vmid 0 i st"

fun add_groups ::
    "nat \<Rightarrow> paddr_t \<Rightarrow> u64 \<Rightarrow> smmu_group list \<Rightarrow> iommu_vm_arch \<times> smmu_priv \<Rightarrow>
     (bool \<times> iommu_vm_arch \<times> smmu_priv) res" where
  "add_groups parange root vmid [] st = Inr (True, st)"
| "add_groups parange root vmid (g # gs) st =
     bindr (iommu_vm_arch_add parange root vmid (grp_mask g) (grp_id g) st) (\<lambda>(done, st).
       if \<not> done then Inr (False, st) else add_groups parange root vmid gs st)"

definition iommu_arch_vm_init_v2 ::
    "nat \<Rightarrow> paddr_t \<Rightarrow> u64 \<Rightarrow> u32 \<Rightarrow> u32 \<Rightarrow> smmu_group list \<Rightarrow> smmu_priv \<Rightarrow>
     (bool \<times> iommu_vm_arch \<times> smmu_priv) res" where
  "iommu_arch_vm_init_v2 parange root vmid cfg_mask plat_mask groups s =
     add_groups parange root vmid groups
       (\<lparr>global_mask = cfg_mask OR plat_mask, io_ctx_id = SIZE_MAX\<rparr>, s)"

definition iommu_arch_init_v2 :: "nat \<Rightarrow> nat \<Rightarrow> u64 \<Rightarrow> smmu_priv \<Rightarrow> (bool \<times> smmu_priv) res" where
  "iommu_arch_init_v2 cid parange base s =
     (if cid = 0 \<and> base \<noteq> 0 then bindr (smmu_init parange base s) (\<lambda>s. Inr (True, s)) else Inr (False, s))"

subsection \<open>Stream matching\<close>

text \<open>
  \<open>takes m d x\<close>: an entry with mask \<open>m\<close> and identifier \<open>d\<close> takes the stream \<open>x\<close>. \<open>streams s x c\<close>:
  the table sends \<open>x\<close> to context bank \<open>c\<close>.
\<close>

definition takes :: "u32 \<Rightarrow> u32 \<Rightarrow> u32 \<Rightarrow> bool" where
  "takes m d x \<longleftrightarrow> (x XOR d) AND NOT m = 0"

definition allocated :: "smmu_priv \<Rightarrow> nat \<Rightarrow> bool" where
  "allocated s k \<longleftrightarrow> k < sme_num s \<and> bmbit (sme_bitmap s) k"

definition entry_takes :: "smmu_priv \<Rightarrow> nat \<Rightarrow> u32 \<Rightarrow> bool" where
  "entry_takes s k = takes (smmu_sme_get_mask s k) (smmu_sme_get_id s k)"

definition streams :: "smmu_priv \<Rightarrow> u32 \<Rightarrow> nat \<Rightarrow> bool" where
  "streams s x c \<longleftrightarrow> (\<exists>k. allocated s k \<and> entry_takes s k x \<and> smmu_sme_get_ctx s k = c)"

definition sme_ok :: "smmu_priv \<Rightarrow> bool" where
  "sme_ok s \<longleftrightarrow> sme_num s \<le> SME_MAX_NUM \<and> ticket (sme_lock s) = next_tk (sme_lock s) \<and>
     (\<forall>j k x. allocated s j \<longrightarrow> allocated s k \<longrightarrow> entry_takes s j x \<longrightarrow> entry_takes s k x \<longrightarrow> j = k)"

text \<open>The entries that overlap with the new one can be merged with it.\<close>

definition mergeable :: "u32 \<Rightarrow> u32 \<Rightarrow> nat \<Rightarrow> bool \<Rightarrow> smmu_priv \<Rightarrow> nat \<Rightarrow> bool" where
  "mergeable m d ctx g s k \<longleftrightarrow> (g \<or> smmu_sme_is_group s k) \<and>
     (m AND smmu_sme_get_mask s k = m \<or> m AND smmu_sme_get_mask s k = smmu_sme_get_mask s k) \<and>
     ctx = smmu_sme_get_ctx s k"

definition overlap :: "u32 \<Rightarrow> u32 \<Rightarrow> smmu_priv \<Rightarrow> nat \<Rightarrow> bool" where
  "overlap m d s k \<longleftrightarrow> (\<exists>x. takes m d x \<and> entry_takes s k x)"

lemma takes_iff: "takes m d x \<longleftrightarrow> (\<forall>n < 32. bit m n \<or> (bit x n \<longleftrightarrow> bit d n))"
  unfolding takes_def word_zero_iff by (auto simp: bit_and_iff bit_xor_iff bit_not_iff)

lemma takes_self [simp]: "takes m d d"
  by (simp add: takes_def)

lemma diff_id_iff:
  "(e XOR d) AND NOT (m OR k) = (0 :: u32) \<longleftrightarrow> (\<exists>x. takes m d x \<and> takes k e x)"
proof
  assume "\<exists>x. takes m d x \<and> takes k e x"
  then show "(e XOR d) AND NOT (m OR k) = 0"
    unfolding takes_iff word_zero_iff by (auto simp: bit_and_iff bit_xor_iff bit_not_iff bit_or_iff)
next
  assume "(e XOR d) AND NOT (m OR k) = 0"
  then have h: "\<forall>n < 32. bit m n \<or> bit k n \<or> bit e n = bit d n"
    unfolding word_zero_iff by (auto simp: bit_and_iff bit_xor_iff bit_not_iff bit_or_iff)
  have "takes m d ((e AND m) OR (d AND NOT m))" "takes k e ((e AND m) OR (d AND NOT m))"
    unfolding takes_iff using h by (auto simp: bit_and_iff bit_xor_iff bit_not_iff bit_or_iff)
  then show "\<exists>x. takes m d x \<and> takes k e x" by blast
qed

lemma overlap_iff:
  "overlap m d s k \<longleftrightarrow> (smmu_sme_get_id s k XOR d) AND NOT (m OR smmu_sme_get_mask s k) = 0"
  unfolding overlap_def entry_takes_def diff_id_iff ..

lemma takes_subset:
  assumes "m AND k = k" "takes m d y" "takes k e y" "takes k e x"
  shows "takes m d x"
proof -
  have "bit k n \<Longrightarrow> bit m n" for n using assms(1) by (metis bit_and_iff)
  then show ?thesis using assms(2-4) unfolding takes_iff by blast
qed

lemma mask_order:
  fixes m k :: u32
  shows "m AND k = m \<Longrightarrow> m \<le> k" "m AND k = k \<Longrightarrow> k \<le> m"
  by (metis word_and_le1, metis word_and_le2)

subsection \<open>The search for a compatible entry\<close>

definition drop_entries :: "nat set \<Rightarrow> smmu_priv \<Rightarrow> smmu_priv \<Rightarrow> bool" where
  "drop_entries D s s' \<longleftrightarrow> (\<exists>bm. s' = s\<lparr>sme_bitmap := bm\<rparr> \<and> (\<forall>k. bmbit bm k \<longleftrightarrow> bmbit (sme_bitmap s) k \<and> k \<notin> D))"

lemma drop_entries_refl: "drop_entries {} s s"
  unfolding drop_entries_def by (intro exI[of _ "sme_bitmap s"]) simp

lemma drop_entries_clear:
  assumes "drop_entries D (s\<lparr>sme_bitmap := bitmap_clear (sme_bitmap s) k\<rparr>) s'"
  shows "drop_entries (insert k D) s s'"
  using assms unfolding drop_entries_def by auto

lemma sme_bitmap_only [simp]:
  "entry_takes (s\<lparr>sme_bitmap := bm\<rparr>) = entry_takes s"
  "smmu_sme_get_ctx (s\<lparr>sme_bitmap := bm\<rparr>) = smmu_sme_get_ctx s"
  "overlap m d (s\<lparr>sme_bitmap := bm\<rparr>) = overlap m d s"
  "mergeable m d ctx g (s\<lparr>sme_bitmap := bm\<rparr>) = mergeable m d ctx g s"
  by (simp_all add: fun_eq_iff entry_takes_def smmu_sme_get_ctx_def smmu_sme_get_id_def smmu_sme_get_mask_def
      overlap_def mergeable_def smmu_sme_is_group_def)

lemma drop_entries_fields:
  assumes "drop_entries D s s'"
  shows "entry_takes s' = entry_takes s" "smmu_sme_get_ctx s' = smmu_sme_get_ctx s" "sme_num s' = sme_num s"
    "sme_lock s' = sme_lock s" "allocated s' k \<longleftrightarrow> allocated s k \<and> k \<notin> D"
    "ctxbank_bitmap s' = ctxbank_bitmap s" "overlap m d s' = overlap m d s"
proof -
  from assms obtain bm where "s' = s\<lparr>sme_bitmap := bm\<rparr>"
    "\<And>k. bmbit bm k \<longleftrightarrow> bmbit (sme_bitmap s) k \<and> k \<notin> D" unfolding drop_entries_def by blast
  then show "entry_takes s' = entry_takes s" "smmu_sme_get_ctx s' = smmu_sme_get_ctx s" "sme_num s' = sme_num s"
    "sme_lock s' = sme_lock s" "allocated s' k \<longleftrightarrow> allocated s k \<and> k \<notin> D"
    "ctxbank_bitmap s' = ctxbank_bitmap s" "overlap m d s' = overlap m d s"
    by (simp_all add: allocated_def conj_assoc)
qed

lemma sme_loop_result:
  assumes "sme_loop m d ctx g ks s = Inr (included, s')"
  shows "\<exists>D \<subseteq> set ks. drop_entries D s s' \<and>
    (\<forall>k \<in> D. bmbit (sme_bitmap s) k \<and> smmu_sme_get_ctx s k = ctx \<and> (\<forall>x. entry_takes s k x \<longrightarrow> takes m d x)) \<and>
    (if included then \<exists>k \<in> set ks. bmbit (sme_bitmap s') k \<and> smmu_sme_get_ctx s k = ctx \<and> (\<forall>x. takes m d x \<longrightarrow> entry_takes s k x)
     else \<forall>k \<in> set ks. bmbit (sme_bitmap s') k \<longrightarrow> \<not> overlap m d s k)"
  using assms
proof (induction ks arbitrary: s)
  case Nil
  then show ?case by (auto intro: drop_entries_refl)
next
  case (Cons k ks)
  let ?P = "\<lambda>ks s D. D \<subseteq> set ks \<and> drop_entries D s s' \<and>
    (\<forall>k \<in> D. bmbit (sme_bitmap s) k \<and> smmu_sme_get_ctx s k = ctx \<and> (\<forall>x. entry_takes s k x \<longrightarrow> takes m d x)) \<and>
    (if included then \<exists>k \<in> set ks. bmbit (sme_bitmap s') k \<and> smmu_sme_get_ctx s k = ctx \<and> (\<forall>x. takes m d x \<longrightarrow> entry_takes s k x)
     else \<forall>k \<in> set ks. bmbit (sme_bitmap s') k \<longrightarrow> \<not> overlap m d s k)"
  consider (free) "\<not> bmbit (sme_bitmap s) k" | (other) "\<not> overlap m d s k"
    | (hit) "bmbit (sme_bitmap s) k" "overlap m d s k" by blast
  then show ?case
  proof cases
    case free
    with Cons.prems have "sme_loop m d ctx g ks s = Inr (included, s')" by (simp add: bitmap_get_eq)
    from Cons.IH[OF this] obtain D where "?P ks s D" by blast
    with free have "?P (k # ks) s D" unfolding drop_entries_def by auto
    then show ?thesis by blast
  next
    case other
    with Cons.prems have "sme_loop m d ctx g ks s = Inr (included, s')"
      by (simp add: overlap_iff Let_def split: if_splits)
    from Cons.IH[OF this] obtain D where "?P ks s D" by blast
    with other have "?P (k # ks) s D" by auto
    then show ?thesis by blast
  next
    case hit
    let ?s = "s\<lparr>sme_bitmap := bitmap_clear (sme_bitmap s) k\<rparr>"
    from hit Cons.prems have mg: "mergeable m d ctx g s k"
      and r: "if smmu_sme_get_mask s k < m then sme_loop m d ctx g ks ?s = Inr (included, s')
        else included \<and> s' = s"
      by (auto simp: overlap_iff mergeable_def bitmap_get_eq Let_def split: if_splits)
    obtain y where y: "takes m d y" "entry_takes s k y" using hit(2) by (auto simp: overlap_def)
    show ?thesis
    proof (cases "smmu_sme_get_mask s k < m")
      case True
      with mg have sub: "m AND smmu_sme_get_mask s k = smmu_sme_get_mask s k"
        unfolding mergeable_def using mask_order(1) by (meson leD)
      from r True Cons.IH[of ?s] obtain D where D: "?P ks ?s D" by auto
      have "\<forall>x. entry_takes s k x \<longrightarrow> takes m d x"
        using takes_subset[OF sub y(1)] y(2) by (auto simp: entry_takes_def)
      moreover have "\<not> bmbit (sme_bitmap s') k" using D unfolding drop_entries_def by auto
      ultimately have "?P (k # ks) s (insert k D)"
        using D mg hit(1) drop_entries_clear unfolding mergeable_def sme_bitmap_only by auto
      then show ?thesis by blast
    next
      case False
      with mg have "smmu_sme_get_mask s k AND m = m"
        unfolding mergeable_def using mask_order(2)[of m "smmu_sme_get_mask s k"]
        by (auto simp: and.commute)
      then have "\<forall>x. takes m d x \<longrightarrow> entry_takes s k x"
        using takes_subset[of "smmu_sme_get_mask s k" m "smmu_sme_get_id s k" y d] y by (auto simp: entry_takes_def)
      with False r mg hit(1) have "?P (k # ks) s {}"
        by (auto simp: mergeable_def drop_entries_refl)
      then show ?thesis by blast
    qed
  qed
qed

lemma sme_loop_returns:
  assumes "\<forall>k \<in> set ks. bmbit (sme_bitmap s) k \<longrightarrow> overlap m d s k \<longrightarrow> mergeable m d ctx g s k"
  shows "\<exists>r. sme_loop m d ctx g ks s = Inr r"
  using assms
proof (induction ks arbitrary: s)
  case (Cons k ks)
  let ?s = "s\<lparr>sme_bitmap := bitmap_clear (sme_bitmap s) k\<rparr>"
  have 1: "\<exists>r. sme_loop m d ctx g ks s = Inr r" "\<exists>r. sme_loop m d ctx g ks ?s = Inr r"
    using Cons.prems Cons.IH[of s] Cons.IH[of ?s] by simp_all
  show ?case
  proof (cases "bmbit (sme_bitmap s) k \<and> overlap m d s k")
    case True
    with Cons.prems 1 show ?thesis by (auto simp: overlap_iff mergeable_def bitmap_get_eq Let_def)
  next
    case False
    with 1 show ?thesis by (auto simp: overlap_iff bitmap_get_eq Let_def)
  qed
qed auto

subsection \<open>Writing an entry\<close>

lemma bit_SMR_VALID: "bit SMMUV2_SMR_VALID n \<longleftrightarrow> n = 31"
  unfolding SMMUV2_SMR_VALID_def by (subst bit_lsl_one) simp_all

lemma smr_fields:
  "SMMU_SMR_MASK ((lsl m SMMU_SMR_MASK_OFF OR (d AND SMMU_ID_MSK)) OR SMMUV2_SMR_VALID) = m AND SMMU_ID_MSK"
  "SMMU_SMR_ID ((lsl m SMMU_SMR_MASK_OFF OR (d AND SMMU_ID_MSK)) OR SMMUV2_SMR_VALID) = d AND SMMU_ID_MSK"
  unfolding SMMU_SMR_MASK_def SMMU_SMR_ID_def
  by (auto intro!: bit_word_eqI simp: bit_bit_extract bit_or_iff bit_and_iff SMMU_ID_MSK_def bit_BIT_MASK
      bit_SMR_VALID lsl_eq bit_push_bit_iff)

lemma s2cr_field:
  assumes "ctx < 256"
  shows "unat (S2CR_CBNDX (S2CR_CLEAR r OR S2CR_DFLT OR (word_of_nat ctx AND S2CR_CBNDX_MASK))) = ctx"
proof -
  have "S2CR_CBNDX (S2CR_CLEAR r OR S2CR_DFLT OR (word_of_nat ctx AND S2CR_CBNDX_MASK)) = take_bit 8 (word_of_nat ctx)"
    unfolding S2CR_CBNDX_def
    by (intro bit_word_eqI) (auto simp: bit_bit_extract bit_or_iff bit_and_iff bit_take_bit_iff S2CR_CLEAR_def
        S2CR_IMPL_MASK_def S2CR_DFLT_def S2CR_CBNDX_MASK_def bit_BIT_MASK)
  moreover have "unat (take_bit 8 (word_of_nat ctx :: u32)) = ctx"
    using assms by (simp add: take_bit_eq_mod unat_mod unat_of_nat take_bit_nat_eq_self_iff)
  ultimately show ?thesis by simp
qed

lemma lock_cycle:
  assumes "ticket l = next_tk l"
  obtains l' where "spin_lock l = Inr l'" "ticket (spin_unlock l') = next_tk (spin_unlock l')"
  using assms spin_lock_free spin_lock_unlock by blast

definition new_entry :: "nat \<Rightarrow> u32 \<Rightarrow> u32 \<Rightarrow> nat \<Rightarrow> smmu_priv \<Rightarrow> smmu_priv \<Rightarrow> bool" where
  "new_entry k m d ctx s s' \<longleftrightarrow> k < sme_num s \<and> \<not> allocated s k \<and> sme_num s' = sme_num s \<and>
     ticket (sme_lock s') = next_tk (sme_lock s') \<and>
     (\<forall>j. allocated s' j \<longleftrightarrow> j = k \<or> allocated s j) \<and>
     entry_takes s' = (entry_takes s)(k := takes m d) \<and> smmu_sme_get_ctx s' = (smmu_sme_get_ctx s)(k := ctx)"

definition place_entry :: "u32 \<Rightarrow> u32 \<Rightarrow> bool \<Rightarrow> nat \<Rightarrow> smmu_priv \<Rightarrow> smmu_priv res" where
  "place_entry m d g ctx s =
     bindr (smmu_alloc_sme s) (\<lambda>(sme, s). bindr (smmu_write_sme sme m d g s) (smmu_write_s2c sme ctx))"

lemma place_entry_result:
  assumes "sme_num s \<le> SME_MAX_NUM" "ticket (sme_lock s) = next_tk (sme_lock s)"
    and ctx: "ctx < CTX_MAX_NUM" "bmbit (ctxbank_bitmap s) ctx"
    and md: "m AND SMMU_ID_MSK = m" "d AND SMMU_ID_MSK = d"
  shows "if \<exists>k < sme_num s. \<not> bmbit (sme_bitmap s) k
    then \<exists>k s'. place_entry m d g ctx s = Inr s' \<and> new_entry k m d ctx s s'
    else place_entry m d g ctx s = Inl Bad_Access"
proof -
  let ?k = "bitmap_find_nth (sme_bitmap s) (sme_num s) 1 0 False"
  obtain l1 where l1: "spin_lock (sme_lock s) = Inr l1" "ticket (spin_unlock l1) = next_tk (spin_unlock l1)"
    using lock_cycle[OF assms(2)] .
  obtain l2 where l2: "spin_lock (spin_unlock l1) = Inr l2" "ticket (spin_unlock l2) = next_tk (spin_unlock l2)"
    using lock_cycle[OF l1(2)] .
  obtain l3 where l3: "spin_lock (spin_unlock l2) = Inr l3" "ticket (spin_unlock l3) = next_tk (spin_unlock l3)"
    using lock_cycle[OF l2(2)] .
  show ?thesis
  proof (cases "?k = SIZE_MAX")
    case True
    then have "\<forall>k < sme_num s. bmbit (sme_bitmap s) k"
      using slots.first_free_full[of "sme_bitmap s" "sme_num s"] assms(1) by (simp add: first_clear_def)
    then show ?thesis using True by (simp add: place_entry_def smmu_alloc_sme_def l1 set128_def)
  next
    case False
    then have k: "?k < sme_num s" "\<not> bmbit (sme_bitmap s) ?k"
      using slots.first_free_lt[of "sme_bitmap s" "sme_num s"] slots.first_free_free[of "sme_bitmap s" "sme_num s"] assms(1)
      by (simp_all add: first_clear_def)
    then have k128: "?k < 128" using assms(1) by simp
    have "\<exists>s'. place_entry m d g ctx s = Inr s' \<and> new_entry ?k m d ctx s s'"
      using k k128 ctx
      by (auto simp: place_entry_def smmu_alloc_sme_def smmu_write_sme_def smmu_write_s2c_def l1 l2 l3 Let_def
          set128_def get128_def bitmap_get_eq new_entry_def allocated_def entry_takes_def smmu_sme_get_mask_def
          smmu_sme_get_id_def smmu_sme_get_ctx_def smr_fields[of m d, unfolded md] md s2cr_field fun_eq_iff)
    with k show ?thesis by auto
  qed
qed

subsection \<open>Adding an entry\<close>

lemma sme_lock_only [simp]:
  "entry_takes (s\<lparr>sme_lock := l\<rparr>) = entry_takes s"
  "smmu_sme_get_ctx (s\<lparr>sme_lock := l\<rparr>) = smmu_sme_get_ctx s"
  "allocated (s\<lparr>sme_lock := l\<rparr>) = allocated s"
  by (simp_all add: fun_eq_iff entry_takes_def smmu_sme_get_ctx_def smmu_sme_get_id_def smmu_sme_get_mask_def
      allocated_def)

text \<open>What the table looks like after the search, and after a new entry was placed.\<close>

definition covers :: "smmu_priv \<Rightarrow> smmu_priv \<Rightarrow> u32 \<Rightarrow> u32 \<Rightarrow> nat \<Rightarrow> bool" where
  "covers s s' m d ctx \<longleftrightarrow> sme_ok s' \<and>
     (\<forall>x c. takes m d x \<longrightarrow> streams s x c \<longrightarrow> c = ctx) \<and>
     (\<forall>x c. streams s' x c \<longleftrightarrow> (if takes m d x then c = ctx else streams s x c))"

lemma sme_okD:
  "sme_ok s \<Longrightarrow> allocated s j \<Longrightarrow> allocated s k \<Longrightarrow> entry_takes s j x \<Longrightarrow> entry_takes s k x \<Longrightarrow> j = k"
  unfolding sme_ok_def by blast

lemma sme_ok_drop:
  assumes "sme_ok s" "drop_entries D s t" "ticket l = next_tk l"
  shows "sme_ok (t\<lparr>sme_lock := l\<rparr>)"
  using assms sme_okD[OF assms(1)] unfolding sme_ok_def
  by (simp add: drop_entries_fields[OF assms(2)])

lemma covers_included:
  assumes ok: "sme_ok s" and D: "drop_entries D s t" and l: "ticket l = next_tk l"
    and dr: "\<forall>k \<in> D. bmbit (sme_bitmap s) k \<and> smmu_sme_get_ctx s k = ctx \<and> (\<forall>x. entry_takes s k x \<longrightarrow> takes m d x)"
    and k: "allocated t k" "smmu_sme_get_ctx s k = ctx" "\<forall>x. takes m d x \<longrightarrow> entry_takes s k x"
  shows "covers s (t\<lparr>sme_lock := l\<rparr>) m d ctx"
proof -
  note f = drop_entries_fields[OF D]
  have ak: "allocated s k" using k(1) by (simp add: f)
  have st: "streams (t\<lparr>sme_lock := l\<rparr>) x c \<longleftrightarrow> (\<exists>j. allocated t j \<and> entry_takes s j x \<and> smmu_sme_get_ctx s j = c)" for x c
    by (simp add: streams_def f)
  have u: "takes m d x \<Longrightarrow> allocated s j \<Longrightarrow> entry_takes s j x \<Longrightarrow> j = k" for x j
    using sme_okD[OF ok _ ak] k(3) by blast
  have "streams (t\<lparr>sme_lock := l\<rparr>) x c \<longleftrightarrow> (if takes m d x then c = ctx else streams s x c)" for x c
  proof (cases "takes m d x")
    case True
    then show ?thesis unfolding st using u k f(5) by auto
  next
    case False
    then show ?thesis unfolding st using dr f(5) by (auto simp: streams_def)
  qed
  moreover have "\<forall>x c. takes m d x \<longrightarrow> streams s x c \<longrightarrow> c = ctx"
    using u k(2) by (auto simp: streams_def)
  ultimately show ?thesis using sme_ok_drop[OF ok D l] by (simp add: covers_def)
qed

lemma covers_placed:
  assumes ok: "sme_ok s" and D: "drop_entries D s t"
    and dr: "\<forall>k \<in> D. bmbit (sme_bitmap s) k \<and> smmu_sme_get_ctx s k = ctx \<and> (\<forall>x. entry_takes s k x \<longrightarrow> takes m d x)"
    and no: "\<forall>k. allocated t k \<longrightarrow> \<not> overlap m d s k"
    and n: "new_entry k m d ctx (t\<lparr>sme_lock := l\<rparr>) s'"
  shows "covers s s' m d ctx"
proof -
  note f = drop_entries_fields[OF D]
  have al: "allocated s' j \<longleftrightarrow> j = k \<or> allocated s j \<and> j \<notin> D" for j using n by (simp add: new_entry_def f)
  have k: "\<not> (allocated s k \<and> k \<notin> D)" using n by (simp add: new_entry_def f)
  have e: "entry_takes s' = (entry_takes s)(k := takes m d)" "smmu_sme_get_ctx s' = (smmu_sme_get_ctx s)(k := ctx)"
    using n by (simp_all add: new_entry_def f)
  have no': "\<not> (takes m d x \<and> entry_takes s j x)" if "allocated s j" "j \<notin> D" for j x
    using no that f(5) by (auto simp: overlap_def)
  have "streams s' x c \<longleftrightarrow> (if takes m d x then c = ctx else streams s x c)" for x c
    unfolding streams_def al e using no' k dr by (cases "takes m d x") (auto, metis+)
  moreover have "\<forall>x c. takes m d x \<longrightarrow> streams s x c \<longrightarrow> c = ctx"
    using no' dr unfolding streams_def by blast
  moreover have "sme_ok s'"
    using n ok sme_okD[OF ok] no' k unfolding sme_ok_def al e
    by (auto simp: new_entry_def f(3) split: if_splits)
  ultimately show ?thesis by (simp add: covers_def)
qed

lemma and_idem_msk: "(w AND SMMU_ID_MSK) AND SMMU_ID_MSK = w AND SMMU_ID_MSK"
  by (simp add: and.assoc)

lemma add_split:
  assumes "io_ctx_id io = ctx"
  shows "iommu_vm_arch_add parange root vmid m i (io, s) =
    (let m' = (m AND SMMU_ID_MSK) OR global_mask io; d = i AND SMMU_ID_MSK
     in bindr (smmu_compatible_sme_exists m' d ctx (m \<noteq> 0) s) (\<lambda>(found, s).
          if found then Inr (True, io, s)
          else bindr (place_entry m' d (m \<noteq> 0) ctx s) (\<lambda>s. Inr (True, io, s))))"
  using assms
  by (auto simp: iommu_vm_arch_add_def iommu_vm_arch_init_ctx_def place_entry_def Let_def bindr_assoc case_prod_unfold
      intro!: arg_cong[where f = "bindr _"] ext)

definition prep_mask :: "iommu_vm_arch \<Rightarrow> u32 \<Rightarrow> u32" where
  "prep_mask io m = (m AND SMMU_ID_MSK) OR global_mask io"

abbreviation release_sme :: "spinlock \<Rightarrow> smmu_priv \<Rightarrow> smmu_priv" where
  "release_sme l \<equiv> sme_lock_update (\<lambda>_. spin_unlock l)"

lemma add_loop:
  assumes "io_ctx_id io = ctx" "spin_lock (sme_lock s) = Inr l"
  shows "iommu_vm_arch_add parange root vmid m i (io, s) =
    bindr (sme_loop (prep_mask io m) (i AND SMMU_ID_MSK) ctx (m \<noteq> 0) [0..<sme_num s] s) (\<lambda>(found, t).
      if found then Inr (True, io, release_sme l t)
      else bindr (place_entry (prep_mask io m) (i AND SMMU_ID_MSK) (m \<noteq> 0) ctx (release_sme l t)) (\<lambda>s. Inr (True, io, s)))"
  unfolding add_split[OF assms(1)] Let_def prep_mask_def smmu_compatible_sme_exists_def assms(2)
  by (simp add: bindr_assoc case_prod_unfold cong: if_cong)

lemma place_after_search:
  assumes "sme_ok s" "drop_entries D s t" "ticket (spin_unlock l) = next_tk (spin_unlock l)"
    and "ctx < CTX_MAX_NUM" "bmbit (ctxbank_bitmap s) ctx" "global_mask io AND SMMU_ID_MSK = global_mask io"
  shows "if \<exists>k < sme_num s. \<not> bmbit (sme_bitmap t) k
    then \<exists>k s'. place_entry (prep_mask io m) (i AND SMMU_ID_MSK) g ctx (release_sme l t) = Inr s' \<and>
      new_entry k (prep_mask io m) (i AND SMMU_ID_MSK) ctx (release_sme l t) s'
    else place_entry (prep_mask io m) (i AND SMMU_ID_MSK) g ctx (release_sme l t) = Inl Bad_Access"
proof -
  have "prep_mask io m AND SMMU_ID_MSK = prep_mask io m"
    unfolding prep_mask_def by (simp add: bit.conj_disj_distrib2 and_idem_msk assms(6))
  with place_entry_result[of "release_sme l t" ctx "prep_mask io m" "i AND SMMU_ID_MSK" g] assms
    drop_entries_fields[OF assms(2)] show ?thesis
    by (simp add: sme_ok_def and_idem_msk)
qed

lemma smmu_add_covers:
  assumes ok: "sme_ok s" and io: "io_ctx_id io = ctx" "global_mask io AND SMMU_ID_MSK = global_mask io"
    and ctx: "ctx < CTX_MAX_NUM" "bmbit (ctxbank_bitmap s) ctx"
    and r: "iommu_vm_arch_add parange root vmid m i (io, s) = Inr (b, io', s')"
  shows "b \<and> io' = io \<and> covers s s' (prep_mask io m) (i AND SMMU_ID_MSK) ctx"
proof -
  let ?m = "prep_mask io m" and ?d = "i AND SMMU_ID_MSK"
  obtain l where l: "spin_lock (sme_lock s) = Inr l" "ticket (spin_unlock l) = next_tk (spin_unlock l)"
    using lock_cycle[of "sme_lock s"] ok unfolding sme_ok_def by blast
  note add = add_loop[OF io(1) l(1)]
  from r obtain found t where lp: "sme_loop ?m ?d ctx (m \<noteq> 0) [0..<sme_num s] s = Inr (found, t)"
    unfolding add bindr_eq_Inr_iff by auto
  from sme_loop_result[OF lp] obtain D where D: "drop_entries D s t"
    and dr: "\<forall>k \<in> D. bmbit (sme_bitmap s) k \<and> smmu_sme_get_ctx s k = ctx \<and> (\<forall>x. entry_takes s k x \<longrightarrow> takes ?m ?d x)"
    and res: "if found then \<exists>k \<in> set [0..<sme_num s]. bmbit (sme_bitmap t) k \<and> smmu_sme_get_ctx s k = ctx \<and> (\<forall>x. takes ?m ?d x \<longrightarrow> entry_takes s k x)
      else \<forall>k \<in> set [0..<sme_num s]. bmbit (sme_bitmap t) k \<longrightarrow> \<not> overlap ?m ?d s k" by blast
  have n: "allocated t k \<longleftrightarrow> k < sme_num s \<and> bmbit (sme_bitmap t) k" for k
    using drop_entries_fields(3)[OF D] by (simp add: allocated_def)
  show ?thesis
  proof (cases found)
    case True
    with res covers_included[OF ok D l(2) dr] have "covers s (release_sme l t) ?m ?d ctx"
      unfolding n by auto
    with True r show ?thesis by (simp add: add lp)
  next
    case False
    with r have r': "place_entry ?m ?d (m \<noteq> 0) ctx (release_sme l t) = Inr s'" "b \<and> io' = io"
      by (auto simp: add lp bindr_eq_Inr_iff)
    then obtain k where "new_entry k ?m ?d ctx (release_sme l t) s'"
      using place_after_search[OF ok D l(2) ctx io(2), of m i "m \<noteq> 0"] by (metis Inl_Inr_False Inr_inject)
    moreover have "\<forall>k. allocated t k \<longrightarrow> \<not> overlap ?m ?d s k" using False res by (simp add: n)
    ultimately show ?thesis using r'(2) covers_placed[OF ok D dr] by blast
  qed
qed

lemma smmu_add_returns:
  assumes ok: "sme_ok s" and io: "io_ctx_id io = ctx" "global_mask io AND SMMU_ID_MSK = global_mask io"
    and ctx: "ctx < CTX_MAX_NUM" "bmbit (ctxbank_bitmap s) ctx"
    and mg: "\<And>k. allocated s k \<Longrightarrow> overlap (prep_mask io m) (i AND SMMU_ID_MSK) s k \<Longrightarrow>
      mergeable (prep_mask io m) (i AND SMMU_ID_MSK) ctx (m \<noteq> 0) s k"
    and free: "\<exists>k < sme_num s. \<not> allocated s k"
  shows "\<exists>s'. iommu_vm_arch_add parange root vmid m i (io, s) = Inr (True, io, s')"
proof -
  obtain l where l: "spin_lock (sme_lock s) = Inr l" "ticket (spin_unlock l) = next_tk (spin_unlock l)"
    using lock_cycle[of "sme_lock s"] ok unfolding sme_ok_def by blast
  from mg obtain found t where
    lp: "sme_loop (prep_mask io m) (i AND SMMU_ID_MSK) ctx (m \<noteq> 0) [0..<sme_num s] s = Inr (found, t)"
    using sme_loop_returns[of "[0..<sme_num s]" s "prep_mask io m" "i AND SMMU_ID_MSK" ctx "m \<noteq> 0"]
    by (auto simp: allocated_def)
  from sme_loop_result[OF lp] obtain D where D: "drop_entries D s t" by blast
  with free have "\<exists>k < sme_num s. \<not> bmbit (sme_bitmap t) k"
    unfolding drop_entries_def allocated_def by auto
  with place_after_search[OF ok D l(2) ctx io(2), of m i "m \<noteq> 0"] show ?thesis
    by (auto simp: add_loop[OF io(1) l(1)] lp)
qed

subsection \<open>Properties\<close>

text \<open>Adding streams to a VM (\<open>iommu_vm_arch_add\<close>), given an allocated context bank, implements
  the abstract table of streams in the driver's own bookkeeping. The drivers never reach this
  state, as \<open>iommu_never_allocates_ctx\<close> shows, and the entries that the hardware sees may still
  overlap, as \<open>smmu_merge_leaves_valid_entry\<close> shows.
  If the VM's context bank is allocated and no stream has two entries, then a call that returns
  has sent exactly the streams of the new mask and identifier to the VM's context bank and left
  all others where they were; none of them belonged to another context bank before, and still no
  stream has two entries, although entries were merged. The call returns when the
  overlapping entries can be merged and an entry is free.\<close>
theorem smmu_add_refines:
  assumes "sme_ok s" "io_ctx_id io = ctx" "global_mask io AND SMMU_ID_MSK = global_mask io"
    and "ctx < CTX_MAX_NUM" "bmbit (ctxbank_bitmap s) ctx"
  shows "(\<forall>b io' s'. iommu_vm_arch_add parange root vmid m i (io, s) = Inr (b, io', s') \<longrightarrow> b \<and> io' = io \<and> sme_ok s' \<and>
      (\<forall>x c. takes (prep_mask io m) (i AND SMMU_ID_MSK) x \<longrightarrow> streams s x c \<longrightarrow> c = ctx) \<and>
      (\<forall>x c. streams s' x c \<longleftrightarrow>
        (if takes (prep_mask io m) (i AND SMMU_ID_MSK) x then c = ctx else streams s x c))) \<and>
    ((\<forall>k. allocated s k \<longrightarrow> overlap (prep_mask io m) (i AND SMMU_ID_MSK) s k \<longrightarrow>
        mergeable (prep_mask io m) (i AND SMMU_ID_MSK) ctx (m \<noteq> 0) s k) \<longrightarrow>
      (\<exists>k < sme_num s. \<not> allocated s k) \<longrightarrow>
      (\<exists>s'. iommu_vm_arch_add parange root vmid m i (io, s) = Inr (True, io, s')))"
  using smmu_add_covers[OF assms] smmu_add_returns[OF assms] unfolding covers_def by blast

definition sample_smmu :: smmu_priv where
  "sample_smmu =
     \<lparr>glbl_rs0 = \<lparr>r_CR0 = 0, r_IDR0 = 0x48002004, r_IDR1 = 4, r_IDR2 = 0x1044, r_IDR7 = 0x20, r_GFSR = 3,
        r_NSGFSR = 0, r_SMR = (\<lambda>_. 0), r_S2CR = (\<lambda>_. 0)\<rparr>,
      glbl_rs1 = \<lparr>r_CBAR = (\<lambda>_. 0), r_CBA2R = (\<lambda>_. 0)\<rparr>,
      cntxt = (\<lambda>_. \<lparr>r_SCTLR = 0, r_TTBR0 = 0, r_TCR = 0, r_FSR = 0\<rparr>),
      a_rs1 = 0, a_cntxt = 0, sme_lock = SPINLOCK_INITVAL, sme_num = 4, sme_bitmap = (\<lambda>_. 0), grp_bitmap = (\<lambda>_. 0),
      ctx_lock = SPINLOCK_INITVAL, ctx_num = 4, ctxbank_bitmap = (\<lambda>i. if i = 0 then 1 else 0)\<rparr>"

lemma sample_smmu_ok: "sme_ok sample_smmu" "bmbit (ctxbank_bitmap sample_smmu) 0" "\<not> allocated sample_smmu k"
  by (simp_all add: sme_ok_def sample_smmu_def allocated_def bmbit_def SPINLOCK_INITVAL_def)

theorem smmu_add_refines_witness:
  "\<exists>s'. iommu_vm_arch_add 4 0x80000000 1 0 0x42 (\<lparr>global_mask = 0x100, io_ctx_id = 0\<rparr>, sample_smmu) =
      Inr (True, \<lparr>global_mask = 0x100, io_ctx_id = 0\<rparr>, s') \<and> sme_ok s' \<and> streams s' 0x142 0"
proof -
  let ?io = "\<lparr>global_mask = 0x100, io_ctx_id = 0\<rparr>"
  have msk: "SMMU_ID_MSK = 0x7FFF" by (simp add: SMMU_ID_MSK_def BIT_MASK_def lsl_def size_dec_def push_bit_eq_mult)
  have a: "global_mask ?io AND SMMU_ID_MSK = global_mask ?io" by (simp add: msk)
  note t = smmu_add_refines[OF sample_smmu_ok(1) refl a, where parange = 4 and root = "0x80000000" and vmid = 1 and m = 0 and i = "0x42"]
  have "\<exists>k < sme_num sample_smmu. \<not> allocated sample_smmu k"
    using sample_smmu_ok(3) by (intro exI[of _ 0]) (simp add: sample_smmu_def)
  with t sample_smmu_ok obtain s' where
    s': "iommu_vm_arch_add 4 0x80000000 1 0 0x42 (?io, sample_smmu) = Inr (True, ?io, s')" by auto
  have "takes (prep_mask ?io 0) (0x42 AND SMMU_ID_MSK) 0x142"
    by (simp add: takes_def prep_mask_def msk)
  with t s' sample_smmu_ok show ?thesis by auto
qed

lemma sme_ctx_bound: "smmu_sme_get_ctx s k < 256"
proof -
  have "S2CR_CBNDX (r_S2CR (glbl_rs0 s) k) = take_bit 8 (r_S2CR (glbl_rs0 s) k)"
    by (simp add: S2CR_CBNDX_def bit_extract_eq)
  then show ?thesis
    using take_bit_nat_less_exp[of 8 "unat (r_S2CR (glbl_rs0 s) k)"]
    by (simp add: smmu_sme_get_ctx_def unsigned_take_bit_eq)
qed

lemma sme_loop_invalid_ctx:
  "256 \<le> ctx \<Longrightarrow> sme_loop m d ctx g ks s = Inr (included, s') \<Longrightarrow> \<not> included"
proof (induction ks arbitrary: s)
  case (Cons k ks)
  then show ?case using sme_ctx_bound[of s k] by (auto simp: Let_def split: if_splits)
qed simp

lemma place_entry_invalid_ctx: "CTX_MAX_NUM \<le> ctx \<Longrightarrow> place_entry m d g ctx s \<noteq> Inr s'"
  by (auto simp: place_entry_def bindr_eq_Inr_iff smmu_write_s2c_def get128_def)

text \<open>C11: a VM's context bank is never allocated: \<open>ctx_id\<close> starts as \<open>(size_t)-1\<close> and the test
  \<open>ctx_id < 0\<close> that should lead to \<open>smmu_alloc_ctxbnk\<close> is false for every \<open>size_t\<close>. So initialising a
  VM with at least one group of streams, or adding a device to a VM, never returns, in any state
  of the driver: it waits for a lock that is taken, stops with an error, or reads the bitmap of
  context banks far behind its end, where the model ends. Without groups the
  initialisation returns and leaves the hardware alone.\<close>
theorem iommu_never_allocates_ctx:
  "iommu_arch_vm_init_v2 parange root vmid cfg_mask plat_mask (g # gs) s \<noteq> Inr r \<and>
   iommu_arch_vm_init_v2 parange root vmid cfg_mask plat_mask [] s =
     Inr (True, \<lparr>global_mask = cfg_mask OR plat_mask, io_ctx_id = SIZE_MAX\<rparr>, s) \<and>
   iommu_arch_vm_add_device_v2 parange root vmid i (\<lparr>global_mask = gm, io_ctx_id = SIZE_MAX\<rparr>, s) \<noteq> Inr r"
proof -
  have "iommu_vm_arch_add parange root vmid m i (io, s) \<noteq> Inr r"
    if io: "io_ctx_id io = SIZE_MAX" for m i io and r :: "bool \<times> iommu_vm_arch \<times> smmu_priv"
    unfolding add_split[OF io] Let_def
    by (auto simp: bindr_eq_Inr_iff smmu_compatible_sme_exists_def place_entry_invalid_ctx
        dest!: sme_loop_invalid_ctx[rotated])
  then show ?thesis
    by (auto simp: iommu_arch_vm_init_v2_def iommu_arch_vm_add_device_v2_def bindr_eq_Inr_iff)
qed

text \<open>The translation control register of a context bank is the value that
  \<open>vmm_arch_init_tcr\<close> gives the processors' \<open>VTCR_EL2\<close>, up to the bit that is reserved there, so that
  the VM and its devices read the same page table the same way.\<close>
theorem smmu_tcr_is_vtcr:
  assumes "parange < length parange_table"
  shows "vtcr_of parange (parange_table ! parange) = ucast (smmu_tcr parange) OR lsl 1 31"
proof -
  have "parange \<in> {0, 1, 2, 3, 4, 5}" using assms by (auto simp: parange_table_def)
  then show ?thesis
    by (auto simp: vtcr_of_def smmu_tcr_def smmu_consts parange_table_def lsl_def push_bit_eq_mult)
qed

theorem smmu_tcr_is_vtcr_witness:
  "vtcr_of 4 (parange_table ! 4) = ucast (smmu_tcr 4) OR lsl 1 31 \<and> smmu_tcr 4 = 0x43594"
  using smmu_tcr_is_vtcr[of 4]
  by (simp add: parange_table_def smmu_tcr_def smmu_consts lsl_def push_bit_eq_mult)

lemma smmu_layout:
  "offset_of ''IDR0'' smmu_glbl_rs0_hw = Some 0x20" "offset_of ''IDR7'' smmu_glbl_rs0_hw = Some 0x3C"
  "offset_of ''GFSR'' smmu_glbl_rs0_hw = Some 0x48" "offset_of ''NSGFSR'' smmu_glbl_rs0_hw = Some 0x448"
  "offset_of ''SMR'' smmu_glbl_rs0_hw = Some 0x800" "offset_of ''S2CR'' smmu_glbl_rs0_hw = Some 0xC00"
  "struct_size smmu_glbl_rs0_hw = 0x1000"
  "offset_of ''CBA2R'' smmu_glbl_rs1_hw = Some 0x800" "struct_size smmu_glbl_rs1_hw = 0x1000"
  "offset_of ''TTBR0'' smmu_cntxt_hw = Some 0x20" "offset_of ''TCR'' smmu_cntxt_hw = Some 0x30"
  "offset_of ''FSR'' smmu_cntxt_hw = Some 0x58"
  "offset_of ''PMEVTYPERm'' smmu_cntxt_hw = Some 0xE48" "offset_of ''PMCFGR'' smmu_cntxt_hw = Some 0xE90"
  by (simp_all add: smmu_glbl_rs0_hw_def smmu_glbl_rs1_hw_def smmu_cntxt_hw_def struct_size_def)

text \<open>The entries whose register makes the hardware match a stream, allocated or not.\<close>

definition hw_matches :: "smmu_priv \<Rightarrow> u32 \<Rightarrow> nat list" where
  "hw_matches s x = filter (\<lambda>k. bit (r_SMR (glbl_rs0 s) k) 31 \<and> entry_takes s k x) [0..<sme_num s]"

definition sample_adds :: "(bool \<times> iommu_vm_arch \<times> smmu_priv) res" where
  "sample_adds =
     (let io = \<lparr>global_mask = 0, io_ctx_id = 0\<rparr>
      in bindr (iommu_vm_arch_add 4 0 1 0 0x10 (io, sample_smmu)) (\<lambda>(_, st).
         bindr (iommu_vm_arch_add 4 0 1 0 0x11 st) (\<lambda>(_, st).
         iommu_vm_arch_add 4 0 1 1 0x10 st)))"

text \<open>Two devices are added and then a group that contains both. The driver merges: the
  three calls succeed, and only entry 0 remains allocated. But the valid bit of entry 1 was not
  cleared, so that the hardware finds two matches for stream \<open>0x11\<close>, a stream match conflict.\<close>
theorem smmu_merge_leaves_valid_entry:
  "\<exists>io s. sample_adds = Inr (True, io, s) \<and> allocated s 0 \<and> \<not> allocated s 1 \<and> hw_matches s 0x11 = [0, 1]"
proof -
  have "case sample_adds of Inl e \<Rightarrow> False
    | Inr (b, io, s) \<Rightarrow> b \<and> allocated s 0 \<and> \<not> allocated s 1 \<and> hw_matches s 0x11 = [0, 1]"
    by code_simp
  then show ?thesis by (auto split: sum.splits) blast
qed

text \<open>\<open>smmu_init\<close> returns exactly when the SMMU has the features the driver needs, its address
  sizes cover \<open>parange\<close> and it has at most 128 entries and context banks; then no entry is
  allocated or valid, no context bank is allocated, no stream is translated, the recorded
  faults are cleared, and the SMMU is enabled.\<close>
theorem smmu_init_clean:
  "case smmu_init parange base s of
     Inl e \<Rightarrow> smmu_check_features parange (glbl_rs0 s) \<noteq> Inr () \<or>
       SME_MAX_NUM < unat (r_IDR0 (glbl_rs0 s) AND 0xFF) \<or> CTX_MAX_NUM < unat (bit_extract (r_IDR1 (glbl_rs0 s)) 0 8)
   | Inr s' \<Rightarrow> smmu_check_features parange (glbl_rs0 s) = Inr () \<and> sme_ok s' \<and>
       ctx_num s' \<le> CTX_MAX_NUM \<and> (\<forall>k. \<not> allocated s' k) \<and> (\<forall>x c. \<not> streams s' x c) \<and> (\<forall>x. hw_matches s' x = []) \<and>
       \<not> (\<exists>k < ctx_num s'. bmbit (ctxbank_bitmap s') k) \<and>
       r_GFSR (glbl_rs0 s') = 0 \<and> \<not> bit (r_CR0 (glbl_rs0 s')) 0"
proof (cases "smmu_init parange base s")
  case (Inr s')
  then have "smmu_check_features parange (glbl_rs0 s) = Inr ()" "sme_num s' \<le> SME_MAX_NUM" "ctx_num s' \<le> CTX_MAX_NUM"
    "sme_lock s' = SPINLOCK_INITVAL" "\<forall>k. \<not> allocated s' k" "\<forall>k < ctx_num s'. \<not> bmbit (ctxbank_bitmap s') k"
    "\<forall>k < sme_num s'. r_SMR (glbl_rs0 s') k = 0" "r_GFSR (glbl_rs0 s') = 0" "\<not> bit (r_CR0 (glbl_rs0 s')) 0"
    by (auto simp: smmu_init_def Let_def bindr_eq_Inr_iff allocated_def write_w1c_def SMMUV2_CR0_CLIENTPD_def
        bit_and_iff bit_not_iff bit_lsl_one split: if_splits)
  then show ?thesis using Inr
    by (auto simp: sme_ok_def streams_def hw_matches_def SPINLOCK_INITVAL_def)
next
  case (Inl e)
  then show ?thesis
    by (cases "smmu_check_features parange (glbl_rs0 s)")
      (auto simp: smmu_init_def Let_def SMMUV2_IDR0_MASK_def split: if_splits)
qed

end
