(* ===== verification/Smmuv3.thy ===== *)
theory Smmuv3
  imports Vm_Init
begin

text \<open>
  The SMMUv3 driver (\<open>arch/aarch64/smmuv3.c\<close>) and the part of \<open>iommu.c\<close> that a build with
  \<open>SMMU_VERSION\<close> 3 has. The driver and the SMMU share memory: the driver puts commands into a
  ring (\<open>CMDQ\<close>) and moves the producer register, the SMMU executes them and moves the consumer
  register; the stream table says for every stream whether it is translated.
  \<open>smmu3\<close> is the driver's state together with the registers, addressed by their offset, and
  the memory of 64-bit words. The SMMU itself is a parameter \<open>dev\<close>: what it does
  between two reads of a register that it changes; \<open>smmu_device\<close> says what the driver relies
  on. \<open>sm_log\<close> are the commands the SMMU has executed. \<open>trace_error\<close> prints with \<open>ERROR\<close>, so
  it does not return.
\<close>

unbundle bit_operations_syntax

subsection \<open>Fields\<close>

definition BIT_MASK_LR :: "nat \<Rightarrow> nat \<Rightarrow> u64" where
  "BIT_MASK_LR lst frst = lsl (lsr (- 1) (64 - (lst + 1 - frst))) frst"

definition FIELD_PREP :: "u64 \<Rightarrow> u64 \<Rightarrow> u64" where
  "FIELD_PREP msk val = lsl val (bit_ffs msk) AND msk"

definition FIELD_GET :: "u64 \<Rightarrow> u64 \<Rightarrow> u64" where
  "FIELD_GET msk reg = lsr (reg AND msk) (bit_ffs msk)"

abbreviation IDR0_ST_LVL :: u64 where "IDR0_ST_LVL \<equiv> BIT_MASK_LR 28 27"
abbreviation IDR0_S2P :: u32 where "IDR0_S2P \<equiv> 1"
abbreviation IDR1_CMDQS :: u64 where "IDR1_CMDQS \<equiv> BIT_MASK_LR 25 21"
abbreviation IDR1_EVTQS :: u64 where "IDR1_EVTQS \<equiv> BIT_MASK_LR 20 16"
abbreviation IDR1_SIDSIZE :: u64 where "IDR1_SIDSIZE \<equiv> BIT_MASK_LR 5 0"

abbreviation ARM_SMMU_IDR0 :: nat where "ARM_SMMU_IDR0 \<equiv> 0x0"
abbreviation ARM_SMMU_IDR1 :: nat where "ARM_SMMU_IDR1 \<equiv> 0x4"
abbreviation ARM_SMMU_CR0 :: nat where "ARM_SMMU_CR0 \<equiv> 0x20"
abbreviation ARM_SMMU_CR0ACK :: nat where "ARM_SMMU_CR0ACK \<equiv> 0x24"
abbreviation ARM_SMMU_CR1 :: nat where "ARM_SMMU_CR1 \<equiv> 0x28"
abbreviation ARM_SMMU_GERROR :: nat where "ARM_SMMU_GERROR \<equiv> 0x60"
abbreviation ARM_SMMU_GERRORN :: nat where "ARM_SMMU_GERRORN \<equiv> 0x64"
abbreviation ARM_SMMU_STRTAB_BASE :: nat where "ARM_SMMU_STRTAB_BASE \<equiv> 0x80"
abbreviation ARM_SMMU_STRTAB_BASE_CFG :: nat where "ARM_SMMU_STRTAB_BASE_CFG \<equiv> 0x88"
abbreviation ARM_SMMU_CMDQ_BASE :: nat where "ARM_SMMU_CMDQ_BASE \<equiv> 0x90"
abbreviation ARM_SMMU_CMDQ_PROD :: nat where "ARM_SMMU_CMDQ_PROD \<equiv> 0x98"
abbreviation ARM_SMMU_CMDQ_CONS :: nat where "ARM_SMMU_CMDQ_CONS \<equiv> 0x9c"
abbreviation ARM_SMMU_EVTQ_BASE :: nat where "ARM_SMMU_EVTQ_BASE \<equiv> 0xa0"
abbreviation ARM_SMMU_EVTQ_PROD :: nat where "ARM_SMMU_EVTQ_PROD \<equiv> 0x100a8"
abbreviation ARM_SMMU_EVTQ_CONS :: nat where "ARM_SMMU_EVTQ_CONS \<equiv> 0x100ac"

abbreviation CR0_CMDQEN :: u32 where "CR0_CMDQEN \<equiv> 0x8"
abbreviation CR0_EVTQEN :: u32 where "CR0_EVTQEN \<equiv> 0x4"
abbreviation CR0_SMMUEN :: u32 where "CR0_SMMUEN \<equiv> 0x1"

abbreviation STRTAB_BASE_RA :: u64 where "STRTAB_BASE_RA \<equiv> lsl (1 :: u64) 62"
abbreviation STRTAB_BASE_ADDR_MASK :: u64 where "STRTAB_BASE_ADDR_MASK \<equiv> BIT_MASK_LR 51 6"
abbreviation STRTAB_BASE_CFG_FMT :: u64 where "STRTAB_BASE_CFG_FMT \<equiv> BIT_MASK_LR 17 16"
abbreviation STRTAB_BASE_CFG_SPLIT :: u64 where "STRTAB_BASE_CFG_SPLIT \<equiv> BIT_MASK_LR 10 6"
abbreviation STRTAB_BASE_CFG_LOG2SIZE :: u64 where "STRTAB_BASE_CFG_LOG2SIZE \<equiv> BIT_MASK_LR 5 0"
abbreviation STRTAB_BASE_CFG_FMT_LINEAR :: u64 where "STRTAB_BASE_CFG_FMT_LINEAR \<equiv> 0"
abbreviation STRTAB_BASE_CFG_FMT_2LVL :: u64 where "STRTAB_BASE_CFG_FMT_2LVL \<equiv> 1"

abbreviation Q_BASE_RWA :: u64 where "Q_BASE_RWA \<equiv> lsl (1 :: u64) 62"
abbreviation Q_BASE_ADDR_MASK :: u64 where "Q_BASE_ADDR_MASK \<equiv> BIT_MASK_LR 51 5"
abbreviation Q_BASE_LOG2SIZE :: u64 where "Q_BASE_LOG2SIZE \<equiv> BIT_MASK_LR 4 0"

abbreviation STRTAB_L1_SZ_SHIFT :: nat where "STRTAB_L1_SZ_SHIFT \<equiv> 20"
abbreviation STRTAB_SPLIT :: nat where "STRTAB_SPLIT \<equiv> 8"
abbreviation STRTAB_L1_DESC_SPAN :: u64 where "STRTAB_L1_DESC_SPAN \<equiv> BIT_MASK_LR 4 0"
abbreviation STRTAB_L1_DESC_L2PTR_MASK :: u64 where "STRTAB_L1_DESC_L2PTR_MASK \<equiv> BIT_MASK_LR 51 6"
abbreviation STRTAB_STE_0_V :: u64 where "STRTAB_STE_0_V \<equiv> 1"
abbreviation STRTAB_STE_0_CFG :: u64 where "STRTAB_STE_0_CFG \<equiv> BIT_MASK_LR 3 1"
abbreviation STRTAB_STE_0_CFG_BYPASS :: u64 where "STRTAB_STE_0_CFG_BYPASS \<equiv> 4"
abbreviation STRTAB_STE_0_CFG_S2_TRANS :: u64 where "STRTAB_STE_0_CFG_S2_TRANS \<equiv> 6"
abbreviation STRTAB_STE_1_SHCFG :: u64 where "STRTAB_STE_1_SHCFG \<equiv> BIT_MASK_LR 45 44"
abbreviation STRTAB_STE_1_SHCFG_INCOMING :: u64 where "STRTAB_STE_1_SHCFG_INCOMING \<equiv> 1"
abbreviation STRTAB_STE_2_S2VMID :: u64 where "STRTAB_STE_2_S2VMID \<equiv> BIT_MASK_LR 15 0"
abbreviation STRTAB_STE_2_VTCR :: u64 where "STRTAB_STE_2_VTCR \<equiv> BIT_MASK_LR 50 32"
abbreviation STRTAB_STE_2_S2AA64 :: u64 where "STRTAB_STE_2_S2AA64 \<equiv> lsl (1 :: u64) 51"
abbreviation STRTAB_STE_2_S2PTW :: u64 where "STRTAB_STE_2_S2PTW \<equiv> lsl (1 :: u64) 54"
abbreviation STRTAB_STE_2_S2R :: u64 where "STRTAB_STE_2_S2R \<equiv> lsl (1 :: u64) 58"
abbreviation STRTAB_STE_3_S2TTB_MASK :: u64 where "STRTAB_STE_3_S2TTB_MASK \<equiv> BIT_MASK_LR 51 4"

abbreviation CMDQ_MAX_SZ_SHIFT :: nat where "CMDQ_MAX_SZ_SHIFT \<equiv> 8"
abbreviation EVTQ_MAX_SZ_SHIFT :: nat where "EVTQ_MAX_SZ_SHIFT \<equiv> 7"
abbreviation CMDQ_0_OP :: u64 where "CMDQ_0_OP \<equiv> BIT_MASK_LR 7 0"
abbreviation CMDQ_PREFETCH_0_SID :: u64 where "CMDQ_PREFETCH_0_SID \<equiv> BIT_MASK_LR 63 32"
abbreviation CMDQ_PREFETCH_1_SIZE :: u64 where "CMDQ_PREFETCH_1_SIZE \<equiv> BIT_MASK_LR 4 0"
abbreviation CMDQ_PREFETCH_1_ADDR_MASK :: u64 where "CMDQ_PREFETCH_1_ADDR_MASK \<equiv> BIT_MASK_LR 63 12"
abbreviation CMDQ_CFGI_0_SID :: u64 where "CMDQ_CFGI_0_SID \<equiv> BIT_MASK_LR 63 32"
abbreviation CMDQ_CFGI_1_LEAF :: u64 where "CMDQ_CFGI_1_LEAF \<equiv> (1 :: u64)"
abbreviation CMDQ_CFGI_1_RANGE :: u64 where "CMDQ_CFGI_1_RANGE \<equiv> BIT_MASK_LR 4 0"
abbreviation CMDQ_TLBI_0_VMID :: u64 where "CMDQ_TLBI_0_VMID \<equiv> BIT_MASK_LR 47 32"
abbreviation CMDQ_TLBI_0_ASID :: u64 where "CMDQ_TLBI_0_ASID \<equiv> BIT_MASK_LR 63 48"
abbreviation CMDQ_TLBI_1_LEAF :: u64 where "CMDQ_TLBI_1_LEAF \<equiv> (1 :: u64)"
abbreviation CMDQ_TLBI_1_VA_MASK :: u64 where "CMDQ_TLBI_1_VA_MASK \<equiv> BIT_MASK_LR 63 12"
abbreviation CMDQ_TLBI_1_IPA_MASK :: u64 where "CMDQ_TLBI_1_IPA_MASK \<equiv> BIT_MASK_LR 51 12"
abbreviation CMDQ_SYNC_0_CS :: u64 where "CMDQ_SYNC_0_CS \<equiv> BIT_MASK_LR 13 12"
abbreviation CMDQ_SYNC_0_MSH :: u64 where "CMDQ_SYNC_0_MSH \<equiv> BIT_MASK_LR 23 22"
abbreviation CMDQ_SYNC_0_MSIATTR :: u64 where "CMDQ_SYNC_0_MSIATTR \<equiv> BIT_MASK_LR 27 24"
abbreviation CMDQ_SYNC_0_MSIDATA :: u64 where "CMDQ_SYNC_0_MSIDATA \<equiv> BIT_MASK_LR 63 32"
abbreviation CMDQ_SYNC_1_MSIADDR_MASK :: u64 where "CMDQ_SYNC_1_MSIADDR_MASK \<equiv> BIT_MASK_LR 51 2"

abbreviation CMDQ_OP_PREFETCH_CFG :: u8 where "CMDQ_OP_PREFETCH_CFG \<equiv> 0x1"
abbreviation CMDQ_OP_PREFETCH_ADDR :: u8 where "CMDQ_OP_PREFETCH_ADDR \<equiv> 0x2"
abbreviation CMDQ_OP_CFGI_STE :: u8 where "CMDQ_OP_CFGI_STE \<equiv> 0x3"
abbreviation CMDQ_OP_CFGI_ALL :: u8 where "CMDQ_OP_CFGI_ALL \<equiv> 0x4"
abbreviation CMDQ_OP_TLBI_NH_ASID :: u8 where "CMDQ_OP_TLBI_NH_ASID \<equiv> 0x11"
abbreviation CMDQ_OP_TLBI_NH_VA :: u8 where "CMDQ_OP_TLBI_NH_VA \<equiv> 0x12"
abbreviation CMDQ_OP_TLBI_EL2_ALL :: u8 where "CMDQ_OP_TLBI_EL2_ALL \<equiv> 0x20"
abbreviation CMDQ_OP_TLBI_S12_VMALL :: u8 where "CMDQ_OP_TLBI_S12_VMALL \<equiv> 0x28"
abbreviation CMDQ_OP_TLBI_S2_IPA :: u8 where "CMDQ_OP_TLBI_S2_IPA \<equiv> 0x2a"
abbreviation CMDQ_OP_TLBI_NSNH_ALL :: u8 where "CMDQ_OP_TLBI_NSNH_ALL \<equiv> 0x30"
abbreviation CMDQ_OP_CMD_SYNC :: u8 where "CMDQ_OP_CMD_SYNC \<equiv> 0x46"
abbreviation ARM_SMMU_FEAT_2_LVL_STRTAB :: u32 where "ARM_SMMU_FEAT_2_LVL_STRTAB \<equiv> 1"
abbreviation ARM_SMMU_SYNC_TIMEOUT :: nat where "ARM_SMMU_SYNC_TIMEOUT \<equiv> 1000000"

definition VTCR_CELL :: u64 where
  "VTCR_CELL = 0 OR lsl 1 6 OR lsl 1 8 OR lsl 1 10 OR lsl 3 12 OR lsl 1 31"

subsection \<open>State\<close>

text \<open>The union in the command structure: every command reads only the members it is built with.\<close>

record arm_smmu_cmdq_ent =
  opcode :: u8
  pf_sid :: u32
  pf_size :: u8
  pf_addr :: u64
  cfgi_sid :: u32
  cfgi_leaf :: bool
  tlbi_asid :: "16 word"
  tlbi_vmid :: "16 word"
  tlbi_leaf :: bool
  tlbi_addr :: u64
  msidata :: u32
  msiaddr :: u64

record arm_smmu_queue =
  q_ptr :: u64
  base_dma :: u64
  q_base :: u64
  ent_dwords :: nat
  max_n_shift :: nat
  q_prod :: u32
  q_cons :: u32
  prod_reg :: nat
  cons_reg :: nat
  gerr_mask :: u32

record arm_smmu_strtab_l1_desc =
  span :: u8
  l2ptr :: u64
  l2ptr_dma :: u64
  active_stes :: u32

record arm_smmu_strtab_cfg =
  strtab :: u64
  strtab_dma :: u64
  l1_desc :: "nat \<Rightarrow> arm_smmu_strtab_l1_desc"
  num_l1_ents :: nat
  strtab_base :: u64
  strtab_base_cfg :: u32

type_synonym cmd = "u64 \<times> u64"

record smmu3 =
  mm32 :: "nat \<Rightarrow> u32"
  mm64 :: "nat \<Rightarrow> u64"
  mem3 :: "u64 \<Rightarrow> u64"
  pool3 :: page_pool
  features :: u32
  cmdq :: arm_smmu_queue
  cmdq_lock :: spinlock
  evtq :: arm_smmu_queue
  sid_bits :: nat
  strtab_cfg :: arm_smmu_strtab_cfg
  sm_log :: "cmd list"

type_synonym smmu_dev = "smmu3 \<Rightarrow> smmu3"

definition mmio_write32 :: "nat \<Rightarrow> u32 \<Rightarrow> smmu3 \<Rightarrow> smmu3" where
  "mmio_write32 off v s = s\<lparr>mm32 := (mm32 s)(off := v)\<rparr>"

definition mmio_write64 :: "nat \<Rightarrow> u64 \<Rightarrow> smmu3 \<Rightarrow> smmu3" where
  "mmio_write64 off v s = s\<lparr>mm64 := (mm64 s)(off := v)\<rparr>"

text \<open>A register that the SMMU may have changed since the last access.\<close>

definition mmio_read32 :: "smmu_dev \<Rightarrow> nat \<Rightarrow> smmu3 \<Rightarrow> u32 \<times> smmu3" where
  "mmio_read32 dev off s = (let s = dev s in (mm32 s off, s))"

subsection \<open>Queues\<close>

definition Q_IDX :: "u32 \<Rightarrow> nat \<Rightarrow> u32" where "Q_IDX reg shift = reg AND (lsl 1 shift - 1)"
definition Q_WRP :: "u32 \<Rightarrow> nat \<Rightarrow> u32" where "Q_WRP reg shift = reg AND lsl 1 shift"
definition Q_OVF :: "u32 \<Rightarrow> u32" where "Q_OVF reg = reg AND lsl 1 31"

definition Q_EMPTY :: "u32 \<Rightarrow> u32 \<Rightarrow> nat \<Rightarrow> bool" where
  "Q_EMPTY p c shift \<longleftrightarrow> Q_IDX p shift = Q_IDX c shift \<and> Q_WRP p shift = Q_WRP c shift"

definition Q_FULL :: "u32 \<Rightarrow> u32 \<Rightarrow> nat \<Rightarrow> bool" where
  "Q_FULL p c shift \<longleftrightarrow> Q_IDX p shift = Q_IDX c shift \<and> Q_WRP p shift \<noteq> Q_WRP c shift"

definition queue_full :: "arm_smmu_queue \<Rightarrow> bool" where
  "queue_full q = Q_FULL (q_prod q) (q_cons q) (max_n_shift q)"

definition queue_empty :: "arm_smmu_queue \<Rightarrow> bool" where
  "queue_empty q = Q_EMPTY (q_prod q) (q_cons q) (max_n_shift q)"

definition queue_sync_cons :: "smmu_dev \<Rightarrow> smmu3 \<Rightarrow> smmu3" where
  "queue_sync_cons dev s =
     (let (v, s) = mmio_read32 dev (cons_reg (cmdq s)) s in s\<lparr>cmdq := (cmdq s)\<lparr>q_cons := v\<rparr>\<rparr>)"

definition queue_error :: "smmu_dev \<Rightarrow> smmu3 \<Rightarrow> bool \<times> smmu3" where
  "queue_error dev s =
     (let (gerror, s) = mmio_read32 dev ARM_SMMU_GERROR s;
          (gerrorn, s) = mmio_read32 dev ARM_SMMU_GERRORN s
      in ((gerror XOR gerrorn) AND gerr_mask (cmdq s) \<noteq> 0, s))"

definition next_prod :: "u32 \<Rightarrow> nat \<Rightarrow> u32" where
  "next_prod p shift =
     (let pr = (Q_WRP p shift OR Q_IDX p shift) + 1 in (Q_OVF p OR Q_WRP pr shift) OR Q_IDX pr shift)"

definition queue_inc_prod :: "smmu3 \<Rightarrow> smmu3" where
  "queue_inc_prod s =
     (let p = next_prod (q_prod (cmdq s)) (max_n_shift (cmdq s))
      in mmio_write32 (prod_reg (cmdq s)) p (s\<lparr>cmdq := (cmdq s)\<lparr>q_prod := p\<rparr>\<rparr>))"

fun queue_write :: "u64 \<Rightarrow> u64 list \<Rightarrow> (u64 \<Rightarrow> u64) \<Rightarrow> u64 \<Rightarrow> u64" where
  "queue_write dst [] m = m"
| "queue_write dst (x # xs) m = queue_write (dst + 8) xs (m(dst := x))"

definition queue_entry :: "arm_smmu_queue \<Rightarrow> u32 \<Rightarrow> u64" where
  "queue_entry q reg = q_ptr q + 8 * (ucast (Q_IDX reg (max_n_shift q)) * word_of_nat (ent_dwords q))"

definition of_flag :: "bool \<Rightarrow> u64" where "of_flag b = (if b then 1 else 0)"

definition arm_smmu_cmdq_build_cmd :: "arm_smmu_cmdq_ent \<Rightarrow> cmd res" where
  "arm_smmu_cmdq_build_cmd ent =
     (let c0 = FIELD_PREP CMDQ_0_OP (ucast (opcode ent));
          op = opcode ent;
          pf0 = FIELD_PREP CMDQ_PREFETCH_0_SID (ucast (pf_sid ent));
          asid = FIELD_PREP CMDQ_TLBI_0_ASID (ucast (tlbi_asid ent));
          vmid = FIELD_PREP CMDQ_TLBI_0_VMID (ucast (tlbi_vmid ent))
      in if op = CMDQ_OP_TLBI_EL2_ALL \<or> op = CMDQ_OP_TLBI_NSNH_ALL then Inr (c0, 0)
         else if op = CMDQ_OP_PREFETCH_ADDR then
           Inr (c0 OR pf0, FIELD_PREP CMDQ_PREFETCH_1_SIZE (ucast (pf_size ent)) OR
             (pf_addr ent AND CMDQ_PREFETCH_1_ADDR_MASK))
         else if op = CMDQ_OP_PREFETCH_CFG then Inr (c0 OR pf0, 0)
         else if op = CMDQ_OP_CFGI_STE then
           Inr (c0 OR FIELD_PREP CMDQ_CFGI_0_SID (ucast (cfgi_sid ent)),
             FIELD_PREP CMDQ_CFGI_1_LEAF (of_flag (cfgi_leaf ent)))
         else if op = CMDQ_OP_CFGI_ALL then Inr (c0, FIELD_PREP CMDQ_CFGI_1_RANGE 31)
         else if op = CMDQ_OP_TLBI_NH_VA then
           Inr ((c0 OR asid) OR vmid, FIELD_PREP CMDQ_TLBI_1_LEAF (of_flag (tlbi_leaf ent)) OR
             (tlbi_addr ent AND CMDQ_TLBI_1_VA_MASK))
         else if op = CMDQ_OP_TLBI_S2_IPA then
           Inr (c0 OR vmid, FIELD_PREP CMDQ_TLBI_1_LEAF (of_flag (tlbi_leaf ent)) OR
             (tlbi_addr ent AND CMDQ_TLBI_1_IPA_MASK))
         else if op = CMDQ_OP_TLBI_NH_ASID then Inr ((c0 OR asid) OR vmid, 0)
         else if op = CMDQ_OP_TLBI_S12_VMALL then Inr (c0 OR vmid, 0)
         else if op = CMDQ_OP_CMD_SYNC then
           Inr ((c0 OR FIELD_PREP CMDQ_SYNC_0_CS (if msiaddr ent \<noteq> 0 then 1 else 2)) OR
               (FIELD_PREP CMDQ_SYNC_0_MSH 3 OR FIELD_PREP CMDQ_SYNC_0_MSIATTR 0xf OR
                FIELD_PREP CMDQ_SYNC_0_MSIDATA (ucast (msidata ent))),
             msiaddr ent AND CMDQ_SYNC_1_MSIADDR_MASK)
         else Inl Error)"

definition zero_ent :: arm_smmu_cmdq_ent where
  "zero_ent = \<lparr>opcode = 0, pf_sid = 0, pf_size = 0, pf_addr = 0, cfgi_sid = 0, cfgi_leaf = False, tlbi_asid = 0,
     tlbi_vmid = 0, tlbi_leaf = False, tlbi_addr = 0, msidata = 0, msiaddr = 0\<rparr>"

definition write_cmd :: "u64 \<Rightarrow> cmd \<Rightarrow> smmu3 \<Rightarrow> smmu3" where
  "write_cmd dst c s = s\<lparr>mem3 := queue_write dst (take (ent_dwords (cmdq s)) [fst c, snd c]) (mem3 s)\<rparr>"

definition arm_smmu_cmdq_skip_err :: "smmu_dev \<Rightarrow> smmu3 \<Rightarrow> smmu3 res" where
  "arm_smmu_cmdq_skip_err dev s =
     bindr (arm_smmu_cmdq_build_cmd (zero_ent\<lparr>opcode := CMDQ_OP_CMD_SYNC\<rparr>)) (\<lambda>c.
       let s = write_cmd (queue_entry (cmdq s) (q_cons (cmdq s))) c s;
           (gerrorn, s) = mmio_read32 dev ARM_SMMU_GERRORN s
       in Inr (mmio_write32 ARM_SMMU_GERRORN (gerrorn XOR 1) s))"

partial_function (option) wait_space :: "smmu_dev \<Rightarrow> smmu3 \<Rightarrow> smmu3 option" where
  "wait_space dev s = (if queue_full (cmdq s) then wait_space dev (queue_sync_cons dev s) else Some s)"

partial_function (option) wait_empty :: "smmu_dev \<Rightarrow> smmu3 \<Rightarrow> smmu3 res option" where
  "wait_empty dev s =
     (if queue_empty (cmdq s) then Some (Inr s)
      else
        let s = queue_sync_cons dev s;
            (err, s) = queue_error dev s
        in if err then
             case arm_smmu_cmdq_skip_err dev s of Inl e \<Rightarrow> Some (Inl e) | Inr s \<Rightarrow> wait_empty dev s
           else wait_empty dev s)"

definition arm_smmu_cmdq_insert_cmd :: "smmu_dev \<Rightarrow> cmd \<Rightarrow> smmu3 \<Rightarrow> smmu3 res option" where
  "arm_smmu_cmdq_insert_cmd dev c s =
     (case wait_space dev s of
        None \<Rightarrow> None
      | Some s \<Rightarrow> wait_empty dev (queue_inc_prod (write_cmd (queue_entry (cmdq s) (q_prod (cmdq s))) c s)))"

definition locked_insert :: "smmu_dev \<Rightarrow> cmd \<Rightarrow> smmu3 \<Rightarrow> smmu3 res option" where
  "locked_insert dev c s =
     (case spin_lock (cmdq_lock s) of
        Inl e \<Rightarrow> Some (Inl e)
      | Inr l \<Rightarrow> bind_opt (arm_smmu_cmdq_insert_cmd dev c (s\<lparr>cmdq_lock := l\<rparr>)) (\<lambda>s.
          Some (Inr (s\<lparr>cmdq_lock := spin_unlock (cmdq_lock s)\<rparr>))))"

definition arm_smmu_cmdq_issue_cmd :: "smmu_dev \<Rightarrow> arm_smmu_cmdq_ent \<Rightarrow> smmu3 \<Rightarrow> smmu3 res option" where
  "arm_smmu_cmdq_issue_cmd dev ent s =
     bind_opt (Some (arm_smmu_cmdq_build_cmd ent)) (\<lambda>c. locked_insert dev c s)"

definition arm_smmu_cmdq_issue_sync :: "smmu_dev \<Rightarrow> smmu3 \<Rightarrow> smmu3 res option" where
  "arm_smmu_cmdq_issue_sync dev s =
     bind_opt (Some (arm_smmu_cmdq_build_cmd (zero_ent\<lparr>opcode := CMDQ_OP_CMD_SYNC\<rparr>))) (\<lambda>c. locked_insert dev c s)"

subsection \<open>The stream table\<close>

definition l1_desc_word :: "arm_smmu_strtab_l1_desc \<Rightarrow> u64" where
  "l1_desc_word desc = FIELD_PREP STRTAB_L1_DESC_SPAN (ucast (span desc)) OR (l2ptr_dma desc AND STRTAB_L1_DESC_L2PTR_MASK)"

definition arm_smmu_write_strtab_l1_desc :: "u64 \<Rightarrow> arm_smmu_strtab_l1_desc \<Rightarrow> smmu3 \<Rightarrow> smmu3" where
  "arm_smmu_write_strtab_l1_desc dst desc s = s\<lparr>mem3 := (mem3 s)(dst := l1_desc_word desc)\<rparr>"

definition arm_smmu_sync_ste_for_sid :: "smmu_dev \<Rightarrow> u32 \<Rightarrow> smmu3 \<Rightarrow> smmu3 res option" where
  "arm_smmu_sync_ste_for_sid dev sid s =
     bind_opt (arm_smmu_cmdq_issue_cmd dev (zero_ent\<lparr>opcode := CMDQ_OP_CFGI_STE, cfgi_sid := sid, cfgi_leaf := True\<rparr>) s)
       (arm_smmu_cmdq_issue_sync dev)"

text \<open>The memory writes of a bypass entry.\<close>

definition write_bypass_ent :: "u32 \<Rightarrow> u64 \<Rightarrow> (u64 \<Rightarrow> u64) \<Rightarrow> u64 \<Rightarrow> u64" where
  "write_bypass_ent vmid dst m =
     m(dst + 8 := FIELD_PREP STRTAB_STE_1_SHCFG STRTAB_STE_1_SHCFG_INCOMING,
       dst + 16 := FIELD_PREP STRTAB_STE_2_S2VMID (ucast vmid),
       dst := STRTAB_STE_0_V OR FIELD_PREP STRTAB_STE_0_CFG STRTAB_STE_0_CFG_BYPASS)"

definition ste_2 :: "u32 \<Rightarrow> u64" where
  "ste_2 vmid = FIELD_PREP STRTAB_STE_2_S2VMID (ucast vmid) OR FIELD_PREP STRTAB_STE_2_VTCR VTCR_CELL OR
     STRTAB_STE_2_S2PTW OR STRTAB_STE_2_S2AA64 OR STRTAB_STE_2_S2R"

definition ste_0 :: u64 where
  "ste_0 = FIELD_PREP STRTAB_STE_0_CFG STRTAB_STE_0_CFG_S2_TRANS OR STRTAB_STE_0_V"

text \<open>\<open>smmu\<close>: the pointer to the device is not null.\<close>

definition arm_smmu_write_strtab_ent ::
    "smmu_dev \<Rightarrow> bool \<Rightarrow> u32 \<Rightarrow> u64 \<Rightarrow> bool \<Rightarrow> u32 \<Rightarrow> paddr_t \<Rightarrow> smmu3 \<Rightarrow> smmu3 res option" where
  "arm_smmu_write_strtab_ent dev smmu sid dst bypass vmid root_pt s =
     (if bypass then
        let s = s\<lparr>mem3 := write_bypass_ent vmid dst (mem3 s)\<rparr>
        in if smmu then arm_smmu_sync_ste_for_sid dev sid s else Some (Inr s)
      else
        let s = s\<lparr>mem3 := (mem3 s)(dst + 16 := ste_2 vmid)\<rparr>;
            s = s\<lparr>mem3 := (mem3 s)(dst + 24 := root_pt AND STRTAB_STE_3_S2TTB_MASK)\<rparr>
        in bind_opt (arm_smmu_sync_ste_for_sid dev sid s) (\<lambda>s.
             arm_smmu_sync_ste_for_sid dev sid (s\<lparr>mem3 := (mem3 s)(dst := ste_0)\<rparr>)))"

text \<open>
  The entries of a new table are written without a device (\<open>smmu\<close> is null), i.e. only in memory.
  \<open>CURRENT_VM\<close> is \<open>cpu()->vcpu->vm\<close>: the VM's identifier and its root table, or \<open>None\<close> while the
  processor has no vCPU yet and \<open>vcpu\<close> is a null pointer.
\<close>

type_synonym current_vm = "(u32 \<times> paddr_t) option"

definition arm_smmu_init_bypass_stes :: "current_vm \<Rightarrow> u64 \<Rightarrow> nat \<Rightarrow> (u64 \<Rightarrow> u64) \<Rightarrow> (u64 \<Rightarrow> u64) res" where
  "arm_smmu_init_bypass_stes cur tab nent m =
     fold_res (\<lambda>n m. case cur of None \<Rightarrow> Inl Bad_Access
       | Some (vmid, root) \<Rightarrow> Inr (write_bypass_ent vmid (tab + 64 * word_of_nat n) m)) [0..<nent] m"

text \<open>
  The functions that build the tables return 0 or \<open>-ENOMEM\<close>; the latter when the address of the
  pages is 0, which is what \<open>mem_alloc_page\<close> returns for 0 pages.
\<close>

abbreviation ENOMEM :: int where "ENOMEM \<equiv> 12"

definition bind_ret :: "(int \<times> smmu3) res option \<Rightarrow> (smmu3 \<Rightarrow> (int \<times> smmu3) res option) \<Rightarrow> (int \<times> smmu3) res option" where
  "bind_ret r f = bind_opt r (\<lambda>(ret, s). if ret \<noteq> 0 then Some (Inr (ret, s)) else f s)"

definition alloc3 :: "u64 \<Rightarrow> bool \<Rightarrow> smmu3 \<Rightarrow> (u64 \<times> smmu3) res option" where
  "alloc3 n aligned s =
     bind_opt (mem_alloc_page (pool3 s) (unat n) aligned) (\<lambda>(pool, base). Some (Inr (base, s\<lparr>pool3 := pool\<rparr>)))"

abbreviation upd_cfg :: "(arm_smmu_strtab_cfg \<Rightarrow> arm_smmu_strtab_cfg) \<Rightarrow> smmu3 \<Rightarrow> smmu3" where
  "upd_cfg f s \<equiv> s\<lparr>strtab_cfg := f (strtab_cfg s)\<rparr>"

definition arm_smmu_init_strtab_linear :: "current_vm \<Rightarrow> smmu3 \<Rightarrow> (int \<times> smmu3) res option" where
  "arm_smmu_init_strtab_linear cur s =
     (let sz = lsl (1 :: u32) (sid_bits s) * 64;
          ents = unat (lsl (1 :: u32) (sid_bits s))
      in bind_opt (alloc3 (NUM_PAGES (ucast sz)) True s) (\<lambda>(tab, s).
         if tab = 0 then Some (Inr (- ENOMEM, s))
         else
           let reg = FIELD_PREP STRTAB_BASE_CFG_FMT STRTAB_BASE_CFG_FMT_LINEAR OR
                 FIELD_PREP STRTAB_BASE_CFG_LOG2SIZE (word_of_nat (sid_bits s));
               s = upd_cfg (\<lambda>c. c\<lparr>strtab := tab, strtab_dma := tab, num_l1_ents := ents, strtab_base_cfg := ucast reg\<rparr>) s
           in Some (bindr (arm_smmu_init_bypass_stes cur tab ents (mem3 s)) (\<lambda>m. Inr (0, s\<lparr>mem3 := m\<rparr>)))))"

definition zero_desc :: arm_smmu_strtab_l1_desc where
  "zero_desc = \<lparr>span = 0, l2ptr = 0, l2ptr_dma = 0, active_stes = 0\<rparr>"

text \<open>A software descriptor takes 32 bytes.\<close>

definition arm_smmu_init_l1_strtab :: "smmu3 \<Rightarrow> (int \<times> smmu3) res option" where
  "arm_smmu_init_l1_strtab s =
     (let n = num_l1_ents (strtab_cfg s)
      in bind_opt (alloc3 (NUM_PAGES (ucast (32 * word_of_nat n :: u32))) False s) (\<lambda>(p, s).
         if p = 0 then Some (Inr (- ENOMEM, s))
         else Some (Inr (0, fold (\<lambda>i s.
           arm_smmu_write_strtab_l1_desc (strtab (strtab_cfg s) + 8 * word_of_nat i) zero_desc
             (upd_cfg (\<lambda>c. c\<lparr>l1_desc := (l1_desc c)(i := zero_desc)\<rparr>) s)) [0..<n] s))))"

definition arm_smmu_init_strtab_2lvl :: "smmu3 \<Rightarrow> (int \<times> smmu3) res option" where
  "arm_smmu_init_strtab_2lvl s =
     (let sz = min (STRTAB_L1_SZ_SHIFT - 3) (sid_bits s - STRTAB_SPLIT);
          ents = 2 ^ sz;
          s = upd_cfg (\<lambda>c. c\<lparr>num_l1_ents := ents\<rparr>) s;
          sz = sz + STRTAB_SPLIT;
          s = (if sz < sid_bits s then s\<lparr>sid_bits := sz\<rparr> else s)
      in bind_opt (alloc3 (NUM_PAGES (word_of_nat (ents * 8))) True s) (\<lambda>(tab, s).
         if tab = 0 then Some (Inr (- ENOMEM, s))
         else
           let reg = (FIELD_PREP STRTAB_BASE_CFG_FMT STRTAB_BASE_CFG_FMT_2LVL OR
                 FIELD_PREP STRTAB_BASE_CFG_LOG2SIZE (word_of_nat sz)) OR
                 FIELD_PREP STRTAB_BASE_CFG_SPLIT (word_of_nat STRTAB_SPLIT)
           in arm_smmu_init_l1_strtab
                (upd_cfg (\<lambda>c. c\<lparr>strtab := tab, strtab_dma := tab, strtab_base_cfg := ucast reg\<rparr>) s)))"

abbreviation two_level :: "smmu3 \<Rightarrow> bool" where
  "two_level s \<equiv> features s AND ARM_SMMU_FEAT_2_LVL_STRTAB \<noteq> 0"

definition arm_smmu_init_strtab :: "current_vm \<Rightarrow> smmu3 \<Rightarrow> (int \<times> smmu3) res option" where
  "arm_smmu_init_strtab cur s =
     bind_ret (if two_level s then arm_smmu_init_strtab_2lvl s else arm_smmu_init_strtab_linear cur s) (\<lambda>s.
       Some (Inr (0, upd_cfg (\<lambda>c. c\<lparr>strtab_base := (strtab_dma c AND STRTAB_BASE_ADDR_MASK) OR STRTAB_BASE_RA\<rparr>) s)))"

subsection \<open>Initialisation\<close>

definition arm_smmu_init_one_queue ::
    "(arm_smmu_queue \<Rightarrow> smmu3 \<Rightarrow> smmu3) \<Rightarrow> arm_smmu_queue \<Rightarrow> nat \<Rightarrow> nat \<Rightarrow> nat \<Rightarrow> u32 \<Rightarrow> smmu3 \<Rightarrow> (int \<times> smmu3) res option" where
  "arm_smmu_init_one_queue put q prod_off cons_off dwords gmask s =
     bind_opt (alloc3 1 False s) (\<lambda>(base, s).
       if base = 0 then Some (Inr (- ENOMEM, put (q\<lparr>q_ptr := 0\<rparr>) s))
       else Some (Inr (0, put (q\<lparr>q_ptr := base, base_dma := base, prod_reg := prod_off, cons_reg := cons_off, ent_dwords := dwords,
         q_base := (Q_BASE_RWA OR (base AND Q_BASE_ADDR_MASK)) OR FIELD_PREP Q_BASE_LOG2SIZE (word_of_nat (max_n_shift q)),
         gerr_mask := gmask, q_prod := 0, q_cons := 0\<rparr>) s)))"

definition arm_smmu_init_queues :: "smmu3 \<Rightarrow> (int \<times> smmu3) res option" where
  "arm_smmu_init_queues s =
     bind_ret (arm_smmu_init_one_queue (\<lambda>q s. s\<lparr>cmdq := q\<rparr>) (cmdq s) ARM_SMMU_CMDQ_PROD ARM_SMMU_CMDQ_CONS 2 1 s) (\<lambda>s.
     bind_ret (arm_smmu_init_one_queue (\<lambda>q s. s\<lparr>evtq := q\<rparr>) (evtq s) ARM_SMMU_EVTQ_PROD ARM_SMMU_EVTQ_CONS 4 4 s) (\<lambda>s.
       Some (Inr (0, s))))"

definition arm_smmu_init_structures :: "current_vm \<Rightarrow> smmu3 \<Rightarrow> (int \<times> smmu3) res option" where
  "arm_smmu_init_structures cur s = bind_ret (arm_smmu_init_queues s) (arm_smmu_init_strtab cur)"

fun wait_ack :: "smmu_dev \<Rightarrow> u32 \<Rightarrow> nat \<Rightarrow> nat \<Rightarrow> smmu3 \<Rightarrow> smmu3 res" where
  "wait_ack dev val ack_off 0 s = Inl Error"
| "wait_ack dev val ack_off (Suc n) s =
     (let (v, s) = mmio_read32 dev ack_off s in if v = val then Inr s else wait_ack dev val ack_off n s)"

definition arm_smmu_write_reg_sync :: "smmu_dev \<Rightarrow> u32 \<Rightarrow> nat \<Rightarrow> nat \<Rightarrow> smmu3 \<Rightarrow> smmu3 res" where
  "arm_smmu_write_reg_sync dev val reg_off ack_off s =
     wait_ack dev val ack_off ARM_SMMU_SYNC_TIMEOUT (mmio_write32 reg_off val s)"

definition cr1_value :: u64 where
  "cr1_value = FIELD_PREP (BIT_MASK_LR 11 10) 3 OR FIELD_PREP (BIT_MASK_LR 9 8) 1 OR FIELD_PREP (BIT_MASK_LR 7 6) 1 OR
     FIELD_PREP (BIT_MASK_LR 5 4) 3 OR FIELD_PREP (BIT_MASK_LR 3 2) 1 OR FIELD_PREP (BIT_MASK_LR 1 0) 1"

text \<open>The three parts of the reset after \<open>CR0\<close> was cleared.\<close>

definition reset_install :: "smmu3 \<Rightarrow> smmu3" where
  "reset_install s =
     (let s = mmio_write32 ARM_SMMU_CR1 (ucast cr1_value) s;
          s = mmio_write64 ARM_SMMU_STRTAB_BASE (strtab_base (strtab_cfg s)) s;
          s = mmio_write32 ARM_SMMU_STRTAB_BASE_CFG (strtab_base_cfg (strtab_cfg s)) s;
          s = mmio_write64 ARM_SMMU_CMDQ_BASE (q_base (cmdq s)) s;
          s = mmio_write32 ARM_SMMU_CMDQ_PROD (q_prod (cmdq s)) s
      in mmio_write32 ARM_SMMU_CMDQ_CONS (q_cons (cmdq s)) s)"

definition reset_issue :: "smmu_dev \<Rightarrow> smmu3 \<Rightarrow> smmu3 res option" where
  "reset_issue dev s =
     bind_opt (arm_smmu_cmdq_issue_cmd dev (zero_ent\<lparr>opcode := CMDQ_OP_CFGI_ALL\<rparr>) s) (\<lambda>s.
     bind_opt (arm_smmu_cmdq_issue_sync dev s) (\<lambda>s.
     bind_opt (arm_smmu_cmdq_issue_cmd dev (zero_ent\<lparr>opcode := CMDQ_OP_TLBI_NSNH_ALL\<rparr>) s) (\<lambda>s.
     bind_opt (arm_smmu_cmdq_issue_cmd dev (zero_ent\<lparr>opcode := CMDQ_OP_TLBI_EL2_ALL\<rparr>) s) (\<lambda>s.
     arm_smmu_cmdq_issue_sync dev s))))"

definition reset_finish :: "smmu_dev \<Rightarrow> smmu3 \<Rightarrow> smmu3 res" where
  "reset_finish dev s =
     (let s = mmio_write64 ARM_SMMU_EVTQ_BASE (q_base (evtq s)) s;
          s = mmio_write32 ARM_SMMU_EVTQ_PROD (q_prod (evtq s)) s;
          s = mmio_write32 ARM_SMMU_EVTQ_CONS (q_cons (evtq s)) s
      in bindr (arm_smmu_write_reg_sync dev (CR0_CMDQEN OR CR0_EVTQEN) ARM_SMMU_CR0 ARM_SMMU_CR0ACK s)
           (arm_smmu_write_reg_sync dev (CR0_CMDQEN OR CR0_EVTQEN OR CR0_SMMUEN) ARM_SMMU_CR0 ARM_SMMU_CR0ACK))"

definition arm_smmu_device_reset :: "smmu_dev \<Rightarrow> smmu3 \<Rightarrow> smmu3 res option" where
  "arm_smmu_device_reset dev s =
     bind_opt (Some (arm_smmu_write_reg_sync dev 0 ARM_SMMU_CR0 ARM_SMMU_CR0ACK s)) (\<lambda>s.
     bind_opt (Some (arm_smmu_write_reg_sync dev CR0_CMDQEN ARM_SMMU_CR0 ARM_SMMU_CR0ACK (reset_install s))) (\<lambda>s.
     bind_opt (reset_issue dev s) (\<lambda>s. Some (reset_finish dev s))))"

text \<open>The identification registers do not change.\<close>

definition arm_smmu_device_init_features :: "smmu3 \<Rightarrow> smmu3 res" where
  "arm_smmu_device_init_features s =
     (let reg = mm32 s ARM_SMMU_IDR0;
          f = (if FIELD_GET IDR0_ST_LVL (ucast reg) = 1 then ARM_SMMU_FEAT_2_LVL_STRTAB else 0)
      in if reg AND IDR0_S2P = 0 then Inl Error
         else
           let f = (if reg AND 2 \<noteq> 0 then f OR 2 else f);
               f = (if reg AND lsl 1 18 \<noteq> 0 then f OR lsl 1 18 else f);
               reg = mm32 s ARM_SMMU_IDR1
           in if reg AND (lsl 1 30 OR lsl 1 29 OR lsl 1 28) \<noteq> 0 then Inl Error
              else
                let cshift = min CMDQ_MAX_SZ_SHIFT (unat (FIELD_GET IDR1_CMDQS (ucast reg)));
                    eshift = min EVTQ_MAX_SZ_SHIFT (unat (FIELD_GET IDR1_EVTQS (ucast reg)));
                    sbits = unat (FIELD_GET IDR1_SIDSIZE (ucast reg))
                in if cshift = 0 then Inl Error
                   else Inr (s\<lparr>cmdq := (cmdq s)\<lparr>max_n_shift := cshift\<rparr>, evtq := (evtq s)\<lparr>max_n_shift := eshift\<rparr>, sid_bits := sbits,
                     features := (if sbits \<le> STRTAB_SPLIT then f AND NOT ARM_SMMU_FEAT_2_LVL_STRTAB else f)\<rparr>))"

text \<open>The return value of \<open>arm_smmu_init_structures\<close> is ignored.\<close>

definition arm_smmuv3_init :: "smmu_dev \<Rightarrow> current_vm \<Rightarrow> smmu3 \<Rightarrow> smmu3 res option" where
  "arm_smmuv3_init dev cur s =
     bind_opt (Some (arm_smmu_device_init_features s)) (\<lambda>s.
     bind_opt (arm_smmu_init_structures cur s) (\<lambda>(_, s). arm_smmu_device_reset dev s))"

subsection \<open>Adding a stream to a VM\<close>

text \<open>The index into the table of descriptors is not checked.\<close>

definition l1_index :: "u32 \<Rightarrow> nat" where "l1_index sid = unat (lsr sid STRTAB_SPLIT)"

definition arm_smmu_init_l2_strtab :: "smmu_dev \<Rightarrow> current_vm \<Rightarrow> u32 \<Rightarrow> smmu3 \<Rightarrow> smmu3 res option" where
  "arm_smmu_init_l2_strtab dev cur sid s =
     (let i = l1_index sid;
          desc = l1_desc (strtab_cfg s) i
      in if num_l1_ents (strtab_cfg s) \<le> i then Some (Inl Bad_Access)
         else if l2ptr desc \<noteq> 0
         then Some (Inr (upd_cfg (\<lambda>c. c\<lparr>l1_desc := (l1_desc c)(i := desc\<lparr>active_stes := active_stes desc + 1\<rparr>)\<rparr>) s))
         else
           bind_opt (alloc3 (NUM_PAGES (2 ^ (STRTAB_SPLIT + 3 + 3))) True s) (\<lambda>(tab, s).
           if tab = 0 then Some (Inl Error)
           else let desc = desc\<lparr>span := 9, l2ptr := tab, l2ptr_dma := tab, active_stes := 1\<rparr>;
               s = upd_cfg (\<lambda>c. c\<lparr>l1_desc := (l1_desc c)(i := desc)\<rparr>) s
           in bind_opt (Some (arm_smmu_init_bypass_stes cur tab (2 ^ STRTAB_SPLIT) (mem3 s))) (\<lambda>m.
              let s = arm_smmu_write_strtab_l1_desc (strtab (strtab_cfg s) + 8 * word_of_nat i) desc (s\<lparr>mem3 := m\<rparr>)
              in arm_smmu_cmdq_issue_cmd dev (zero_ent\<lparr>opcode := CMDQ_OP_CFGI_STE, cfgi_sid := sid, cfgi_leaf := False\<rparr>) s)))"

definition arm_smmu_get_step_for_sid :: "u32 \<Rightarrow> smmu3 \<Rightarrow> u64" where
  "arm_smmu_get_step_for_sid sid s =
     (if two_level s
      then l2ptr (l1_desc (strtab_cfg s) (l1_index sid)) + 8 * (ucast (sid AND (lsl 1 STRTAB_SPLIT - 1)) * 8)
      else strtab (strtab_cfg s) + 8 * ucast (sid * 8))"

definition arm_smmu_init_ste :: "smmu_dev \<Rightarrow> current_vm \<Rightarrow> u32 \<Rightarrow> u32 \<Rightarrow> smmu3 \<Rightarrow> smmu3 res option" where
  "arm_smmu_init_ste dev cur sid vmid s =
     bind_opt (if two_level s then arm_smmu_init_l2_strtab dev cur sid s else Some (Inr s)) (\<lambda>s.
       let dst = arm_smmu_get_step_for_sid sid s
       in case cur of None \<Rightarrow> Some (Inl Bad_Access)
          | Some (_, root) \<Rightarrow> arm_smmu_write_strtab_ent dev True sid dst False vmid root s)"

definition arm_smmuv3_vm_dev_init :: "smmu_dev \<Rightarrow> current_vm \<Rightarrow> u64 \<Rightarrow> u32 \<Rightarrow> smmu3 \<Rightarrow> smmu3 res option" where
  "arm_smmuv3_vm_dev_init dev cur vmid sid s =
     bind_opt (arm_smmu_init_ste dev cur sid (ucast vmid) s)
       (arm_smmu_cmdq_issue_cmd dev (zero_ent\<lparr>opcode := CMDQ_OP_TLBI_S12_VMALL, tlbi_vmid := ucast vmid\<rparr>))"

definition iommu_arch_init_v3 :: "smmu_dev \<Rightarrow> current_vm \<Rightarrow> nat \<Rightarrow> paddr_t \<Rightarrow> smmu3 \<Rightarrow> (bool \<times> smmu3) res option" where
  "iommu_arch_init_v3 dev cur cid base s =
     (if cid = 0 \<and> base \<noteq> 0 then bind_opt (arm_smmuv3_init dev cur s) (\<lambda>s. Some (Inr (True, s)))
      else Some (Inr (False, s)))"

definition iommu_arch_vm_add_device_v3 :: "smmu_dev \<Rightarrow> current_vm \<Rightarrow> u64 \<Rightarrow> u32 \<Rightarrow> smmu3 \<Rightarrow> (bool \<times> smmu3) res option" where
  "iommu_arch_vm_add_device_v3 dev cur vmid i s =
     bind_opt (arm_smmuv3_vm_dev_init dev cur vmid i s) (\<lambda>s. Some (Inr (True, s)))"

fun iommu_arch_vm_init_v3 :: "smmu_dev \<Rightarrow> current_vm \<Rightarrow> u64 \<Rightarrow> u32 list \<Rightarrow> smmu3 \<Rightarrow> (bool \<times> smmu3) res option" where
  "iommu_arch_vm_init_v3 dev cur vmid [] s = Some (Inr (True, s))"
| "iommu_arch_vm_init_v3 dev cur vmid (i # sids) s =
     bind_opt (arm_smmuv3_vm_dev_init dev cur vmid i s) (iommu_arch_vm_init_v3 dev cur vmid sids)"

subsection \<open>Fields and queue arithmetic\<close>

lemma bit_BIT_MASK_LR:
  assumes "f \<le> l" "l < 64"
  shows "bit (BIT_MASK_LR l f) i \<longleftrightarrow> f \<le> i \<and> i \<le> l"
  using assms by (auto simp: BIT_MASK_LR_def lsl_eq lsr_eq bit_push_bit_iff bit_drop_bit_eq)

lemma ffs_BIT_MASK_LR:
  assumes "f \<le> l" "l < 64"
  shows "bit_ffs (BIT_MASK_LR l f) = f"
proof (rule antisym)
  have f: "bit (BIT_MASK_LR l f) f" using assms by (simp add: bit_BIT_MASK_LR)
  then have nz: "BIT_MASK_LR l f \<noteq> 0" by auto
  show "bit_ffs (BIT_MASK_LR l f) \<le> f" using bit_ffs_Some(2)[OF nz f] .
  show "f \<le> bit_ffs (BIT_MASK_LR l f)" using bit_ffs_Some(1)[OF nz] assms by (simp add: bit_BIT_MASK_LR)
qed

lemma bit_FIELD_PREP:
  assumes "f \<le> l" "l < 64"
  shows "bit (FIELD_PREP (BIT_MASK_LR l f) v) i \<longleftrightarrow> f \<le> i \<and> i \<le> l \<and> bit v (i - f)"
  using assms
  by (auto simp: FIELD_PREP_def ffs_BIT_MASK_LR lsl_eq bit_and_iff bit_push_bit_iff bit_BIT_MASK_LR)

lemma bit_FIELD_GET:
  assumes "f \<le> l" "l < 64"
  shows "bit (FIELD_GET (BIT_MASK_LR l f) r) i \<longleftrightarrow> i \<le> l - f \<and> bit r (f + i)"
  using assms
  by (auto simp: FIELD_GET_def ffs_BIT_MASK_LR lsr_eq bit_and_iff bit_drop_bit_eq bit_BIT_MASK_LR)

lemma FIELD_GET_PREP:
  assumes "f \<le> l" "l < 64"
  shows "FIELD_GET (BIT_MASK_LR l f) (FIELD_PREP (BIT_MASK_LR l f) v) = take_bit (l + 1 - f) v"
  using assms by (intro bit_word_eqI) (auto simp: bit_FIELD_GET bit_FIELD_PREP bit_take_bit_iff)

text \<open>A field of a word that is put together from several ones.\<close>

lemma FIELD_GET_OR:
  assumes "f \<le> l" "l < 64"
  shows "FIELD_GET (BIT_MASK_LR l f) (v OR w) = FIELD_GET (BIT_MASK_LR l f) v OR FIELD_GET (BIT_MASK_LR l f) w"
  using assms by (intro bit_word_eqI) (auto simp: bit_FIELD_GET bit_or_iff)

lemma FIELD_GET_other:
  assumes "f \<le> l" "l < 64" "g \<le> k" "k < 64" "l < g \<or> k < f"
  shows "FIELD_GET (BIT_MASK_LR l f) (FIELD_PREP (BIT_MASK_LR k g) v) = 0"
  using assms by (intro bit_word_eqI) (auto simp: bit_FIELD_GET bit_FIELD_PREP)

lemma BIT_MASK_LR_0: "BIT_MASK_LR 0 0 = 1"
  by (intro bit_word_eqI) (auto simp: bit_BIT_MASK_LR bit_1_iff)

definition q_count :: "u32 \<Rightarrow> u32 \<Rightarrow> nat \<Rightarrow> nat" where
  "q_count p c shift = unat (take_bit (Suc shift) (p - c))"

lemma Q_IDX_eq: "shift < 32 \<Longrightarrow> Q_IDX p shift = take_bit shift p"
  by (simp add: Q_IDX_def lsl_eq push_bit_of_1 take_bit_eq_mask mask_eq_exp_minus_1)

lemma bit_Q_WRP: "shift < 32 \<Longrightarrow> bit (Q_WRP p shift) i \<longleftrightarrow> i = shift \<and> bit p shift"
  by (auto simp: Q_WRP_def bit_and_iff bit_lsl_one)

lemma wrp_idx: "shift < 32 \<Longrightarrow> Q_WRP p shift OR Q_IDX p shift = take_bit (Suc shift) p"
  by (intro bit_word_eqI) (auto simp: bit_or_iff bit_Q_WRP Q_IDX_eq bit_take_bit_iff less_Suc_eq)

lemma Q_EMPTY_eq:
  assumes "shift < 32"
  shows "Q_EMPTY p c shift \<longleftrightarrow> take_bit (Suc shift) p = take_bit (Suc shift) c"
proof -
  have "Q_IDX (take_bit (Suc shift) p) shift = Q_IDX p shift" "Q_WRP (take_bit (Suc shift) p) shift = Q_WRP p shift" for p
    using assms by (auto intro!: bit_word_eqI simp: Q_IDX_eq bit_take_bit_iff bit_Q_WRP)
  then show ?thesis unfolding Q_EMPTY_def wrp_idx[OF assms, symmetric] by metis
qed

lemma next_prod_eq:
  assumes "shift < 31" "take_bit (Suc shift) p = p"
  shows "next_prod p shift = take_bit (Suc shift) (p + 1)"
proof -
  have "\<not> bit p 31" using assms by (metis bit_take_bit_iff Suc_less_eq less_irrefl less_trans_Suc not_less_eq)
  then have "Q_OVF p = 0" by (intro bit_word_eqI) (auto simp: Q_OVF_def bit_and_iff bit_lsl_one)
  then show ?thesis using assms wrp_idx[of shift] by (simp add: next_prod_def Let_def)
qed

lemma mod_double:
  fixes a b m :: int
  assumes "0 < m"
  shows "a mod m = b mod m \<longleftrightarrow> (a - b) mod (2 * m) = 0 \<or> (a - b) mod (2 * m) = m"
proof -
  define r where "r = (a - b) mod (2 * m)"
  have r: "0 \<le> r" "r < 2 * m" "(a - b) mod m = r mod m"
    using assms by (simp_all add: r_def mod_mod_cancel)
  have "r mod m = 0 \<longleftrightarrow> r = 0 \<or> r = m"
  proof (cases "r < m")
    case True
    then show ?thesis using r(1) by (simp add: mod_pos_pos_trivial)
  next
    case False
    then have "r mod m = r - m" using r(2) mod_pos_pos_trivial[of "r - m" m] by simp
    then show ?thesis using False assms by simp
  qed
  moreover have "a mod m = b mod m \<longleftrightarrow> (a - b) mod m = 0" by (simp add: mod_eq_dvd_iff dvd_eq_mod_eq_0)
  ultimately show ?thesis unfolding r(3) r_def[symmetric] by simp
qed

lemma uint_take_bit: "uint (take_bit n (w :: u32)) = uint w mod 2 ^ n"
  by (subst unsigned_take_bit_eq) (rule take_bit_eq_mod)

lemma uint_q_count:
  assumes "shift < 32"
  shows "int (q_count p c shift) = (uint p - uint c) mod 2 ^ Suc shift"
proof -
  have "(2 :: int) ^ Suc shift dvd 2 ^ 32" using assms by (intro le_imp_power_dvd) simp
  then have "(uint p - uint c) mod 2 ^ 32 mod 2 ^ Suc shift = (uint p - uint c) mod 2 ^ Suc shift"
    by (rule mod_mod_cancel)
  then show ?thesis
    by (simp add: q_count_def uint_take_bit uint_word_ariths flip: uint_nat del: power_Suc)
qed

lemma take_bit_eq_iff_uint:
  "take_bit shift p = take_bit shift (c :: u32) \<longleftrightarrow> uint p mod 2 ^ shift = uint c mod 2 ^ shift"
  by (simp add: word_uint_eq_iff uint_take_bit)

lemma q_empty_count: "shift < 32 \<Longrightarrow> Q_EMPTY p c shift \<longleftrightarrow> q_count p c shift = 0"
  unfolding Q_EMPTY_eq using uint_q_count[of shift p c] take_bit_eq_iff_uint[of "Suc shift" p c]
  by (simp add: mod_eq_dvd_iff dvd_eq_mod_eq_0 flip: of_nat_eq_0_iff[where ?'a = int] del: power_Suc)

lemma q_full_count:
  assumes "shift < 32"
  shows "Q_FULL p c shift \<longleftrightarrow> q_count p c shift = 2 ^ shift"
proof -
  have i: "Q_IDX p shift = Q_IDX c shift \<longleftrightarrow> int (q_count p c shift) = 0 \<or> int (q_count p c shift) = 2 ^ shift"
    using mod_double[of "2 ^ shift" "uint p" "uint c"] take_bit_eq_iff_uint[of shift p c] uint_q_count[OF assms, of p c] assms
    by (simp add: Q_IDX_eq)
  have "Q_FULL p c shift \<longleftrightarrow> Q_IDX p shift = Q_IDX c shift \<and> \<not> Q_EMPTY p c shift"
    by (auto simp: Q_FULL_def Q_EMPTY_def)
  also have "\<dots> \<longleftrightarrow> q_count p c shift = 2 ^ shift"
    unfolding i q_empty_count[OF assms] by auto
  finally show ?thesis .
qed

lemma q_count_next:
  assumes "shift < 31" "take_bit (Suc shift) p = p" "q_count p c shift < 2 ^ shift"
  shows "q_count (next_prod p shift) c shift = q_count p c shift + 1"
proof -
  have sh: "shift < 32" using assms(1) by simp
  have u: "uint (next_prod p shift) = (uint p + 1) mod 2 ^ Suc shift"
  proof -
    have "(2 :: int) ^ Suc shift dvd 2 ^ 32" using assms by (intro le_imp_power_dvd) simp
    then have "(uint p + 1) mod 2 ^ 32 mod 2 ^ Suc shift = (uint p + 1) mod 2 ^ Suc shift" by (rule mod_mod_cancel)
    then show ?thesis
      by (simp add: next_prod_eq[OF assms(1,2)] uint_take_bit uint_word_ariths del: power_Suc)
  qed
  have "int (q_count (next_prod p shift) c shift) = (int (q_count p c shift) + 1) mod 2 ^ Suc shift"
  proof -
    let ?M = "2 ^ Suc shift :: int"
    have "((uint p + 1) mod ?M - uint c) mod ?M = (uint p + 1 - uint c) mod ?M" by (rule mod_diff_left_eq)
    also have "\<dots> = ((uint p - uint c) + 1) mod ?M" by (rule arg_cong[where f = "\<lambda>x. x mod ?M"]) simp
    also have "\<dots> = ((uint p - uint c) mod ?M + 1) mod ?M" by (rule mod_add_left_eq[symmetric])
    finally show ?thesis unfolding uint_q_count[OF sh] u .
  qed
  moreover have "int (q_count p c shift) + 1 < 2 ^ Suc shift"
  proof -
    have "q_count p c shift + 1 < 2 ^ Suc shift" using assms(3) by simp
    then have "int (q_count p c shift + 1) < int (2 ^ Suc shift)" by (simp only: of_nat_less_iff)
    then show ?thesis by (simp del: power_Suc)
  qed
  ultimately have "int (q_count (next_prod p shift) c shift) = int (q_count p c shift) + 1"
    by (simp del: power_Suc add: mod_pos_pos_trivial)
  then show ?thesis by simp
qed

subsection \<open>What the driver relies on\<close>

text \<open>
  The SMMU's side of the command queue: its size and place come from \<open>CMDQ_BASE\<close>, and
  \<open>pending\<close> commands wait between the two registers. \<open>consumed j s\<close>: the SMMU has executed the next
  \<open>j\<close> of them and acknowledged \<open>CR0\<close>.
\<close>

definition hw_shift :: "smmu3 \<Rightarrow> nat" where
  "hw_shift s = unat (FIELD_GET Q_BASE_LOG2SIZE (mm64 s ARM_SMMU_CMDQ_BASE))"

definition hw_cmd :: "smmu3 \<Rightarrow> u32 \<Rightarrow> cmd" where
  "hw_cmd s k =
     (let a = (mm64 s ARM_SMMU_CMDQ_BASE AND Q_BASE_ADDR_MASK) + 16 * ucast (take_bit (hw_shift s) k)
      in (mem3 s a, mem3 s (a + 8)))"

definition pending :: "smmu3 \<Rightarrow> nat" where
  "pending s = q_count (mm32 s ARM_SMMU_CMDQ_PROD) (mm32 s ARM_SMMU_CMDQ_CONS) (hw_shift s)"

definition consumed :: "nat \<Rightarrow> smmu3 \<Rightarrow> smmu3" where
  "consumed j s =
     s\<lparr>mm32 := (mm32 s)(ARM_SMMU_CMDQ_CONS := (if j = 0 then mm32 s ARM_SMMU_CMDQ_CONS
           else take_bit (Suc (hw_shift s)) (mm32 s ARM_SMMU_CMDQ_CONS + word_of_nat j)),
         ARM_SMMU_CR0ACK := mm32 s ARM_SMMU_CR0),
       sm_log := sm_log s @ map (\<lambda>i. hw_cmd s (mm32 s ARM_SMMU_CMDQ_CONS + word_of_nat i)) [0..<j]\<rparr>"

text \<open>
  The documented behaviour: between two reads the SMMU executes some of the pending commands in
  order, at least one if the queue is enabled, and none if it is not; it changes nothing
  else that the driver reads, and reports no error on the commands of this driver.
\<close>

definition smmu_device :: "smmu_dev \<Rightarrow> bool" where
  "smmu_device dev \<longleftrightarrow> (\<forall>s. \<exists>j \<le> pending s. dev s = consumed j s \<and>
     (mm32 s ARM_SMMU_CR0 AND CR0_CMDQEN \<noteq> 0 \<longrightarrow> 0 < pending s \<longrightarrow> 0 < j) \<and>
     (mm32 s ARM_SMMU_CR0 AND CR0_CMDQEN = 0 \<longrightarrow> j = 0))"

text \<open>
  The part of the contract that the reset needs: progress only while the SMMU is not enabled. What it
  does with pending commands once \<open>SMMUEN\<close> is set is left open; it may leave them alone for ever.
\<close>

definition smmu_device_off :: "smmu_dev \<Rightarrow> bool" where
  "smmu_device_off dev \<longleftrightarrow> (\<forall>s. \<exists>j \<le> pending s. dev s = consumed j s \<and>
     (mm32 s ARM_SMMU_CR0 AND CR0_CMDQEN \<noteq> 0 \<and> mm32 s ARM_SMMU_CR0 AND CR0_SMMUEN = 0 \<longrightarrow> 0 < pending s \<longrightarrow> 0 < j) \<and>
     (mm32 s ARM_SMMU_CR0 AND CR0_CMDQEN = 0 \<longrightarrow> j = 0))"

text \<open>In the state \<open>s\<close> the SMMU makes progress.\<close>

definition serves :: "smmu_dev \<Rightarrow> smmu3 \<Rightarrow> bool" where
  "serves dev s \<longleftrightarrow> smmu_device_off dev \<and> (smmu_device dev \<or> mm32 s ARM_SMMU_CR0 AND CR0_SMMUEN = 0)"

lemma smmu_device_serves [intro]:
  assumes "smmu_device dev"
  shows "serves dev s"
proof -
  have "smmu_device_off dev" using assms unfolding smmu_device_def smmu_device_off_def by metis
  then show ?thesis using assms by (simp add: serves_def)
qed

lemma serves_off: "serves dev s \<Longrightarrow> smmu_device_off dev"
  by (simp add: serves_def)

lemma serves_cong: "mm32 s' ARM_SMMU_CR0 = mm32 s ARM_SMMU_CR0 \<Longrightarrow> serves dev s' = serves dev s"
  by (simp add: serves_def)

definition one_by_one :: smmu_dev where
  "one_by_one s = consumed (if mm32 s ARM_SMMU_CR0 AND CR0_CMDQEN \<noteq> 0 \<and> 0 < pending s then 1 else 0) s"

lemma one_by_one_device: "smmu_device one_by_one"
  unfolding smmu_device_def
proof
  fix s show "\<exists>j \<le> pending s. one_by_one s = consumed j s \<and>
     (mm32 s ARM_SMMU_CR0 AND CR0_CMDQEN \<noteq> 0 \<longrightarrow> 0 < pending s \<longrightarrow> 0 < j) \<and>
     (mm32 s ARM_SMMU_CR0 AND CR0_CMDQEN = 0 \<longrightarrow> j = 0)"
    by (intro exI[of _ "if mm32 s ARM_SMMU_CR0 AND CR0_CMDQEN \<noteq> 0 \<and> 0 < pending s then 1 else 0"])
      (simp add: one_by_one_def Suc_le_eq)
qed

text \<open>An SMMU that executes commands only while it is not enabled.\<close>

definition while_off :: smmu_dev where
  "while_off s = (if mm32 s ARM_SMMU_CR0 AND CR0_SMMUEN = 0 then one_by_one s else consumed 0 s)"

lemma while_off_device: "smmu_device_off while_off"
  unfolding smmu_device_off_def
proof
  fix s
  obtain j where "j \<le> pending s" "one_by_one s = consumed j s"
    "mm32 s ARM_SMMU_CR0 AND CR0_CMDQEN \<noteq> 0 \<longrightarrow> 0 < pending s \<longrightarrow> 0 < j" "mm32 s ARM_SMMU_CR0 AND CR0_CMDQEN = 0 \<longrightarrow> j = 0"
    using one_by_one_device unfolding smmu_device_def by metis
  then show "\<exists>j \<le> pending s. while_off s = consumed j s \<and>
     (mm32 s ARM_SMMU_CR0 AND CR0_CMDQEN \<noteq> 0 \<and> mm32 s ARM_SMMU_CR0 AND CR0_SMMUEN = 0 \<longrightarrow> 0 < pending s \<longrightarrow> 0 < j) \<and>
     (mm32 s ARM_SMMU_CR0 AND CR0_CMDQEN = 0 \<longrightarrow> j = 0)"
    by (cases "mm32 s ARM_SMMU_CR0 AND CR0_SMMUEN = 0")
      (auto simp: while_off_def intro: exI[of _ j] exI[of _ "0 :: nat"])
qed

text \<open>The command queue between two commands.\<close>

definition cmdq_ok :: "smmu3 \<Rightarrow> bool" where
  "cmdq_ok s \<longleftrightarrow> (let q = cmdq s in
     0 < max_n_shift q \<and> max_n_shift q \<le> CMDQ_MAX_SZ_SHIFT \<and> hw_shift s = max_n_shift q \<and>
     mm64 s ARM_SMMU_CMDQ_BASE AND Q_BASE_ADDR_MASK = q_ptr q \<and> ent_dwords q = 2 \<and>
     prod_reg q = ARM_SMMU_CMDQ_PROD \<and> cons_reg q = ARM_SMMU_CMDQ_CONS \<and> gerr_mask q = 1 \<and>
     mm32 s ARM_SMMU_CMDQ_PROD = q_prod q \<and> mm32 s ARM_SMMU_CMDQ_CONS = q_prod q \<and> q_cons q = q_prod q \<and>
     take_bit (Suc (max_n_shift q)) (q_prod q) = q_prod q) \<and>
     ticket (cmdq_lock s) = next_tk (cmdq_lock s) \<and> mm32 s ARM_SMMU_CR0 AND CR0_CMDQEN \<noteq> 0 \<and>
     (mm32 s ARM_SMMU_GERROR XOR mm32 s ARM_SMMU_GERRORN) AND 1 = 0"

definition in_queue :: "smmu3 \<Rightarrow> u64 \<Rightarrow> bool" where
  "in_queue s a \<longleftrightarrow> a - q_ptr (cmdq s) < 4096"

definition issued :: "cmd list \<Rightarrow> smmu3 \<Rightarrow> smmu3 \<Rightarrow> bool" where
  "issued cs s s' \<longleftrightarrow> cmdq_ok s' \<and> sm_log s' = sm_log s @ cs \<and> q_ptr (cmdq s') = q_ptr (cmdq s) \<and>
     strtab_cfg s' = strtab_cfg s \<and> features s' = features s \<and> pool3 s' = pool3 s \<and> evtq s' = evtq s \<and>
     mm64 s' = mm64 s \<and> (\<forall>r. r \<notin> {ARM_SMMU_CMDQ_PROD, ARM_SMMU_CMDQ_CONS, ARM_SMMU_CR0ACK} \<longrightarrow> mm32 s' r = mm32 s r) \<and>
     (\<forall>a. \<not> in_queue s a \<longrightarrow> mem3 s' a = mem3 s a)"

lemma issued_trans: "issued cs s s' \<Longrightarrow> issued ds s' s'' \<Longrightarrow> issued (cs @ ds) s s''"
  unfolding issued_def in_queue_def by simp

subsection \<open>One command\<close>

lemma consumed_sel [simp]:
  "cmdq (consumed j s) = cmdq s" "cmdq_lock (consumed j s) = cmdq_lock s" "evtq (consumed j s) = evtq s"
  "mem3 (consumed j s) = mem3 s" "mm64 (consumed j s) = mm64 s" "pool3 (consumed j s) = pool3 s"
  "features (consumed j s) = features s" "strtab_cfg (consumed j s) = strtab_cfg s" "sid_bits (consumed j s) = sid_bits s"
  "hw_shift (consumed j s) = hw_shift s"
  "r \<noteq> ARM_SMMU_CMDQ_CONS \<Longrightarrow> r \<noteq> ARM_SMMU_CR0ACK \<Longrightarrow> mm32 (consumed j s) r = mm32 s r"
  "mm32 (consumed 0 s) ARM_SMMU_CMDQ_CONS = mm32 s ARM_SMMU_CMDQ_CONS" "sm_log (consumed 0 s) = sm_log s"
  by (simp_all add: consumed_def hw_shift_def)

lemma hw_shift_upd [simp]:
  "hw_shift (s\<lparr>cmdq := q\<rparr>) = hw_shift s" "hw_shift (s\<lparr>cmdq_lock := l\<rparr>) = hw_shift s" "hw_shift (s\<lparr>mem3 := m\<rparr>) = hw_shift s"
  "hw_shift (s\<lparr>mm32 := r\<rparr>) = hw_shift s" "hw_shift (s\<lparr>sm_log := lg\<rparr>) = hw_shift s"
  by (simp_all add: hw_shift_def)

lemma smmu_device_idle:
  assumes "smmu_device_off dev" "pending s = 0"
  shows "dev s = consumed 0 s"
  using assms unfolding smmu_device_off_def by (metis le_zero_eq)

lemma smmu_device_one:
  assumes "serves dev s" "pending s = 1" "mm32 s ARM_SMMU_CR0 AND CR0_CMDQEN \<noteq> 0"
  shows "dev s = consumed (Suc 0) s"
proof -
  obtain j where "j \<le> pending s" "dev s = consumed j s" "0 < j"
    using assms unfolding serves_def smmu_device_def smmu_device_off_def by (metis zero_less_one)
  with assms(2) show ?thesis by (simp add: le_Suc_eq)
qed

lemma queue_error_idle:
  assumes "smmu_device_off dev" "pending s = 0" "(mm32 s ARM_SMMU_GERROR XOR mm32 s ARM_SMMU_GERRORN) AND gerr_mask (cmdq s) = 0"
  shows "queue_error dev s = (False, consumed 0 (consumed 0 s))"
proof -
  have "pending (consumed 0 s) = 0" using assms(2) by (simp add: pending_def)
  with assms show ?thesis
    by (simp add: queue_error_def mmio_read32_def smmu_device_idle Let_def)
qed

lemma wait_empty_one:
  assumes dev: "serves dev s" and pend: "pending s = 1" and en: "mm32 s ARM_SMMU_CR0 AND CR0_CMDQEN \<noteq> 0"
    and q: "max_n_shift (cmdq s) < 31" "hw_shift s = max_n_shift (cmdq s)" "cons_reg (cmdq s) = ARM_SMMU_CMDQ_CONS"
      "q_prod (cmdq s) = mm32 s ARM_SMMU_CMDQ_PROD" "q_cons (cmdq s) = mm32 s ARM_SMMU_CMDQ_CONS"
      "mm32 s ARM_SMMU_CMDQ_PROD = take_bit (Suc (hw_shift s)) (mm32 s ARM_SMMU_CMDQ_CONS + 1)"
    and err: "(mm32 s ARM_SMMU_GERROR XOR mm32 s ARM_SMMU_GERRORN) AND gerr_mask (cmdq s) = 0"
  shows "wait_empty dev s = Some (Inr (consumed 0 (consumed 0
    ((consumed (Suc 0) s)\<lparr>cmdq := (cmdq s)\<lparr>q_cons := mm32 s ARM_SMMU_CMDQ_PROD\<rparr>\<rparr>))))"
proof -
  let ?s1 = "(consumed (Suc 0) s)\<lparr>cmdq := (cmdq s)\<lparr>q_cons := mm32 s ARM_SMMU_CMDQ_PROD\<rparr>\<rparr>"
  have ne: "\<not> queue_empty (cmdq s)"
    using q pend by (simp add: queue_empty_def q_empty_count pending_def)
  have c: "mm32 (consumed (Suc 0) s) ARM_SMMU_CMDQ_CONS = mm32 s ARM_SMMU_CMDQ_PROD"
    using q(6) by (simp add: consumed_def)
  have sc: "queue_sync_cons dev s = ?s1"
    by (simp add: queue_sync_cons_def mmio_read32_def smmu_device_one[OF dev pend en] q(3) c Let_def)
  have p0: "pending ?s1 = 0" using c by (simp add: pending_def q_count_def hw_shift_def)
  have e: "queue_error dev ?s1 = (False, consumed 0 (consumed 0 ?s1))"
    by (rule queue_error_idle[OF serves_off[OF dev] p0]) (simp add: err)
  have "queue_empty (cmdq (consumed 0 (consumed 0 ?s1)))"
    using q by (simp add: queue_empty_def Q_EMPTY_def)
  then have "wait_empty dev (consumed 0 (consumed 0 ?s1)) = Some (Inr (consumed 0 (consumed 0 ?s1)))"
    by (subst wait_empty.simps) simp
  then show ?thesis by (subst wait_empty.simps) (simp add: ne sc e Let_def)
qed

lemma queue_write_two: "ent_dwords (cmdq s) = 2 \<Longrightarrow>
  write_cmd dst c s = s\<lparr>mem3 := (mem3 s)(dst := fst c, dst + 8 := snd c)\<rparr>"
  by (simp add: write_cmd_def numeral_2_eq_2)

lemma entry_in_queue:
  fixes p :: u32
  assumes "sh \<le> 8"
  shows "(16 :: u64) * ucast (take_bit sh p) < 4096" "(16 :: u64) * ucast (take_bit sh p) + 8 < 4096"
proof -
  have "unat (take_bit sh p) < 2 ^ sh" by (simp add: unsigned_take_bit_eq)
  also have "(2 :: nat) ^ sh \<le> 2 ^ 8" using assms by (rule power_increasing) simp
  finally have "unat (ucast (take_bit sh p) :: u64) < 256"
    using assms by (simp add: unsigned_ucast_eq unsigned_take_bit_eq take_bit_take_bit min_absorb1)
  then show "(16 :: u64) * ucast (take_bit sh p) < 4096" "(16 :: u64) * ucast (take_bit sh p) + 8 < 4096"
    by (simp_all add: word_less_nat_alt unat_word_ariths)
qed

lemma locked_insert_issued:
  assumes dev: "serves dev s" and ok: "cmdq_ok s"
  shows "\<exists>s'. locked_insert dev c s = Some (Inr s') \<and> issued [c] s s'"
proof -
  obtain l where l: "spin_lock (cmdq_lock s) = Inr l" "ticket (spin_unlock l) = next_tk (spin_unlock l)"
    using ok spin_lock_free spin_lock_unlock unfolding cmdq_ok_def by blast
  let ?q = "cmdq s" and ?sh = "max_n_shift (cmdq s)" and ?p = "q_prod (cmdq s)"
  have q: "0 < ?sh" "?sh \<le> 8" "hw_shift s = ?sh" "mm64 s ARM_SMMU_CMDQ_BASE AND Q_BASE_ADDR_MASK = q_ptr ?q"
    "ent_dwords ?q = 2" "prod_reg ?q = ARM_SMMU_CMDQ_PROD" "cons_reg ?q = ARM_SMMU_CMDQ_CONS" "gerr_mask ?q = 1"
    "mm32 s ARM_SMMU_CMDQ_PROD = ?p" "mm32 s ARM_SMMU_CMDQ_CONS = ?p" "q_cons ?q = ?p" "take_bit (Suc ?sh) ?p = ?p"
    "mm32 s ARM_SMMU_CR0 AND CR0_CMDQEN \<noteq> 0" "(mm32 s ARM_SMMU_GERROR XOR mm32 s ARM_SMMU_GERRORN) AND 1 = 0"
    using ok by (simp_all add: cmdq_ok_def Let_def)
  have sh: "?sh < 31" "?sh < 32" using q(2) by simp_all
  let ?n = "take_bit (Suc ?sh) (?p + 1)"
  have np: "next_prod ?p ?sh = ?n" using next_prod_eq[OF sh(1) q(12)] .
  let ?e = "queue_entry ?q ?p"
  let ?s1 = "s\<lparr>cmdq_lock := l, mem3 := (mem3 s)(?e := fst c, ?e + 8 := snd c), cmdq := ?q\<lparr>q_prod := ?n\<rparr>,
    mm32 := (mm32 s)(ARM_SMMU_CMDQ_PROD := ?n)\<rparr>"
  have cnt: "q_count ?p ?p ?sh = 0" by (simp add: q_count_def)
  have nf: "\<not> queue_full ?q" using q_full_count[OF sh(2), of ?p ?p] cnt q(11) by (simp add: queue_full_def)
  have e: "?e = q_ptr ?q + 16 * ucast (take_bit ?sh ?p)" using sh q(5) by (simp add: queue_entry_def Q_IDX_eq algebra_simps)
  have s1: "arm_smmu_cmdq_insert_cmd dev c (s\<lparr>cmdq_lock := l\<rparr>) = wait_empty dev ?s1"
    unfolding arm_smmu_cmdq_insert_cmd_def
    by (subst wait_space.simps) (simp add: nf queue_write_two q queue_inc_prod_def np Let_def mmio_write32_def)
  have "q_count ?n ?p ?sh = 1" using q_count_next[OF sh(1) q(12), of ?p] cnt np by simp
  then have pend: "pending ?s1 = 1" using q by (simp add: pending_def)
  have w: "wait_empty dev ?s1 = Some (Inr (consumed 0 (consumed 0 ((consumed (Suc 0) ?s1)\<lparr>cmdq := (cmdq ?s1)\<lparr>q_cons := mm32 ?s1 ARM_SMMU_CMDQ_PROD\<rparr>\<rparr>))))"
    by (rule wait_empty_one[OF _ pend]) (use dev q sh in \<open>simp_all add: serves_def\<close>)
  let ?f = "consumed 0 (consumed 0 ((consumed (Suc 0) ?s1)\<lparr>cmdq := ?q\<lparr>q_prod := ?n, q_cons := ?n\<rparr>\<rparr>))"
  have r: "locked_insert dev c s = Some (Inr (?f\<lparr>cmdq_lock := spin_unlock l\<rparr>))"
    using w by (simp add: locked_insert_def l(1) s1 bind_opt_def)
  have hc: "hw_cmd ?s1 ?p = c"
    using q e by (simp add: hw_cmd_def Let_def)
  have lg: "sm_log ?f = sm_log s @ [c]" using q hc by (simp add: consumed_def)
  have m: "mm32 ?f = (mm32 s)(ARM_SMMU_CMDQ_PROD := ?n, ARM_SMMU_CMDQ_CONS := ?n, ARM_SMMU_CR0ACK := mm32 s ARM_SMMU_CR0)"
    using q by (simp add: consumed_def fun_eq_iff)
  have "cmdq_ok (?f\<lparr>cmdq_lock := spin_unlock l\<rparr>)"
    unfolding cmdq_ok_def using q l(2) by (simp add: m Let_def)
  moreover have "\<not> in_queue s a \<Longrightarrow> mem3 ?f a = mem3 s a" for a
    using entry_in_queue[OF q(2), of ?p] by (auto simp: e in_queue_def algebra_simps)
  ultimately have "issued [c] s (?f\<lparr>cmdq_lock := spin_unlock l\<rparr>)"
    unfolding issued_def using lg by (simp add: m)
  with r show ?thesis by blast
qed

lemma issue_cmd_issued:
  assumes "serves dev s" "cmdq_ok s" "arm_smmu_cmdq_build_cmd ent = Inr c"
  shows "\<exists>s'. arm_smmu_cmdq_issue_cmd dev ent s = Some (Inr s') \<and> issued [c] s s'"
  using locked_insert_issued[OF assms(1,2)] assms(3) by (simp add: arm_smmu_cmdq_issue_cmd_def bind_opt_def)

definition sync_cmd :: cmd where
  "sync_cmd = ((FIELD_PREP CMDQ_0_OP 0x46 OR FIELD_PREP CMDQ_SYNC_0_CS 2) OR
     (FIELD_PREP CMDQ_SYNC_0_MSH 3 OR FIELD_PREP CMDQ_SYNC_0_MSIATTR 0xf OR FIELD_PREP CMDQ_SYNC_0_MSIDATA 0), 0)"

definition cfgi_cmd :: "u32 \<Rightarrow> bool \<Rightarrow> cmd" where
  "cfgi_cmd sid leaf = (FIELD_PREP CMDQ_0_OP 3 OR FIELD_PREP CMDQ_CFGI_0_SID (ucast sid), FIELD_PREP 1 (of_flag leaf))"

definition vmall_cmd :: "16 word \<Rightarrow> cmd" where
  "vmall_cmd vmid = (FIELD_PREP CMDQ_0_OP 0x28 OR FIELD_PREP CMDQ_TLBI_0_VMID (ucast vmid), 0)"

lemma build_sync: "arm_smmu_cmdq_build_cmd (zero_ent\<lparr>opcode := CMDQ_OP_CMD_SYNC\<rparr>) = Inr sync_cmd"
  by (simp add: arm_smmu_cmdq_build_cmd_def zero_ent_def sync_cmd_def Let_def)

lemma build_cfgi: "arm_smmu_cmdq_build_cmd (zero_ent\<lparr>opcode := CMDQ_OP_CFGI_STE, cfgi_sid := sid, cfgi_leaf := leaf\<rparr>) = Inr (cfgi_cmd sid leaf)"
  by (simp add: arm_smmu_cmdq_build_cmd_def zero_ent_def cfgi_cmd_def Let_def)

lemma build_vmall: "arm_smmu_cmdq_build_cmd (zero_ent\<lparr>opcode := CMDQ_OP_TLBI_S12_VMALL, tlbi_vmid := v\<rparr>) = Inr (vmall_cmd v)"
  by (simp add: arm_smmu_cmdq_build_cmd_def zero_ent_def vmall_cmd_def Let_def)

lemma issue_sync_issued:
  assumes "serves dev s" "cmdq_ok s"
  shows "\<exists>s'. arm_smmu_cmdq_issue_sync dev s = Some (Inr s') \<and> issued [sync_cmd] s s'"
  using locked_insert_issued[OF assms] by (simp add: arm_smmu_cmdq_issue_sync_def bind_opt_def build_sync)

lemma sync_ste_issued:
  assumes "smmu_device dev" "cmdq_ok s"
  shows "\<exists>s'. arm_smmu_sync_ste_for_sid dev sid s = Some (Inr s') \<and> issued [cfgi_cmd sid True, sync_cmd] s s'"
proof -
  obtain s1 where s1: "arm_smmu_cmdq_issue_cmd dev (zero_ent\<lparr>opcode := CMDQ_OP_CFGI_STE, cfgi_sid := sid, cfgi_leaf := True\<rparr>) s = Some (Inr s1)"
    "issued [cfgi_cmd sid True] s s1" using issue_cmd_issued[OF smmu_device_serves[OF assms(1)] assms(2) build_cfgi] by blast
  then have "cmdq_ok s1" by (simp add: issued_def)
  from issue_sync_issued[OF smmu_device_serves[OF assms(1)] this] obtain s2 where
    s2: "arm_smmu_cmdq_issue_sync dev s1 = Some (Inr s2)" "issued [sync_cmd] s1 s2" by blast
  with s1 issued_trans[OF s1(2) s2(2)] show ?thesis by (simp add: arm_smmu_sync_ste_for_sid_def bind_opt_def)
qed

lemma cmdq_ok_mem [simp]: "cmdq_ok (s\<lparr>mem3 := m\<rparr>) = cmdq_ok s"
  by (simp add: cmdq_ok_def)

text \<open>
  \<open>ste_written\<close>: the entry at \<open>dst\<close> translates with the VM's table; outside the entry and the
  command queue the memory is as it was.
\<close>

definition ste_written :: "u64 \<Rightarrow> u32 \<Rightarrow> paddr_t \<Rightarrow> smmu3 \<Rightarrow> smmu3 \<Rightarrow> bool" where
  "ste_written dst vmid root s s' \<longleftrightarrow>
     mem3 s' dst = ste_0 \<and> mem3 s' (dst + 16) = ste_2 vmid \<and> mem3 s' (dst + 24) = root AND STRTAB_STE_3_S2TTB_MASK \<and>
     (\<forall>a. a \<notin> {dst, dst + 16, dst + 24} \<longrightarrow> \<not> in_queue s a \<longrightarrow> mem3 s' a = mem3 s a)"

lemma write_strtab_ent_result:
  assumes "smmu_device dev" "cmdq_ok s" "\<not> in_queue s dst" "\<not> in_queue s (dst + 16)" "\<not> in_queue s (dst + 24)"
  shows "\<exists>s'. arm_smmu_write_strtab_ent dev True sid dst False vmid root s = Some (Inr s') \<and>
    cmdq_ok s' \<and> sm_log s' = sm_log s @ [cfgi_cmd sid True, sync_cmd, cfgi_cmd sid True, sync_cmd] \<and>
    ste_written dst vmid root s s' \<and> q_ptr (cmdq s') = q_ptr (cmdq s)"
proof -
  let ?s1 = "s\<lparr>mem3 := (mem3 s)(dst + 16 := ste_2 vmid, dst + 24 := root AND STRTAB_STE_3_S2TTB_MASK)\<rparr>"
  have "cmdq_ok ?s1" using assms(2) by simp
  then obtain s2 where s2: "arm_smmu_sync_ste_for_sid dev sid ?s1 = Some (Inr s2)"
    "issued [cfgi_cmd sid True, sync_cmd] ?s1 s2" using sync_ste_issued[OF assms(1)] by blast
  let ?s3 = "s2\<lparr>mem3 := (mem3 s2)(dst := ste_0)\<rparr>"
  have "cmdq_ok ?s3" using s2(2) by (simp add: issued_def)
  then obtain s4 where s4: "arm_smmu_sync_ste_for_sid dev sid ?s3 = Some (Inr s4)"
    "issued [cfgi_cmd sid True, sync_cmd] ?s3 s4" using sync_ste_issued[OF assms(1)] by blast
  have q: "q_ptr (cmdq s2) = q_ptr (cmdq s)" "q_ptr (cmdq s4) = q_ptr (cmdq s)"
    using s2(2) s4(2) by (simp_all add: issued_def)
  have m2: "\<And>a. \<not> in_queue s a \<Longrightarrow> mem3 s2 a = ((mem3 s)(dst + 16 := ste_2 vmid, dst + 24 := root AND STRTAB_STE_3_S2TTB_MASK)) a"
    using s2(2) by (simp add: issued_def in_queue_def)
  have m4: "\<And>a. \<not> in_queue s a \<Longrightarrow> mem3 s4 a = ((mem3 s2)(dst := ste_0)) a"
    using s4(2) q by (simp add: issued_def in_queue_def)
  have "ste_written dst vmid root s s4"
    unfolding ste_written_def using assms(3-5) by (simp add: m4 m2)
  moreover have "arm_smmu_write_strtab_ent dev True sid dst False vmid root s = Some (Inr s4)"
    using s2(1) s4(1) by (simp add: arm_smmu_write_strtab_ent_def bind_opt_def)
  moreover have "sm_log s4 = sm_log s @ [cfgi_cmd sid True, sync_cmd, cfgi_cmd sid True, sync_cmd]" "cmdq_ok s4"
    using s2(2) s4(2) by (simp_all add: issued_def)
  ultimately show ?thesis using q by blast
qed

subsection \<open>Properties\<close>

text \<open>C12: the driver's waiting loops end: with an SMMU that executes pending commands, issuing a
  command on an idle queue returns, the SMMU has then executed exactly this command after the
  earlier ones, the queue is idle again, and only the queue's page was written.\<close>
theorem cmdq_issue_executes:
  assumes "smmu_device dev" "cmdq_ok s" "arm_smmu_cmdq_build_cmd ent = Inr c"
  shows "\<exists>s'. arm_smmu_cmdq_issue_cmd dev ent s = Some (Inr s') \<and> cmdq_ok s' \<and> sm_log s' = sm_log s @ [c] \<and>
    (\<forall>a. \<not> in_queue s a \<longrightarrow> mem3 s' a = mem3 s a)"
  using issue_cmd_issued[OF smmu_device_serves[OF assms(1)] assms(2,3)] unfolding issued_def by blast

definition zero_queue :: arm_smmu_queue where
  "zero_queue = \<lparr>q_ptr = 0x90000000, base_dma = 0x90000000, q_base = 0, ent_dwords = 2, max_n_shift = 8, q_prod = 0x1ff,
     q_cons = 0x1ff, prod_reg = ARM_SMMU_CMDQ_PROD, cons_reg = ARM_SMMU_CMDQ_CONS, gerr_mask = 1\<rparr>"

definition sample_smmu3 :: smmu3 where
  "sample_smmu3 =
     \<lparr>mm32 = (\<lambda>r. if r = ARM_SMMU_CR0 then CR0_CMDQEN else if r = ARM_SMMU_CMDQ_PROD \<or> r = ARM_SMMU_CMDQ_CONS then 0x1ff else 0),
      mm64 = (\<lambda>r. if r = ARM_SMMU_CMDQ_BASE then 0x90000008 else 0), mem3 = (\<lambda>_. 0),
      pool3 = \<lparr>pp_base = 0x90000000, pp_nr_pages = 32, pp_free = 32, pp_last = 0, pp_bitmap = (\<lambda>_. 0), pp_lock = SPINLOCK_INITVAL\<rparr>,
      features = 0, cmdq = zero_queue, cmdq_lock = SPINLOCK_INITVAL, evtq = zero_queue, sid_bits = 8,
      strtab_cfg = \<lparr>strtab = 0x90010000, strtab_dma = 0x90010000, l1_desc = (\<lambda>_. zero_desc), num_l1_ents = 256,
        strtab_base = 0, strtab_base_cfg = 0\<rparr>, sm_log = []\<rparr>"

lemma sample_smmu3_ok: "cmdq_ok sample_smmu3"
proof -
  have m: "BIT_MASK_LR 4 0 = 0x1f" "BIT_MASK_LR 51 5 = 0xFFFFFFFFFFFE0"
    by (simp_all add: BIT_MASK_LR_def lsl_def lsr_def push_bit_eq_mult drop_bit_eq_div)
  have "bit_ffs (BIT_MASK_LR 4 0) = 0" by (rule ffs_BIT_MASK_LR) simp_all
  then have "hw_shift sample_smmu3 = 8" by (simp add: hw_shift_def sample_smmu3_def FIELD_GET_def m lsr_def)
  then show ?thesis
    by (simp add: cmdq_ok_def sample_smmu3_def zero_queue_def m SPINLOCK_INITVAL_def Let_def take_bit_eq_mod)
qed

theorem cmdq_issue_executes_witness:
  "\<exists>s'. arm_smmu_cmdq_issue_cmd one_by_one (zero_ent\<lparr>opcode := CMDQ_OP_CMD_SYNC\<rparr>) sample_smmu3 = Some (Inr s') \<and>
    cmdq_ok s' \<and> sm_log s' = [sync_cmd]"
  using cmdq_issue_executes[OF one_by_one_device sample_smmu3_ok build_sync] by (auto simp: sample_smmu3_def)

text \<open>C37: the producer and consumer registers with their wrap bits are a bounded counter: the queue
  is empty when no entry waits and full when \<open>2 ^ max_n_shift\<close> do, and advancing the producer of
  a queue that is not full makes one more wait, also when the index wraps around.\<close>
theorem queue_bounded_counter:
  assumes "max_n_shift (cmdq s) < 31" "take_bit (Suc (max_n_shift (cmdq s))) (q_prod (cmdq s)) = q_prod (cmdq s)"
    and "q_count (q_prod (cmdq s)) (q_cons (cmdq s)) (max_n_shift (cmdq s)) \<le> 2 ^ max_n_shift (cmdq s)"
  shows "(let n = max_n_shift (cmdq s); waiting = (\<lambda>s. q_count (q_prod (cmdq s)) (q_cons (cmdq s)) n)
    in (queue_empty (cmdq s) \<longleftrightarrow> waiting s = 0) \<and> (queue_full (cmdq s) \<longleftrightarrow> waiting s = 2 ^ n) \<and>
       (\<not> queue_full (cmdq s) \<longrightarrow> waiting (queue_inc_prod s) = waiting s + 1 \<and> waiting (queue_inc_prod s) \<le> 2 ^ n))"
proof -
  have 1: "max_n_shift (cmdq s) < 32" using assms(1) by simp
  show ?thesis
    using q_empty_count[OF 1] q_full_count[OF 1] q_count_next[OF assms(1,2), of "q_cons (cmdq s)"] assms(3)
    by (auto simp: queue_empty_def queue_full_def queue_inc_prod_def mmio_write32_def Let_def)
qed

theorem queue_bounded_counter_witness:
  "q_count (q_prod (cmdq (queue_inc_prod sample_smmu3))) (q_cons (cmdq sample_smmu3)) 8 = 1 \<and>
   q_prod (cmdq (queue_inc_prod sample_smmu3)) = 0"
proof -
  have z: "q_count 0x1ff 0x1ff 8 = 0" by (simp add: q_count_def)
  have "\<not> queue_full (cmdq sample_smmu3)"
    by (simp add: queue_full_def q_full_count sample_smmu3_def zero_queue_def z)
  moreover have "max_n_shift (cmdq sample_smmu3) = 8" "q_prod (cmdq sample_smmu3) = 0x1ff" "q_cons (cmdq sample_smmu3) = 0x1ff"
    "q_cons (cmdq (queue_inc_prod sample_smmu3)) = 0x1ff"
    by (simp_all add: sample_smmu3_def zero_queue_def queue_inc_prod_def mmio_write32_def Let_def)
  moreover have "q_prod (cmdq (queue_inc_prod sample_smmu3)) = 0"
    by (simp add: queue_inc_prod_def mmio_write32_def sample_smmu3_def zero_queue_def Let_def next_prod_eq take_bit_eq_mod)
  ultimately show ?thesis using queue_bounded_counter[of sample_smmu3] z by (simp add: take_bit_eq_mod Let_def)
qed

text \<open>A command that is built can be read back: the SMMU finds the opcode in the low byte, and
  for the commands that name a stream, a VM or an address finds these in their fields. Exactly
  the eleven known opcodes are built; any other one stops with an error.\<close>
theorem build_cmd_roundtrip:
  "case arm_smmu_cmdq_build_cmd ent of
     Inl e \<Rightarrow> e = Error \<and> opcode ent \<notin> {0x1, 0x2, 0x3, 0x4, 0x11, 0x12, 0x20, 0x28, 0x2a, 0x30, 0x46}
   | Inr (c0, c1) \<Rightarrow> opcode ent \<in> {0x1, 0x2, 0x3, 0x4, 0x11, 0x12, 0x20, 0x28, 0x2a, 0x30, 0x46} \<and>
       ucast (FIELD_GET CMDQ_0_OP c0) = opcode ent \<and>
       (opcode ent = CMDQ_OP_CFGI_STE \<longrightarrow> ucast (FIELD_GET CMDQ_CFGI_0_SID c0) = cfgi_sid ent \<and> (c1 = 1 \<longleftrightarrow> cfgi_leaf ent)) \<and>
       (opcode ent \<in> {CMDQ_OP_TLBI_NH_VA, CMDQ_OP_TLBI_S2_IPA, CMDQ_OP_TLBI_NH_ASID, CMDQ_OP_TLBI_S12_VMALL} \<longrightarrow>
          ucast (FIELD_GET CMDQ_TLBI_0_VMID c0) = tlbi_vmid ent) \<and>
       (opcode ent \<in> {CMDQ_OP_TLBI_NH_VA, CMDQ_OP_TLBI_NH_ASID} \<longrightarrow>
          ucast (FIELD_GET CMDQ_TLBI_0_ASID c0) = tlbi_asid ent)"
proof -
  have fp: "FIELD_GET CMDQ_0_OP (FIELD_PREP CMDQ_0_OP v) = take_bit 8 v"
    "FIELD_GET CMDQ_CFGI_0_SID (FIELD_PREP CMDQ_CFGI_0_SID v) = take_bit 32 v"
    "FIELD_GET CMDQ_TLBI_0_VMID (FIELD_PREP CMDQ_TLBI_0_VMID v) = take_bit 16 v"
    "FIELD_GET CMDQ_TLBI_0_ASID (FIELD_PREP CMDQ_TLBI_0_ASID v) = take_bit 16 v" for v
    using FIELD_GET_PREP[of 0 7 v] FIELD_GET_PREP[of 32 63 v] FIELD_GET_PREP[of 32 47 v] FIELD_GET_PREP[of 48 63 v] by simp_all
  have uc: "ucast (take_bit 8 (ucast (x :: u8) :: u64)) = x" "ucast (take_bit 32 (ucast (y :: u32) :: u64)) = y"
    "ucast (take_bit 16 (ucast (z :: 16 word) :: u64)) = z" for x y z
    by (auto intro!: bit_word_eqI simp: bit_ucast_iff bit_take_bit_iff)
  have one: "FIELD_PREP 1 (of_flag b) = 1 \<longleftrightarrow> b" for b
    by (cases b) (auto simp: FIELD_PREP_def of_flag_def ffs_BIT_MASK_LR[of 0 0, unfolded BIT_MASK_LR_0] lsl_def)
  show ?thesis
    by (simp add: arm_smmu_cmdq_build_cmd_def Let_def FIELD_GET_OR FIELD_GET_other fp uc one
        split: if_splits)
qed

theorem build_cmd_roundtrip_witness:
  "arm_smmu_cmdq_build_cmd (zero_ent\<lparr>opcode := CMDQ_OP_CFGI_STE, cfgi_sid := 5, cfgi_leaf := True\<rparr>) = Inr (cfgi_cmd 5 True) \<and>
   ucast (FIELD_GET CMDQ_0_OP (fst (cfgi_cmd 5 True))) = CMDQ_OP_CFGI_STE \<and>
   ucast (FIELD_GET CMDQ_CFGI_0_SID (fst (cfgi_cmd 5 True))) = (5 :: u32) \<and> snd (cfgi_cmd 5 True) = 1"
  using build_cmd_roundtrip[of "zero_ent\<lparr>opcode := CMDQ_OP_CFGI_STE, cfgi_sid := 5, cfgi_leaf := True\<rparr>"]
  by (cases "cfgi_cmd 5 True") (simp add: build_cfgi)

text \<open>C13: \<open>arm_smmuv3_vm_dev_init\<close> on a stream whose table exists and whose entry lies outside the
  command queue takes the table from \<open>CURRENT_VM\<close>, whichever VM it is called for. While no VM is current, which is
  the case during the whole initialisation, from where \<open>vm_init\<close> adds the devices of a VM, this is a
  dereference of a null pointer. When a VM is current, the call returns, the stream's entry
  is valid and translates with the page table of that current VM under the identifier that was passed, nothing else
  changed in memory except the command queue, and the SMMU has executed, in this order, an
  invalidation of the entry before and after it became valid, each followed by a
  synchronisation, and the invalidation of the translations of that identifier.\<close>
theorem vm_dev_init_translates:
  assumes "smmu_device dev" "cmdq_ok s"
    and "two_level s \<Longrightarrow> l1_index sid < num_l1_ents (strtab_cfg s) \<and> l2ptr (l1_desc (strtab_cfg s) (l1_index sid)) \<noteq> 0"
    and dst: "dst = arm_smmu_get_step_for_sid sid s"
    and "\<not> in_queue s dst" "\<not> in_queue s (dst + 16)" "\<not> in_queue s (dst + 24)"
  shows "case cur of
      None \<Rightarrow> arm_smmuv3_vm_dev_init dev cur vmid sid s = Some (Inl Bad_Access)
    | Some (v, root) \<Rightarrow> \<exists>s'. arm_smmuv3_vm_dev_init dev cur vmid sid s = Some (Inr s') \<and> cmdq_ok s' \<and>
    ste_written dst (ucast vmid) root s s' \<and>
    FIELD_GET STRTAB_STE_0_CFG (mem3 s' dst) = STRTAB_STE_0_CFG_S2_TRANS \<and> bit (mem3 s' dst) 0 \<and>
    sm_log s' = sm_log s @ [cfgi_cmd sid True, sync_cmd, cfgi_cmd sid True, sync_cmd, vmall_cmd (ucast vmid)]"
proof -
  let ?init = "if two_level s then arm_smmu_init_l2_strtab dev cur sid s else Some (Inr s)"
  obtain cfg where i: "?init = Some (Inr (s\<lparr>strtab_cfg := cfg\<rparr>))"
    "arm_smmu_get_step_for_sid sid (s\<lparr>strtab_cfg := cfg\<rparr>) = dst"
    using assms(3) dst that[of "strtab_cfg s"]
    by (cases "two_level s") (auto simp: arm_smmu_init_l2_strtab_def arm_smmu_get_step_for_sid_def Let_def)
  show ?thesis
  proof (cases cur)
    case None
    have "arm_smmuv3_vm_dev_init dev cur vmid sid s = Some (Inl Bad_Access)"
      unfolding arm_smmuv3_vm_dev_init_def arm_smmu_init_ste_def i(1) using None by (simp add: bind_opt_def Let_def)
    then show ?thesis using None by simp
  next
    case (Some vr)
    obtain v root where cur: "cur = Some (v, root)" using Some by (cases vr) auto
    let ?s = "s\<lparr>strtab_cfg := cfg\<rparr>"
    have s: "cmdq_ok ?s" "\<And>a. in_queue ?s a = in_queue s a"
      using assms(2) by (simp_all add: cmdq_ok_def in_queue_def hw_shift_def)
    obtain s1 where s1: "arm_smmu_write_strtab_ent dev True sid dst False (ucast vmid) root ?s = Some (Inr s1)" "cmdq_ok s1"
      "sm_log s1 = sm_log s @ [cfgi_cmd sid True, sync_cmd, cfgi_cmd sid True, sync_cmd]"
      "ste_written dst (ucast vmid) root ?s s1" "q_ptr (cmdq s1) = q_ptr (cmdq s)"
      using write_strtab_ent_result[OF assms(1) s(1), of dst sid "ucast vmid" root] assms(5-7) s(2) by auto
    obtain s2 where s2: "arm_smmu_cmdq_issue_cmd dev (zero_ent\<lparr>opcode := CMDQ_OP_TLBI_S12_VMALL, tlbi_vmid := ucast vmid\<rparr>) s1 = Some (Inr s2)"
      "issued [vmall_cmd (ucast vmid)] s1 s2"
      using issue_cmd_issued[OF smmu_device_serves[OF assms(1)] s1(2) build_vmall] by blast
    have w: "ste_written dst (ucast vmid) root s s2"
      using s1(4,5) s2(2) assms(5-7) s(2) by (simp add: ste_written_def issued_def in_queue_def)
    have "FIELD_GET STRTAB_STE_0_CFG ste_0 = 6"
    proof -
      have "FIELD_GET STRTAB_STE_0_CFG 1 = 0" by (intro bit_word_eqI) (auto simp: bit_FIELD_GET bit_1_iff)
      then show ?thesis by (simp add: ste_0_def FIELD_GET_OR FIELD_GET_PREP take_bit_eq_mod)
    qed
    moreover have "bit ste_0 0" by (simp add: ste_0_def bit_or_iff)
    moreover have "arm_smmuv3_vm_dev_init dev cur vmid sid s = Some (Inr s2)"
      unfolding arm_smmuv3_vm_dev_init_def arm_smmu_init_ste_def i(1)
      using cur i(2) s1(1) s2(1) by (simp add: bind_opt_def Let_def)
    ultimately show ?thesis using cur s2(2) s1(3) w unfolding ste_written_def issued_def by auto
  qed
qed

theorem vm_dev_init_translates_witness:
  "(\<exists>s'. arm_smmuv3_vm_dev_init one_by_one (Some (1, 0x80004000)) 1 5 sample_smmu3 = Some (Inr s') \<and>
    ste_written 0x90010140 1 0x80004000 sample_smmu3 s' \<and>
    sm_log s' = [cfgi_cmd 5 True, sync_cmd, cfgi_cmd 5 True, sync_cmd, vmall_cmd 1]) \<and>
   arm_smmuv3_vm_dev_init one_by_one None 1 5 sample_smmu3 = Some (Inl Bad_Access)"
proof -
  have "0x90010140 = arm_smmu_get_step_for_sid 5 sample_smmu3"
    by (simp add: arm_smmu_get_step_for_sid_def sample_smmu3_def)
  moreover have "\<not> two_level sample_smmu3" by (simp add: sample_smmu3_def)
  moreover have "\<not> in_queue sample_smmu3 0x90010140" "\<not> in_queue sample_smmu3 (0x90010140 + 16)" "\<not> in_queue sample_smmu3 (0x90010140 + 24)"
    by (simp_all add: in_queue_def sample_smmu3_def zero_queue_def)
  moreover have "sm_log sample_smmu3 = []" by (simp add: sample_smmu3_def)
  ultimately show ?thesis
    using vm_dev_init_translates[OF one_by_one_device sample_smmu3_ok, of 5 "0x90010140" "Some (1, 0x80004000)" 1]
      vm_dev_init_translates[OF one_by_one_device sample_smmu3_ok, of 5 "0x90010140" None 1] by auto
qed

lemma write_reg_sync_acked:
  assumes "smmu_device_off dev" "val AND CR0_CMDQEN = 0 \<or> pending s = 0"
  shows "arm_smmu_write_reg_sync dev val ARM_SMMU_CR0 ARM_SMMU_CR0ACK s = Inr (consumed 0 (s\<lparr>mm32 := (mm32 s)(ARM_SMMU_CR0 := val)\<rparr>))"
proof -
  let ?s = "s\<lparr>mm32 := (mm32 s)(ARM_SMMU_CR0 := val)\<rparr>"
  have "pending ?s = pending s" by (simp add: pending_def)
  moreover obtain j where "dev ?s = consumed j ?s" "val AND CR0_CMDQEN = 0 \<longrightarrow> j = 0" "j \<le> pending ?s"
    using assms(1) unfolding smmu_device_off_def by (elim allE[of _ ?s]) auto
  ultimately have "dev ?s = consumed 0 ?s" using assms(2) by auto
  then have "wait_ack dev val ARM_SMMU_CR0ACK (Suc n) ?s = Inr (consumed 0 ?s)" for n
    by (simp add: mmio_read32_def Let_def) (simp add: consumed_def)
  from this[of 999999] show ?thesis by (simp add: arm_smmu_write_reg_sync_def mmio_write32_def)
qed

text \<open>The command queue as \<open>arm_smmu_init_one_queue\<close> leaves it.\<close>

definition queue_fresh :: "arm_smmu_queue \<Rightarrow> bool" where
  "queue_fresh q \<longleftrightarrow> 0 < max_n_shift q \<and> max_n_shift q \<le> CMDQ_MAX_SZ_SHIFT \<and> q_ptr q AND Q_BASE_ADDR_MASK = q_ptr q \<and>
     q_base q = (Q_BASE_RWA OR (q_ptr q AND Q_BASE_ADDR_MASK)) OR FIELD_PREP Q_BASE_LOG2SIZE (word_of_nat (max_n_shift q)) \<and>
     ent_dwords q = 2 \<and> prod_reg q = ARM_SMMU_CMDQ_PROD \<and> cons_reg q = ARM_SMMU_CMDQ_CONS \<and> gerr_mask q = 1 \<and>
     q_prod q = 0 \<and> q_cons q = 0"

lemma queue_fresh_base:
  assumes "queue_fresh q"
  shows "FIELD_GET Q_BASE_LOG2SIZE (q_base q) = word_of_nat (max_n_shift q)" "q_base q AND Q_BASE_ADDR_MASK = q_ptr q"
proof -
  have sh: "max_n_shift q < 2 ^ 5" using assms by (simp add: queue_fresh_def)
  have "take_bit 5 (word_of_nat (max_n_shift q) :: u64) = word_of_nat (max_n_shift q)"
    unfolding of_nat_take_bit[symmetric] take_bit_nat_eq_self[OF sh] ..
  moreover have "q_base q = (Q_BASE_RWA OR (q_ptr q AND Q_BASE_ADDR_MASK)) OR FIELD_PREP Q_BASE_LOG2SIZE (word_of_nat (max_n_shift q))"
    using assms by (simp add: queue_fresh_def)
  moreover have "FIELD_GET Q_BASE_LOG2SIZE (Q_BASE_RWA OR (q_ptr q AND Q_BASE_ADDR_MASK)) = 0"
    by (intro bit_word_eqI) (auto simp: bit_FIELD_GET bit_or_iff bit_and_iff bit_lsl_one bit_BIT_MASK_LR)
  ultimately show "FIELD_GET Q_BASE_LOG2SIZE (q_base q) = word_of_nat (max_n_shift q)"
    by (simp add: FIELD_GET_OR FIELD_GET_PREP)
  have p: "q_ptr q AND Q_BASE_ADDR_MASK = q_ptr q"
    and b: "q_base q = (Q_BASE_RWA OR (q_ptr q AND Q_BASE_ADDR_MASK)) OR FIELD_PREP Q_BASE_LOG2SIZE (word_of_nat (max_n_shift q))"
    using assms by (simp_all add: queue_fresh_def)
  have "q_base q AND Q_BASE_ADDR_MASK = q_ptr q AND Q_BASE_ADDR_MASK"
    unfolding b by (intro bit_word_eqI)
      (auto simp: bit_FIELD_PREP bit_or_iff bit_and_iff bit_lsl_one bit_BIT_MASK_LR)
  with p show "q_base q AND Q_BASE_ADDR_MASK = q_ptr q" by simp
qed

lemma cmdq_ok_pending: "cmdq_ok s \<Longrightarrow> pending s = 0"
  by (simp add: cmdq_ok_def pending_def q_count_def Let_def)

lemma cmdq_ok_upd:
  assumes "cmdq_ok s"
  shows "r \<notin> {ARM_SMMU_CR0, ARM_SMMU_CMDQ_PROD, ARM_SMMU_CMDQ_CONS, ARM_SMMU_GERROR, ARM_SMMU_GERRORN} \<Longrightarrow> cmdq_ok (mmio_write32 r v s)"
    "r \<noteq> ARM_SMMU_CMDQ_BASE \<Longrightarrow> cmdq_ok (mmio_write64 r w s)"
    "v AND CR0_CMDQEN \<noteq> 0 \<Longrightarrow> cmdq_ok (consumed 0 (s\<lparr>mm32 := (mm32 s)(ARM_SMMU_CR0 := v)\<rparr>))"
  using assms by (auto simp: cmdq_ok_def mmio_write32_def mmio_write64_def hw_shift_def Let_def)

definition reset_cmds :: "cmd list" where
  "reset_cmds = [(FIELD_PREP CMDQ_0_OP 4, FIELD_PREP CMDQ_CFGI_1_RANGE 31), sync_cmd,
     (FIELD_PREP CMDQ_0_OP 0x30, 0), (FIELD_PREP CMDQ_0_OP 0x20, 0), sync_cmd]"

lemma reset_issue_issued:
  assumes dev: "serves dev s" and ok: "cmdq_ok s"
  shows "\<exists>s'. reset_issue dev s = Some (Inr s') \<and> issued reset_cmds s s'"
proof -
  have b: "arm_smmu_cmdq_build_cmd (zero_ent\<lparr>opcode := CMDQ_OP_CFGI_ALL\<rparr>) = Inr (FIELD_PREP CMDQ_0_OP 4, FIELD_PREP CMDQ_CFGI_1_RANGE 31)"
    "arm_smmu_cmdq_build_cmd (zero_ent\<lparr>opcode := CMDQ_OP_TLBI_NSNH_ALL\<rparr>) = Inr (FIELD_PREP CMDQ_0_OP 0x30, 0)"
    "arm_smmu_cmdq_build_cmd (zero_ent\<lparr>opcode := CMDQ_OP_TLBI_EL2_ALL\<rparr>) = Inr (FIELD_PREP CMDQ_0_OP 0x20, 0)"
    by (simp_all add: arm_smmu_cmdq_build_cmd_def zero_ent_def Let_def)
  have okI: "\<And>cs s s'. issued cs s s' \<Longrightarrow> cmdq_ok s'" by (simp add: issued_def)
  have sv: "serves dev s'" if "issued cs s s'" "serves dev s" for cs s s'
    using that serves_cong[of s' s dev] by (simp add: issued_def)
  obtain s1 where 1: "arm_smmu_cmdq_issue_cmd dev (zero_ent\<lparr>opcode := CMDQ_OP_CFGI_ALL\<rparr>) s = Some (Inr s1)"
    "issued [(FIELD_PREP CMDQ_0_OP 4, FIELD_PREP CMDQ_CFGI_1_RANGE 31)] s s1" using issue_cmd_issued[OF dev ok b(1)] by blast
  obtain s2 where 2: "arm_smmu_cmdq_issue_sync dev s1 = Some (Inr s2)" "issued [sync_cmd] s1 s2"
    using issue_sync_issued[OF sv[OF 1(2) dev] okI[OF 1(2)]] by blast
  obtain s3 where 3: "arm_smmu_cmdq_issue_cmd dev (zero_ent\<lparr>opcode := CMDQ_OP_TLBI_NSNH_ALL\<rparr>) s2 = Some (Inr s3)"
    "issued [(FIELD_PREP CMDQ_0_OP 0x30, 0)] s2 s3" using issue_cmd_issued[OF sv[OF 2(2) sv[OF 1(2) dev]] okI[OF 2(2)] b(2)] by blast
  obtain s4 where 4: "arm_smmu_cmdq_issue_cmd dev (zero_ent\<lparr>opcode := CMDQ_OP_TLBI_EL2_ALL\<rparr>) s3 = Some (Inr s4)"
    "issued [(FIELD_PREP CMDQ_0_OP 0x20, 0)] s3 s4" using issue_cmd_issued[OF sv[OF 3(2) sv[OF 2(2) sv[OF 1(2) dev]]] okI[OF 3(2)] b(3)] by blast
  obtain s5 where 5: "arm_smmu_cmdq_issue_sync dev s4 = Some (Inr s5)" "issued [sync_cmd] s4 s5"
    using issue_sync_issued[OF sv[OF 4(2) sv[OF 3(2) sv[OF 2(2) sv[OF 1(2) dev]]]] okI[OF 4(2)]] by blast
  have "issued reset_cmds s s5"
    using issued_trans[OF issued_trans[OF issued_trans[OF issued_trans[OF 1(2) 2(2)] 3(2)] 4(2)] 5(2)] by (simp add: reset_cmds_def)
  then show ?thesis by (simp add: reset_issue_def bind_opt_def 1(1) 2(1) 3(1) 4(1) 5(1))
qed

lemma reset_install_ok:
  assumes "smmu_device_off dev" "queue_fresh (cmdq s)" "ticket (cmdq_lock s) = next_tk (cmdq_lock s)"
    and "(mm32 s ARM_SMMU_GERROR XOR mm32 s ARM_SMMU_GERRORN) AND 1 = 0"
  shows "\<exists>s'. arm_smmu_write_reg_sync dev CR0_CMDQEN ARM_SMMU_CR0 ARM_SMMU_CR0ACK (reset_install s) = Inr s' \<and> cmdq_ok s' \<and> serves dev s' \<and>
    sm_log s' = sm_log s \<and> strtab_cfg s' = strtab_cfg s \<and> evtq s' = evtq s \<and>
    mm64 s' ARM_SMMU_STRTAB_BASE = strtab_base (strtab_cfg s) \<and>
    mm32 s' ARM_SMMU_STRTAB_BASE_CFG = strtab_base_cfg (strtab_cfg s)"
proof -
  define s3 where "s3 = consumed 0 ((reset_install s)\<lparr>mm32 := (mm32 (reset_install s))(ARM_SMMU_CR0 := CR0_CMDQEN)\<rparr>)"
  note defs = s3_def reset_install_def mmio_write32_def mmio_write64_def Let_def
  have hs: "hw_shift s3 = max_n_shift (cmdq s)"
    using queue_fresh_base(1)[OF assms(2)] assms(2)
    by (simp add: defs hw_shift_def queue_fresh_def unat_of_nat take_bit_nat_eq_self)
  have "cmdq_ok s3"
    using assms(2-4) queue_fresh_base(2)[OF assms(2)] hs
    by (simp add: cmdq_ok_def queue_fresh_def Let_def) (simp add: defs)
  moreover have "pending (reset_install s) = 0"
    using assms(2) by (simp add: pending_def defs q_count_def queue_fresh_def)
  then have "arm_smmu_write_reg_sync dev CR0_CMDQEN ARM_SMMU_CR0 ARM_SMMU_CR0ACK (reset_install s) = Inr s3"
    unfolding s3_def by (intro write_reg_sync_acked[OF assms(1)]) simp
  moreover have "serves dev s3" using assms(1) by (simp add: serves_def defs)
  moreover have "sm_log s3 = sm_log s" "strtab_cfg s3 = strtab_cfg s" "evtq s3 = evtq s"
    "mm64 s3 ARM_SMMU_STRTAB_BASE = strtab_base (strtab_cfg s)"
    "mm32 s3 ARM_SMMU_STRTAB_BASE_CFG = strtab_base_cfg (strtab_cfg s)"
    by (simp_all add: defs)
  ultimately show ?thesis by blast
qed

lemma reset_finish_ok:
  assumes dev: "smmu_device_off dev" and ok: "cmdq_ok s"
  shows "\<exists>s'. reset_finish dev s = Inr s' \<and> cmdq_ok s' \<and> sm_log s' = sm_log s \<and>
    mm64 s' = (mm64 s)(ARM_SMMU_EVTQ_BASE := q_base (evtq s)) \<and>
    mm32 s' ARM_SMMU_STRTAB_BASE_CFG = mm32 s ARM_SMMU_STRTAB_BASE_CFG \<and>
    mm32 s' ARM_SMMU_CR0 = CR0_CMDQEN OR CR0_EVTQEN OR CR0_SMMUEN"
proof -
  define s5 where "s5 = mmio_write32 ARM_SMMU_EVTQ_CONS (q_cons (evtq s)) (mmio_write32 ARM_SMMU_EVTQ_PROD (q_prod (evtq s))
    (mmio_write64 ARM_SMMU_EVTQ_BASE (q_base (evtq s)) s))"
  have ok5: "cmdq_ok s5" using ok unfolding s5_def by (simp add: cmdq_ok_upd)
  define s6 where "s6 = consumed 0 (s5\<lparr>mm32 := (mm32 s5)(ARM_SMMU_CR0 := CR0_CMDQEN OR CR0_EVTQEN)\<rparr>)"
  have ok6: "cmdq_ok s6" using cmdq_ok_upd(3)[OF ok5] unfolding s6_def by simp
  define s7 where "s7 = consumed 0 (s6\<lparr>mm32 := (mm32 s6)(ARM_SMMU_CR0 := CR0_CMDQEN OR CR0_EVTQEN OR CR0_SMMUEN)\<rparr>)"
  have ok7: "cmdq_ok s7" using cmdq_ok_upd(3)[OF ok6] unfolding s7_def by simp
  have "arm_smmu_write_reg_sync dev (CR0_CMDQEN OR CR0_EVTQEN) ARM_SMMU_CR0 ARM_SMMU_CR0ACK s5 = Inr s6"
    unfolding s6_def by (rule write_reg_sync_acked[OF dev]) (simp add: cmdq_ok_pending[OF ok5])
  moreover have "arm_smmu_write_reg_sync dev (CR0_CMDQEN OR CR0_EVTQEN OR CR0_SMMUEN) ARM_SMMU_CR0 ARM_SMMU_CR0ACK s6 = Inr s7"
    unfolding s7_def by (rule write_reg_sync_acked[OF dev]) (simp add: cmdq_ok_pending[OF ok6])
  moreover have "reset_finish dev s = bindr (arm_smmu_write_reg_sync dev (CR0_CMDQEN OR CR0_EVTQEN) ARM_SMMU_CR0 ARM_SMMU_CR0ACK s5)
      (arm_smmu_write_reg_sync dev (CR0_CMDQEN OR CR0_EVTQEN OR CR0_SMMUEN) ARM_SMMU_CR0 ARM_SMMU_CR0ACK)"
    by (simp add: reset_finish_def s5_def mmio_write32_def mmio_write64_def Let_def)
  ultimately have "reset_finish dev s = Inr s7" by simp
  moreover have "sm_log s7 = sm_log s" "mm64 s7 = (mm64 s)(ARM_SMMU_EVTQ_BASE := q_base (evtq s))"
    "mm32 s7 ARM_SMMU_STRTAB_BASE_CFG = mm32 s ARM_SMMU_STRTAB_BASE_CFG"
    "mm32 s7 ARM_SMMU_CR0 = CR0_CMDQEN OR CR0_EVTQEN OR CR0_SMMUEN"
    by (simp_all add: s7_def s6_def s5_def mmio_write32_def mmio_write64_def)
  ultimately show ?thesis using ok7 by blast
qed

text \<open>C36: resetting the device with a fresh command queue returns: the stream table and the queues are
  installed, the SMMU has executed the invalidation of all configuration and translations and the
  synchronisations, it is enabled, and the command queue is idle and usable. The driver enables the SMMU
  only after the invalidations were executed: the theorem holds for every SMMU that makes progress on its
  commands while it is not enabled, also for one that executes none once \<open>SMMUEN\<close> is set (the witness
  runs such a one), on which a driver that set \<open>SMMUEN\<close> before waiting for them would wait for ever.\<close>
theorem device_reset_enables:
  assumes "smmu_device_off dev" "queue_fresh (cmdq s)" "ticket (cmdq_lock s) = next_tk (cmdq_lock s)"
    and "(mm32 s ARM_SMMU_GERROR XOR mm32 s ARM_SMMU_GERRORN) AND 1 = 0"
  shows "\<exists>s'. arm_smmu_device_reset dev s = Some (Inr s') \<and> cmdq_ok s' \<and> sm_log s' = sm_log s @ reset_cmds \<and>
    mm64 s' ARM_SMMU_STRTAB_BASE = strtab_base (strtab_cfg s) \<and> mm64 s' ARM_SMMU_EVTQ_BASE = q_base (evtq s) \<and>
    mm32 s' ARM_SMMU_STRTAB_BASE_CFG = strtab_base_cfg (strtab_cfg s) \<and>
    mm32 s' ARM_SMMU_CR0 = CR0_CMDQEN OR CR0_EVTQEN OR CR0_SMMUEN"
proof -
  let ?s1 = "consumed 0 (s\<lparr>mm32 := (mm32 s)(ARM_SMMU_CR0 := 0)\<rparr>)"
  have w: "arm_smmu_write_reg_sync dev 0 ARM_SMMU_CR0 ARM_SMMU_CR0ACK s = Inr ?s1"
    by (rule write_reg_sync_acked[OF assms(1)]) simp
  obtain s3 where s3: "arm_smmu_write_reg_sync dev CR0_CMDQEN ARM_SMMU_CR0 ARM_SMMU_CR0ACK (reset_install ?s1) = Inr s3" "cmdq_ok s3"
    "serves dev s3"
    "sm_log s3 = sm_log s" "strtab_cfg s3 = strtab_cfg s" "evtq s3 = evtq s"
    "mm64 s3 ARM_SMMU_STRTAB_BASE = strtab_base (strtab_cfg s)" "mm32 s3 ARM_SMMU_STRTAB_BASE_CFG = strtab_base_cfg (strtab_cfg s)"
    using reset_install_ok[OF assms(1), of ?s1] assms(2-4) by auto
  obtain s4 where s4: "reset_issue dev s3 = Some (Inr s4)" "issued reset_cmds s3 s4"
    using reset_issue_issued[OF s3(3,2)] by blast
  then have ok4: "cmdq_ok s4" by (simp add: issued_def)
  obtain s5 where s5: "reset_finish dev s4 = Inr s5" "cmdq_ok s5" "sm_log s5 = sm_log s4"
    "mm64 s5 = (mm64 s4)(ARM_SMMU_EVTQ_BASE := q_base (evtq s4))"
    "mm32 s5 ARM_SMMU_STRTAB_BASE_CFG = mm32 s4 ARM_SMMU_STRTAB_BASE_CFG"
    "mm32 s5 ARM_SMMU_CR0 = CR0_CMDQEN OR CR0_EVTQEN OR CR0_SMMUEN"
    using reset_finish_ok[OF assms(1) ok4] by blast
  have "arm_smmu_device_reset dev s = Some (Inr s5)"
    by (simp add: arm_smmu_device_reset_def bind_opt_def w s3(1) s4(1) s5(1))
  with s3 s4(2) s5 show ?thesis by (simp add: issued_def)
qed

lemma init_one_queue_fresh:
  assumes "arm_smmu_init_one_queue (\<lambda>q s. s\<lparr>cmdq := q\<rparr>) (cmdq s) ARM_SMMU_CMDQ_PROD ARM_SMMU_CMDQ_CONS 2 1 s = Some (Inr (0, s'))"
    and "0 < max_n_shift (cmdq s)" "max_n_shift (cmdq s) \<le> CMDQ_MAX_SZ_SHIFT" "q_ptr (cmdq s') AND Q_BASE_ADDR_MASK = q_ptr (cmdq s')"
  shows "queue_fresh (cmdq s')"
  using assms
  by (auto simp: arm_smmu_init_one_queue_def alloc3_def bind_opt_def queue_fresh_def split: option.splits sum.splits if_splits)

theorem device_reset_enables_witness:
  "\<exists>s'. arm_smmu_device_reset while_off
      (sample_smmu3\<lparr>cmdq := zero_queue\<lparr>q_prod := 0, q_cons := 0, q_base := (Q_BASE_RWA OR (0x90000000 AND Q_BASE_ADDR_MASK)) OR
        FIELD_PREP Q_BASE_LOG2SIZE (word_of_nat 8)\<rparr>\<rparr>) = Some (Inr s') \<and>
    cmdq_ok s' \<and> sm_log s' = reset_cmds \<and> mm32 s' ARM_SMMU_CR0 = 0xd"
proof -
  let ?s = "sample_smmu3\<lparr>cmdq := zero_queue\<lparr>q_prod := 0, q_cons := 0, q_base := (Q_BASE_RWA OR (0x90000000 AND Q_BASE_ADDR_MASK)) OR
        FIELD_PREP Q_BASE_LOG2SIZE (word_of_nat 8)\<rparr>\<rparr>"
  have "BIT_MASK_LR 51 5 = 0xFFFFFFFFFFFE0"
    by (simp add: BIT_MASK_LR_def lsl_def lsr_def push_bit_eq_mult drop_bit_eq_div)
  then have "queue_fresh (cmdq ?s)" by (simp add: queue_fresh_def zero_queue_def)
  moreover have "ticket (cmdq_lock ?s) = next_tk (cmdq_lock ?s)" "(mm32 ?s ARM_SMMU_GERROR XOR mm32 ?s ARM_SMMU_GERRORN) AND 1 = 0"
    "sm_log ?s = []" by (simp_all add: sample_smmu3_def SPINLOCK_INITVAL_def)
  ultimately show ?thesis using device_reset_enables[OF while_off_device, of ?s] by auto
qed

text \<open>The driver takes the VM's table from \<open>CURRENT_VM\<close>, but on a processor that has no vCPU yet,
  which is the case until the scheduler first runs, this is a dereference of a null pointer: then
  neither can a device be added nor a linear stream table be initialised.\<close>
theorem smmuv3_needs_current_vm:
  "arm_smmuv3_vm_dev_init dev None vmid sid s \<noteq> Some (Inr s') \<and>
   arm_smmu_init_strtab_linear None s \<noteq> Some (Inr (0, s'))"
proof -
  have "arm_smmu_init_bypass_stes None tab (unat (lsl (1 :: u32) n)) m = Inl Bad_Access" for tab n m
  proof -
    have "lsl (1 :: u32) n \<noteq> 0" by (simp add: lsl_def)
    then have "0 < unat (lsl (1 :: u32) n)" by (simp add: unat_gt_0)
    then show ?thesis by (simp add: arm_smmu_init_bypass_stes_def upt_conv_Cons)
  qed
  then have "arm_smmu_init_strtab_linear None s \<noteq> Some (Inr (0, s'))"
    by (auto simp: arm_smmu_init_strtab_linear_def bind_opt_def Let_def split: option.splits sum.splits if_splits)
  moreover have "arm_smmuv3_vm_dev_init dev None vmid sid s \<noteq> Some (Inr s')"
    by (auto simp: arm_smmuv3_vm_dev_init_def arm_smmu_init_ste_def bind_opt_def Let_def split: option.splits sum.splits)
  ultimately show ?thesis by blast
qed

text \<open>The stage-2 control value in a stream's entry is \<open>VTCR_CELL\<close>, not the value that
  \<open>vmm_arch_init_tcr\<close> computed for the processors that share the page table; the two agree only for
  the smallest physical address range, 32 bits.\<close>
theorem vtcr_cell_mismatch:
  assumes "parange < length parange_table"
  shows "FIELD_GET STRTAB_STE_2_VTCR (ste_2 vmid) = take_bit 19 (vtcr_of parange (parange_table ! parange)) \<longleftrightarrow> parange = 0"
proof -
  have 1: "FIELD_GET STRTAB_STE_2_VTCR (ste_2 vmid) = take_bit 19 VTCR_CELL"
    by (intro bit_word_eqI) (auto simp: ste_2_def bit_FIELD_GET bit_FIELD_PREP bit_or_iff bit_lsl_one bit_take_bit_iff)
  have "parange \<in> {0, 1, 2, 3, 4, 5}" using assms by (auto simp: parange_table_def)
  then show ?thesis
    unfolding 1 by (auto simp: VTCR_CELL_def vtcr_of_def parange_table_def lsl_def push_bit_eq_mult take_bit_eq_mod)
qed

theorem vtcr_cell_mismatch_witness:
  "FIELD_GET STRTAB_STE_2_VTCR (ste_2 1) \<noteq> take_bit 19 (vtcr_of 4 (parange_table ! 4))"
  using vtcr_cell_mismatch[of 4 1] by (simp add: parange_table_def)

text \<open>With 26 to 31 stream bits and no two-level table, the 32-bit size of the linear table wraps
  to 0: no pages are allocated, and the function reports that there is no memory, however
  much is free.\<close>
theorem linear_table_wraps:
  assumes "26 \<le> sid_bits s" "sid_bits s \<le> 31"
  shows "arm_smmu_init_strtab_linear cur s = Some (Inr (- ENOMEM, s))"
proof -
  have "lsl (1 :: u32) (sid_bits s) * 64 = push_bit (sid_bits s) 1 * push_bit 6 1" using assms by (simp add: lsl_def)
  also have "\<dots> = push_bit (sid_bits s + 6) (1 :: u32)" by (simp only: push_bit_of_1 power_add)
  also have "\<dots> = 0" using assms by (simp add: push_bit_of_1 exp_eq_zero_iff)
  finally show ?thesis
    by (simp add: arm_smmu_init_strtab_linear_def NUM_PAGES_def ALIGN_def alloc3_def mem_alloc_page_def mem_alloc_ppages_def
        pp_alloc_def bind_opt_def Let_def)
qed

theorem linear_table_wraps_witness:
  "arm_smmu_init_strtab_linear None (sample_smmu3\<lparr>sid_bits := 26\<rparr>) = Some (Inr (- ENOMEM, sample_smmu3\<lparr>sid_bits := 26\<rparr>))"
  using linear_table_wraps[of "sample_smmu3\<lparr>sid_bits := 26\<rparr>"] by simp

end
