(* ===== verification/Gicv3.thy ===== *)
theory Gicv3
  imports Gic Config
begin

text \<open>
  The interrupt controller driver in its GICv3 configuration: \<open>arch/aarch64/gicv3.c\<close>,
  \<open>inc/gicv3.h\<close>, the branches of \<open>gic.c\<close> for version 3 and the redistributor frame of
  \<open>inc/gic.h\<close>. The distributor is the one of theory \<open>Gic\<close> (of that record only the frame
  \<open>gicd\<close>, its lock and \<open>NUM_LRS\<close> are in use), with its 64-bit routing registers beside it; every
  processor has a redistributor; the processor interface and the list registers are system
  registers of the processor that runs the code. As in theory \<open>Gic\<close> a register holds the value that
  was stored last. The driver waits for the device in one place only, and the values it reads
  there are the argument \<open>waker\<close>.
\<close>

unbundle bit_operations_syntax

subsection \<open>Registers\<close>

abbreviation GICD_IROUTER_INV :: u64 where "GICD_IROUTER_INV \<equiv> NOT MPIDR_AFF_MSK"
definition GICD_IROUTER_RES0_MSK :: u64 where "GICD_IROUTER_RES0_MSK = lsl 1 40 - 1"
definition GICD_IROUTER_IRM_BIT :: u64 where "GICD_IROUTER_IRM_BIT = lsl 1 31"
definition GICD_IROUTER_AFF_MSK :: u64 where
  "GICD_IROUTER_AFF_MSK = GICD_IROUTER_RES0_MSK AND NOT GICD_IROUTER_IRM_BIT"

text \<open>The offsets of \<open>struct gicr_hw\<close>; the second frame starts at \<open>0x10000\<close>.\<close>

definition GICR_CTLR :: nat where "GICR_CTLR = 0x0"
definition GICR_IIDR :: nat where "GICR_IIDR = 0x4"
definition GICR_TYPER :: nat where "GICR_TYPER = 0x8"
definition GICR_WAKER :: nat where "GICR_WAKER = 0x14"
definition GICR_ID :: "nat \<Rightarrow> nat" where "GICR_ID i = 0xFFD0 + 4 * i"
definition GICR_IGROUPR0 :: nat where "GICR_IGROUPR0 = 0x10080"
definition GICR_ISENABLER0 :: nat where "GICR_ISENABLER0 = 0x10100"
definition GICR_ICENABLER0 :: nat where "GICR_ICENABLER0 = 0x10180"
definition GICR_ISPENDR0 :: nat where "GICR_ISPENDR0 = 0x10200"
definition GICR_ICPENDR0 :: nat where "GICR_ICPENDR0 = 0x10280"
definition GICR_ISACTIVER0 :: nat where "GICR_ISACTIVER0 = 0x10300"
definition GICR_ICACTIVER0 :: nat where "GICR_ICACTIVER0 = 0x10380"
definition GICR_IPRIORITYR :: "nat \<Rightarrow> nat" where "GICR_IPRIORITYR i = 0x10400 + 4 * i"
definition GICR_ICFGR0 :: nat where "GICR_ICFGR0 = 0x10C00"
definition GICR_ICFGR1 :: nat where "GICR_ICFGR1 = 0x10C04"

text \<open>\<open>sizeof(struct gicr_hw)\<close>: the two frames, padded to the alignment of the struct.\<close>

abbreviation GICR_SIZE :: nat where "GICR_SIZE \<equiv> 0x20000"

lemmas gicr_regs = GICR_CTLR_def GICR_IIDR_def GICR_TYPER_def GICR_WAKER_def GICR_ID_def GICR_IGROUPR0_def
  GICR_ISENABLER0_def GICR_ICENABLER0_def GICR_ISPENDR0_def GICR_ICPENDR0_def GICR_ISACTIVER0_def
  GICR_ICACTIVER0_def GICR_IPRIORITYR_def GICR_ICFGR0_def GICR_ICFGR1_def

record gicv3_hw =
  dist :: gic_hw
  irouter :: "nat \<Rightarrow> u64"
  gicr :: "nat \<Rightarrow> frame"
  route_lk :: spinlock
  gicr_lk :: spinlock
  icc_sre_el2 :: u64
  icc_pmr_el1 :: u64
  icc_bpr1_el1 :: u64
  icc_ctlr_el1 :: u64
  icc_igrpen1_el1 :: u64
  icc_iar1_el1 :: u64
  icc_eoir1_el1 :: u64
  icc_dir_el1 :: u64
  icc_sgi1r_el1 :: u64
  ich_hcr_el2 :: u64
  ich_vtr_el2 :: u64
  ich_misr_el2 :: u64
  ich_eisr_el2 :: u64
  ich_elrsr_el2 :: u64
  ich_lr_el2 :: "nat \<Rightarrow> u64"

abbreviation wr_gicr :: "nat \<Rightarrow> nat \<Rightarrow> u32 \<Rightarrow> gicv3_hw \<Rightarrow> gicv3_hw" where
  "wr_gicr r off v h \<equiv> gicr_update (\<lambda>f. f(r := (f r)(off := v))) h"

text \<open>\<open>gicr_lock\<close>, and the lock \<open>gicd_lock\<close> that \<open>gicv3.c\<close> declares \<open>static\<close>: it is not the lock of
  the same name that \<open>gic.c\<close> takes around its accesses to the distributor.\<close>

definition with_gicr_lock :: "(gicv3_hw \<Rightarrow> gicv3_hw) \<Rightarrow> gicv3_hw \<Rightarrow> gicv3_hw res" where
  "with_gicr_lock f h =
     bindr (spin_lock (gicr_lk h)) (\<lambda>l.
       let h = f (h\<lparr>gicr_lk := l\<rparr>) in Inr (h\<lparr>gicr_lk := spin_unlock (gicr_lk h)\<rparr>))"

definition with_route_lock :: "(gicv3_hw \<Rightarrow> gicv3_hw) \<Rightarrow> gicv3_hw \<Rightarrow> gicv3_hw res" where
  "with_route_lock f h =
     bindr (spin_lock (route_lk h)) (\<lambda>l.
       let h = f (h\<lparr>route_lk := l\<rparr>) in Inr (h\<lparr>route_lk := spin_unlock (route_lk h)\<rparr>))"

text \<open>A function of \<open>gic.c\<close> on the distributor.\<close>

definition on_dist :: "(gic_hw \<Rightarrow> gic_hw res) \<Rightarrow> gicv3_hw \<Rightarrow> gicv3_hw res" where
  "on_dist f h = bindr (f (dist h)) (\<lambda>d. Inr (h\<lparr>dist := d\<rparr>))"

subsection \<open>The processor interface\<close>

definition gich_num_lrs3 :: "gicv3_hw \<Rightarrow> nat" where
  "gich_num_lrs3 h = unat (lsr (ich_vtr_el2 h AND ucast (BIT_MASK 0 6 :: u32)) 0) + 1"

text \<open>The switches have cases for 16 list registers; there is no access for a higher number.\<close>

definition gich_read_lr3 :: "gicv3_hw \<Rightarrow> nat \<Rightarrow> u64 res" where
  "gich_read_lr3 h i =
     (if i \<ge> NUM_LRS (dist h) then Inl Error
      else Inr (if i < 16 then ich_lr_el2 h i else 0))"

definition gich_write_lr3 :: "nat \<Rightarrow> u64 \<Rightarrow> gicv3_hw \<Rightarrow> gicv3_hw res" where
  "gich_write_lr3 i val h =
     (if i \<ge> NUM_LRS (dist h) then Inl Error
      else Inr (if i < 16 then h\<lparr>ich_lr_el2 := (ich_lr_el2 h)(i := val)\<rparr> else h))"

definition gich_get_hcr3 :: "gicv3_hw \<Rightarrow> u32" where "gich_get_hcr3 h = ucast (ich_hcr_el2 h)"
definition gich_set_hcr3 :: "u32 \<Rightarrow> gicv3_hw \<Rightarrow> gicv3_hw" where
  "gich_set_hcr3 hcr h = h\<lparr>ich_hcr_el2 := ucast hcr\<rparr>"
definition gich_get_misr3 :: "gicv3_hw \<Rightarrow> u32" where "gich_get_misr3 h = ucast (ich_misr_el2 h)"
definition gich_get_eisr3 :: "gicv3_hw \<Rightarrow> u64" where "gich_get_eisr3 h = ich_eisr_el2 h"
definition gich_get_elrsr3 :: "gicv3_hw \<Rightarrow> u64" where "gich_get_elrsr3 h = ich_elrsr_el2 h"
definition gicc_iar3 :: "gicv3_hw \<Rightarrow> u32" where "gicc_iar3 h = ucast (icc_iar1_el1 h)"
definition gicc_eoir3 :: "u32 \<Rightarrow> gicv3_hw \<Rightarrow> gicv3_hw" where
  "gicc_eoir3 eoir h = h\<lparr>icc_eoir1_el1 := ucast eoir\<rparr>"
definition gicc_dir3 :: "u32 \<Rightarrow> gicv3_hw \<Rightarrow> gicv3_hw" where
  "gicc_dir3 dir h = h\<lparr>icc_dir_el1 := ucast dir\<rparr>"

definition ICC_CTLR_EOIMode_BIT :: u64 where "ICC_CTLR_EOIMode_BIT = lsl 1 1"
abbreviation ICC_SRE_SRE_BIT :: u64 where "ICC_SRE_SRE_BIT \<equiv> 1"
abbreviation ICC_SRE_ENB_BIT :: u64 where "ICC_SRE_ENB_BIT \<equiv> 8"
abbreviation ICC_IGRPEN_EL1_ENB_BIT :: u64 where "ICC_IGRPEN_EL1_ENB_BIT \<equiv> 1"
definition ICH_HCR_LRENPIE_BIT :: u64 where "ICH_HCR_LRENPIE_BIT = lsl 1 2"
abbreviation GICR_WAKER_ProcessorSleep_BIT :: u32 where "GICR_WAKER_ProcessorSleep_BIT \<equiv> 2"
abbreviation GICR_WAKER_ChildrenASleep_BIT :: u32 where "GICR_WAKER_ChildrenASleep_BIT \<equiv> 4"

definition gicc_init3 :: "gicv3_hw \<Rightarrow> gicv3_hw res" where
  "gicc_init3 h =
     bindr (fold_res (\<lambda>i. gich_write_lr3 i 0) [0..<gich_num_lrs3 h] h) (\<lambda>h.
       let h = h\<lparr>icc_pmr_el1 := GIC_LOWEST_PRIO\<rparr>;
           h = h\<lparr>icc_bpr1_el1 := 0\<rparr>;
           h = h\<lparr>icc_ctlr_el1 := ICC_CTLR_EOIMode_BIT\<rparr>;
           h = h\<lparr>ich_hcr_el2 := ich_hcr_el2 h OR ICH_HCR_LRENPIE_BIT\<rparr>
       in Inr (h\<lparr>icc_igrpen1_el1 := ICC_IGRPEN_EL1_ENB_BIT\<rparr>))"

text \<open>The loop on \<open>GICR_WAKER\<close>: the \<open>n\<close>th load returns \<open>waker n\<close>. The result is the number of the
  load that ended the loop.\<close>

partial_function (option) wait_awake :: "(nat \<Rightarrow> u32) \<Rightarrow> nat \<Rightarrow> nat option" where
  "wait_awake waker n =
     (if waker n AND GICR_WAKER_ChildrenASleep_BIT \<noteq> 0 then wait_awake waker (n + 1) else Some n)"

definition gicr_init :: "(nat \<Rightarrow> u32) \<Rightarrow> nat \<Rightarrow> gicv3_hw \<Rightarrow> gicv3_hw option" where
  "gicr_init waker cid h =
     (let h = wr_gicr cid GICR_WAKER (gicr h cid GICR_WAKER AND NOT GICR_WAKER_ProcessorSleep_BIT) h
      in Option.bind (wait_awake waker 0) (\<lambda>n.
        let h = wr_gicr cid GICR_WAKER (waker n) h;
            h = wr_gicr cid GICR_IGROUPR0 (- 1) h;
            h = wr_gicr cid GICR_ICENABLER0 (- 1) h;
            h = wr_gicr cid GICR_ICPENDR0 (- 1) h;
            h = wr_gicr cid GICR_ICACTIVER0 (- 1) h
        in Some (fold (\<lambda>i. wr_gicr cid (GICR_IPRIORITYR i) (- 1)) [0..<GIC_PRIO_REG GIC_CPU_PRIV] h)))"

definition gicc_save_state3 :: "nat \<Rightarrow> gicv3_hw \<Rightarrow> gicc_state \<Rightarrow> gicc_state res" where
  "gicc_save_state3 cid h st =
     (let st = st\<lparr>st_PMR := ucast (icc_pmr_el1 h), st_BPR := ucast (icc_bpr1_el1 h),
                  st_priv_ISENABLER := gicr h cid GICR_ISENABLER0\<rparr>;
          st = fold (\<lambda>i st. st\<lparr>st_priv_IPRIORITYR := (st_priv_IPRIORITYR st)(i := gicr h cid (GICR_IPRIORITYR i))\<rparr>)
                 [0..<GIC_PRIO_REG GIC_CPU_PRIV] st;
          st = st\<lparr>st_HCR := ucast (ich_hcr_el2 h)\<rparr>
      in fold_res (\<lambda>i st. bindr (gich_read_lr3 h i) (\<lambda>v. Inr (st\<lparr>st_LR := (st_LR st)(i := v)\<rparr>)))
           [0..<gich_num_lrs3 h] st)"

definition gicc_restore_state3 :: "nat \<Rightarrow> gicc_state \<Rightarrow> gicv3_hw \<Rightarrow> gicv3_hw res" where
  "gicc_restore_state3 cid st h =
     (let h = h\<lparr>icc_sre_el2 := ICC_SRE_SRE_BIT\<rparr>;
          h = h\<lparr>icc_ctlr_el1 := ICC_CTLR_EOIMode_BIT\<rparr>;
          h = h\<lparr>icc_igrpen1_el1 := ICC_IGRPEN_EL1_ENB_BIT\<rparr>;
          h = h\<lparr>icc_pmr_el1 := ucast (st_PMR st)\<rparr>;
          h = h\<lparr>icc_bpr1_el1 := ucast (st_BPR st)\<rparr>;
          h = wr_gicr cid GICR_ISENABLER0 (st_priv_ISENABLER st) h;
          h = fold (\<lambda>i. wr_gicr cid (GICR_IPRIORITYR i) (st_priv_IPRIORITYR st i))
                [0..<GIC_PRIO_REG GIC_CPU_PRIV] h;
          h = h\<lparr>ich_hcr_el2 := ucast (st_HCR st)\<rparr>
      in fold_res (\<lambda>i. gich_write_lr3 i (st_LR st i)) [0..<gich_num_lrs3 h] h)"

definition gic_cpu_init3 :: "(nat \<Rightarrow> u32) \<Rightarrow> nat \<Rightarrow> gicv3_hw \<Rightarrow> gicv3_hw res option" where
  "gic_cpu_init3 waker cid h = map_option gicc_init3 (gicr_init waker cid h)"

subsection \<open>The redistributors\<close>

definition gicr_set_prio :: "nat \<Rightarrow> u8 \<Rightarrow> nat \<Rightarrow> gicv3_hw \<Rightarrow> gicv3_hw res" where
  "gicr_set_prio int_id prio gicr_id =
     (let reg_ind = GIC_PRIO_REG int_id;
          off = GIC_PRIO_OFF int_id;
          msk = BIT_MASK off 8
      in with_gicr_lock (\<lambda>h. wr_gicr gicr_id (GICR_IPRIORITYR reg_ind)
           ((gicr h gicr_id (GICR_IPRIORITYR reg_ind) AND NOT msk) OR (lsl (ucast prio) off AND msk)) h))"

definition gicr_get_prio :: "nat \<Rightarrow> nat \<Rightarrow> gicv3_hw \<Rightarrow> (u8 \<times> gicv3_hw) res" where
  "gicr_get_prio int_id gicr_id h =
     (let reg_ind = GIC_PRIO_REG int_id;
          off = GIC_PRIO_OFF int_id
      in bindr (with_gicr_lock (\<lambda>h. h) h) (\<lambda>h.
        Inr (ucast (lsr (gicr h gicr_id (GICR_IPRIORITYR reg_ind)) off AND BIT_MASK off 8), h)))"

definition gicr_set_icfgr :: "nat \<Rightarrow> u8 \<Rightarrow> nat \<Rightarrow> gicv3_hw \<Rightarrow> gicv3_hw res" where
  "gicr_set_icfgr int_id cfg gicr_id =
     (let reg_ind = int_id * 2 div 32;
          off = int_id * 2 mod 32;
          msk = lsl (lsl 1 2 - 1) off;
          reg = (if reg_ind = 0 then GICR_ICFGR0 else GICR_ICFGR1)
      in with_gicr_lock (\<lambda>h. wr_gicr gicr_id reg
           ((gicr h gicr_id reg AND NOT msk) OR (lsl (ucast cfg) off AND msk)) h))"

definition gicr_set_pend :: "nat \<Rightarrow> bool \<Rightarrow> nat \<Rightarrow> gicv3_hw \<Rightarrow> gicv3_hw res" where
  "gicr_set_pend int_id pend gicr_id =
     with_gicr_lock (wr_gicr gicr_id (if pend then GICR_ISPENDR0 else GICR_ICPENDR0) (lsl 1 int_id))"

definition gicr_get_pend :: "gicv3_hw \<Rightarrow> nat \<Rightarrow> nat \<Rightarrow> bool" where
  "gicr_get_pend h int_id gicr_id \<longleftrightarrow>
     gic_is_priv int_id \<and> gicr h gicr_id GICR_ISPENDR0 AND GIC_INT_MASK int_id \<noteq> 0"

definition gicr_set_act :: "nat \<Rightarrow> bool \<Rightarrow> nat \<Rightarrow> gicv3_hw \<Rightarrow> gicv3_hw res" where
  "gicr_set_act int_id act gicr_id =
     with_gicr_lock (wr_gicr gicr_id (if act then GICR_ISACTIVER0 else GICR_ICACTIVER0) (GIC_INT_MASK int_id))"

definition gicr_get_act :: "gicv3_hw \<Rightarrow> nat \<Rightarrow> nat \<Rightarrow> bool" where
  "gicr_get_act h int_id gicr_id \<longleftrightarrow>
     gic_is_priv int_id \<and> gicr h gicr_id GICR_ISACTIVER0 AND GIC_INT_MASK int_id \<noteq> 0"

definition gicr_set_enable :: "nat \<Rightarrow> bool \<Rightarrow> nat \<Rightarrow> gicv3_hw \<Rightarrow> gicv3_hw res" where
  "gicr_set_enable int_id en gicr_id =
     (let b = GIC_INT_MASK int_id
      in with_gicr_lock (wr_gicr gicr_id (if en then GICR_ISENABLER0 else GICR_ICENABLER0) b))"

subsection \<open>Routing and software generated interrupts\<close>

definition gicd_set_route :: "nat \<Rightarrow> u64 \<Rightarrow> gicv3_hw \<Rightarrow> gicv3_hw res" where
  "gicd_set_route int_id route h =
     (if gic_is_priv int_id then Inr h
      else with_route_lock (\<lambda>h. h\<lparr>irouter := (irouter h)(int_id := route AND GICD_IROUTER_AFF_MSK)\<rparr>) h)"

definition MPIDR_AFF_LVL :: "u64 \<Rightarrow> nat \<Rightarrow> u64" where "MPIDR_AFF_LVL mpidr lvl = lsr mpidr (8 * lvl) AND 0xff"

definition gic_send_sgi3 :: "nat \<Rightarrow> nat \<Rightarrow> gicv3_hw \<Rightarrow> gicv3_hw" where
  "gic_send_sgi3 cpu_target sgi_num h =
     (if sgi_num < GIC_MAX_SGIS then
        let mpidr = cpu_id_to_mpidr cpu_target AND MPIDR_AFF_MSK;
            sgi = lsl (MPIDR_AFF_LVL mpidr 1) 16 OR lsl 1 (unat (MPIDR_AFF_LVL mpidr 0)) OR
                  lsl (word_of_nat sgi_num) 24
        in h\<lparr>icc_sgi1r_el1 := sgi\<rparr>
      else h)"

subsection \<open>Dispatch to the distributor or the own redistributor\<close>

definition gic_set_prio3 :: "nat \<Rightarrow> nat \<Rightarrow> u8 \<Rightarrow> gicv3_hw \<Rightarrow> gicv3_hw res" where
  "gic_set_prio3 cid int_id prio =
     (if \<not> gic_is_priv int_id then on_dist (gicd_set_prio int_id prio) else gicr_set_prio int_id prio cid)"

definition gic_get_prio3 :: "nat \<Rightarrow> nat \<Rightarrow> gicv3_hw \<Rightarrow> (u8 \<times> gicv3_hw) res" where
  "gic_get_prio3 cid int_id h =
     (if \<not> gic_is_priv int_id then Inr (gicd_get_prio (dist h) int_id, h) else gicr_get_prio int_id cid h)"

definition gic_set_icfgr3 :: "nat \<Rightarrow> nat \<Rightarrow> u8 \<Rightarrow> gicv3_hw \<Rightarrow> gicv3_hw res" where
  "gic_set_icfgr3 cid int_id cfg =
     (if \<not> gic_is_priv int_id then on_dist (gicd_set_icfgr int_id cfg) else gicr_set_icfgr int_id cfg cid)"

definition gic_set_pend3 :: "nat \<Rightarrow> nat \<Rightarrow> bool \<Rightarrow> gicv3_hw \<Rightarrow> gicv3_hw res" where
  "gic_set_pend3 cid int_id pend =
     (if \<not> gic_is_priv int_id then on_dist (\<lambda>d. Inr (gicd_set_pend int_id pend d)) else gicr_set_pend int_id pend cid)"

definition gic_get_pend3 :: "nat \<Rightarrow> gicv3_hw \<Rightarrow> nat \<Rightarrow> bool" where
  "gic_get_pend3 cid h int_id =
     (if \<not> gic_is_priv int_id then gicd_get_pend (dist h) int_id else gicr_get_pend h int_id cid)"

definition gic_set_act3 :: "nat \<Rightarrow> nat \<Rightarrow> bool \<Rightarrow> gicv3_hw \<Rightarrow> gicv3_hw res" where
  "gic_set_act3 cid int_id act =
     (if \<not> gic_is_priv int_id then on_dist (\<lambda>d. Inr (gicd_set_act int_id act d)) else gicr_set_act int_id act cid)"

definition gic_get_act3 :: "nat \<Rightarrow> gicv3_hw \<Rightarrow> nat \<Rightarrow> bool" where
  "gic_get_act3 cid h int_id =
     (if \<not> gic_is_priv int_id then gicd_get_act (dist h) int_id else gicr_get_act h int_id cid)"

definition gic_set_enable3 :: "nat \<Rightarrow> nat \<Rightarrow> bool \<Rightarrow> gicv3_hw \<Rightarrow> gicv3_hw res" where
  "gic_set_enable3 cid int_id en =
     (if \<not> gic_is_priv int_id then on_dist (\<lambda>d. Inr (gicd_set_enable int_id en d)) else gicr_set_enable int_id en cid)"

subsection \<open>Initialisation (\<open>gic.c\<close>)\<close>

definition gicd_init3 :: "nat \<Rightarrow> gicv3_hw \<times> irq_tab \<Rightarrow> gicv3_hw \<times> irq_tab" where
  "gicd_init3 mid = (\<lambda>(h, t).
     let int_num = gic_num_irqs (dist h);
         d = fold gicd_quiet [GIC_CPU_PRIV div 32..<GIC_INT_REG int_num] (dist h);
         d = fold (\<lambda>i. wr_gicd (GICD_IPRIORITYR i) (- 1))
               [GIC_PRIO_REG GIC_CPU_PRIV..<GIC_PRIO_REG int_num] d;
         h = h\<lparr>dist := d\<rparr>;
         h = fold (\<lambda>i h. h\<lparr>irouter := (irouter h)(i := GICD_IROUTER_INV)\<rparr>) [GIC_CPU_PRIV..<GIC_MAX_INTERUPTS] h;
         h = h\<lparr>dist := wr_gicd GICD_CTLR (gicd (dist h) GICD_CTLR OR (0x10 OR 0x2)) (dist h)\<rparr>
     in (h, interrupts_reserve mid H_gic_maintenance t))"

text \<open>The addresses that \<open>gic_map_mmio\<close> takes from the platform are those of the frames.\<close>

definition gic_init3 :: "(nat \<Rightarrow> u32) \<Rightarrow> nat \<Rightarrow> nat \<Rightarrow> gicv3_hw \<times> irq_tab \<Rightarrow> (gicv3_hw \<times> irq_tab) res option" where
  "gic_init3 waker cid mid = (\<lambda>(h, t).
     let h = h\<lparr>icc_sre_el2 := ICC_SRE_SRE_BIT OR ICC_SRE_ENB_BIT\<rparr>;
         (h, t) = (if cid = 0 then
            let (h, t) = gicd_init3 mid (h, t)
            in (h\<lparr>dist := (dist h)\<lparr>NUM_LRS := gich_num_lrs3 h\<rparr>\<rparr>, t)
          else (h, t))
     in map_option (\<lambda>r. bindr r (\<lambda>h. Inr (h, t))) (gic_cpu_init3 waker cid h))"


subsection \<open>One driver, two controllers\<close>

lemma with_gicr_lock_free:
  assumes "ticket (gicr_lk h) = next_tk (gicr_lk h)"
  shows "with_gicr_lock f h =
    (let h' = f (h\<lparr>gicr_lk := (gicr_lk h)\<lparr>ticket := ticket (gicr_lk h) + 1\<rparr>\<rparr>)
     in Inr (h'\<lparr>gicr_lk := spin_unlock (gicr_lk h')\<rparr>))"
  using assms by (simp add: with_gicr_lock_def spin_lock_free)

text \<open>The calls that set a property of an interrupt, as the rest of the hypervisor makes them.\<close>

datatype gic_call = Set_Prio u8 | Set_Icfgr u8 | Set_Pend bool | Set_Act bool | Set_Enable bool

fun gicv3_call :: "nat \<Rightarrow> nat \<Rightarrow> gic_call \<Rightarrow> gicv3_hw \<Rightarrow> gicv3_hw res" where
  "gicv3_call cid i (Set_Prio p) = gic_set_prio3 cid i p"
| "gicv3_call cid i (Set_Icfgr c) = gic_set_icfgr3 cid i c"
| "gicv3_call cid i (Set_Pend b) = gic_set_pend3 cid i b"
| "gicv3_call cid i (Set_Act b) = gic_set_act3 cid i b"
| "gicv3_call cid i (Set_Enable b) = gic_set_enable3 cid i b"

fun gicv2_call :: "nat \<Rightarrow> nat \<Rightarrow> gic_call \<Rightarrow> gic_hw \<Rightarrow> gic_hw res" where
  "gicv2_call cid i (Set_Prio p) h = gic_set_prio i p h"
| "gicv2_call cid i (Set_Icfgr c) h = gic_set_icfgr i c h"
| "gicv2_call cid i (Set_Pend b) h = Inr (gic_set_pend cid i b h)"
| "gicv2_call cid i (Set_Act b) h = Inr (gic_set_act i b h)"
| "gicv2_call cid i (Set_Enable b) h = Inr (gic_set_enable i b h)"

text \<open>The redistributor register that a call on a private interrupt writes.\<close>

fun call_reg :: "nat \<Rightarrow> gic_call \<Rightarrow> nat" where
  "call_reg i (Set_Prio p) = GICR_IPRIORITYR (i div 4)"
| "call_reg i (Set_Icfgr c) = (if i < 16 then GICR_ICFGR0 else GICR_ICFGR1)"
| "call_reg i (Set_Pend b) = (if b then GICR_ISPENDR0 else GICR_ICPENDR0)"
| "call_reg i (Set_Act b) = (if b then GICR_ISACTIVER0 else GICR_ICACTIVER0)"
| "call_reg i (Set_Enable b) = (if b then GICR_ISENABLER0 else GICR_ICENABLER0)"

lemma private_call:
  assumes "gic_is_priv i" "ticket (gicr_lk h) = next_tk (gicr_lk h)"
  shows "\<exists>v l. gicv3_call cid i c h = Inr ((wr_gicr cid (call_reg i c) v h)\<lparr>gicr_lk := l\<rparr>) \<and> ticket l = next_tk l"
proof -
  have i: "i < 32" using assms(1) by (simp add: gic_is_priv_def)
  have "i * 2 div 32 = 0 \<longleftrightarrow> i < 16" by auto
  then show ?thesis
    using assms i
    by (cases c; simp add: gic_set_prio3_def gic_set_icfgr3_def gic_set_pend3_def gic_set_act3_def
        gic_set_enable3_def gicr_set_prio_def gicr_set_icfgr_def gicr_set_pend_def gicr_set_act_def
        gicr_set_enable_def with_gicr_lock_free Let_def prio_reg_off spin_unlock_def)
      (auto intro!: exI)
qed

lemma shared_call:
  assumes "\<not> gic_is_priv i"
  shows "gicv3_call cid i c h = on_dist (gicv2_call cid i c) h"
proof -
  have "\<not> gic_is_sgi i" using assms by (simp add: gic_is_priv_def gic_is_sgi_def)
  with assms show ?thesis
    by (cases c) (simp_all add: gic_set_prio3_def gic_set_icfgr3_def gic_set_pend3_def gic_set_act3_def
        gic_set_enable3_def gic_set_prio_def gic_set_icfgr_def gic_set_pend_def gic_set_act_def
        gic_set_enable_def on_dist_def)
qed

text \<open>The two drivers agree where the controllers do. For a shared interrupt each of the five calls
  of the GICv3 driver that set the priority, the configuration, or the pending, active and enable
  state does to the distributor exactly what the GICv2 driver does, and touches nothing else.
  For a private interrupt it writes one register, in the redistributor of the calling processor,
  under the redistributor lock, which it releases: the redistributors of the other processors, the
  distributor and the processor interface stay as they were.\<close>
theorem gicv3_calls_refine_gicv2:
  assumes "ticket (gicr_lk h) = next_tk (gicr_lk h)"
  shows "(\<not> gic_is_priv i \<longrightarrow>
            gicv3_call cid i c h = bindr (gicv2_call cid i c (dist h)) (\<lambda>d. Inr (h\<lparr>dist := d\<rparr>))) \<and>
         (gic_is_priv i \<longrightarrow> (\<exists>h'. gicv3_call cid i c h = Inr h' \<and> ticket (gicr_lk h') = next_tk (gicr_lk h') \<and>
            h' = h\<lparr>gicr := gicr h', gicr_lk := gicr_lk h'\<rparr> \<and>
            (\<forall>r off. (r, off) \<noteq> (cid, call_reg i c) \<longrightarrow> gicr h' r off = gicr h r off)))"
proof (intro conjI impI)
  assume "\<not> gic_is_priv i"
  then show "gicv3_call cid i c h = bindr (gicv2_call cid i c (dist h)) (\<lambda>d. Inr (h\<lparr>dist := d\<rparr>))"
    by (simp add: shared_call on_dist_def)
next
  assume "gic_is_priv i"
  from private_call[OF this assms, of cid c] obtain v l where
    run: "gicv3_call cid i c h = Inr ((wr_gicr cid (call_reg i c) v h)\<lparr>gicr_lk := l\<rparr>)" and "ticket l = next_tk l" by auto
  then show "\<exists>h'. gicv3_call cid i c h = Inr h' \<and> ticket (gicr_lk h') = next_tk (gicr_lk h') \<and>
      h' = h\<lparr>gicr := gicr h', gicr_lk := gicr_lk h'\<rparr> \<and>
      (\<forall>r off. (r, off) \<noteq> (cid, call_reg i c) \<longrightarrow> gicr h' r off = gicr h r off)"
    by (intro exI[of _ "(wr_gicr cid (call_reg i c) v h)\<lparr>gicr_lk := l\<rparr>"]) auto
qed

definition sample_gicv3 :: gicv3_hw where
  "sample_gicv3 = \<lparr>dist = sample_gic, irouter = (\<lambda>_. 0), gicr = (\<lambda>_ _. 0), route_lk = SPINLOCK_INITVAL,
     gicr_lk = SPINLOCK_INITVAL, icc_sre_el2 = 0, icc_pmr_el1 = 0, icc_bpr1_el1 = 0, icc_ctlr_el1 = 0,
     icc_igrpen1_el1 = 0, icc_iar1_el1 = 0, icc_eoir1_el1 = 0, icc_dir_el1 = 0, icc_sgi1r_el1 = 0,
     ich_hcr_el2 = 0, ich_vtr_el2 = 3, ich_misr_el2 = 0, ich_eisr_el2 = 0, ich_elrsr_el2 = 0,
     ich_lr_el2 = (\<lambda>_. 0)\<rparr>"

theorem gicv3_calls_refine_gicv2_witness:
  "\<exists>h'. gicv3_call 1 27 (Set_Enable True) sample_gicv3 = Inr h' \<and> dist h' = sample_gic \<and>
     gicr h' 0 GICR_ISENABLER0 = 0"
proof -
  have "ticket (gicr_lk sample_gicv3) = next_tk (gicr_lk sample_gicv3)"
    by (simp add: sample_gicv3_def SPINLOCK_INITVAL_def)
  from gicv3_calls_refine_gicv2[OF this, of 27 1 "Set_Enable True"] obtain h' where
    run: "gicv3_call 1 27 (Set_Enable True) sample_gicv3 = Inr h'"
    and eq: "h' = sample_gicv3\<lparr>gicr := gicr h', gicr_lk := gicr_lk h'\<rparr>"
    and "gicr h' 0 GICR_ISENABLER0 = gicr sample_gicv3 0 GICR_ISENABLER0"
    by (auto simp: gic_is_priv_def)
  moreover have "dist h' = dist sample_gicv3" by (subst eq) simp
  ultimately show ?thesis by (auto simp: sample_gicv3_def)
qed

subsection \<open>Software generated interrupts\<close>

lemma no_mpidr: "cpu_id_to_mpidr cid AND MPIDR_AFF_MSK = 0"
proof -
  have "cpu_id_to_mpidr cid = (if cid > 0 then NOT (NOT MPIDR_RES1 AND MPIDR_RES0_MSK) else MPIDR_RES1)"
    by (simp add: cpu_id_to_mpidr_def platform_arch_cpuid_to_mpidr_def platform_table_def)
  moreover have "NOT (NOT MPIDR_RES1 AND MPIDR_RES0_MSK) = MPIDR_RES1 OR push_bit 25 0x1f"
    by (simp add: MPIDR_RES0_MSK_def lsl_eq)
  moreover have "MPIDR_RES1 AND MPIDR_AFF_MSK = 0" "push_bit 25 (0x1f :: u64) AND MPIDR_AFF_MSK = 0" by simp_all
  ultimately show ?thesis by (simp add: bit.conj_disj_distrib2)
qed

text \<open>The description of the platform leaves the number of processors zero, so every processor
  but the first has the invalid affinity, and its low half, which the driver uses, is the affinity
  of processor 0. Whatever processor an SGI is meant for, the register is written with the first
  processor in the target list: messages between processors never reach another one.\<close>
theorem gic_send_sgi3_always_first:
  "gic_send_sgi3 cpu_target sgi_num h =
     (if sgi_num < 16 then h\<lparr>icc_sgi1r_el1 := 1 OR push_bit 24 (word_of_nat sgi_num)\<rparr> else h)"
  unfolding gic_send_sgi3_def no_mpidr Let_def
  by (simp add: MPIDR_AFF_LVL_def lsl_def lsr_def)

subsection \<open>Waking a redistributor and initialising a processor\<close>

lemma wait_awake_ends:
  assumes "waker k AND GICR_WAKER_ChildrenASleep_BIT = 0" "n \<le> k"
    and "\<And>i. n \<le> i \<Longrightarrow> i < k \<Longrightarrow> waker i AND GICR_WAKER_ChildrenASleep_BIT \<noteq> 0"
  shows "wait_awake waker n = Some k"
  using assms
proof (induction "k - n" arbitrary: n)
  case 0
  then show ?case by (simp add: wait_awake.simps)
next
  case (Suc d)
  then have "n < k" by simp
  with Suc have "wait_awake waker (n + 1) = Some k" by simp
  with Suc.prems \<open>n < k\<close> show ?case by (subst wait_awake.simps) simp
qed

lemma wait_awake_Some:
  assumes "wait_awake waker n = Some k"
  shows "waker k AND GICR_WAKER_ChildrenASleep_BIT = 0"
  by (rule wait_awake.raw_induct[OF _ assms, where P = "\<lambda>w n k. w k AND GICR_WAKER_ChildrenASleep_BIT = 0"])
    (auto split: if_splits)

lemma wait_awake_returns:
  "(\<exists>k. wait_awake waker 0 = Some k) \<longleftrightarrow> (\<exists>n. waker n AND GICR_WAKER_ChildrenASleep_BIT = 0)"
proof
  assume "\<exists>n. waker n AND GICR_WAKER_ChildrenASleep_BIT = 0"
  then obtain n where n: "waker n AND GICR_WAKER_ChildrenASleep_BIT = 0" by blast
  define k where "k = (LEAST n. waker n AND GICR_WAKER_ChildrenASleep_BIT = 0)"
  have "waker k AND GICR_WAKER_ChildrenASleep_BIT = 0" unfolding k_def using n by (rule LeastI)
  moreover have "waker i AND GICR_WAKER_ChildrenASleep_BIT \<noteq> 0" if "i < k" for i
    using that not_less_Least unfolding k_def by blast
  ultimately show "\<exists>k. wait_awake waker 0 = Some k" using wait_awake_ends[of waker k 0] by blast
qed (blast dest: wait_awake_Some)

lemma fold_wr_gicr:
  "fold (\<lambda>i. wr_gicr r (g i) (f i)) xs h = gicr_update (\<lambda>m. m(r := fold (\<lambda>i m. m(g i := f i)) xs (m r))) h"
  by (induction xs arbitrary: h) (simp_all add: o_def)

lemma inj_gicr_prio [simp]: "inj GICR_IPRIORITYR"
  by (auto simp: inj_def gicr_regs)

lemma write_lrs:
  assumes "n \<le> NUM_LRS (dist h)" "n \<le> 16"
  shows "fold_res (\<lambda>i. gich_write_lr3 i (f i)) [0..<n] h =
    Inr (h\<lparr>ich_lr_el2 := fold (\<lambda>i m. m(i := f i)) [0..<n] (ich_lr_el2 h)\<rparr>)"
proof -
  have "fold_res (\<lambda>i. gich_write_lr3 i (f i)) xs h =
      Inr (h\<lparr>ich_lr_el2 := fold (\<lambda>i m. m(i := f i)) xs (ich_lr_el2 h)\<rparr>)"
    if "\<forall>i \<in> set xs. i < NUM_LRS (dist h) \<and> i < 16" for xs
    using that by (induction xs arbitrary: h) (simp_all add: gich_write_lr3_def)
  then show ?thesis using assms by simp
qed

lemma read_lrs:
  assumes "n \<le> NUM_LRS (dist h)" "n \<le> 16"
  shows "fold_res (\<lambda>i st. bindr (gich_read_lr3 h i) (\<lambda>v. Inr (st\<lparr>st_LR := (st_LR st)(i := v)\<rparr>))) [0..<n] st =
    Inr (st\<lparr>st_LR := fold (\<lambda>i m. m(i := ich_lr_el2 h i)) [0..<n] (st_LR st)\<rparr>)"
proof -
  have "fold_res (\<lambda>i st. bindr (gich_read_lr3 h i) (\<lambda>v. Inr (st\<lparr>st_LR := (st_LR st)(i := v)\<rparr>))) xs st =
      Inr (st\<lparr>st_LR := fold (\<lambda>i m. m(i := ich_lr_el2 h i)) xs (st_LR st)\<rparr>)"
    if "\<forall>i \<in> set xs. i < NUM_LRS (dist h) \<and> i < 16" for xs
    using that by (induction xs arbitrary: st) (simp_all add: gich_read_lr3_def)
  then show ?thesis using assms by simp
qed

lemma gicr_init_frame:
  assumes "gicr_init waker cid h = Some h1"
  obtains m where "h1 = h\<lparr>gicr := (gicr h)(cid := m)\<rparr>" "m GICR_ICENABLER0 = - 1" "m GICR_ICPENDR0 = - 1"
    "m GICR_ICACTIVER0 = - 1" "\<forall>i < 8. m (GICR_IPRIORITYR i) = - 1"
proof -
  have off: "GICR_ICENABLER0 \<notin> GICR_IPRIORITYR ` A" "GICR_ICPENDR0 \<notin> GICR_IPRIORITYR ` A"
    "GICR_ICACTIVER0 \<notin> GICR_IPRIORITYR ` A" for A
    by (auto simp: gicr_regs)
  have ne: "GICR_ICENABLER0 \<noteq> GICR_ICPENDR0" "GICR_ICENABLER0 \<noteq> GICR_ICACTIVER0" "GICR_ICPENDR0 \<noteq> GICR_ICACTIVER0"
    by (simp_all add: gicr_regs)
  obtain n where n: "wait_awake waker 0 = Some n" using assms by (auto simp: gicr_init_def bind_eq_Some_conv)
  have eight: "GIC_PRIO_REG 32 = 8" by (simp add: GIC_PRIO_REG_def)
  let ?m = "fold (\<lambda>i m. m(GICR_IPRIORITYR i := - 1)) [0..<8]
    ((gicr h cid)(GICR_WAKER := gicr h cid GICR_WAKER AND NOT GICR_WAKER_ProcessorSleep_BIT, GICR_WAKER := waker n,
      GICR_IGROUPR0 := - 1, GICR_ICENABLER0 := - 1, GICR_ICPENDR0 := - 1, GICR_ICACTIVER0 := - 1))"
  have "h1 = h\<lparr>gicr := (gicr h)(cid := ?m)\<rparr>"
    using assms unfolding gicr_init_def Let_def n Option.bind.simps eight fold_wr_gicr
    by (cases h) (simp add: o_def del: upt_rec_numeral)
  with ne off show ?thesis by (intro that[of ?m]) (simp_all add: fold_wr_const del: upt_rec_numeral)
qed

lemma gicc_init3_runs:
  assumes "gich_num_lrs3 h \<le> NUM_LRS (dist h)" "gich_num_lrs3 h \<le> 16"
  shows "\<exists>h'. gicc_init3 h = Inr h' \<and> (\<forall>i < gich_num_lrs3 h. ich_lr_el2 h' i = 0) \<and> icc_pmr_el1 h' = 0xff \<and>
    icc_igrpen1_el1 h' = 1 \<and> gicr h' = gicr h"
  using assms by (simp add: gicc_init3_def write_lrs Let_def fold_id_upd)

text \<open>C35: the initialisation of a processor returns exactly when the redistributor reports
  at some time that it is awake, provided the processor has as many list registers as the first one
  counted and not more than the sixteen for which there are accessors. Then its list registers are
  empty, no priority is masked, the interface is enabled, and its private interrupts are disabled, not
  pending, not active and of the lowest priority; no other redistributor is touched.\<close>
theorem gic_cpu_init3_ready:
  assumes "NUM_LRS (dist h) = gich_num_lrs3 h" "gich_num_lrs3 h \<le> 16"
  shows "case gic_cpu_init3 waker cid h of
     None \<Rightarrow> \<forall>n. waker n AND GICR_WAKER_ChildrenASleep_BIT \<noteq> 0
   | Some r \<Rightarrow> (\<exists>n. waker n AND GICR_WAKER_ChildrenASleep_BIT = 0) \<and> (\<exists>h'. r = Inr h' \<and>
       (\<forall>i < gich_num_lrs3 h. ich_lr_el2 h' i = 0) \<and> icc_pmr_el1 h' = 0xff \<and> icc_igrpen1_el1 h' = 1 \<and>
       gicr h' cid GICR_ICENABLER0 = - 1 \<and> gicr h' cid GICR_ICPENDR0 = - 1 \<and> gicr h' cid GICR_ICACTIVER0 = - 1 \<and>
       (\<forall>i < 8. gicr h' cid (GICR_IPRIORITYR i) = - 1) \<and> (\<forall>k. k \<noteq> cid \<longrightarrow> gicr h' k = gicr h k))"
proof (cases "gicr_init waker cid h")
  case None
  then have "\<not> (\<exists>k. wait_awake waker 0 = Some k)" by (cases "wait_awake waker 0") (auto simp: gicr_init_def Let_def)
  with None show ?thesis unfolding wait_awake_returns by (simp add: gic_cpu_init3_def)
next
  case (Some h1)
  then have "\<exists>k. wait_awake waker 0 = Some k" by (auto simp: gicr_init_def bind_eq_Some_conv)
  then have awake: "\<exists>n. waker n AND GICR_WAKER_ChildrenASleep_BIT = 0" unfolding wait_awake_returns .
  from gicr_init_frame[OF Some] obtain m where m: "h1 = h\<lparr>gicr := (gicr h)(cid := m)\<rparr>" "m GICR_ICENABLER0 = - 1"
    "m GICR_ICPENDR0 = - 1" "m GICR_ICACTIVER0 = - 1" "\<forall>i < 8. m (GICR_IPRIORITYR i) = - 1" .
  have n: "gich_num_lrs3 h1 = gich_num_lrs3 h" "NUM_LRS (dist h1) = NUM_LRS (dist h)"
    by (simp_all add: m(1) gich_num_lrs3_def)
  from gicc_init3_runs[of h1] n assms obtain h' where "gicc_init3 h1 = Inr h'"
    "\<forall>i < gich_num_lrs3 h. ich_lr_el2 h' i = 0" "icc_pmr_el1 h' = 0xff" "icc_igrpen1_el1 h' = 1"
    "gicr h' = gicr h1" by auto
  with awake m show ?thesis by (simp add: gic_cpu_init3_def Some)
qed

theorem gic_cpu_init3_ready_witness:
  "\<exists>h'. gic_cpu_init3 (\<lambda>n. if n < 2 then 4 else 0) 1 sample_gicv3 = Some (Inr h') \<and>
     gicr h' 1 GICR_ICENABLER0 = - 1 \<and> gicr h' 0 GICR_ICENABLER0 = 0"
proof -
  have n: "gich_num_lrs3 sample_gicv3 = 4"
    by (simp add: gich_num_lrs3_def sample_gicv3_def BIT_MASK_def lsl_def lsr_def size_dec_def)
  moreover have "NUM_LRS (dist sample_gicv3) = 4" by (simp add: sample_gicv3_def sample_gic_def)
  ultimately have pre: "NUM_LRS (dist sample_gicv3) = gich_num_lrs3 sample_gicv3" "gich_num_lrs3 sample_gicv3 \<le> 16" by simp_all
  let ?w = "\<lambda>n :: nat. if n < 2 then 4 else 0 :: u32"
  have "\<not> (\<forall>n. ?w n AND GICR_WAKER_ChildrenASleep_BIT \<noteq> 0)" by (intro notI) (drule spec[of _ 2], simp)
  with gic_cpu_init3_ready[OF pre, of ?w 1] obtain h' where
    "gic_cpu_init3 ?w 1 sample_gicv3 = Some (Inr h')" "gicr h' 1 GICR_ICENABLER0 = - 1"
    "\<forall>k. k \<noteq> 1 \<longrightarrow> gicr h' k = gicr sample_gicv3 k"
    by (cases "gic_cpu_init3 ?w 1 sample_gicv3") (simp_all only: option.case, blast)
  then show ?thesis by (auto simp: sample_gicv3_def)
qed

subsection \<open>Saving and restoring\<close>

lemma save_state3:
  assumes "gich_num_lrs3 h \<le> NUM_LRS (dist h)" "gich_num_lrs3 h \<le> 16"
  obtains st' where "gicc_save_state3 cid h st = Inr st'" "st_PMR st' = ucast (icc_pmr_el1 h)"
    "st_BPR st' = ucast (icc_bpr1_el1 h)" "st_HCR st' = ucast (ich_hcr_el2 h)"
    "st_priv_ISENABLER st' = gicr h cid GICR_ISENABLER0"
    "\<And>i. i < 8 \<Longrightarrow> st_priv_IPRIORITYR st' i = gicr h cid (GICR_IPRIORITYR i)"
    "\<And>i. i < gich_num_lrs3 h \<Longrightarrow> st_LR st' i = ich_lr_el2 h i"
  using assms
  by (simp add: gicc_save_state3_def Let_def read_lrs fold_save_prio fold_id_upd GIC_PRIO_REG_def del: upt_rec_numeral)

lemma restore_state3:
  assumes "gich_num_lrs3 h \<le> NUM_LRS (dist h)" "gich_num_lrs3 h \<le> 16"
  shows "gicc_restore_state3 cid st h = Inr (h\<lparr>icc_sre_el2 := 1, icc_ctlr_el1 := ICC_CTLR_EOIMode_BIT,
      icc_igrpen1_el1 := 1, icc_pmr_el1 := ucast (st_PMR st), icc_bpr1_el1 := ucast (st_BPR st),
      ich_hcr_el2 := ucast (st_HCR st),
      gicr := (gicr h)(cid := fold (\<lambda>i m. m(GICR_IPRIORITYR i := st_priv_IPRIORITYR st i)) [0..<8]
        ((gicr h cid)(GICR_ISENABLER0 := st_priv_ISENABLER st))),
      ich_lr_el2 := fold (\<lambda>i m. m(i := st_LR st i)) [0..<gich_num_lrs3 h] (ich_lr_el2 h)\<rparr>)"
proof -
  have n: "gich_num_lrs3 (h\<lparr>icc_sre_el2 := a, icc_ctlr_el1 := b, icc_igrpen1_el1 := c, icc_pmr_el1 := d,
      icc_bpr1_el1 := e, gicr := g, ich_hcr_el2 := f\<rparr>) = gich_num_lrs3 h" for a b c d e f g
    by (simp add: gich_num_lrs3_def)
  have eight: "GIC_PRIO_REG 32 = 8" by (simp add: GIC_PRIO_REG_def)
  have upd: "gicr_update k x = x\<lparr>gicr := k (gicr x)\<rparr>" for k and x :: gicv3_hw by (cases x) simp
  show ?thesis
    unfolding gicc_restore_state3_def Let_def eight fold_wr_gicr
    by (subst upd, subst upd) (simp add: n write_lrs assms del: upt_rec_numeral)
qed

text \<open>The registers of a redistributor that are saved.\<close>

definition saved_gicr :: "nat set" where
  "saved_gicr = insert GICR_ISENABLER0 (GICR_IPRIORITYR ` {..<8})"

text \<open>Saving the interrupt state of a processor and restoring it later, on whatever the
  registers hold by then, gives back the priority mask and the binary point (their low 32 bits, which
  is all they have), the control register of the virtual interface likewise, the enable word and the
  priorities of the private interrupts and every list register, and changes no other register of any
  redistributor and nothing of the distributor. The system register interface is switched on
  without the bit that lets a guest use it, which \<open>gic_init\<close> had set.\<close>
theorem gicc_state3_roundtrip:
  assumes "NUM_LRS (dist h) = gich_num_lrs3 h" "gich_num_lrs3 h \<le> 16"
    and "NUM_LRS (dist g) = gich_num_lrs3 g" "gich_num_lrs3 g = gich_num_lrs3 h"
  shows "\<exists>st' g'. gicc_save_state3 cid h st = Inr st' \<and> gicc_restore_state3 cid st' g = Inr g' \<and>
    icc_pmr_el1 g' = take_bit 32 (icc_pmr_el1 h) \<and> icc_bpr1_el1 g' = take_bit 32 (icc_bpr1_el1 h) \<and>
    ich_hcr_el2 g' = take_bit 32 (ich_hcr_el2 h) \<and>
    (\<forall>i. ich_lr_el2 g' i = (if i < gich_num_lrs3 h then ich_lr_el2 h i else ich_lr_el2 g i)) \<and>
    (\<forall>k r. gicr g' k r = (if k = cid \<and> r \<in> saved_gicr then gicr h k r else gicr g k r)) \<and>
    dist g' = dist g \<and> irouter g' = irouter g \<and> icc_sre_el2 g' = ICC_SRE_SRE_BIT"
proof -
  obtain st' where sv: "gicc_save_state3 cid h st = Inr st'" and
    f: "st_PMR st' = ucast (icc_pmr_el1 h)" "st_BPR st' = ucast (icc_bpr1_el1 h)" "st_HCR st' = ucast (ich_hcr_el2 h)"
    "st_priv_ISENABLER st' = gicr h cid GICR_ISENABLER0"
    "\<And>i. i < 8 \<Longrightarrow> st_priv_IPRIORITYR st' i = gicr h cid (GICR_IPRIORITYR i)"
    "\<And>i. i < gich_num_lrs3 h \<Longrightarrow> st_LR st' i = ich_lr_el2 h i"
    using save_state3[of h cid st] assms(1,2) by auto
  have uc: "ucast (ucast (w :: u64) :: u32) = take_bit 32 w" for w
    by (rule bit_word_eqI) (auto simp: bit_ucast_iff bit_take_bit_iff)
  have ne: "GICR_ISENABLER0 \<noteq> GICR_IPRIORITYR i" for i by (simp add: gicr_regs)
  have inj: "inv GICR_IPRIORITYR (GICR_IPRIORITYR i) = i" for i by (simp add: inv_f_f)
  have gr: "fold (\<lambda>i m. m(GICR_IPRIORITYR i := st_priv_IPRIORITYR st' i)) [0..<8]
      ((gicr g cid)(GICR_ISENABLER0 := st_priv_ISENABLER st')) r =
      (if r \<in> saved_gicr then gicr h cid r else gicr g cid r)" for r
    using ne by (subst fold_wr_range) (auto simp: saved_gicr_def f inj)
  show ?thesis
    using sv restore_state3[of g cid st'] assms
    by (simp add: f uc gr[unfolded f(4)] fold_id_upd)
qed

theorem gicc_state3_roundtrip_witness:
  "\<exists>st' g'. gicc_save_state3 0 (sample_gicv3\<lparr>ich_lr_el2 := (\<lambda>_. 7)\<rparr>) undefined = Inr st' \<and>
     gicc_restore_state3 0 st' sample_gicv3 = Inr g' \<and> ich_lr_el2 g' 3 = 7 \<and> ich_lr_el2 g' 4 = 0"
proof -
  let ?h = "sample_gicv3\<lparr>ich_lr_el2 := (\<lambda>_. 7)\<rparr>"
  have n: "gich_num_lrs3 ?h = 4" "gich_num_lrs3 sample_gicv3 = 4"
    by (simp_all add: gich_num_lrs3_def sample_gicv3_def BIT_MASK_def lsl_def lsr_def size_dec_def)
  have "NUM_LRS (dist ?h) = 4" "NUM_LRS (dist sample_gicv3) = 4" by (simp_all add: sample_gicv3_def sample_gic_def)
  with gicc_state3_roundtrip[of ?h sample_gicv3 0 undefined] n obtain st' g' where
    "gicc_save_state3 0 ?h undefined = Inr st'" "gicc_restore_state3 0 st' sample_gicv3 = Inr g'"
    "\<forall>i. ich_lr_el2 g' i = (if i < 4 then 7 else ich_lr_el2 sample_gicv3 i)" by auto
  then show ?thesis by (auto simp: sample_gicv3_def)
qed

subsection \<open>Priorities of private interrupts\<close>

definition gicr_prio_field :: "gicv3_hw \<Rightarrow> nat \<Rightarrow> nat \<Rightarrow> u8" where
  "gicr_prio_field h r k = ucast (bit_extract (gicr h r (GICR_IPRIORITYR (k div 4))) (8 * (k mod 4)) 8)"

lemma prio_word_update:
  assumes "w' = (w AND NOT (BIT_MASK (8 * (i mod 4)) 8)) OR (lsl (ucast p) (8 * (i mod 4)) AND BIT_MASK (8 * (i mod 4)) 8)"
    and "k div 4 = i div 4"
  shows "(ucast (bit_extract (w' :: u32) (8 * (k mod 4)) 8) :: u8) =
    (if k = i then p else ucast (bit_extract w (8 * (k mod 4)) 8))"
proof -
  have "k mod 4 = i mod 4 \<longleftrightarrow> k = i" using assms(2) by (metis div_mult_mod_eq)
  moreover have "8 * (i mod 4) + 8 \<le> 32" "8 * (k mod 4) + 8 \<le> 32" by auto
  moreover have "8 * (i mod 4) = 8 * (k mod 4) \<or> 8 * (i mod 4) + 8 \<le> 8 * (k mod 4) \<or> 8 * (k mod 4) + 8 \<le> 8 * (i mod 4)" by auto
  ultimately show ?thesis unfolding assms(1) by (auto simp: field_update ucast_take_bit8)
qed

text \<open>C15: when the redistributors' lock is free, setting the priority of a private interrupt
  returns, stores its byte and leaves the priorities of
  the other interrupts in this and every other redistributor as they were. Reading it back has the same
  flaw as in the distributor: the field is masked at its offset after it was shifted down,
  so only interrupts whose number is a multiple of four read the priority and all others read 0.\<close>
theorem gicr_set_get_prio:
  assumes "ticket (gicr_lk h) = next_tk (gicr_lk h)"
  shows "\<exists>h' h''. gicr_set_prio i p r h = Inr h' \<and>
    (\<forall>r' k. gicr_prio_field h' r' k = (if r' = r \<and> k = i then p else gicr_prio_field h r' k)) \<and>
    gicr_get_prio i r h' = Inr (if i mod 4 = 0 then p else 0, h'')"
proof -
  let ?w = "gicr h r (GICR_IPRIORITYR (i div 4))"
  let ?v = "(?w AND NOT (BIT_MASK (8 * (i mod 4)) 8)) OR (lsl (ucast p) (8 * (i mod 4)) AND BIT_MASK (8 * (i mod 4)) 8)"
  obtain h' where run: "gicr_set_prio i p r h = Inr h'"
    and g: "gicr h' = (gicr h)(r := (gicr h r)(GICR_IPRIORITYR (i div 4) := ?v))"
    and lk: "ticket (gicr_lk h') = next_tk (gicr_lk h')"
    using assms by (auto simp: gicr_set_prio_def with_gicr_lock_free prio_reg_off Let_def spin_unlock_def)
  have field: "gicr_prio_field h' r' k = (if r' = r \<and> k = i then p else gicr_prio_field h r' k)" for r' k
    using prio_word_update[OF refl, of k i ?w p]
    by (cases "k div 4 = i div 4") (auto simp: gicr_prio_field_def g gicr_regs)
  have "ucast (lsr (gicr h' r (GICR_IPRIORITYR (i div 4))) (8 * (i mod 4)) AND BIT_MASK (8 * (i mod 4)) 8) =
      (if i mod 4 = 0 then gicr_prio_field h' r i else 0)"
    unfolding gicr_prio_field_def by (subst get_prio_field) simp_all
  with field[of r i] have "\<exists>h''. gicr_get_prio i r h' = Inr (if i mod 4 = 0 then p else 0, h'')"
    by (simp add: gicr_get_prio_def prio_reg_off Let_def with_gicr_lock_free[OF lk])
  with run field show ?thesis by blast
qed

theorem gicr_set_get_prio_witness:
  "\<exists>h' h''. gicr_set_prio 27 0xA0 1 sample_gicv3 = Inr h' \<and> gicr_prio_field h' 1 27 = 0xA0 \<and>
     gicr_get_prio 27 1 h' = Inr (0, h'')"
proof -
  have "ticket (gicr_lk sample_gicv3) = next_tk (gicr_lk sample_gicv3)"
    by (simp add: sample_gicv3_def SPINLOCK_INITVAL_def)
  from gicr_set_get_prio[OF this, of 27 "0xA0" 1] show ?thesis by auto
qed

end
