(* ===== verification/Vgicv3.thy ===== *)
theory Vgicv3
  imports Gicv3 Vgic_Inv
begin

text \<open>
  The virtual interrupt controller in its GICv3 configuration: \<open>vgicv3.c\<close>, \<open>vgicv3.h\<close>, and
  \<open>vgic.c\<close> as it is compiled for version 3, up to the messages between processors (the maintenance
  handler with its loops has no part that depends on the version and is in \<open>Vgic_Regs\<close>). The state
  follows theory \<open>Vgic\<close>: a pointer to an interrupt is the address of its list node, \<open>g3_ints\<close>
  is the memory of the interrupts and \<open>g3_heap\<close> that of the list pointers. New are the routes of
  interrupts, the emulated redistributors and the emulated system registers. \<open>g3_mpidr\<close> is what the
  processor reads from \<open>MPIDR_EL1\<close>, and \<open>g3_dev\<close> the device as in theory \<open>Vgic\<close>.
\<close>

unbundle bit_operations_syntax

subsection \<open>State\<close>

text \<open>\<open>wi_phys\<close> is the union of \<open>phys.redist\<close> and \<open>phys.route\<close>.\<close>

record vgic_int3 =
  wi_owner :: "nat option"
  wi_route :: u64
  wi_phys :: u64
  wi_lock :: spinlock
  wi_id :: nat
  wi_state :: u8
  wi_prio :: u8
  wi_cfg :: u8
  wi_lr :: u8
  wi_hw :: bool
  wi_in_lr :: bool
  wi_enabled :: bool

record vgicr =
  vr_lock :: spinlock
  vr_TYPER :: u64
  vr_CTLR :: u32
  vr_IIDR :: u32

datatype emul_handler3 = H_vgicd_emul3 | H_vgicr_emul | H_icc_sgir | H_icc_sre

record vgic_sys3 =
  g3_hw :: gicv3_hw
  g3_dev :: "gicv3_hw \<Rightarrow> gicv3_hw"
  g3_mpidr :: u64
  g3_msg :: msg_sys
  g3_ipi_id :: u32
  g3_cpu_num :: nat
  g3_cpu :: nat
  g3_vcpu :: nat
  g3_vm :: vm
  g3_vgicd :: vgicd
  g3_vgicr_addr :: u64
  g3_vgicr :: "nat \<Rightarrow> vgicr"
  g3_priv :: "nat \<Rightarrow> node"
  g3_curr_lrs :: "nat \<Rightarrow> nat \<Rightarrow> nat"
  g3_ints :: "node \<Rightarrow> vgic_int3"
  g3_heap :: lheap
  g3_spilled :: "nat \<Rightarrow> node"
  g3_vm_spilled :: node
  g3_spilled_lock :: spinlock
  g3_emul_list :: node
  g3_reg_list :: node
  g3_vgicd_emul :: node
  g3_vgicr_emul :: node
  g3_icc_sgir_emul :: node
  g3_icc_sre_emul :: node
  g3_emuls :: "node \<Rightarrow> emul_handler3 emul_mem"
  g3_emul_regs :: "node \<Rightarrow> emul_handler3 emul_reg"

text \<open>\<open>sizeof(struct vgic_int)\<close> with the two routes and without the SGI bytes\<close>

abbreviation VGIC_INT3_SIZE :: u64 where "VGIC_INT3_SIZE \<equiv> 64"

abbreviation upd_int3 :: "node \<Rightarrow> (vgic_int3 \<Rightarrow> vgic_int3) \<Rightarrow> vgic_sys3 \<Rightarrow> vgic_sys3" where
  "upd_int3 p f s \<equiv> g3_ints_update (\<lambda>m. m(p := f (m p))) s"

abbreviation p_id_of3 :: "vgic_sys3 \<Rightarrow> nat \<Rightarrow> nat" where
  "p_id_of3 s v \<equiv> v_p_id (vm_vcpus (g3_vm s) v)"

text \<open>As for the GICv2: the address 0 is no interrupt.\<close>

definition load_int3 :: "node \<Rightarrow> vgic_sys3 \<Rightarrow> vgic_int3 res" where
  "load_int3 p s = (if p = 0 then Inl Bad_Access else Inr (g3_ints s p))"

definition lock_int3 :: "node \<Rightarrow> vgic_sys3 \<Rightarrow> vgic_sys3 res" where
  "lock_int3 p s =
     (if p = 0 then Inl Bad_Access
      else bindr (spin_lock (wi_lock (g3_ints s p))) (\<lambda>l. Inr (upd_int3 p (wi_lock_update (\<lambda>_. l)) s)))"

definition unlock_int3 :: "node \<Rightarrow> vgic_sys3 \<Rightarrow> vgic_sys3" where
  "unlock_int3 p s = upd_int3 p (wi_lock_update spin_unlock) s"

definition cur_readreg3 :: "vgic_sys3 \<Rightarrow> u64 \<Rightarrow> u64" where
  "cur_readreg3 s reg = vcpu_readreg (vm_vcpus (g3_vm s) (g3_vcpu s)) reg"

definition cur_writereg3 :: "u64 \<Rightarrow> u64 \<Rightarrow> vgic_sys3 \<Rightarrow> vgic_sys3" where
  "cur_writereg3 reg val s =
     s\<lparr>g3_vm := (g3_vm s)\<lparr>vm_vcpus := (vm_vcpus (g3_vm s))
        (g3_vcpu s := vcpu_writereg reg val (vm_vcpus (g3_vm s) (g3_vcpu s)))\<rparr>\<rparr>"

definition vgic_msg3 :: "vgic_sys3 \<Rightarrow> vgic_event \<Rightarrow> u64 \<Rightarrow> cpu_msg" where
  "vgic_msg3 s ev d = \<lparr>cm_handler = g3_ipi_id s, cm_event = event_num ev, cm_data = d\<rparr>"

definition send_msg3 :: "nat \<Rightarrow> cpu_msg \<Rightarrow> vgic_sys3 \<Rightarrow> vgic_sys3 res" where
  "send_msg3 trgt msg s = bindr (cpu_send_msg trgt msg (g3_msg s)) (\<lambda>m. Inr (s\<lparr>g3_msg := m\<rparr>))"

definition send_to_mask3 :: "u64 \<Rightarrow> cpu_msg \<Rightarrow> vgic_sys3 \<Rightarrow> vgic_sys3 res" where
  "send_to_mask3 msk msg s =
     fold_res (\<lambda>i s. if msk AND lsl 1 i \<noteq> 0 then send_msg3 i msg s else Inr s) [0..<g3_cpu_num s] s"

subsection \<open>Interrupts, their state and their owner\<close>

definition vgic_get_int3 :: "vgic_sys3 \<Rightarrow> nat \<Rightarrow> nat \<Rightarrow> nat \<Rightarrow> node res" where
  "vgic_get_int3 s vcpu int_id vgicr_id =
     (if int_id < GIC_CPU_PRIV then
        (case (if vgicr_id = vcpu then Some vcpu else vm_get_vcpu (g3_vm s) vgicr_id) of
           None \<Rightarrow> Inl Bad_Access
         | Some target_vcpu \<Rightarrow> Inr (g3_priv s target_vcpu + VGIC_INT3_SIZE * word_of_nat int_id))
      else if int_id < vd_int_num (g3_vgicd s)
      then Inr (vd_interrupts (g3_vgicd s) + VGIC_INT3_SIZE * word_of_nat (int_id - GIC_CPU_PRIV))
      else Inr 0)"

definition vgic_int_is_hw3 :: "vgic_int3 \<Rightarrow> bool" where
  "vgic_int_is_hw3 interrupt \<longleftrightarrow> \<not> wi_id interrupt < GIC_MAX_SGIS \<and> wi_hw interrupt"

definition LR3_VID :: "u64 \<Rightarrow> u64" where "LR3_VID lr = bit_extract lr 0 32"
definition LR3_STATE :: "u64 \<Rightarrow> u64" where "LR3_STATE lr = bit_extract lr 62 2"
definition LR3_STATE_MSK :: u64 where "LR3_STATE_MSK = BIT_MASK 62 2"
definition LR3_STATE_PND :: u64 where "LR3_STATE_PND = lsl 1 62 AND LR3_STATE_MSK"
definition LR3_STATE_ACT :: u64 where "LR3_STATE_ACT = lsl 2 62 AND LR3_STATE_MSK"
definition LR3_PRIO_MSK :: u64 where "LR3_PRIO_MSK = BIT_MASK 48 8"
definition LR3_PID_MSK :: u64 where "LR3_PID_MSK = BIT_MASK 32 10"
definition LR3_VID_MSK :: u64 where "LR3_VID_MSK = BIT_MASK 0 32"
definition LR3_GRP_BIT :: u64 where "LR3_GRP_BIT = lsl 1 60"
definition LR3_HW_BIT :: u64 where "LR3_HW_BIT = lsl 1 61"
definition LR3_EOI_BIT :: u64 where "LR3_EOI_BIT = lsl 1 41"

definition gich_get_lr3 :: "vgic_sys3 \<Rightarrow> vgic_int3 \<Rightarrow> (nat \<times> u64) option res" where
  "gich_get_lr3 s interrupt =
     (if \<not> wi_in_lr interrupt then Inr None
      else case wi_owner interrupt of
        None \<Rightarrow> Inl Bad_Access
      | Some v \<Rightarrow>
          if p_id_of3 s v \<noteq> g3_cpu s then Inr None
          else bindr (gich_read_lr3 (g3_hw s) (unat (wi_lr interrupt))) (\<lambda>lr_val.
            if unat (LR3_VID lr_val) = wi_id interrupt \<and> LR3_STATE lr_val \<noteq> 0
            then Inr (Some (unat (wi_lr interrupt), lr_val)) else Inr None))"

definition vgic_get_state3 :: "vgic_sys3 \<Rightarrow> vgic_int3 \<Rightarrow> u8 res" where
  "vgic_get_state3 s interrupt =
     bindr (gich_get_lr3 s interrupt) (\<lambda>r.
       Inr (case r of Some (_, lr_val) \<Rightarrow> ucast (LR3_STATE lr_val) | None \<Rightarrow> wi_state interrupt))"

definition vgic_get_ownership3 :: "nat \<Rightarrow> node \<Rightarrow> vgic_sys3 \<Rightarrow> bool \<times> vgic_sys3" where
  "vgic_get_ownership3 vcpu p s =
     (if wi_owner (g3_ints s p) = Some vcpu then (True, s)
      else if wi_owner (g3_ints s p) = None
      then (True, upd_int3 p (wi_owner_update (\<lambda>_. Some vcpu)) s)
      else (False, s))"

definition vgic_owns3 :: "nat \<Rightarrow> vgic_int3 \<Rightarrow> bool" where
  "vgic_owns3 vcpu interrupt \<longleftrightarrow> wi_owner interrupt = Some vcpu"

definition vgic_yield_ownership3 :: "nat \<Rightarrow> node \<Rightarrow> vgic_sys3 \<Rightarrow> vgic_sys3 res" where
  "vgic_yield_ownership3 vcpu p s =
     (let interrupt = g3_ints s p
      in if \<not> vgic_owns3 vcpu interrupt \<or> wi_in_lr interrupt then Inr s
         else bindr (vgic_get_state3 s interrupt) (\<lambda>state.
           if state AND ACT \<noteq> 0 then Inr s
           else Inr (upd_int3 p (wi_owner_update (\<lambda>_. None)) s)))"

subsection \<open>Routes\<close>

definition vgic_broadcast :: "vgic_int3 \<Rightarrow> bool" where
  "vgic_broadcast interrupt \<longleftrightarrow> wi_route interrupt AND GICD_IROUTER_IRM_BIT \<noteq> 0"

definition vgic_int_vcpu_is_target3 :: "vgic_sys3 \<Rightarrow> nat \<Rightarrow> vgic_int3 \<Rightarrow> bool" where
  "vgic_int_vcpu_is_target3 s vcpu interrupt \<longleftrightarrow>
     (let priv = gic_is_priv (wi_id interrupt);
          local = (priv \<and> wi_phys interrupt = word_of_nat (p_id_of3 s vcpu));
          routed_here = (\<not> priv \<and> wi_phys interrupt XOR (g3_mpidr s AND MPIDR_AFF_MSK) = 0);
          any = (\<not> priv \<and> vgic_broadcast interrupt)
      in local \<or> routed_here \<or> any)"

definition vgic_int_has_other_target3 :: "vgic_sys3 \<Rightarrow> vgic_int3 \<Rightarrow> bool" where
  "vgic_int_has_other_target3 s interrupt \<longleftrightarrow>
     (let priv = gic_is_priv (wi_id interrupt);
          routed_here = (\<not> priv \<and> wi_phys interrupt XOR (g3_mpidr s AND MPIDR_AFF_MSK) = 0);
          route_valid = (wi_phys interrupt \<noteq> GICD_IROUTER_INV);
          any = (\<not> priv \<and> vgic_broadcast interrupt)
      in any \<or> \<not> routed_here \<and> route_valid)"

definition vgic_int_ptarget_mask3 :: "vgic_sys3 \<Rightarrow> vgic_int3 \<Rightarrow> u8" where
  "vgic_int_ptarget_mask3 s interrupt =
     (if vgic_broadcast interrupt
      then ucast (vm_cpus (g3_vm s) AND ucast (NOT (lsl (1 :: u32) (p_id_of3 s (g3_vcpu s)))))
      else ucast (lsl (1 :: u32) (unat (wi_phys interrupt))))"

definition vgic_int_set_route :: "vm \<Rightarrow> nat \<Rightarrow> u64 \<Rightarrow> vgic_int3 \<Rightarrow> bool \<times> vgic_int3" where
  "vgic_int_set_route vm vcpu route i =
     (if gic_is_priv (wi_id i) then (False, i)
      else
        let prev_route = wi_route i;
            phys_route =
              (if route AND GICD_IROUTER_IRM_BIT \<noteq> 0 then cpu_id_to_mpidr (v_p_id (vm_vcpus vm vcpu))
               else case vm_get_vcpu_by_mpidr vm (route AND MPIDR_AFF_MSK) of
                 Some tvcpu \<Rightarrow> cpu_id_to_mpidr (v_p_id (vm_vcpus vm tvcpu)) AND MPIDR_AFF_MSK
               | None \<Rightarrow> GICD_IROUTER_INV);
            i = i\<lparr>wi_phys := phys_route\<rparr>;
            i = i\<lparr>wi_route := route AND GICD_IROUTER_RES0_MSK\<rparr>
        in (prev_route \<noteq> wi_route i, i))"

definition vgic_int_get_route :: "vgic_int3 \<Rightarrow> u64" where
  "vgic_int_get_route i = (if gic_is_priv (wi_id i) then 0 else wi_route i)"

definition vgic_int_set_route_hw :: "vgic_int3 \<Rightarrow> gicv3_hw \<Rightarrow> gicv3_hw res" where
  "vgic_int_set_route_hw i h = gicd_set_route (wi_id i) (wi_phys i) h"

definition vgic_send_sgi_msg3 :: "u64 \<Rightarrow> u64 \<Rightarrow> vgic_sys3 \<Rightarrow> vgic_sys3 res" where
  "vgic_send_sgi_msg3 pcpu_mask int_id s =
     send_to_mask3 pcpu_mask (vgic_msg3 s VGIC_INJECT
       (VGIC_MSG_DATA (vm_id (g3_vm s)) 0 int_id 0 (word_of_nat (g3_vcpu s)))) s"

subsection \<open>List registers\<close>

definition release_prev_lr3 :: "nat \<Rightarrow> node \<Rightarrow> nat \<Rightarrow> vgic_sys3 \<Rightarrow> vgic_sys3 res" where
  "release_prev_lr3 vcpu p lr_ind s =
     (let prev_int_id = g3_curr_lrs s vcpu lr_ind
      in if prev_int_id \<noteq> wi_id (g3_ints s p) \<and> \<not> gic_is_priv prev_int_id
         then bindr (vgic_get_int3 s vcpu prev_int_id vcpu) (\<lambda>prev.
           if prev \<noteq> 0 then
             bindr (lock_int3 prev s) (\<lambda>s.
             bindr (if vgic_owns3 vcpu (g3_ints s prev) \<and> wi_in_lr (g3_ints s prev) \<and>
                       unat (wi_lr (g3_ints s prev)) = lr_ind
                    then vgic_yield_ownership3 vcpu prev (upd_int3 prev (wi_in_lr_update (\<lambda>_. False)) s)
                    else Inr s) (\<lambda>s.
             Inr (unlock_int3 prev s)))
           else Inr s)
         else Inr s)"

definition lr_value3 :: "vgic_int3 \<Rightarrow> u8 \<Rightarrow> u64" where
  "lr_value3 interrupt state =
     (let lr = lsl (word_of_nat (wi_id interrupt)) 0 AND LR3_VID_MSK;
          lr = lr OR ((lsl (ucast (wi_prio interrupt)) 48 AND LR3_PRIO_MSK) OR LR3_GRP_BIT)
      in if vgic_int_is_hw3 interrupt then
           let lr = lr OR LR3_HW_BIT;
               lr = lr OR (lsl (word_of_nat (wi_id interrupt)) 32 AND LR3_PID_MSK)
           in if state = PENDACT then lr OR LR3_STATE_ACT
              else lr OR (lsl (ucast state) 62 AND LR3_STATE_MSK)
         else
           let lr = (if \<not> gic_is_priv (wi_id interrupt) \<and> \<not> vgic_int_is_hw3 interrupt
                     then lr OR LR3_EOI_BIT else lr)
           in lr OR (lsl (ucast state) 62 AND LR3_STATE_MSK))"

definition vgic_write_lr3 :: "nat \<Rightarrow> node \<Rightarrow> nat \<Rightarrow> vgic_sys3 \<Rightarrow> vgic_sys3 res" where
  "vgic_write_lr3 vcpu p lr_ind s =
     bindr (release_prev_lr3 vcpu p lr_ind s) (\<lambda>s.
     bindr (vgic_get_state3 s (g3_ints s p)) (\<lambda>state.
       let lr = lr_value3 (g3_ints s p) state;
           s = upd_int3 p (\<lambda>i. i\<lparr>wi_state := 0, wi_in_lr := True, wi_lr := word_of_nat lr_ind\<rparr>) s;
           s = s\<lparr>g3_curr_lrs := (g3_curr_lrs s)(vcpu := (g3_curr_lrs s vcpu)(lr_ind := wi_id (g3_ints s p)))\<rparr>
       in bindr (gich_write_lr3 lr_ind lr (g3_hw s)) (\<lambda>h. Inr (s\<lparr>g3_hw := h\<rparr>))))"

definition vgic_remove_lr3 :: "nat \<Rightarrow> node \<Rightarrow> vgic_sys3 \<Rightarrow> (bool \<times> vgic_sys3) res" where
  "vgic_remove_lr3 vcpu p s =
     (if \<not> vgic_owns3 vcpu (g3_ints s p) \<or> \<not> wi_in_lr (g3_ints s p) then Inr (False, s)
      else
        bindr (gich_get_lr3 s (g3_ints s p)) (\<lambda>r.
        bindr (case r of None \<Rightarrow> Inr (g3_hw s) | Some (lr_ind, _) \<Rightarrow> gich_write_lr3 lr_ind 0 (g3_hw s)) (\<lambda>h.
          let lr_val = (case r of None \<Rightarrow> 0 | Some (_, v) \<Rightarrow> v);
              s = upd_int3 p (wi_in_lr_update (\<lambda>_. False)) (s\<lparr>g3_hw := h\<rparr>)
          in if LR3_STATE lr_val \<noteq> 0 then
               let st = ucast (LR3_STATE lr_val);
                   s = upd_int3 p (wi_state_update (\<lambda>_. st)) s;
                   hcr = gich_get_hcr3 (g3_hw s);
                   hcr = (if st AND PEND \<noteq> 0 \<and> wi_enabled (g3_ints s p)
                          then hcr OR GICH_HCR_NPIE_BIT else hcr)
               in Inr (True, s\<lparr>g3_hw := gich_set_hcr3 (hcr OR GICH_HCR_UIE_BIT) (g3_hw s)\<rparr>)
             else Inr (False, s))))"

definition vgic_add_spilled3 :: "nat \<Rightarrow> node \<Rightarrow> vgic_sys3 \<Rightarrow> vgic_sys3 res" where
  "vgic_add_spilled3 vcpu p s =
     bindr (spin_lock (g3_spilled_lock s)) (\<lambda>l.
       let spilled_list = (if gic_is_priv (wi_id (g3_ints s p)) then g3_spilled s vcpu else g3_vm_spilled s);
           s = s\<lparr>g3_heap := list_add_tail p spilled_list (g3_heap s), g3_spilled_lock := spin_unlock l\<rparr>
       in Inr (s\<lparr>g3_hw := gich_set_hcr3 (gich_get_hcr3 (g3_hw s) OR GICH_HCR_NPIE_BIT) (g3_hw s)\<rparr>))"

definition vgic_spill_lr3 :: "nat \<Rightarrow> nat \<Rightarrow> vgic_sys3 \<Rightarrow> vgic_sys3 res" where
  "vgic_spill_lr3 vcpu lr_ind s =
     bindr (gich_read_lr3 (g3_hw s) lr_ind) (\<lambda>lr.
     bindr (vgic_get_int3 s vcpu (unat (LR3_VID lr)) vcpu) (\<lambda>p.
       if p \<noteq> 0 then
         bindr (lock_int3 p s) (\<lambda>s.
         bindr (vgic_remove_lr3 vcpu p s) (\<lambda>(_, s).
         bindr (vgic_add_spilled3 vcpu p s) (\<lambda>s.
         bindr (vgic_yield_ownership3 vcpu p s) (\<lambda>s.
         Inr (unlock_int3 p s)))))
       else Inr s))"

text \<open>\<open>lr_state\<close>, \<open>lr_prio\<close> and \<open>lr_id\<close> are of type \<open>unsigned\<close>, 32 bits.\<close>

definition scan_lr3 :: "gicv3_hw \<Rightarrow> nat \<Rightarrow> lr_scan \<Rightarrow> lr_scan res" where
  "scan_lr3 h i c =
     bindr (gich_read_lr3 h i) (\<lambda>lr.
       let lr_id = unat (ucast (LR3_VID lr) :: u32);
           lr_prio = unat (ucast (lsr (lr AND LR3_PRIO_MSK) 48) :: u32);
           lr_state = (ucast (lr AND LR3_STATE_MSK) :: u32)
       in Inr (if ucast lr_state AND LR3_STATE_ACT \<noteq> 0 then
           (if lr_prio > min_prio_act c \<or> lr_prio = min_prio_act c \<and> lr_id > min_id_act c
            then c\<lparr>min_id_act := lr_id, min_prio_act := lr_prio, act_ind := Some i\<rparr> else c)
             \<lparr>act_found := act_found c + 1\<rparr>
         else if ucast lr_state AND LR3_STATE_PND \<noteq> 0 then
           (if lr_prio > min_prio_pend c \<or> lr_prio = min_prio_pend c \<and> lr_id > min_id_pend c
            then c\<lparr>min_id_pend := lr_id, min_prio_pend := lr_prio, pend_ind := Some i\<rparr> else c)
             \<lparr>pend_found := pend_found c + 1\<rparr>
         else c))"

definition scan_start3 :: "vgic_int3 \<Rightarrow> lr_scan" where
  "scan_start3 interrupt =
     \<lparr>min_prio_pend = unat (wi_prio interrupt), min_prio_act = unat (wi_prio interrupt),
      min_id_act = wi_id interrupt, min_id_pend = wi_id interrupt, pend_found = 0, act_found = 0,
      pend_ind = None, act_ind = None\<rparr>"

definition victim_lr3 :: "gicv3_hw \<Rightarrow> vgic_int3 \<Rightarrow> nat option res" where
  "victim_lr3 h interrupt =
     bindr (fold_res (scan_lr3 h) [0..<NUM_LRS (dist h)] (scan_start3 interrupt)) (\<lambda>c.
       Inr (if pend_found c > 1 then pend_ind c else act_ind c))"

definition vgic_add_lr3 :: "nat \<Rightarrow> node \<Rightarrow> vgic_sys3 \<Rightarrow> (bool \<times> vgic_sys3) res" where
  "vgic_add_lr3 vcpu p s =
     (let interrupt = g3_ints s p
      in if \<not> wi_enabled interrupt \<or> wi_in_lr interrupt then Inr (False, s)
         else
           let elrsr = gich_get_elrsr3 (g3_dev s (g3_hw s))
           in bindr (case free_lr (dist (g3_hw s)) elrsr of
                  Some i \<Rightarrow> Inr (Some i, s)
                | None \<Rightarrow>
                    bindr (victim_lr3 (g3_hw s) interrupt) (\<lambda>lr_ind.
                      case lr_ind of
                        None \<Rightarrow> Inr (None, s)
                      | Some i \<Rightarrow> bindr (vgic_spill_lr3 vcpu i s) (\<lambda>s. Inr (Some i, s))))
              (\<lambda>(lr_ind, s).
                case lr_ind of
                  Some i \<Rightarrow> bindr (vgic_write_lr3 vcpu p i s) (\<lambda>s. Inr (True, s))
                | None \<Rightarrow> bindr (vgic_add_spilled3 vcpu p s) (\<lambda>s. Inr (False, s))))"

definition vgic_route3 :: "nat \<Rightarrow> node \<Rightarrow> vgic_sys3 \<Rightarrow> vgic_sys3 res" where
  "vgic_route3 vcpu p s =
     (if wi_state (g3_ints s p) = INV \<or> \<not> wi_enabled (g3_ints s p) then Inr s
      else
        bindr (if vgic_int_vcpu_is_target3 s vcpu (g3_ints s p)
               then bindr (vgic_add_lr3 vcpu p s) (\<lambda>(_, s). Inr s) else Inr s) (\<lambda>s.
          if \<not> wi_in_lr (g3_ints s p) \<and> vgic_int_has_other_target3 s (g3_ints s p) then
            let msg = vgic_msg3 s VGIC_ROUTE (VGIC_MSG_DATA (vm_id (g3_vm s)) (word_of_nat vcpu)
                        (word_of_nat (wi_id (g3_ints s p))) 0 0)
            in bindr (vgic_yield_ownership3 vcpu p s) (\<lambda>s.
                 let trgtlist = ucast (vgic_int_ptarget_mask3 s (g3_ints s p)) AND NOT (lsl 1 (p_id_of3 s vcpu))
                 in send_to_mask3 trgtlist msg s)
          else Inr s))"

subsection \<open>Fields of an interrupt\<close>

definition vgic_int_update_enable3 :: "bool \<Rightarrow> vgic_int3 \<Rightarrow> bool \<times> vgic_int3" where
  "vgic_int_update_enable3 enable i =
     (if enable \<noteq> wi_enabled i then (True, i\<lparr>wi_enabled := enable\<rparr>) else (False, i))"

definition vgic_int_clear_enable3 :: "u64 \<Rightarrow> vgic_int3 \<Rightarrow> bool \<times> vgic_int3" where
  "vgic_int_clear_enable3 data i = (if data = 0 then (False, i) else vgic_int_update_enable3 False i)"

definition vgic_int_set_enable3 :: "u64 \<Rightarrow> vgic_int3 \<Rightarrow> bool \<times> vgic_int3" where
  "vgic_int_set_enable3 data i = (if data = 0 then (False, i) else vgic_int_update_enable3 True i)"

definition vgic_int_get_enable3 :: "vgic_int3 \<Rightarrow> u64" where
  "vgic_int_get_enable3 i = of_bool (wi_enabled i)"

definition vgic_int_update_pend3 :: "bool \<Rightarrow> vgic_int3 \<Rightarrow> bool \<times> vgic_int3" where
  "vgic_int_update_pend3 pend i =
     (if pend \<noteq> (wi_state i AND PEND \<noteq> 0)
      then (True, i\<lparr>wi_state := (if pend then wi_state i OR PEND else wi_state i AND NOT PEND)\<rparr>)
      else (False, i))"

definition vgic_int_clear_pend3 :: "u64 \<Rightarrow> vgic_int3 \<Rightarrow> bool \<times> vgic_int3" where
  "vgic_int_clear_pend3 data i = (if data = 0 then (False, i) else vgic_int_update_pend3 False i)"

definition vgic_int_set_pend3 :: "u64 \<Rightarrow> vgic_int3 \<Rightarrow> bool \<times> vgic_int3" where
  "vgic_int_set_pend3 data i = (if data = 0 then (False, i) else vgic_int_update_pend3 True i)"

definition vgic_int_get_pend3 :: "vgic_int3 \<Rightarrow> u64" where
  "vgic_int_get_pend3 i = (if wi_state i AND PEND \<noteq> 0 then 1 else 0)"

definition vgic_int_update_act3 :: "bool \<Rightarrow> vgic_int3 \<Rightarrow> bool \<times> vgic_int3" where
  "vgic_int_update_act3 act i =
     (if act \<noteq> (wi_state i AND ACT \<noteq> 0)
      then (True, i\<lparr>wi_state := (if act then wi_state i OR ACT else wi_state i AND NOT ACT)\<rparr>)
      else (False, i))"

definition vgic_int_clear_act3 :: "u64 \<Rightarrow> vgic_int3 \<Rightarrow> bool \<times> vgic_int3" where
  "vgic_int_clear_act3 data i = (if data = 0 then (False, i) else vgic_int_update_act3 False i)"

definition vgic_int_set_act3 :: "u64 \<Rightarrow> vgic_int3 \<Rightarrow> bool \<times> vgic_int3" where
  "vgic_int_set_act3 data i = (if data = 0 then (False, i) else vgic_int_update_act3 True i)"

definition vgic_int_get_act3 :: "vgic_int3 \<Rightarrow> u64" where
  "vgic_int_get_act3 i = (if wi_state i AND ACT \<noteq> 0 then 1 else 0)"

definition vgic_int_set_cfg3 :: "u64 \<Rightarrow> vgic_int3 \<Rightarrow> bool \<times> vgic_int3" where
  "vgic_int_set_cfg3 cfg i = (ucast (wi_cfg i) \<noteq> cfg, i\<lparr>wi_cfg := ucast cfg\<rparr>)"

definition vgic_int_get_cfg3 :: "vgic_int3 \<Rightarrow> u64" where
  "vgic_int_get_cfg3 i = ucast (wi_cfg i)"

definition vgic_int_set_prio3 :: "u64 \<Rightarrow> vgic_int3 \<Rightarrow> bool \<times> vgic_int3" where
  "vgic_int_set_prio3 prio i =
     (ucast (wi_prio i) \<noteq> prio, i\<lparr>wi_prio := ucast prio AND ucast (BIT_MASK (8 - 8) 8 :: u64)\<rparr>)"

definition vgic_int_get_prio3 :: "vgic_int3 \<Rightarrow> u64" where
  "vgic_int_get_prio3 i = ucast (wi_prio i)"

definition redist :: "vgic_int3 \<Rightarrow> nat" where "redist i = unat (wi_phys i)"

definition vgic_int_enable_hw3 :: "vgic_int3 \<Rightarrow> gicv3_hw \<Rightarrow> gicv3_hw res" where
  "vgic_int_enable_hw3 i h =
     (if gic_is_priv (wi_id i) then gicr_set_enable (wi_id i) (wi_enabled i) (redist i) h
      else on_dist (\<lambda>d. Inr (gicd_set_enable (wi_id i) (wi_enabled i) d)) h)"

definition vgic_int_state_hw3 :: "vgic_int3 \<Rightarrow> gicv3_hw \<Rightarrow> gicv3_hw res" where
  "vgic_int_state_hw3 i h =
     (let state = (if wi_state i = PEND then ACT else wi_state i);
          pend = state AND PEND \<noteq> 0;
          act = state AND ACT \<noteq> 0
      in if gic_is_priv (wi_id i)
         then bindr (gicr_set_act (wi_id i) act (redist i) h) (gicr_set_pend (wi_id i) pend (redist i))
         else on_dist (\<lambda>d. Inr (gicd_set_pend (wi_id i) pend (gicd_set_act (wi_id i) act d))) h)"

definition vgic_int_set_cfg_hw3 :: "vgic_int3 \<Rightarrow> gicv3_hw \<Rightarrow> gicv3_hw res" where
  "vgic_int_set_cfg_hw3 i h =
     (if gic_is_priv (wi_id i) then gicr_set_icfgr (wi_id i) (wi_cfg i) (redist i) h
      else on_dist (gicd_set_icfgr (wi_id i) (wi_cfg i)) h)"

definition vgic_int_set_prio_hw3 :: "vgic_int3 \<Rightarrow> gicv3_hw \<Rightarrow> gicv3_hw res" where
  "vgic_int_set_prio_hw3 i h =
     (if gic_is_priv (wi_id i) then gicr_set_prio (wi_id i) (wi_prio i) (redist i) h
      else on_dist (gicd_set_prio (wi_id i) (wi_prio i)) h)"

subsection \<open>Register handlers\<close>

datatype reg_access3 = Generic3 | Misc3 | Pidr3 | Razwi3 | Router3 | Vgicr_Ctrl | Vgicr_Typer | Vgicr_Pidr

record reg_info3 =
  reg_access3 :: reg_access3
  alignment3 :: nat
  regid3 :: nat
  regroup_base3 :: nat
  field_width3 :: nat
  read_field3 :: "vgic_int3 \<Rightarrow> u64"
  update_field3 :: "vm \<Rightarrow> nat \<Rightarrow> u64 \<Rightarrow> vgic_int3 \<Rightarrow> bool \<times> vgic_int3"
  update_hw3 :: "vgic_int3 \<Rightarrow> gicv3_hw \<Rightarrow> gicv3_hw res"

definition plain_info3 :: "reg_access3 \<Rightarrow> nat \<Rightarrow> reg_info3" where
  "plain_info3 a al = \<lparr>reg_access3 = a, alignment3 = al, regid3 = 0, regroup_base3 = 0, field_width3 = 0,
     read_field3 = (\<lambda>_. 0), update_field3 = (\<lambda>_ _ _ i. (False, i)), update_hw3 = (\<lambda>_ _. Inl Bad_Access)\<rparr>"

definition isenabler_info3 :: reg_info3 where
  "isenabler_info3 = \<lparr>reg_access3 = Generic3, alignment3 = 4, regid3 = 0, regroup_base3 = GICD_ISENABLER 0,
     field_width3 = 1, read_field3 = vgic_int_get_enable3, update_field3 = (\<lambda>_ _. vgic_int_set_enable3),
     update_hw3 = vgic_int_enable_hw3\<rparr>"

definition ispendr_info3 :: reg_info3 where
  "ispendr_info3 = \<lparr>reg_access3 = Generic3, alignment3 = 4, regid3 = 1, regroup_base3 = GICD_ISPENDR 0,
     field_width3 = 1, read_field3 = vgic_int_get_pend3, update_field3 = (\<lambda>_ _. vgic_int_set_pend3),
     update_hw3 = vgic_int_state_hw3\<rparr>"

definition isactiver_info3 :: reg_info3 where
  "isactiver_info3 = \<lparr>reg_access3 = Generic3, alignment3 = 4, regid3 = 2, regroup_base3 = GICD_ISACTIVER 0,
     field_width3 = 1, read_field3 = vgic_int_get_act3, update_field3 = (\<lambda>_ _. vgic_int_set_act3),
     update_hw3 = vgic_int_state_hw3\<rparr>"

definition icenabler_info3 :: reg_info3 where
  "icenabler_info3 = \<lparr>reg_access3 = Generic3, alignment3 = 4, regid3 = 3, regroup_base3 = GICD_ICENABLER 0,
     field_width3 = 1, read_field3 = vgic_int_get_enable3, update_field3 = (\<lambda>_ _. vgic_int_clear_enable3),
     update_hw3 = vgic_int_enable_hw3\<rparr>"

definition icpendr_info3 :: reg_info3 where
  "icpendr_info3 = \<lparr>reg_access3 = Generic3, alignment3 = 4, regid3 = 4, regroup_base3 = GICD_ICPENDR 0,
     field_width3 = 1, read_field3 = vgic_int_get_pend3, update_field3 = (\<lambda>_ _. vgic_int_clear_pend3),
     update_hw3 = vgic_int_state_hw3\<rparr>"

definition iactiver_info3 :: reg_info3 where
  "iactiver_info3 = \<lparr>reg_access3 = Generic3, alignment3 = 4, regid3 = 5, regroup_base3 = GICD_ICACTIVER 0,
     field_width3 = 1, read_field3 = vgic_int_get_act3, update_field3 = (\<lambda>_ _. vgic_int_clear_act3),
     update_hw3 = vgic_int_state_hw3\<rparr>"

definition icfgr_info3 :: reg_info3 where
  "icfgr_info3 = \<lparr>reg_access3 = Generic3, alignment3 = 4, regid3 = 6, regroup_base3 = GICD_ICFGR 0,
     field_width3 = 2, read_field3 = vgic_int_get_cfg3, update_field3 = (\<lambda>_ _. vgic_int_set_cfg3),
     update_hw3 = vgic_int_set_cfg_hw3\<rparr>"

definition irouter_info3 :: reg_info3 where
  "irouter_info3 = \<lparr>reg_access3 = Router3, alignment3 = 12, regid3 = 7, regroup_base3 = GICD_IROUTER 0,
     field_width3 = 64, read_field3 = vgic_int_get_route, update_field3 = vgic_int_set_route,
     update_hw3 = vgic_int_set_route_hw\<rparr>"

definition ipriorityr_info3 :: reg_info3 where
  "ipriorityr_info3 = \<lparr>reg_access3 = Generic3, alignment3 = 5, regid3 = 8, regroup_base3 = GICD_IPRIORITYR 0,
     field_width3 = 8, read_field3 = vgic_int_get_prio3, update_field3 = (\<lambda>_ _. vgic_int_set_prio3),
     update_hw3 = vgic_int_set_prio_hw3\<rparr>"

definition itargetr_info3 :: reg_info3 where "itargetr_info3 = plain_info3 Razwi3 5"
definition sgir_info3 :: reg_info3 where "sgir_info3 = plain_info3 Razwi3 4"
definition vgicd_misc_info3 :: reg_info3 where "vgicd_misc_info3 = plain_info3 Misc3 4"
definition vgicd_pidr_info3 :: reg_info3 where "vgicd_pidr_info3 = plain_info3 Pidr3 4"
definition razwi_info3 :: reg_info3 where "razwi_info3 = plain_info3 Razwi3 4"
definition vgicr_ctrl_info :: reg_info3 where "vgicr_ctrl_info = plain_info3 Vgicr_Ctrl 4"
definition vgicr_typer_info :: reg_info3 where "vgicr_typer_info = plain_info3 Vgicr_Typer 12"
definition vgicr_pidr_info :: reg_info3 where "vgicr_pidr_info = plain_info3 Vgicr_Pidr 4"

lemmas info3_defs = isenabler_info3_def ispendr_info3_def isactiver_info3_def icenabler_info3_def
  icpendr_info3_def iactiver_info3_def icfgr_info3_def irouter_info3_def ipriorityr_info3_def
  itargetr_info3_def sgir_info3_def vgicd_misc_info3_def vgicd_pidr_info3_def razwi_info3_def
  vgicr_ctrl_info_def vgicr_typer_info_def vgicr_pidr_info_def plain_info3_def

definition reg_handler_info_table3 :: "reg_info3 list" where
  "reg_handler_info_table3 = [isenabler_info3, ispendr_info3, isactiver_info3, icenabler_info3, icpendr_info3,
     iactiver_info3, icfgr_info3, irouter_info3, ipriorityr_info3, itargetr_info3]"

definition vgic_get_reg_handler_info3 :: "nat \<Rightarrow> reg_info3 option" where
  "vgic_get_reg_handler_info3 i =
     (if i < length reg_handler_info_table3 then Some (reg_handler_info_table3 ! i) else None)"

definition GICD_REG_MASK3 :: "u64 \<Rightarrow> u64" where "GICD_REG_MASK3 addr = addr AND 0xffff"
definition GICR_REG_MASK :: "u64 \<Rightarrow> u64" where "GICR_REG_MASK addr = addr AND 0x1ffff"
definition GICR_IS_REG :: "nat \<Rightarrow> nat \<Rightarrow> nat \<Rightarrow> bool" where
  "GICR_IS_REG base sz offset \<longleftrightarrow> base \<le> offset \<and> offset < base + sz"

definition vgicd_reg_handler3 :: "u64 \<Rightarrow> reg_info3" where
  "vgicd_reg_handler3 addr =
     (let group = unat (lsr (GICD_REG_MASK3 addr) 7)
      in if group = GICD_REG_GROUP GICD_CTLR then vgicd_misc_info3
         else if group = GICD_REG_GROUP (GICD_ISENABLER 0) then isenabler_info3
         else if group = GICD_REG_GROUP (GICD_ISPENDR 0) then ispendr_info3
         else if group = GICD_REG_GROUP (GICD_ISACTIVER 0) then isactiver_info3
         else if group = GICD_REG_GROUP (GICD_ICENABLER 0) then icenabler_info3
         else if group = GICD_REG_GROUP (GICD_ICPENDR 0) then icpendr_info3
         else if group = GICD_REG_GROUP (GICD_ICACTIVER 0) then iactiver_info3
         else if group = GICD_REG_GROUP (GICD_ICFGR 0) then icfgr_info3
         else if group = GICD_REG_GROUP GICD_SGIR then sgir_info3
         else
           let acc_off = unat (GICD_REG_MASK3 addr)
           in if GICD_IS_REG (GICD_IPRIORITYR 0) 0x400 acc_off then ipriorityr_info3
              else if GICD_IS_REG (GICD_ITARGETSR 0) 0x400 acc_off then itargetr_info3
              else if GICD_IS_REG (GICD_IROUTER 0) 0x2000 acc_off then irouter_info3
              else if GICD_IS_REG (GICD_ID 0) 0x30 acc_off then vgicd_pidr_info3
              else razwi_info3)"

text \<open>The cases are labelled with the offsets of the struct, and the address is masked without the
  base being subtracted; the default branch subtracts it.\<close>

definition vgicr_reg_handler :: "u64 \<Rightarrow> u64 \<Rightarrow> reg_info3" where
  "vgicr_reg_handler vgicr_addr addr =
     (let reg = unat (GICR_REG_MASK addr)
      in if reg = GICR_CTLR then vgicr_ctrl_info
         else if reg = GICR_ISENABLER0 then isenabler_info3
         else if reg = GICR_ISPENDR0 then ispendr_info3
         else if reg = GICR_ISACTIVER0 then iactiver_info3
         else if reg = GICR_ICENABLER0 then icenabler_info3
         else if reg = GICR_ICPENDR0 then icpendr_info3
         else if reg = GICR_ICACTIVER0 then icfgr_info3
         else if reg = GICR_ICFGR0 \<or> reg = GICR_ICFGR1 then icfgr_info3
         else
           let acc_offset = unat (GICR_REG_MASK (addr - vgicr_addr))
           in if GICR_IS_REG GICR_TYPER 8 acc_offset then vgicr_typer_info
              else if GICR_IS_REG (GICR_IPRIORITYR 0) 0x20 acc_offset then ipriorityr_info3
              else if GICR_IS_REG (GICR_ID 0) 0x30 acc_offset then vgicr_pidr_info
              else razwi_info3)"

definition vgic_check_reg_alignment3 :: "emul_access \<Rightarrow> reg_info3 \<Rightarrow> bool" where
  "vgic_check_reg_alignment3 acc handlers \<longleftrightarrow>
     alignment3 handlers AND ac_width acc \<noteq> 0 \<and> ac_addr acc AND word_of_nat (ac_width acc - 1) = 0"

subsection \<open>Accesses\<close>

definition set_owned_field3 :: "reg_info3 \<Rightarrow> nat \<Rightarrow> node \<Rightarrow> u64 \<Rightarrow> vgic_sys3 \<Rightarrow> vgic_sys3 res" where
  "set_owned_field3 handlers vcpu p data s =
     bindr (vgic_remove_lr3 vcpu p s) (\<lambda>(_, s).
     bindr (let (changed, i) = update_field3 handlers (g3_vm s) vcpu data (g3_ints s p);
                s = upd_int3 p (\<lambda>_. i) s
            in if changed \<and> vgic_int_is_hw3 i
               then bindr (update_hw3 handlers i (g3_hw s)) (\<lambda>h. Inr (s\<lparr>g3_hw := h\<rparr>))
               else Inr s) (\<lambda>s.
     bindr (vgic_route3 vcpu p s) (vgic_yield_ownership3 vcpu p)))"

text \<open>The message for the owner of an interrupt that is to change a field of it.\<close>

definition set_reg_msg :: "reg_info3 \<Rightarrow> node \<Rightarrow> u64 \<Rightarrow> vgic_sys3 \<Rightarrow> cpu_msg" where
  "set_reg_msg handlers p data s =
     vgic_msg3 s VGIC_SET_REG (VGIC_MSG_DATA (vm_id (g3_vm s)) 0
       (word_of_nat (wi_id (g3_ints s p))) (word_of_nat (regid3 handlers)) data)"

definition vgic_int_set_field3 :: "reg_info3 \<Rightarrow> nat \<Rightarrow> node \<Rightarrow> u64 \<Rightarrow> vgic_sys3 \<Rightarrow> vgic_sys3 res" where
  "vgic_int_set_field3 handlers vcpu p data s =
     bindr (lock_int3 p s) (\<lambda>s.
     bindr (let (own, s) = vgic_get_ownership3 vcpu p s
            in if own then set_owned_field3 handlers vcpu p data s
               else
                 case wi_owner (g3_ints s p) of
                   None \<Rightarrow> Inl Bad_Access
                 | Some owner \<Rightarrow> send_msg3 (p_id_of3 s owner) (set_reg_msg handlers p data s) s)
       (\<lambda>s. Inr (unlock_int3 p s)))"

fun generic_loop3 :: "emul_access \<Rightarrow> reg_info3 \<Rightarrow> nat \<Rightarrow> nat \<Rightarrow> nat list \<Rightarrow> u64 \<Rightarrow> vgic_sys3 \<Rightarrow>
    (u64 \<times> vgic_sys3) res" where
  "generic_loop3 acc handlers vgicr_id first_int [] val s = Inr (val, s)"
| "generic_loop3 acc handlers vgicr_id first_int (i # is) val s =
     bindr (vgic_get_int3 s (g3_vcpu s) (first_int + i) vgicr_id) (\<lambda>p.
       if p = 0 then Inr (val, s)
       else if ac_write acc then
         let data = bit_extract val (i * field_width3 handlers) (field_width3 handlers)
         in bindr (vgic_int_set_field3 handlers (g3_vcpu s) p data s)
              (generic_loop3 acc handlers vgicr_id first_int is val)
       else
         bindr (load_int3 p s) (\<lambda>interrupt.
           let fld = read_field3 handlers interrupt AND (lsl 1 (field_width3 handlers) - 1)
           in generic_loop3 acc handlers vgicr_id first_int is (val OR lsl fld (i * field_width3 handlers)) s))"

text \<open>The offset in the register group is a \<open>size_t\<close>: below the base it wraps around.\<close>

definition first_int3 :: "emul_access \<Rightarrow> reg_info3 \<Rightarrow> nat" where
  "first_int3 acc handlers =
     unat ((GICD_REG_MASK3 (ac_addr acc) - word_of_nat (regroup_base3 handlers)) * 8) div field_width3 handlers"

definition vgic_emul_generic_access3 :: "emul_access \<Rightarrow> reg_info3 \<Rightarrow> bool \<Rightarrow> nat \<Rightarrow> vgic_sys3 \<Rightarrow> vgic_sys3 res" where
  "vgic_emul_generic_access3 acc handlers gicr_access vgicr_id s =
     (let fw = field_width3 handlers;
          first_int = first_int3 acc handlers;
          val = (if ac_write acc then cur_readreg3 s (ac_reg acc) else 0);
          valid_access = (gicr_access = gic_is_priv first_int)
      in bindr (if valid_access
                then generic_loop3 acc handlers vgicr_id first_int [0..<ac_width acc * 8 div fw] val s
                else Inr (val, s)) (\<lambda>(val, s).
           Inr (if \<not> ac_write acc then cur_writereg3 (ac_reg acc) val s else s)))"

definition vgic_update_enable3 :: "vgic_sys3 \<Rightarrow> vgic_sys3" where
  "vgic_update_enable3 s =
     (if vd_CTLR (g3_vgicd s) AND 2 \<noteq> 0
      then s\<lparr>g3_hw := gich_set_hcr3 (gich_get_hcr3 (g3_hw s) OR 1) (g3_hw s)\<rparr>
      else s\<lparr>g3_hw := gich_set_hcr3 (gich_get_hcr3 (g3_hw s) AND NOT 1) (g3_hw s)\<rparr>)"

definition vgicd_emul_misc_access3 :: "emul_access \<Rightarrow> vgic_sys3 \<Rightarrow> vgic_sys3 res" where
  "vgicd_emul_misc_access3 acc s =
     (let reg = unat (ac_addr acc AND 0x7F)
      in if reg = 0 then
           if ac_write acc then
             let prev_ctrl = vd_CTLR (g3_vgicd s);
                 s = s\<lparr>g3_vgicd := (g3_vgicd s)\<lparr>vd_CTLR := ucast (cur_readreg3 s (ac_reg acc) AND 2)\<rparr>\<rparr>
             in if prev_ctrl XOR vd_CTLR (g3_vgicd s) \<noteq> 0
                then let s = vgic_update_enable3 s
                     in bindr (vm_msg_broadcast (g3_vm s)
                          (vgic_msg3 s VGIC_UPDATE_ENABLE (VGIC_MSG_DATA (vm_id (g3_vm s)) 0 0 0 0)) (g3_msg s))
                          (\<lambda>m. Inr (s\<lparr>g3_msg := m\<rparr>))
                else Inr s
           else Inr (cur_writereg3 (ac_reg acc) (ucast (vd_CTLR (g3_vgicd s) OR 0x10)) s)
         else if reg = 4 then
           Inr (if \<not> ac_write acc then cur_writereg3 (ac_reg acc) (ucast (vd_TYPER (g3_vgicd s))) s else s)
         else if reg = 8 then
           Inr (if \<not> ac_write acc then cur_writereg3 (ac_reg acc) (ucast (vd_IIDR (g3_vgicd s))) s else s)
         else Inr s)"

definition vgicd_emul_pidr_access3 :: "emul_access \<Rightarrow> vgic_sys3 \<Rightarrow> vgic_sys3" where
  "vgicd_emul_pidr_access3 acc s =
     (if \<not> ac_write acc
      then cur_writereg3 (ac_reg acc)
             (ucast (gicd (dist (g3_hw s)) (GICD_ID (unat ((ac_addr acc AND 0xff) - 0xd0) div 4)))) s
      else s)"

definition vgic_emul_razwi3 :: "emul_access \<Rightarrow> vgic_sys3 \<Rightarrow> vgic_sys3" where
  "vgic_emul_razwi3 acc s = (if \<not> ac_write acc then cur_writereg3 (ac_reg acc) 0 s else s)"

definition vgicr_emul_ctrl_access :: "emul_access \<Rightarrow> vgic_sys3 \<Rightarrow> vgic_sys3" where
  "vgicr_emul_ctrl_access acc s = (if \<not> ac_write acc then cur_writereg3 (ac_reg acc) 0 s else s)"

definition vgicr_emul_typer_access :: "emul_access \<Rightarrow> nat \<Rightarrow> vgic_sys3 \<Rightarrow> vgic_sys3 res" where
  "vgicr_emul_typer_access acc vgicr_id s =
     (let word_access = (ac_width acc = 4);
          top_access = (word_access \<and> ac_addr acc AND 4 \<noteq> 0)
      in if \<not> ac_write acc then
           case vm_get_vcpu (g3_vm s) vgicr_id of
             None \<Rightarrow> Inl Bad_Access
           | Some v \<Rightarrow>
               let typer = vr_TYPER (g3_vgicr s v);
                   typer = (if top_access then lsr typer 32
                            else if word_access then typer AND BIT_MASK 0 32 else typer)
               in Inr (cur_writereg3 (ac_reg acc) typer s)
         else Inr s)"

definition vgicr_emul_pidr_access :: "emul_access \<Rightarrow> nat \<Rightarrow> vgic_sys3 \<Rightarrow> vgic_sys3" where
  "vgicr_emul_pidr_access acc vgicr_id s =
     (if \<not> ac_write acc then
        let pgicr_id = vm_translate_to_pcpuid (g3_vm s) vgicr_id;
            val = (if pgicr_id \<noteq> INVALID_CPUID
                   then ucast (gicr (g3_hw s) pgicr_id (GICR_ID (unat ((ac_addr acc AND 0xff) - 0xd0) div 4)))
                   else 0)
        in cur_writereg3 (ac_reg acc) val s
      else s)"

definition vgicd_emul_router_access :: "emul_access \<Rightarrow> reg_info3 \<Rightarrow> vgic_sys3 \<Rightarrow> vgic_sys3 res" where
  "vgicd_emul_router_access acc handlers s =
     (let word_access = (ac_width acc = 4);
          top_access = (word_access \<and> ac_addr acc AND 4 \<noteq> 0);
          aligned_addr = ac_addr acc AND NOT 7;
          irq_id = unat (GICD_REG_MASK3 aligned_addr - word_of_nat (GICD_IROUTER 0)) div 8
      in bindr (vgic_get_int3 s (g3_vcpu s) irq_id (g3_vcpu s)) (\<lambda>p.
        if p = 0 then Inr (vgic_emul_razwi3 acc s)
        else
          bindr (load_int3 p s) (\<lambda>interrupt.
          let route = vgic_int_get_route interrupt
          in if \<not> ac_write acc then
               Inr (cur_writereg3 (ac_reg acc)
                 (if top_access then ucast (ucast (lsr route 32) :: u32)
                  else if word_access then ucast (ucast route :: u32) else route) s)
             else
               let reg_value = cur_readreg3 s (ac_reg acc);
                   route = (if top_access then (route AND BIT_MASK 0 32) OR lsl (reg_value AND BIT_MASK 0 32) 32
                            else if word_access then (route AND BIT_MASK 32 32) OR (reg_value AND BIT_MASK 0 32)
                            else reg_value)
               in vgic_int_set_field3 handlers (g3_vcpu s) p route s)))"

definition run_reg_access3 :: "emul_access \<Rightarrow> reg_info3 \<Rightarrow> bool \<Rightarrow> nat \<Rightarrow> vgic_sys3 \<Rightarrow> vgic_sys3 res" where
  "run_reg_access3 acc handlers gicr_access vgicr_id s =
     (case reg_access3 handlers of
        Generic3 \<Rightarrow> vgic_emul_generic_access3 acc handlers gicr_access vgicr_id s
      | Misc3 \<Rightarrow> vgicd_emul_misc_access3 acc s
      | Pidr3 \<Rightarrow> Inr (vgicd_emul_pidr_access3 acc s)
      | Razwi3 \<Rightarrow> Inr (vgic_emul_razwi3 acc s)
      | Router3 \<Rightarrow> vgicd_emul_router_access acc handlers s
      | Vgicr_Ctrl \<Rightarrow> Inr (vgicr_emul_ctrl_access acc s)
      | Vgicr_Typer \<Rightarrow> vgicr_emul_typer_access acc vgicr_id s
      | Vgicr_Pidr \<Rightarrow> Inr (vgicr_emul_pidr_access acc vgicr_id s))"

definition vgicd_emul_handler3 :: "emul_access \<Rightarrow> vgic_sys3 \<Rightarrow> (bool \<times> vgic_sys3) res" where
  "vgicd_emul_handler3 acc s =
     (let handler_info = vgicd_reg_handler3 (ac_addr acc)
      in if vgic_check_reg_alignment3 acc handler_info then
           bindr (spin_lock (vd_lock (g3_vgicd s))) (\<lambda>l.
           bindr (run_reg_access3 acc handler_info False (g3_vcpu s) (s\<lparr>g3_vgicd := (g3_vgicd s)\<lparr>vd_lock := l\<rparr>\<rparr>)) (\<lambda>s.
             Inr (True, s\<lparr>g3_vgicd := (g3_vgicd s)\<lparr>vd_lock := spin_unlock (vd_lock (g3_vgicd s))\<rparr>\<rparr>)))
         else Inr (False, s))"

definition vgicr_get_id :: "vgic_sys3 \<Rightarrow> emul_access \<Rightarrow> nat" where
  "vgicr_get_id s acc = unat (ac_addr acc - g3_vgicr_addr s) div GICR_SIZE"

abbreviation upd_vgicr_lock :: "nat \<Rightarrow> (spinlock \<Rightarrow> spinlock) \<Rightarrow> vgic_sys3 \<Rightarrow> vgic_sys3" where
  "upd_vgicr_lock v f s \<equiv> g3_vgicr_update (\<lambda>m. m(v := vr_lock_update f (m v))) s"

definition vgicr_emul_handler :: "emul_access \<Rightarrow> vgic_sys3 \<Rightarrow> (bool \<times> vgic_sys3) res" where
  "vgicr_emul_handler acc s =
     (let handler_info = vgicr_reg_handler (g3_vgicr_addr s) (ac_addr acc)
      in if vgic_check_reg_alignment3 acc handler_info then
           let vgicr_id = vgicr_get_id s acc
           in case (if vgicr_id = g3_vcpu s then Some (g3_vcpu s) else vm_get_vcpu (g3_vm s) vgicr_id) of
                None \<Rightarrow> Inl Bad_Access
              | Some v \<Rightarrow>
                  bindr (spin_lock (vr_lock (g3_vgicr s v))) (\<lambda>l.
                  bindr (run_reg_access3 acc handler_info True vgicr_id (upd_vgicr_lock v (\<lambda>_. l) s)) (\<lambda>s.
                    Inr (True, upd_vgicr_lock v spin_unlock s)))
         else Inr (False, s))"

subsection \<open>Injection and messages\<close>

definition vgic_inject_hw3 :: "nat \<Rightarrow> nat \<Rightarrow> vgic_sys3 \<Rightarrow> vgic_sys3 res" where
  "vgic_inject_hw3 vcpu int_id s =
     bindr (vgic_get_int3 s vcpu int_id vcpu) (\<lambda>p.
       if p = 0 then Inl Bad_Access
       else
         bindr (lock_int3 p s) (\<lambda>s.
           let s = upd_int3 p (\<lambda>i. i\<lparr>wi_owner := Some vcpu, wi_state := PEND, wi_in_lr := False\<rparr>) s
           in bindr (vgic_add_lr3 vcpu p s) (\<lambda>(_, s). Inr (unlock_int3 p s))))"

definition vgic_inject3 :: "nat \<Rightarrow> nat \<Rightarrow> vgic_sys3 \<Rightarrow> vgic_sys3 res" where
  "vgic_inject3 vcpu int_id s =
     bindr (vgic_get_int3 s vcpu int_id vcpu) (\<lambda>p.
       if p \<noteq> 0 then
         bindr (load_int3 p s) (\<lambda>interrupt.
           if vgic_int_is_hw3 interrupt then vgic_inject_hw3 vcpu int_id s
           else vgic_int_set_field3 ispendr_info3 vcpu p 1 s)
       else Inr s)"

definition vgic_ipi_handler3 :: "u32 \<Rightarrow> u64 \<Rightarrow> vgic_sys3 \<Rightarrow> vgic_sys3 res" where
  "vgic_ipi_handler3 event data s =
     (let vmid = VGIC_MSG_VM data AND 0xffff;
          vgicr_id = unat (VGIC_MSG_VGICRID data);
          int_id = unat (VGIC_MSG_INTID data);
          val = VGIC_MSG_VAL data;
          vcpu = g3_vcpu s
      in if vmid \<noteq> vm_id (g3_vm s) then Inl Error
         else if event = event_num VGIC_UPDATE_ENABLE then Inr (vgic_update_enable3 s)
         else if event = event_num VGIC_ROUTE then
           bindr (vgic_get_int3 s vcpu int_id vcpu) (\<lambda>p.
             if p \<noteq> 0 then
               bindr (lock_int3 p s) (\<lambda>s.
                 let (own, s) = vgic_get_ownership3 vcpu p s
                 in bindr (if own then
                             bindr (if vgic_int_vcpu_is_target3 s vcpu (g3_ints s p)
                                    then bindr (vgic_add_lr3 vcpu p s) (\<lambda>(_, s). Inr s) else Inr s)
                               (vgic_yield_ownership3 vcpu p)
                           else Inr s) (\<lambda>s. Inr (unlock_int3 p s)))
             else Inr s)
         else if event = event_num VGIC_INJECT then vgic_inject3 vcpu int_id s
         else if event = event_num VGIC_SET_REG then
           bindr (vgic_get_int3 s vcpu int_id vgicr_id) (\<lambda>p.
             case vgic_get_reg_handler_info3 (unat (VGIC_MSG_REG data)) of
               None \<Rightarrow> Inr s
             | Some handlers \<Rightarrow> if p \<noteq> 0 then vgic_int_set_field3 handlers vcpu p val s else Inr s)
         else Inr s)"

subsection \<open>Emulated system registers\<close>

text \<open>An access to a system register may name a second register.\<close>

record emul_sysacc = emul_access +
  ac_reg_high :: u64
  ac_multi_reg :: bool

definition ICC_SGIR_SGIINTID :: "u64 \<Rightarrow> u64" where "ICC_SGIR_SGIINTID sgir = bit_extract sgir 24 4"
definition ICC_SGIR_IRM_BIT :: u64 where "ICC_SGIR_IRM_BIT = lsl 1 40"
definition ICC_SGIR_TRGLSTFLT :: "u64 \<Rightarrow> u64" where "ICC_SGIR_TRGLSTFLT sgir = bit_extract sgir 0 16"

definition vgic_icc_sgir_handler :: "emul_sysacc \<Rightarrow> vgic_sys3 \<Rightarrow> (bool \<times> vgic_sys3) res" where
  "vgic_icc_sgir_handler acc s =
     (if ac_write acc then
        let sgir = cur_readreg3 s (ac_reg acc);
            sgir = (if ac_multi_reg acc then sgir OR lsl (cur_readreg3 s (ac_reg_high acc)) 32 else sgir);
            int_id = ICC_SGIR_SGIINTID sgir;
            trgtlist = (if sgir AND ICC_SGIR_IRM_BIT \<noteq> 0
                        then vm_cpus (g3_vm s) AND ucast (NOT (lsl (1 :: u32) (p_id_of3 s (g3_vcpu s))))
                        else vm_translate_to_pcpu_mask (g3_vm s) (ICC_SGIR_TRGLSTFLT sgir) (vm_nr_cpus (g3_vm s)))
        in bindr (vgic_send_sgi_msg3 trgtlist int_id s) (\<lambda>s. Inr (True, s))
      else Inr (True, s))"

definition vgic_icc_sre_handler :: "emul_sysacc \<Rightarrow> vgic_sys3 \<Rightarrow> bool \<times> vgic_sys3" where
  "vgic_icc_sre_handler acc s = (True, if \<not> ac_write acc then cur_writereg3 (ac_reg acc) 1 s else s)"

definition SYSREG_ENC_ADDR :: "u64 \<Rightarrow> u64 \<Rightarrow> u64 \<Rightarrow> u64 \<Rightarrow> u64 \<Rightarrow> u64" where
  "SYSREG_ENC_ADDR op0 op1 crn crm op2 =
     lsl (op0 AND 3) 20 OR lsl (op2 AND 7) 17 OR lsl (op1 AND 7) 14 OR lsl (crn AND 0xf) 10 OR lsl (crm AND 0xf) 1"

subsection \<open>Initialisation\<close>

definition init_spi3 :: "nat \<Rightarrow> vgic_int3 \<Rightarrow> vgic_int3" where
  "init_spi3 i v = v\<lparr>wi_owner := None, wi_lock := SPINLOCK_INITVAL, wi_id := i + GIC_CPU_PRIV,
     wi_state := INV, wi_prio := GIC_LOWEST_PRIO, wi_cfg := 0, wi_route := GICD_IROUTER_INV,
     wi_phys := GICD_IROUTER_INV, wi_hw := False, wi_in_lr := False, wi_enabled := False\<rparr>"

definition init_priv3 :: "nat \<Rightarrow> nat \<Rightarrow> vgic_int3 \<Rightarrow> vgic_int3" where
  "init_priv3 p_id i v = v\<lparr>wi_owner := None, wi_lock := SPINLOCK_INITVAL, wi_id := i,
     wi_state := INV, wi_prio := GIC_LOWEST_PRIO, wi_cfg := 0, wi_route := GICD_IROUTER_INV,
     wi_phys := word_of_nat p_id, wi_hw := False, wi_in_lr := False, wi_enabled := False\<rparr>"

definition vgicr_typer :: "vm \<Rightarrow> nat \<Rightarrow> u64" where
  "vgicr_typer vm v =
     (let typer = lsl (word_of_nat v) 8;
          typer = typer OR lsl (v_vmpidr (vm_vcpus vm v) AND MPIDR_AFF_MSK) 32
      in typer OR lsl (of_bool (word_of_nat v = (word_of_nat (vm_nr_cpus vm) - 1 :: u64))) 4)"

definition add_emul_mem3 :: "node \<Rightarrow> emul_handler3 emul_mem \<Rightarrow> vgic_sys3 \<Rightarrow> vgic_sys3" where
  "add_emul_mem3 e em s =
     (let s = s\<lparr>g3_emuls := (g3_emuls s)(e := em)\<rparr>;
          s = s\<lparr>g3_heap := INIT_LIST_HEAD e (g3_heap s)\<rparr>
      in s\<lparr>g3_heap := vm_emul_add_mem (g3_emul_list s) e (g3_heap s)\<rparr>)"

definition add_emul_reg3 :: "node \<Rightarrow> emul_handler3 emul_reg \<Rightarrow> vgic_sys3 \<Rightarrow> vgic_sys3" where
  "add_emul_reg3 e er s =
     (let s = s\<lparr>g3_emul_regs := (g3_emul_regs s)(e := er)\<rparr>;
          s = s\<lparr>g3_heap := INIT_LIST_HEAD e (g3_heap s)\<rparr>
      in s\<lparr>g3_heap := vm_emul_add_reg (g3_reg_list s) e (g3_heap s)\<rparr>)"

definition vgic_init3 :: "vgic_dscrp \<Rightarrow> vgic_sys3 \<times> mm \<Rightarrow> (vgic_sys3 \<times> mm) res option" where
  "vgic_init3 dsc = (\<lambda>(s, m).
     let s = s\<lparr>g3_vgicr_addr := dsc_gicr_addr dsc\<rparr>;
         vtyper_itln = vgic_get_itln (dist (g3_hw s)) dsc;
         int_num = 32 * (vtyper_itln + 1);
         s = s\<lparr>g3_vgicd := (g3_vgicd s)\<lparr>vd_CTLR := 0, vd_int_num := unat int_num,
           vd_TYPER := ucast ((lsl vtyper_itln 0 AND ucast (BIT_MASK 0 5 :: u32)) OR
              (lsl (word_of_nat (vm_nr_cpus (g3_vm s)) - 1) 5 AND ucast (BIT_MASK 5 3 :: u32)) OR
              (lsl (10 - 1) 19 AND ucast (BIT_MASK 19 5 :: u32))),
           vd_IIDR := gicd (dist (g3_hw s)) GICD_IIDR\<rparr>\<rparr>
     in bind_opt (mem_alloc_page (mm_pool m) (unat (NUM_PAGES (int_num * VGIC_INT3_SIZE))) False) (\<lambda>(pool, base).
          let m = m\<lparr>mm_pool := pool\<rparr>;
              s = s\<lparr>g3_vgicd := (g3_vgicd s)\<lparr>vd_interrupts := base\<rparr>\<rparr>
          in if base = 0 then Some (Inl Error)
             else
               let s = fold (\<lambda>i. upd_int3 (base + VGIC_INT3_SIZE * word_of_nat i) (init_spi3 i)) [0..<unat int_num] s;
                   s = add_emul_mem3 (g3_vgicd_emul s)
                         \<lparr>em_base = dsc_gicd_addr dsc, em_sz = ALIGN 0x10000 PAGE_SIZE, em_handler = H_vgicd_emul3\<rparr> s;
                   s = fold (\<lambda>v s. s\<lparr>g3_vgicr := (g3_vgicr s)(v := (g3_vgicr s v)\<lparr>vr_TYPER := vgicr_typer (g3_vm s) v,
                              vr_IIDR := gicr (g3_hw s) (g3_cpu s) GICR_IIDR\<rparr>)\<rparr>) [0..<vm_nr_cpus (g3_vm s)] s;
                   s = add_emul_mem3 (g3_vgicr_emul s)
                         \<lparr>em_base = dsc_gicr_addr dsc,
                          em_sz = ALIGN (word_of_nat GICR_SIZE) PAGE_SIZE * word_of_nat (vm_nr_cpus (g3_vm s)),
                          em_handler = H_vgicr_emul\<rparr> s;
                   s = add_emul_reg3 (g3_icc_sgir_emul s)
                         \<lparr>er_addr = SYSREG_ENC_ADDR 3 0 12 11 5, er_handler = H_icc_sgir\<rparr> s;
                   s = add_emul_reg3 (g3_icc_sre_emul s)
                         \<lparr>er_addr = SYSREG_ENC_ADDR 3 0 12 12 5, er_handler = H_icc_sre\<rparr> s;
                   s = s\<lparr>g3_heap := INIT_LIST_HEAD (g3_vm_spilled s) (g3_heap s)\<rparr>
               in Some (Inr (s\<lparr>g3_spilled_lock := SPINLOCK_INITVAL\<rparr>, m))))"

definition vgic_cpu_init3 :: "nat \<Rightarrow> vgic_sys3 \<Rightarrow> vgic_sys3" where
  "vgic_cpu_init3 vcpu s =
     (let s = fold (\<lambda>i s. upd_int3 (g3_priv s vcpu + VGIC_INT3_SIZE * word_of_nat i) (init_priv3 (p_id_of3 s vcpu) i) s)
                [0..<GIC_CPU_PRIV] s;
          s = fold (\<lambda>i s. upd_int3 (g3_priv s vcpu + VGIC_INT3_SIZE * word_of_nat i) (wi_cfg_update (\<lambda>_. 2)) s)
                [0..<GIC_MAX_SGIS] s
      in s\<lparr>g3_heap := INIT_LIST_HEAD (g3_spilled s vcpu) (g3_heap s)\<rparr>)"

subsection \<open>A small machine\<close>

definition sample_int3 :: vgic_int3 where
  "sample_int3 = \<lparr>wi_owner = None, wi_route = 0, wi_phys = 0, wi_lock = SPINLOCK_INITVAL, wi_id = 40, wi_state = 0,
     wi_prio = 0xA0, wi_cfg = 0, wi_lr = 0, wi_hw = False, wi_in_lr = False, wi_enabled = True\<rparr>"

definition sample_vgic3 :: vgic_sys3 where
  "sample_vgic3 = \<lparr>g3_hw = sample_gicv3, g3_dev = (\<lambda>h. h), g3_mpidr = 1, g3_msg = sample_msgs, g3_ipi_id = 1,
     g3_cpu_num = 2, g3_cpu = 1, g3_vcpu = 0, g3_vm = sample_vm,
     g3_vgicd = \<lparr>vd_interrupts = 0x10000, vd_lock = SPINLOCK_INITVAL, vd_int_num = 64, vd_CTLR = 0,
       vd_TYPER = 1, vd_IIDR = 0\<rparr>,
     g3_vgicr_addr = 0x80A0000,
     g3_vgicr = (\<lambda>_. \<lparr>vr_lock = SPINLOCK_INITVAL, vr_TYPER = 0, vr_CTLR = 0, vr_IIDR = 0\<rparr>),
     g3_priv = (\<lambda>v. 0x20000 + 0x1000 * word_of_nat v), g3_curr_lrs = (\<lambda>_ _. 0), g3_ints = (\<lambda>_. sample_int3),
     g3_heap = INIT_LIST_HEAD 0x8000 (INIT_LIST_HEAD 0x9000 \<lparr>nxt = (\<lambda>_. 0), prv = (\<lambda>_. 0)\<rparr>),
     g3_spilled = (\<lambda>_. 0x8000), g3_vm_spilled = 0x9000, g3_spilled_lock = SPINLOCK_INITVAL,
     g3_emul_list = 0xA000, g3_reg_list = 0xA100, g3_vgicd_emul = 0xB000, g3_vgicr_emul = 0xB100,
     g3_icc_sgir_emul = 0xB200, g3_icc_sre_emul = 0xB300,
     g3_emuls = (\<lambda>_. \<lparr>em_base = 0, em_sz = 0, em_handler = H_vgicd_emul3\<rparr>),
     g3_emul_regs = (\<lambda>_. \<lparr>er_addr = 0, er_handler = H_icc_sgir\<rparr>)\<rparr>"

lemma sample_vgic3_fields [simp]:
  "g3_hw sample_vgic3 = sample_gicv3" "g3_dev sample_vgic3 = (\<lambda>h. h)" "g3_cpu sample_vgic3 = 1" "g3_vcpu sample_vgic3 = 0"
  "g3_vm sample_vgic3 = sample_vm" "g3_vgicr_addr sample_vgic3 = 0x80A0000" "g3_ints sample_vgic3 q = sample_int3"
  "g3_priv sample_vgic3 v = 0x20000 + 0x1000 * word_of_nat v" "g3_curr_lrs sample_vgic3 v k = 0"
  "vr_lock (g3_vgicr sample_vgic3 v) = SPINLOCK_INITVAL"
  "v_p_id (vm_vcpus sample_vm v) = v + 1" "vm_nr_cpus sample_vm = 2" "NUM_LRS (dist sample_gicv3) = 4"
  "gich_get_elrsr3 sample_gicv3 = 0" "vm_id sample_vm = 1"
  by (simp_all add: sample_vgic3_def sample_vm_def sample_gicv3_def sample_gic_def gich_get_elrsr3_def)

subsection \<open>The fields of a list register\<close>

lemma bit_lr3_masks [mask_simps]:
  "bit LR3_VID_MSK n \<longleftrightarrow> n < 32" "bit LR3_PRIO_MSK n \<longleftrightarrow> 48 \<le> n \<and> n < 56"
  "bit LR3_PID_MSK n \<longleftrightarrow> 32 \<le> n \<and> n < 42" "bit LR3_STATE_MSK n \<longleftrightarrow> 62 \<le> n \<and> n < 64"
  by (auto simp: LR3_VID_MSK_def LR3_PRIO_MSK_def LR3_PID_MSK_def LR3_STATE_MSK_def bit_BIT_MASK)

lemma bit_lr3_flags [mask_simps]:
  "bit LR3_GRP_BIT n \<longleftrightarrow> n = 60" "bit LR3_HW_BIT n \<longleftrightarrow> n = 61" "bit LR3_EOI_BIT n \<longleftrightarrow> n = 41"
  "bit LR3_STATE_ACT n \<longleftrightarrow> n = 63"
proof -
  have act: "LR3_STATE_ACT = push_bit 62 2 AND LR3_STATE_MSK" by (simp add: LR3_STATE_ACT_def lsl_def)
  show "bit LR3_STATE_ACT n \<longleftrightarrow> n = 63"
    unfolding act by (simp only: bit_and_iff bit_push_bit_iff bit_two bit_lr3_masks) auto
qed (auto simp: LR3_GRP_BIT_def LR3_HW_BIT_def LR3_EOI_BIT_def bit_lsl_one)

lemmas lr3_bits = bit_and_iff bit_or_iff lsl_eq lsr_eq bit_push_bit_iff bit_drop_bit_eq bit_ucast_iff
  bit_lr3_masks bit_lr3_flags

lemma LR3_STATE_bit: "bit (LR3_STATE v) n \<longleftrightarrow> n < 2 \<and> bit v (62 + n)"
  by (auto simp: LR3_STATE_def bit_bit_extract)

lemma LR3_VID_bit: "bit (LR3_VID v) n \<longleftrightarrow> n < 32 \<and> bit v n"
  by (simp add: LR3_VID_def bit_bit_extract)

lemma lr_value3_vid:
  assumes "wi_id i < 2 ^ 32"
  shows "unat (LR3_VID (lr_value3 i st)) = wi_id i"
proof -
  have "LR3_VID (lr_value3 i st) = take_bit 32 (word_of_nat (wi_id i))"
  proof (rule bit_word_eqI)
    fix n assume "n < LENGTH(64)"
    show "bit (LR3_VID (lr_value3 i st)) n = bit (take_bit 32 (word_of_nat (wi_id i) :: u64)) n"
      by (cases "vgic_int_is_hw3 i")
        (auto simp: LR3_VID_bit lr_value3_def Let_def lr3_bits bit_take_bit_iff)
  qed
  also have "unat \<dots> = wi_id i"
    using assms by (simp add: unat_of_nat take_bit_of_nat take_bit_nat_eq_self unsigned_take_bit_eq)
  finally show ?thesis .
qed

lemma lr_value3_top:
  assumes "n < 2"
  shows "bit (lr_value3 i st) (62 + n) \<longleftrightarrow> (if vgic_int_is_hw3 i \<and> st = PENDACT then n = 1 else bit st n)"
proof -
  have st: "bit (lsl (ucast st) 62 AND LR3_STATE_MSK) (62 + n) \<longleftrightarrow> bit st n"
    using assms by (auto simp: lr3_bits)
  have other: "\<not> bit (x AND LR3_VID_MSK) (62 + n)" "\<not> bit (x AND LR3_PRIO_MSK) (62 + n)"
    "\<not> bit (x AND LR3_PID_MSK) (62 + n)" "\<not> bit LR3_GRP_BIT (62 + n)" "\<not> bit LR3_HW_BIT (62 + n)"
    "\<not> bit LR3_EOI_BIT (62 + n)" "bit LR3_STATE_ACT (62 + n) \<longleftrightarrow> n = 1" for x
    using assms by (auto simp: bit_and_iff bit_lr3_masks bit_lr3_flags)
  show ?thesis
    by (cases "vgic_int_is_hw3 i \<and> st = PENDACT"; cases "vgic_int_is_hw3 i")
      (simp_all only: lr_value3_def Let_def bit_or_iff st other if_True if_False simp_thms split: if_splits)
qed

lemma lr_value3_state:
  assumes "st \<le> PENDACT"
  shows "ucast (LR3_STATE (lr_value3 i st)) = (if vgic_int_is_hw3 i \<and> st = PENDACT then ACT else st)"
proof (rule bit_word_eqI)
  fix n assume n: "n < LENGTH(8)"
  have "unat st \<le> 3" using assms by (simp add: word_le_nat_alt)
  then have "take_bit 2 st = st" by (simp add: take_bit_eq_mod word_arith_nat_mod)
  then have lt: "bit st n \<Longrightarrow> n < 2" by (metis bit_take_bit_iff)
  define c where "c \<longleftrightarrow> vgic_int_is_hw3 i \<and> st = PENDACT"
  have "bit ACT n \<longleftrightarrow> n = 1" using bit_two[where 'a = 8] by simp
  then have rhs: "bit (if c then ACT else st) n \<longleftrightarrow> (if c then n = 1 else bit st n)"
    by (cases c) (simp_all only: if_True if_False)
  have lhs: "bit (ucast (LR3_STATE (lr_value3 i st)) :: u8) n \<longleftrightarrow> n < 2 \<and> bit (lr_value3 i st) (62 + n)"
    using n by (simp add: bit_ucast_iff LR3_STATE_bit)
  have "(n < 2 \<and> (if c then n = 1 else bit st n)) \<longleftrightarrow> (if c then n = 1 else bit st n)"
    using lt by (cases c) (simp_all only: if_True if_False, auto)
  then show "bit (ucast (LR3_STATE (lr_value3 i st)) :: u8) n =
      bit (if vgic_int_is_hw3 i \<and> st = PENDACT then ACT else st) n"
    unfolding lhs c_def[symmetric] rhs using lr_value3_top[of n i st, folded c_def] by blast
qed

subsection \<open>The search for a victim\<close>

lemma scan_lr3_same:
  assumes "i < NUM_LRS (dist h)"
  shows "scan_lr3 h i c = Inr c"
proof -
  have "(ucast (lr AND LR3_STATE_MSK) :: u32) = 0" for lr :: u64
    by (rule bit_word_eqI) (auto simp: bit_ucast_iff bit_and_iff bit_lr3_masks)
  then show ?thesis using assms by (simp add: scan_lr3_def gich_read_lr3_def Let_def)
qed

lemma victim_lr3_none: "victim_lr3 h i = Inr None"
proof -
  have "fold_res (scan_lr3 h) xs c = Inr c" if "\<forall>k \<in> set xs. k < NUM_LRS (dist h)" for xs c
    using that by (induction xs arbitrary: c) (simp_all add: scan_lr3_same)
  then show ?thesis by (simp add: victim_lr3_def scan_start3_def)
qed

text \<open>In the GICv3 build the state of a list register is in its two highest bits, and the
  code copies them into a 32-bit variable before it tests them: no list register ever counts as active
  or pending. When all of them are in use, an interrupt of the highest priority therefore never
  replaces one of lower priority; it is put on the list of spilled interrupts.\<close>
theorem vgic3_never_evicts:
  assumes "wi_enabled (g3_ints s p)" "\<not> wi_in_lr (g3_ints s p)"
    and "free_lr (dist (g3_hw s)) (gich_get_elrsr3 (g3_dev s (g3_hw s))) = None"
  shows "vgic_add_lr3 vcpu p s = bindr (vgic_add_spilled3 vcpu p s) (\<lambda>s. Inr (False, s))"
  using assms by (simp add: vgic_add_lr3_def victim_lr3_none)

theorem vgic3_never_evicts_witness:
  "vgic_add_lr3 0 0x10000 sample_vgic3 = bindr (vgic_add_spilled3 0 0x10000 sample_vgic3) (\<lambda>s. Inr (False, s))"
  by (rule vgic3_never_evicts)
    (simp_all add: sample_int3_def free_lr_def find_None_iff bit_get_def)

subsection \<open>Into a list register and out of it\<close>

lemma state3_not_in_lr: "\<not> wi_in_lr i \<Longrightarrow> vgic_get_state3 s i = Inr (wi_state i)"
  by (simp add: vgic_get_state3_def gich_get_lr3_def)

lemma write_lr3_runs:
  assumes "g3_curr_lrs s v k = wi_id (g3_ints s p) \<or> gic_is_priv (g3_curr_lrs s v k)"
    and "\<not> wi_in_lr (g3_ints s p)" "k < NUM_LRS (dist (g3_hw s))" "k < 16"
  shows "\<exists>s'. vgic_write_lr3 v p k s = Inr s' \<and>
    g3_ints s' = (g3_ints s)(p := (g3_ints s p)\<lparr>wi_state := 0, wi_in_lr := True, wi_lr := word_of_nat k\<rparr>) \<and>
    g3_hw s' = (g3_hw s)\<lparr>ich_lr_el2 := (ich_lr_el2 (g3_hw s))(k := lr_value3 (g3_ints s p) (wi_state (g3_ints s p)))\<rparr> \<and>
    g3_vm s' = g3_vm s \<and> g3_cpu s' = g3_cpu s"
proof -
  have "release_prev_lr3 v p k s = Inr s" using assms(1) by (auto simp: release_prev_lr3_def)
  with assms(2-) show ?thesis
    by (simp add: vgic_write_lr3_def state3_not_in_lr Let_def gich_write_lr3_def)
qed

text \<open>In the GICv3 build, too, an interrupt keeps its state over a stay in a list register:
  written to register \<open>k\<close> and removed again before the guest acts on it, it is as pending and active as
  before, the register is empty and the interrupt is no longer marked as being in one. The exception
  is a hardware interrupt that is pending and active at once: the register cannot hold that, and
  it comes back as active only.\<close>
theorem lr3_write_remove_roundtrip:
  assumes "wi_owner (g3_ints s p) = Some v" "\<not> wi_in_lr (g3_ints s p)" "wi_id (g3_ints s p) < 2 ^ 32"
    and "wi_state (g3_ints s p) \<noteq> INV" "wi_state (g3_ints s p) \<le> PENDACT" "p_id_of3 s v = g3_cpu s"
    and "k < NUM_LRS (dist (g3_hw s))" "k < 16"
    and "g3_curr_lrs s v k = wi_id (g3_ints s p) \<or> gic_is_priv (g3_curr_lrs s v k)"
  shows "\<exists>s1 s2. vgic_write_lr3 v p k s = Inr s1 \<and> vgic_remove_lr3 v p s1 = Inr (True, s2) \<and>
    wi_state (g3_ints s2 p) = (if vgic_int_is_hw3 (g3_ints s p) \<and> wi_state (g3_ints s p) = PENDACT then ACT
                               else wi_state (g3_ints s p)) \<and>
    \<not> wi_in_lr (g3_ints s2 p) \<and> ich_lr_el2 (g3_hw s2) k = 0"
proof -
  let ?i = "g3_ints s p" and ?v = "lr_value3 (g3_ints s p) (wi_state (g3_ints s p))"
  obtain s1 where w: "vgic_write_lr3 v p k s = Inr s1"
    "g3_ints s1 = (g3_ints s)(p := ?i\<lparr>wi_state := 0, wi_in_lr := True, wi_lr := word_of_nat k\<rparr>)"
    "g3_hw s1 = (g3_hw s)\<lparr>ich_lr_el2 := (ich_lr_el2 (g3_hw s))(k := ?v)\<rparr>" "g3_vm s1 = g3_vm s" "g3_cpu s1 = g3_cpu s"
    using write_lr3_runs[OF assms(9,2,7,8)] by metis
  define st where "st = (if vgic_int_is_hw3 ?i \<and> wi_state ?i = PENDACT then ACT else wi_state ?i)"
  have st: "ucast (LR3_STATE ?v) = st" unfolding st_def by (rule lr_value3_state[OF assms(5)])
  have "st \<noteq> 0" using assms(4) by (simp add: st_def)
  then have nz: "LR3_STATE ?v \<noteq> 0" using st by auto
  have k: "unat (word_of_nat k :: u8) = k" using assms(8) by (simp add: unat_of_nat take_bit_nat_eq_self)
  have "gich_get_lr3 s1 (g3_ints s1 p) = Inr (Some (k, ?v))"
    using assms nz lr_value3_vid[OF assms(3)]
    by (simp add: gich_get_lr3_def w(2-5) k gich_read_lr3_def)
  then have "\<exists>s2. vgic_remove_lr3 v p s1 = Inr (True, s2) \<and> wi_state (g3_ints s2 p) = st \<and>
      \<not> wi_in_lr (g3_ints s2 p) \<and> ich_lr_el2 (g3_hw s2) k = 0"
    using assms nz by (simp add: vgic_remove_lr3_def w(2-5) vgic_owns3_def gich_write_lr3_def Let_def st gich_set_hcr3_def)
  then show ?thesis using w(1) by (auto simp: st_def)
qed

theorem lr3_write_remove_roundtrip_witness:
  "\<exists>s1 s2. vgic_write_lr3 0 0x10000 2 (sample_vgic3\<lparr>g3_ints := (\<lambda>_. sample_int3\<lparr>wi_owner := Some 0, wi_state := PENDACT\<rparr>)\<rparr>) = Inr s1 \<and>
     vgic_remove_lr3 0 0x10000 s1 = Inr (True, s2) \<and> wi_state (g3_ints s2 0x10000) = PENDACT"
  using lr3_write_remove_roundtrip[of "sample_vgic3\<lparr>g3_ints := (\<lambda>_. sample_int3\<lparr>wi_owner := Some 0, wi_state := PENDACT\<rparr>)\<rparr>" "0x10000" 0 2]
  by (simp add: sample_int3_def vgic_int_is_hw3_def gic_is_priv_def) blast

subsection \<open>Messages that set a register\<close>

text \<open>When the interrupt that a guest's access is to change is owned by another vCPU, the access
  becomes a message to the owner. The message has no room for what it has to say: it names
  redistributor 0, whichever the guest had accessed, and only the low byte of the value. The
  receiver therefore changes the private interrupt of vCPU 0 instead, and a route that
  arrives this way has lost all but the lowest affinity.\<close>
theorem set_reg_message_loses_target:
  assumes "vgic_get_reg_handler_info3 (regid3 handlers) = Some handlers"
    and "wi_id (g3_ints s p) < 2 ^ 15" "vm_id (g3_vm s) < 2 ^ 16" "vm_id (g3_vm s') = vm_id (g3_vm s)"
  shows "vgic_ipi_handler3 (cm_event (set_reg_msg handlers p data s)) (cm_data (set_reg_msg handlers p data s)) s' =
    bindr (vgic_get_int3 s' (g3_vcpu s') (wi_id (g3_ints s p)) 0) (\<lambda>q.
      if q \<noteq> 0 then vgic_int_set_field3 handlers (g3_vcpu s') q (take_bit 8 data) s' else Inr s')"
proof -
  have "regid3 handlers < 10"
    using assms(1) by (simp add: vgic_get_reg_handler_info3_def reg_handler_info_table3_def split: if_splits)
  then have reg: "unat (take_bit 8 (word_of_nat (regid3 handlers)) :: u64) = regid3 handlers"
    by (simp add: unat_of_nat take_bit_of_nat unsigned_take_bit_eq take_bit_nat_eq_self)
  have irq: "unat (take_bit 15 (word_of_nat (wi_id (g3_ints s p))) :: u64) = wi_id (g3_ints s p)"
    using assms(2) by (simp add: unat_of_nat unsigned_take_bit_eq take_bit_nat_eq_self)
  have "unat (vm_id (g3_vm s)) < 2 ^ 16" using assms(3) by (simp add: word_less_nat_alt)
  then have vm: "take_bit 16 (vm_id (g3_vm s)) = vm_id (g3_vm s)"
    by (simp add: word_unat_eq_iff unsigned_take_bit_eq take_bit_nat_eq_self)
  have "(0xffff :: u64) = mask 16" by (simp add: mask_eq_exp_minus_1)
  then have and16: "vm_id (g3_vm s) AND (0xffff :: u64) = vm_id (g3_vm s)"
    using vm by (simp only: take_bit_eq_mask[symmetric])
  show ?thesis
    using assms(1,4)
    by (simp add: vgic_ipi_handler3_def set_reg_msg_def vgic_msg3_def vgic_msg_data_roundtrip Let_def
        and16 vm reg irq event_num_def)
qed

theorem set_reg_message_loses_target_witness:
  "vgic_ipi_handler3 (cm_event (set_reg_msg irouter_info3 0x10000 0x101 sample_vgic3))
     (cm_data (set_reg_msg irouter_info3 0x10000 0x101 sample_vgic3)) sample_vgic3 =
   bindr (vgic_get_int3 sample_vgic3 0 40 0) (\<lambda>q.
     if q \<noteq> 0 then vgic_int_set_field3 irouter_info3 0 q 1 sample_vgic3 else Inr sample_vgic3)"
proof -
  have "vgic_get_reg_handler_info3 (regid3 irouter_info3) = Some irouter_info3"
    by (simp add: vgic_get_reg_handler_info3_def reg_handler_info_table3_def) (simp add: irouter_info3_def)
  moreover have "wi_id sample_int3 = 40" by (simp add: sample_int3_def)
  moreover have "take_bit 8 (0x101 :: u64) = 1" by (simp add: take_bit_eq_mod)
  ultimately show ?thesis
    using set_reg_message_loses_target[of irouter_info3 sample_vgic3 "0x10000" sample_vgic3 "0x101"]
    by (simp cong: if_cong)
qed

subsection \<open>Routing registers\<close>

lemma lock3_free:
  assumes "ticket l = next_tk l"
  shows "spin_lock l = Inr (l\<lparr>ticket := ticket l + 1\<rparr>)"
  by (rule spin_lock_free[OF assms])

text \<open>A shared interrupt at rest: nobody owns it, it is inactive and in no list register, and its lock is free.\<close>

definition at_rest :: "vgic_int3 \<Rightarrow> bool" where
  "at_rest i \<longleftrightarrow> wi_owner i = None \<and> wi_state i = INV \<and> \<not> wi_in_lr i \<and> ticket (wi_lock i) = next_tk (wi_lock i)"

lemma set_field3_at_rest:
  assumes "p \<noteq> 0" "at_rest (g3_ints s p)" "update_field3 handlers (g3_vm s) v data i1 = (ch, i2)"
    and "i1 = (g3_ints s p)\<lparr>wi_lock := (wi_lock (g3_ints s p))\<lparr>ticket := ticket (wi_lock (g3_ints s p)) + 1\<rparr>, wi_owner := Some v\<rparr>"
    and "wi_state i2 = INV" "\<not> wi_in_lr i2" "wi_owner i2 = Some v" "\<not> vgic_int_is_hw3 i2"
  shows "vgic_int_set_field3 handlers v p data s =
    Inr (upd_int3 p (\<lambda>_. i2\<lparr>wi_owner := None, wi_lock := spin_unlock (wi_lock i2)\<rparr>) s)"
proof -
  let ?s1 = "upd_int3 p (\<lambda>_. i1) s" and ?s2 = "upd_int3 p (\<lambda>_. i2) s"
  have l: "lock_int3 p s = Inr (upd_int3 p (\<lambda>i. i\<lparr>wi_lock := (wi_lock i)\<lparr>ticket := ticket (wi_lock i) + 1\<rparr>\<rparr>) s)"
    using assms(1,2) by (simp add: lock_int3_def at_rest_def lock3_free)
  have own: "vgic_get_ownership3 v p (upd_int3 p (\<lambda>i. i\<lparr>wi_lock := (wi_lock i)\<lparr>ticket := ticket (wi_lock i) + 1\<rparr>\<rparr>) s) = (True, ?s1)"
    using assms(2) by (cases s) (simp add: vgic_get_ownership3_def at_rest_def assms(4) o_def)
  have "set_owned_field3 handlers v p data ?s1 = Inr (upd_int3 p (\<lambda>_. i2\<lparr>wi_owner := None\<rparr>) s)"
    using assms
    by (simp add: set_owned_field3_def vgic_remove_lr3_def at_rest_def vgic_route3_def
        vgic_yield_ownership3_def vgic_owns3_def state3_not_in_lr o_def)
  then show ?thesis by (cases i2) (simp add: vgic_int_set_field3_def l own unlock_int3_def o_def)
qed

text \<open>The value that an access of a guest leaves in a routing register that held \<open>old\<close>.\<close>

definition routed :: "emul_access \<Rightarrow> u64 \<Rightarrow> u64 \<Rightarrow> u64" where
  "routed acc old v =
     (if ac_width acc = 4
      then if bit (ac_addr acc) 2 then take_bit 32 old OR push_bit 32 (take_bit 32 v)
           else push_bit 32 (drop_bit 32 old) OR take_bit 32 v
      else v)"

lemma low32: "(w AND BIT_MASK 0 32 :: u64) = take_bit 32 w"
  by (rule bit_word_eqI) (auto simp: bit_and_iff bit_BIT_MASK bit_take_bit_iff)

lemma high32: "(w AND BIT_MASK 32 32 :: u64) = push_bit 32 (drop_bit 32 w)"
  by (rule bit_word_eqI) (auto simp: bit_and_iff bit_BIT_MASK bit_push_bit_iff bit_drop_bit_eq)

lemma top_bit: "(a AND 4 :: u64) \<noteq> 0 \<longleftrightarrow> bit a 2"
  using and_exp_eq_0_iff_not_bit[of a 2] by simp

lemma writereg3_same:
  assumes "reg \<le> 30"
  shows "x_regs (v_regs (vm_vcpus (g3_vm (cur_writereg3 reg val s)) (g3_vcpu s))) (unat reg) = val"
  using assms by (simp add: cur_writereg3_def vcpu_writereg_def linorder_not_le[symmetric])

text \<open>The part of a routing register that a read of a guest returns.\<close>

definition route_part :: "emul_access \<Rightarrow> u64 \<Rightarrow> u64" where
  "route_part acc r =
     (if ac_width acc = 4 then if bit (ac_addr acc) 2 then drop_bit 32 r else take_bit 32 r else r)"

text \<open>An aligned access of 4 or 8 bytes to the routing register of interrupt \<open>irq\<close>.\<close>

definition route_access :: "emul_access \<Rightarrow> nat \<Rightarrow> bool" where
  "route_access acc irq \<longleftrightarrow> ac_width acc \<in> {4, 8} \<and> ac_addr acc AND word_of_nat (ac_width acc - 1) = 0 \<and>
     irq < 1024 \<and> unat (GICD_REG_MASK3 (ac_addr acc)) div 8 = 0xC00 + irq"

lemma mask3_aligned:
  "unat (GICD_REG_MASK3 (a AND NOT 7)) = 8 * (unat (GICD_REG_MASK3 a) div 8)"
proof -
  have m: "(0xffff :: u64) = mask 16" "(7 :: u64) = mask 3" by (simp_all add: mask_eq_exp_minus_1)
  have "GICD_REG_MASK3 (a AND NOT 7) = push_bit 3 (drop_bit 3 (GICD_REG_MASK3 a))"
    unfolding GICD_REG_MASK3_def m
    by (intro bit_word_eqI) (auto simp: bit_and_iff bit_not_iff bit_mask_iff bit_push_bit_iff bit_drop_bit_eq)
  moreover have "unat (push_bit 3 (drop_bit 3 w)) = 8 * (unat w div 8)" for w :: u64
  proof -
    have "8 * (unat w div 8) < 2 ^ 64" using unsigned_less[of w, where 'a = nat] by simp
    then show ?thesis
      by (simp add: push_bit_eq_mult unat_mult_lem[THEN iffD1] unat_drop_bit_eq drop_bit_eq_div unat_word_ariths)
  qed
  ultimately show ?thesis by simp
qed

lemma route_access_decode:
  assumes "route_access acc irq"
  shows "vgicd_reg_handler3 (ac_addr acc) = irouter_info3" "vgic_check_reg_alignment3 acc irouter_info3"
    "unat (GICD_REG_MASK3 (ac_addr acc AND NOT 7) - word_of_nat (GICD_IROUTER 0)) div 8 = irq"
proof -
  define off where "off = unat (GICD_REG_MASK3 (ac_addr acc))"
  have off: "off div 8 = 0xC00 + irq" "irq < 1024" "ac_width acc \<in> {4, 8}"
    "ac_addr acc AND word_of_nat (ac_width acc - 1) = 0"
    using assms by (simp_all add: route_access_def off_def)
  then have range: "0x6000 \<le> off" "off < 0x8000" by linarith+
  have grp: "unat (lsr (GICD_REG_MASK3 (ac_addr acc)) 7) = off div 128"
    by (simp add: lsr_eq drop_bit_eq_div unat_div off_def)
  have "0xC0 \<le> off div 128" using range(1) by (simp add: Suc_leI div_le_mono[of "0x6000" off 128, simplified])
  then show "vgicd_reg_handler3 (ac_addr acc) = irouter_info3"
    unfolding vgicd_reg_handler3_def Let_def grp off_def[symmetric]
    using range by (simp add: gic_regs GICD_IROUTER_def GICD_REG_GROUP_def GICD_IS_REG_def)
  show "vgic_check_reg_alignment3 acc irouter_info3"
    using off(3,4) by (auto simp: vgic_check_reg_alignment3_def irouter_info3_def)
  have m: "unat (GICD_REG_MASK3 (ac_addr acc AND NOT 7)) = 0x6000 + 8 * irq"
    unfolding mask3_aligned off_def[symmetric] off(1) by simp
  then have "unat (GICD_REG_MASK3 (ac_addr acc AND NOT 7) - 0x6000) = 8 * irq"
    by (subst unat_sub) (simp_all add: word_le_nat_alt)
  then show "unat (GICD_REG_MASK3 (ac_addr acc AND NOT 7) - word_of_nat (GICD_IROUTER 0)) div 8 = irq"
    by (simp add: GICD_IROUTER_def)
qed

text \<open>The emulated distributor around an access to a routing register: its lock is taken and released.\<close>

abbreviation vgicd_locked :: "vgic_sys3 \<Rightarrow> vgic_sys3" where
  "vgicd_locked s \<equiv> s\<lparr>g3_vgicd := (g3_vgicd s)\<lparr>vd_lock := (vd_lock (g3_vgicd s))\<lparr>ticket := ticket (vd_lock (g3_vgicd s)) + 1\<rparr>\<rparr>\<rparr>"

abbreviation vgicd_unlocked :: "vgic_sys3 \<Rightarrow> vgic_sys3" where
  "vgicd_unlocked s \<equiv> s\<lparr>g3_vgicd := (g3_vgicd s)\<lparr>vd_lock := spin_unlock (vd_lock (g3_vgicd s))\<rparr>\<rparr>"

lemma get_int3_frame:
  assumes "g3_vcpu t = g3_vcpu s" "g3_priv t = g3_priv s" "g3_vm t = g3_vm s"
    and "vd_int_num (g3_vgicd t) = vd_int_num (g3_vgicd s)" "vd_interrupts (g3_vgicd t) = vd_interrupts (g3_vgicd s)"
  shows "vgic_get_int3 t (g3_vcpu t) irq (g3_vcpu t) = vgic_get_int3 s (g3_vcpu s) irq (g3_vcpu s)"
  by (simp add: vgic_get_int3_def assms)

lemma route_handler_runs:
  assumes "route_access acc irq" "ticket (vd_lock (g3_vgicd s)) = next_tk (vd_lock (g3_vgicd s))"
    and "vgicd_emul_router_access acc irouter_info3 (vgicd_locked s) = Inr s1"
  shows "vgicd_emul_handler3 acc s = Inr (True, vgicd_unlocked s1)"
  using assms(3) route_access_decode(1,2)[OF assms(1)] lock3_free[OF assms(2)]
  by (simp add: vgicd_emul_handler3_def run_reg_access3_def Let_def) (simp add: irouter_info3_def)

lemma route_read:
  assumes "route_access rd irq" "\<not> ac_write rd" "ac_reg rd \<le> 30"
    and "vgic_get_int3 s (g3_vcpu s) irq (g3_vcpu s) = Inr p" "p \<noteq> 0"
    and "ticket (vd_lock (g3_vgicd s)) = next_tk (vd_lock (g3_vgicd s))"
  shows "\<exists>s'. vgicd_emul_handler3 rd s = Inr (True, s') \<and> g3_ints s' = g3_ints s \<and> g3_hw s' = g3_hw s \<and>
    x_regs (v_regs (vm_vcpus (g3_vm s') (g3_vcpu s))) (unat (ac_reg rd)) =
      route_part rd (vgic_int_get_route (g3_ints s p))"
proof -
  let ?r = "vgic_int_get_route (g3_ints s p)"
  have part: "(if ac_width rd = 4 \<and> ac_addr rd AND 4 \<noteq> 0 then ucast (ucast (lsr ?r 32) :: u32)
      else if ac_width rd = 4 then ucast (ucast ?r :: u32) else ?r) = route_part rd ?r"
    by (rule bit_word_eqI)
      (auto simp: route_part_def top_bit bit_ucast_iff lsr_field_bit bit_drop_bit_eq bit_take_bit_iff add.commute
        dest: bit_imp_le_length)
  have get: "vgic_get_int3 (vgicd_locked s) (g3_vcpu s) irq (g3_vcpu s) = Inr p"
    using trans[OF get_int3_frame[of "vgicd_locked s" s irq] assms(4)] by simp
  have "vgicd_emul_router_access rd irouter_info3 (vgicd_locked s) =
      Inr (cur_writereg3 (ac_reg rd) (route_part rd ?r) (vgicd_locked s))"
    unfolding vgicd_emul_router_access_def Let_def route_access_decode(3)[OF assms(1)]
    using assms(2,5) part by (simp add: get load_int3_def)
  from route_handler_runs[OF assms(1,6) this] show ?thesis
    using writereg3_same[OF assms(3), of _ "vgicd_locked s"] by (simp add: cur_writereg3_def)
qed

lemma route_write:
  assumes "route_access acc irq" "ac_write acc" "vgic_get_int3 s (g3_vcpu s) irq (g3_vcpu s) = Inr p" "p \<noteq> 0"
    and "at_rest (g3_ints s p)" "\<not> gic_is_priv (wi_id (g3_ints s p))" "\<not> wi_hw (g3_ints s p)"
    and "r = routed acc (wi_route (g3_ints s p)) (cur_readreg3 s (ac_reg acc))"
  shows "\<exists>i'. vgicd_emul_router_access acc irouter_info3 s = Inr (upd_int3 p (\<lambda>_. i') s) \<and> at_rest i' \<and>
    vgic_int_get_route i' = take_bit 40 r \<and>
    wi_phys i' = (if bit r 31 then cpu_id_to_mpidr (p_id_of3 s (g3_vcpu s))
       else if vm_get_vcpu_by_mpidr (g3_vm s) r = None then GICD_IROUTER_INV else 0)"
proof -
  let ?i = "g3_ints s p" and ?v = "g3_vcpu s"
  define i1 where "i1 = ?i\<lparr>wi_lock := (wi_lock ?i)\<lparr>ticket := ticket (wi_lock ?i) + 1\<rparr>, wi_owner := Some ?v\<rparr>"
  define ph where "ph = (if bit r 31 then cpu_id_to_mpidr (p_id_of3 s ?v)
       else if vm_get_vcpu_by_mpidr (g3_vm s) r = None then GICD_IROUTER_INV else 0)"
  have irm: "(r AND GICD_IROUTER_IRM_BIT \<noteq> 0) = bit r 31"
    using and_exp_eq_0_iff_not_bit[of r 31] by (simp add: GICD_IROUTER_IRM_BIT_def lsl_def push_bit_eq_mult)
  have aff: "vm_get_vcpu_by_mpidr (g3_vm s) (r AND MPIDR_AFF_MSK) = vm_get_vcpu_by_mpidr (g3_vm s) r"
    by (simp add: vm_get_vcpu_by_mpidr_def and.assoc)
  have res0: "r AND GICD_IROUTER_RES0_MSK = take_bit 40 r"
    by (simp add: GICD_IROUTER_RES0_MSK_def lsl_def push_bit_eq_mult take_bit_eq_mask mask_eq_exp_minus_1)
  define i2 where "i2 = i1\<lparr>wi_phys := ph, wi_route := take_bit 40 r\<rparr>"
  have upd: "update_field3 irouter_info3 (g3_vm s) ?v r i1 = (wi_route i1 \<noteq> take_bit 40 r, i2)"
    using assms(6)
    by (simp add: irouter_info3_def vgic_int_set_route_def i1_def i2_def irm aff res0 Let_def ph_def no_mpidr
        split: option.split)
  have set: "vgic_int_set_field3 irouter_info3 ?v p r s =
      Inr (upd_int3 p (\<lambda>_. i2\<lparr>wi_owner := None, wi_lock := spin_unlock (wi_lock i2)\<rparr>) s)"
    by (rule set_field3_at_rest[OF assms(4,5) upd i1_def])
      (use assms(5,7) in \<open>simp_all add: i2_def i1_def at_rest_def vgic_int_is_hw3_def\<close>)
  have route: "vgic_int_get_route ?i = wi_route ?i" using assms(6) by (simp add: vgic_int_get_route_def)
  have "vgicd_emul_router_access acc irouter_info3 s = vgic_int_set_field3 irouter_info3 ?v p r s"
    unfolding vgicd_emul_router_access_def Let_def route_access_decode(3)[OF assms(1)]
    using assms(2-4,8)
    by (simp add: load_int3_def route low32 high32 top_bit routed_def lsl_eq[of 32, where 'a = 64, simplified])
  with set have "vgicd_emul_router_access acc irouter_info3 s =
      Inr (upd_int3 p (\<lambda>_. i2\<lparr>wi_owner := None, wi_lock := spin_unlock (wi_lock i2)\<rparr>) s)" by simp
  moreover have "at_rest (i2\<lparr>wi_owner := None, wi_lock := spin_unlock (wi_lock i2)\<rparr>)"
    using assms(5) by (simp add: i2_def i1_def at_rest_def spin_unlock_def)
  moreover have "vgic_int_get_route (i2\<lparr>wi_owner := None, wi_lock := l\<rparr>) = take_bit 40 r" for l
    using assms(6) by (simp add: i2_def i1_def vgic_int_get_route_def)
  moreover have "wi_phys (i2\<lparr>wi_owner := None, wi_lock := l\<rparr>) = ph" for l by (simp add: i2_def)
  ultimately show ?thesis unfolding ph_def by blast
qed

text \<open>C21: a guest that writes the routing register of a shared virtual interrupt, not backed by
  hardware and at rest, while the emulated distributor's lock is free, and then reads it through the
  same emulation finds what it wrote, cut to the 40 bits the register has: a 64-bit write sets the
  register, a 32-bit write one half of it and keeps the other, and a read returns the register or
  the half it addresses. The interrupt is directed to the affinity of the writer's processor with the
  broadcast bit, and to no processor when no vCPU of the VM has the affinity the route names; otherwise
  to affinity 0, because the driver looks up the processor of the vCPU it finds in the platform's table,
  in which the affinity of every processor is 0. The interrupt stays at rest, and no other changes.\<close>
theorem irouter_write_read:
  assumes "route_access acc irq" "ac_write acc" "vgic_get_int3 s (g3_vcpu s) irq (g3_vcpu s) = Inr p" "p \<noteq> 0"
    and "at_rest (g3_ints s p)" "\<not> gic_is_priv (wi_id (g3_ints s p))" "\<not> wi_hw (g3_ints s p)"
    and "ticket (vd_lock (g3_vgicd s)) = next_tk (vd_lock (g3_vgicd s))"
    and "r = routed acc (wi_route (g3_ints s p)) (cur_readreg3 s (ac_reg acc))"
  shows "\<exists>s'. vgicd_emul_handler3 acc s = Inr (True, s') \<and>
    (\<forall>rd. route_access rd irq \<and> \<not> ac_write rd \<and> ac_reg rd \<le> 30 \<longrightarrow>
       (\<exists>s''. vgicd_emul_handler3 rd s' = Inr (True, s'') \<and> g3_ints s'' = g3_ints s' \<and> g3_hw s'' = g3_hw s' \<and>
          x_regs (v_regs (vm_vcpus (g3_vm s'') (g3_vcpu s))) (unat (ac_reg rd)) = route_part rd (take_bit 40 r))) \<and>
    wi_phys (g3_ints s' p) = (if bit r 31 then cpu_id_to_mpidr (p_id_of3 s (g3_vcpu s))
       else if vm_get_vcpu_by_mpidr (g3_vm s) r = None then GICD_IROUTER_INV else 0) \<and> at_rest (g3_ints s' p) \<and>
    (\<forall>q. q \<noteq> p \<longrightarrow> g3_ints s' q = g3_ints s q) \<and> g3_vm s' = g3_vm s \<and> g3_hw s' = g3_hw s \<and> g3_msg s' = g3_msg s"
proof -
  let ?s = "vgicd_locked s"
  have get: "vgic_get_int3 ?s (g3_vcpu ?s) irq (g3_vcpu ?s) = Inr p" by (rule trans[OF get_int3_frame assms(3)]) simp_all
  obtain i' where w: "vgicd_emul_router_access acc irouter_info3 ?s = Inr (upd_int3 p (\<lambda>_. i') ?s)" "at_rest i'"
    "vgic_int_get_route i' = take_bit 40 r"
    "wi_phys i' = (if bit r 31 then cpu_id_to_mpidr (p_id_of3 s (g3_vcpu s))
       else if vm_get_vcpu_by_mpidr (g3_vm s) r = None then GICD_IROUTER_INV else 0)"
    using route_write[OF assms(1,2) get assms(4)] assms(5-7,9) by (auto simp: cur_readreg3_def)
  let ?s' = "vgicd_unlocked (upd_int3 p (\<lambda>_. i') ?s)"
  have run: "vgicd_emul_handler3 acc s = Inr (True, ?s')"
    using route_handler_runs[OF assms(1,8) w(1)] by simp
  have get': "vgic_get_int3 ?s' (g3_vcpu ?s') irq (g3_vcpu ?s') = Inr p"
    by (rule trans[OF get_int3_frame assms(3)]) simp_all
  have free: "ticket (vd_lock (g3_vgicd ?s')) = next_tk (vd_lock (g3_vgicd ?s'))"
    using assms(8) by (simp add: spin_unlock_def)
  have rd: "\<exists>s''. vgicd_emul_handler3 rd ?s' = Inr (True, s'') \<and> g3_ints s'' = g3_ints ?s' \<and> g3_hw s'' = g3_hw ?s' \<and>
      x_regs (v_regs (vm_vcpus (g3_vm s'') (g3_vcpu s))) (unat (ac_reg rd)) = route_part rd (take_bit 40 r)"
    if "route_access rd irq \<and> \<not> ac_write rd \<and> ac_reg rd \<le> 30" for rd
    using route_read[OF _ _ _ get' assms(4) free, of rd] that w(3) by simp
  show ?thesis by (rule exI[of _ ?s'], intro conjI allI impI run rd) (use w in simp_all)
qed

theorem irouter_write_read_witness:
  "\<exists>acc s'. vgicd_emul_handler3 acc (cur_writereg3 1 0x101 sample_vgic3) = Inr (True, s') \<and>
     wi_phys (g3_ints s' 0x10200) = GICD_IROUTER_INV \<and>
     (\<exists>rd s''. vgicd_emul_handler3 rd s' = Inr (True, s'') \<and> x_regs (v_regs (vm_vcpus (g3_vm s'') 0)) 5 = 0x101)"
proof -
  let ?s = "cur_writereg3 1 0x101 sample_vgic3"
  let ?acc = "\<lparr>ac_addr = 0x8006140, ac_write = True, ac_sign_ext = False, ac_width = 8, ac_reg = 1\<rparr>"
  let ?rd = "\<lparr>ac_addr = 0x8006140, ac_write = False, ac_sign_ext = False, ac_width = 4, ac_reg = 5\<rparr>"
  have f: "g3_vcpu ?s = 0" "g3_ints ?s = (\<lambda>_. sample_int3)" "g3_vgicd ?s = g3_vgicd sample_vgic3"
    by (simp_all add: cur_writereg3_def sample_vgic3_def)
  have acc: "route_access ?acc 40" "route_access ?rd 40" by (simp_all add: route_access_def GICD_REG_MASK3_def)
  have get: "vgic_get_int3 ?s (g3_vcpu ?s) 40 (g3_vcpu ?s) = Inr 0x10200"
  proof -
    have "vd_int_num (g3_vgicd sample_vgic3) = 64" "vd_interrupts (g3_vgicd sample_vgic3) = 0x10000"
      by (simp_all add: sample_vgic3_def)
    then show ?thesis by (simp add: vgic_get_int3_def f)
  qed
  have r: "cur_readreg3 ?s 1 = 0x101" by (simp add: cur_readreg3_def cur_writereg3_def vcpu_readreg_def vcpu_writereg_def)
  have none: "vm_get_vcpu_by_mpidr (g3_vm ?s) 0x101 = None"
    by (simp add: vm_get_vcpu_by_mpidr_def find_None_iff cur_writereg3_def sample_vm_def vcpu_writereg_def)
  have irm: "\<not> bit (0x101 :: u64) 31" by simp
  have lk: "ticket (vd_lock (g3_vgicd ?s)) = next_tk (vd_lock (g3_vgicd ?s))"
    unfolding f(3) by (simp add: sample_vgic3_def SPINLOCK_INITVAL_def)
  obtain s' where s': "vgicd_emul_handler3 ?acc ?s = Inr (True, s')"
    "wi_phys (g3_ints s' 0x10200) = GICD_IROUTER_INV"
    "\<forall>rd. route_access rd 40 \<and> \<not> ac_write rd \<and> ac_reg rd \<le> 30 \<longrightarrow>
       (\<exists>s''. vgicd_emul_handler3 rd s' = Inr (True, s'') \<and> g3_ints s'' = g3_ints s' \<and> g3_hw s'' = g3_hw s' \<and>
          x_regs (v_regs (vm_vcpus (g3_vm s'') 0)) (unat (ac_reg rd)) = route_part rd (take_bit 40 0x101))"
    using irouter_write_read[OF acc(1) _ get _ _ _ _ lk, of "0x101"] none r irm
    by (auto simp: f sample_int3_def at_rest_def SPINLOCK_INITVAL_def gic_is_priv_def routed_def
        simp del: bit_numeral_word_iff)
  moreover have "route_part ?rd (take_bit 40 0x101) = 0x101" by (simp add: route_part_def take_bit_eq_mod)
  ultimately show ?thesis using acc(2) by (fastforce intro: exI[of _ ?acc] exI[of _ ?rd])
qed

subsection \<open>The emulated redistributors\<close>

lemma vgicr_handler_runs:
  assumes "ticket (vr_lock (g3_vgicr s v)) = next_tk (vr_lock (g3_vgicr s v))" "vgicr_get_id s acc = v"
    and "v < vm_nr_cpus (g3_vm s)" "vgicr_reg_handler (g3_vgicr_addr s) (ac_addr acc) = info"
    and "vgic_check_reg_alignment3 acc info"
    and "run_reg_access3 acc info True v (upd_vgicr_lock v (\<lambda>l. l\<lparr>ticket := ticket l + 1\<rparr>) s) = Inr s1"
  shows "vgicr_emul_handler acc s = Inr (True, upd_vgicr_lock v spin_unlock s1)"
proof -
  have "upd_vgicr_lock v (\<lambda>_. (vr_lock (g3_vgicr s v))\<lparr>ticket := next_tk (vr_lock (g3_vgicr s v)) + 1\<rparr>) s =
      upd_vgicr_lock v (\<lambda>l. l\<lparr>ticket := ticket l + 1\<rparr>) s"
    using assms(1) by (cases s) (auto simp: fun_eq_iff intro: vgicr.equality)
  moreover have "(if vgicr_get_id s acc = g3_vcpu s then Some (g3_vcpu s) else vm_get_vcpu (g3_vm s) (vgicr_get_id s acc)) = Some v"
    using assms(2,3) by (simp add: vm_get_vcpu_def)
  ultimately show ?thesis
    using assms(2,5,6) unfolding vgicr_emul_handler_def Let_def assms(4) lock3_free[OF assms(1)]
    by (simp add: lock3_free[OF assms(1)] assms(1))
qed

text \<open>A read of a group of one-bit fields: the loop puts the field of interrupt \<open>first + i\<close> into bit \<open>i\<close>.\<close>

lemma generic_read_bits:
  assumes "\<not> ac_write acc" "field_width3 info = 1"
    and "\<And>i. i \<in> set ks \<Longrightarrow> vgic_get_int3 s (g3_vcpu s) (first + i) v = Inr (q i) \<and> q i \<noteq> 0 \<and> i < 64"
  shows "\<exists>w'. generic_loop3 acc info v first ks w s = Inr (w', s) \<and>
    (\<forall>n. bit w' n \<longleftrightarrow> bit w n \<or> n \<in> set ks \<and> bit (read_field3 info (g3_ints s (q n))) 0)"
  using assms(3)
proof (induction ks arbitrary: w)
  case (Cons i ks)
  let ?f = "read_field3 info (g3_ints s (q i)) AND (lsl 1 1 - 1)"
  have one: "lsl 1 1 - 1 = (1 :: u64)" by (simp add: lsl_def)
  have i: "i < 64" using Cons.prems by simp
  have b: "bit (w OR lsl ?f i) n \<longleftrightarrow> bit w n \<or> n = i \<and> bit (read_field3 info (g3_ints s (q i))) 0" for n
    using i unfolding one
    by (cases "n < i") (auto simp: bit_or_iff lsl_eq bit_push_bit_iff bit_and_iff bit_1_iff bit_exp_iff simp del: and_one_eq)
  obtain w' where "generic_loop3 acc info v first ks (w OR lsl ?f i) s = Inr (w', s)"
    "\<And>n. bit w' n \<longleftrightarrow> bit (w OR lsl ?f i) n \<or> n \<in> set ks \<and> bit (read_field3 info (g3_ints s (q n))) 0"
    using Cons.IH[of "w OR lsl ?f i"] Cons.prems by auto
  moreover have "generic_loop3 acc info v first (i # ks) w s = generic_loop3 acc info v first ks (w OR lsl ?f i) s"
    using Cons.prems[of i] assms(1,2) by (simp add: Let_def load_int3_def)
  ultimately show ?case unfolding b by (intro exI[of _ w']) auto
qed simp

lemma gicr_mask_gicd:
  assumes "GICR_REG_MASK a = w" shows "GICD_REG_MASK3 a = w AND 0xffff"
proof -
  have "(0x1ffff AND 0xffff :: u64) = 0xffff" by simp
  then show ?thesis using assms unfolding GICR_REG_MASK_def GICD_REG_MASK3_def by (metis and.assoc)
qed

lemma gicr_mask_aligned:
  assumes "GICR_REG_MASK a = w" "w AND 3 = 0" shows "a AND 3 = 0"
proof -
  have "(0x1ffff AND 3 :: u64) = 3" by simp
  then show ?thesis using assms unfolding GICR_REG_MASK_def by (metis and.assoc)
qed

lemma upd_vgicr_lock_fields [simp]:
  "g3_ints (upd_vgicr_lock v f s) = g3_ints s" "g3_vcpu (upd_vgicr_lock v f s) = g3_vcpu s"
  "g3_vm (upd_vgicr_lock v f s) = g3_vm s" "g3_hw (upd_vgicr_lock v f s) = g3_hw s"
  "vgic_get_int3 (upd_vgicr_lock v f s) a b c = vgic_get_int3 s a b c"
  by (simp_all add: vgic_get_int3_def split: option.split)

text \<open>C23: a guest that reads the enable register of the redistributor of vCPU \<open>v\<close>, its own or
  another's, finds in bit \<open>i\<close> whether private interrupt \<open>i\<close> of vCPU \<open>v\<close> is enabled; the access
  changes no interrupt and nothing of the hardware.\<close>
theorem vgicr_read_enabled:
  assumes "\<not> ac_write acc" "ac_width acc = 4" "ac_reg acc \<le> 30" "GICR_REG_MASK (ac_addr acc) = 0x10100"
    and "vgicr_get_id s acc = v" "v < vm_nr_cpus (g3_vm s)"
    and "ticket (vr_lock (g3_vgicr s v)) = next_tk (vr_lock (g3_vgicr s v))"
    and "\<And>i. i < 32 \<Longrightarrow> g3_priv s v + VGIC_INT3_SIZE * word_of_nat i \<noteq> 0"
  shows "\<exists>s'. vgicr_emul_handler acc s = Inr (True, s') \<and> g3_ints s' = g3_ints s \<and> g3_hw s' = g3_hw s \<and>
    (\<forall>i. bit (x_regs (v_regs (vm_vcpus (g3_vm s') (g3_vcpu s))) (unat (ac_reg acc))) i \<longleftrightarrow>
       i < 32 \<and> wi_enabled (g3_ints s (g3_priv s v + VGIC_INT3_SIZE * word_of_nat i)))"
proof -
  let ?q = "\<lambda>i. g3_priv s v + VGIC_INT3_SIZE * word_of_nat i"
  let ?s = "upd_vgicr_lock v (\<lambda>l. l\<lparr>ticket := ticket l + 1\<rparr>) s"
  have h: "vgicr_reg_handler (g3_vgicr_addr s) (ac_addr acc) = isenabler_info3"
    by (simp add: vgicr_reg_handler_def assms(4) gicr_regs)
  have al: "vgic_check_reg_alignment3 acc isenabler_info3"
    using gicr_mask_aligned[OF assms(4)] assms(2) by (simp add: vgic_check_reg_alignment3_def isenabler_info3_def)
  have f: "first_int3 acc isenabler_info3 = 0"
    by (simp add: first_int3_def gicr_mask_gicd[OF assms(4)] isenabler_info3_def gic_regs)
  have q: "vgic_get_int3 ?s (g3_vcpu ?s) (0 + i) v = Inr (?q i) \<and> ?q i \<noteq> 0 \<and> i < 64" if "i \<in> set [0..<32]" for i
    using that assms(6,8) by (simp add: vgic_get_int3_def vm_get_vcpu_def)
  obtain w where w: "generic_loop3 acc isenabler_info3 v 0 [0..<32] 0 ?s = Inr (w, ?s)"
    "\<And>n. bit w n \<longleftrightarrow> n < 32 \<and> bit (read_field3 isenabler_info3 (g3_ints s (?q n))) 0"
    using generic_read_bits[OF assms(1) _ q, of isenabler_info3 "[0..<32]" 0] by (auto simp: isenabler_info3_def)
  have "run_reg_access3 acc isenabler_info3 True v ?s = Inr (cur_writereg3 (ac_reg acc) w ?s)"
    using assms(1,2) w(1) f
    by (simp add: run_reg_access3_def vgic_emul_generic_access3_def isenabler_info3_def gic_is_priv_def Let_def
        del: upt_rec_numeral)
  from vgicr_handler_runs[OF assms(7,5,6) h al this] have
    "vgicr_emul_handler acc s = Inr (True, upd_vgicr_lock v spin_unlock (cur_writereg3 (ac_reg acc) w ?s))" .
  moreover have "g3_ints (cur_writereg3 r x t) = g3_ints t" "g3_hw (cur_writereg3 r x t) = g3_hw t" for r x t
    by (simp_all add: cur_writereg3_def)
  ultimately show ?thesis
    using writereg3_same[OF assms(3), of w ?s] w(2)
    by (simp add: isenabler_info3_def vgic_int_get_enable3_def)
qed

theorem vgicr_read_enabled_witness:
  "\<exists>s'. vgicr_emul_handler \<lparr>ac_addr = 0x80D0100, ac_write = False, ac_sign_ext = False, ac_width = 4, ac_reg = 3\<rparr> sample_vgic3 =
       Inr (True, s') \<and> bit (x_regs (v_regs (vm_vcpus (g3_vm s') 0)) 3) 7"
proof -
  let ?acc = "\<lparr>ac_addr = 0x80D0100, ac_write = False, ac_sign_ext = False, ac_width = 4, ac_reg = 3\<rparr>"
  have nz: "(0x21000 :: u64) + VGIC_INT3_SIZE * word_of_nat i \<noteq> 0" if "i < 32" for i
  proof -
    have "unat ((0x21000 :: u64) + VGIC_INT3_SIZE * word_of_nat i) = 0x21000 + 64 * i"
      using that by (simp add: unat_word_ariths unat_of_nat take_bit_nat_eq_self)
    then show ?thesis by auto
  qed
  have "GICR_REG_MASK 0x80D0100 = 0x10100" by (simp add: GICR_REG_MASK_def)
  moreover have "vgicr_get_id sample_vgic3 ?acc = 1" by (simp add: vgicr_get_id_def)
  ultimately obtain s' where "vgicr_emul_handler ?acc sample_vgic3 = Inr (True, s')"
    "\<forall>i. bit (x_regs (v_regs (vm_vcpus (g3_vm s') (g3_vcpu sample_vgic3))) (unat (ac_reg ?acc))) i \<longleftrightarrow>
       i < 32 \<and> wi_enabled (g3_ints sample_vgic3 (g3_priv sample_vgic3 1 + VGIC_INT3_SIZE * word_of_nat i))"
    using vgicr_read_enabled[of ?acc sample_vgic3 1] nz by (auto simp: SPINLOCK_INITVAL_def)
  then show ?thesis by (auto simp: sample_int3_def)
qed

text \<open>The emulation of a redistributor mixes up the registers of active interrupts: it selects the
  handler of the clear register for the set register, and that of the configuration
  registers for the clear register. Both handlers find the offset below their own registers, take the
  access for one to a shared interrupt and reject it. So a guest can neither activate nor deactivate
  a private interrupt through its redistributor, and the registers always read as zero.\<close>
theorem vgicr_active_ignored:
  assumes "GICR_REG_MASK (ac_addr acc) \<in> {0x10300, 0x10380}" "ac_width acc = 4"
    and "vgicr_get_id s acc = v" "v < vm_nr_cpus (g3_vm s)"
    and "ticket (vr_lock (g3_vgicr s v)) = next_tk (vr_lock (g3_vgicr s v))"
  shows "\<exists>s'. vgicr_emul_handler acc s = Inr (True, s') \<and> g3_ints s' = g3_ints s \<and> g3_hw s' = g3_hw s \<and>
    g3_vm s' = (if ac_write acc then g3_vm s else g3_vm (cur_writereg3 (ac_reg acc) 0 s))"
proof -
  define info where "info = (if GICR_REG_MASK (ac_addr acc) = 0x10300 then iactiver_info3 else icfgr_info3)"
  let ?s = "upd_vgicr_lock v (\<lambda>l. l\<lparr>ticket := ticket l + 1\<rparr>) s"
  have h: "vgicr_reg_handler (g3_vgicr_addr s) (ac_addr acc) = info"
    using assms(1) by (auto simp: vgicr_reg_handler_def gicr_regs info_def)
  have "ac_addr acc AND 3 = 0" using assms(1) gicr_mask_aligned[of "ac_addr acc"] by auto
  then have al: "vgic_check_reg_alignment3 acc info"
    using assms(2) by (simp add: vgic_check_reg_alignment3_def info_def iactiver_info3_def icfgr_info3_def)
  have "\<not> gic_is_priv (first_int3 acc info)"
    using assms(1) gicr_mask_gicd[of "ac_addr acc"]
    by (auto simp: first_int3_def info_def iactiver_info3_def icfgr_info3_def gic_regs gic_is_priv_def)
  moreover have "reg_access3 info = Generic3" by (simp add: info_def iactiver_info3_def icfgr_info3_def)
  ultimately have run: "run_reg_access3 acc info True v ?s = Inr (if ac_write acc then ?s else cur_writereg3 (ac_reg acc) 0 ?s)"
    by (simp add: run_reg_access3_def vgic_emul_generic_access3_def Let_def)
  from vgicr_handler_runs[OF assms(5,3,4) h al run] show ?thesis
    by (auto simp: cur_writereg3_def)
qed

theorem vgicr_active_ignored_witness:
  "\<exists>s'. vgicr_emul_handler \<lparr>ac_addr = 0x80D0300, ac_write = True, ac_sign_ext = False, ac_width = 4, ac_reg = 3\<rparr> sample_vgic3 =
       Inr (True, s') \<and> g3_ints s' = g3_ints sample_vgic3"
proof -
  let ?acc = "\<lparr>ac_addr = 0x80D0300, ac_write = True, ac_sign_ext = False, ac_width = 4, ac_reg = 3\<rparr>"
  have "GICR_REG_MASK 0x80D0300 = 0x10300" by (simp add: GICR_REG_MASK_def)
  moreover have "vgicr_get_id sample_vgic3 ?acc = 1" by (simp add: vgicr_get_id_def)
  ultimately show ?thesis
    using vgicr_active_ignored[of ?acc sample_vgic3 1] by (auto simp: SPINLOCK_INITVAL_def)
qed

subsection \<open>The identification of a redistributor\<close>

text \<open>A guest finds its redistributors by their type registers: that of vCPU \<open>v\<close> carries the number
  \<open>v\<close> and the affinity of the vCPU, and the mark of the last one is set for exactly the last vCPU.\<close>
theorem vgicr_typer_fields:
  assumes "v < vm_nr_cpus vm" "vm_nr_cpus vm \<le> 2 ^ 16"
  shows "bit_extract (vgicr_typer vm v) 8 16 = word_of_nat v \<and>
    bit_extract (vgicr_typer vm v) 32 16 = v_vmpidr (vm_vcpus vm v) AND MPIDR_AFF_MSK \<and>
    (bit (vgicr_typer vm v) 4 \<longleftrightarrow> v + 1 = vm_nr_cpus vm)"
proof -
  let ?w = "word_of_nat v :: u64"
  define a where "a = v_vmpidr (vm_vcpus vm v) AND MPIDR_AFF_MSK"
  define l where "l \<longleftrightarrow> v + 1 = vm_nr_cpus vm"
  obtain m where m: "vm_nr_cpus vm = Suc m" using assms(1) by (cases "vm_nr_cpus vm") auto
  then have last: "?w = (word_of_nat (vm_nr_cpus vm) - 1 :: u64) \<longleftrightarrow> l"
    using assms by (simp add: l_def word_of_nat_eq_iff take_bit_nat_eq_self)
  have "take_bit 16 ?w = ?w" using assms by (simp add: take_bit_of_nat take_bit_nat_eq_self)
  then have w16: "bit ?w n \<Longrightarrow> n < 16" for n by (metis bit_take_bit_iff)
  have "MPIDR_AFF_MSK = mask 16" by (simp add: mask_eq_exp_minus_1)
  then have "a = take_bit 16 (v_vmpidr (vm_vcpus vm v))" unfolding a_def by (simp only: take_bit_eq_mask)
  then have a16: "bit a n \<Longrightarrow> n < 16" for n by (simp only: bit_take_bit_iff)
  have b: "bit (vgicr_typer vm v) n \<longleftrightarrow> 8 \<le> n \<and> n < 64 \<and> bit ?w (n - 8) \<or> 32 \<le> n \<and> n < 64 \<and> bit a (n - 32) \<or> n = 4 \<and> l" for n
  proof -
    have "bit (lsl (of_bool l :: u64) 4) n \<longleftrightarrow> n = 4 \<and> l"
      by (cases l) (auto simp: lsl_field_bit bit_1_iff)
    then show ?thesis unfolding vgicr_typer_def Let_def last a_def[symmetric]
      by (simp only: bit_or_iff lsl_field_bit) auto
  qed
  have "bit_extract (vgicr_typer vm v) 8 16 = ?w"
    by (rule bit_word_eqI) (auto simp: bit_bit_extract b dest: w16)
  moreover have "bit_extract (vgicr_typer vm v) 32 16 = a"
    by (rule bit_word_eqI) (auto simp: bit_bit_extract b dest: w16 a16)
  moreover have "bit (vgicr_typer vm v) 4 \<longleftrightarrow> l" unfolding b by simp
  ultimately show ?thesis by (simp add: l_def a_def)
qed

theorem vgicr_typer_fields_witness:
  "bit (vgicr_typer sample_vm 1) 4 \<and> \<not> bit (vgicr_typer sample_vm 0) 4"
  using vgicr_typer_fields[of 1 sample_vm] vgicr_typer_fields[of 0 sample_vm] by simp

end
