(* ===== verification/Hlists.thy ===== *)
theory Hlists
  imports Linked_Lists
begin

text \<open>
  The second half of \<open>lib/inc/list.h\<close>: the lists with a single-pointer head (\<open>hlist\<close>), whose
  entries point back to the pointer that points to them, and the loops that visit the structs
  around the nodes of a list or remove entries while they run. An entry of an \<open>hlist\<close> is the
  address of its \<open>struct hlist_node\<close>, with \<open>next\<close> at offset 0 and \<open>pprev\<close> at offset 8, and a head
  is the address of its only field; \<open>pprev\<close> holds the address of either kind of pointer, so the
  model is a memory of 64-bit words.
\<close>

type_synonym wmem = "u64 \<Rightarrow> u64"

subsection \<open>Operations of an \<open>hlist\<close>\<close>

definition hnext :: "wmem \<Rightarrow> node \<Rightarrow> node" where "hnext m n = m n"
definition hpprev :: "wmem \<Rightarrow> node \<Rightarrow> u64" where "hpprev m n = m (n + 8)"

definition INIT_HLIST_HEAD :: "node \<Rightarrow> wmem \<Rightarrow> wmem" where "INIT_HLIST_HEAD h m = m(h := 0)"

definition INIT_HLIST_NODE :: "node \<Rightarrow> wmem \<Rightarrow> wmem" where "INIT_HLIST_NODE n m = m(n := 0, n + 8 := 0)"

definition hlist_unhashed :: "node \<Rightarrow> wmem \<Rightarrow> bool" where "hlist_unhashed n m \<longleftrightarrow> hpprev m n = 0"

definition hlist_empty :: "node \<Rightarrow> wmem \<Rightarrow> bool" where "hlist_empty h m \<longleftrightarrow> m h = 0"

definition hlist_del_raw :: "node \<Rightarrow> wmem \<Rightarrow> wmem" where
  "hlist_del_raw n m =
     (let nx = hnext m n;
          pprev = hpprev m n;
          m = m(pprev := nx)
      in if nx \<noteq> 0 then m(nx + 8 := pprev) else m)"

definition hlist_del :: "node \<Rightarrow> wmem \<Rightarrow> wmem" where
  "hlist_del n m = (hlist_del_raw n m)(n := LIST_POISON1, n + 8 := LIST_POISON2)"

definition hlist_del_init :: "node \<Rightarrow> wmem \<Rightarrow> wmem" where
  "hlist_del_init n m = (if \<not> hlist_unhashed n m then INIT_HLIST_NODE n (hlist_del_raw n m) else m)"

definition hlist_add_head :: "node \<Rightarrow> node \<Rightarrow> wmem \<Rightarrow> wmem" where
  "hlist_add_head n h m =
     (let fst_n = m h;
          m = m(n := fst_n);
          m = (if fst_n \<noteq> 0 then m(fst_n + 8 := n) else m);
          m = m(h := n)
      in m(n + 8 := h))"

definition hlist_add_before :: "node \<Rightarrow> node \<Rightarrow> wmem \<Rightarrow> wmem" where
  "hlist_add_before n nx m =
     (let m = m(n + 8 := hpprev m nx);
          m = m(n := nx);
          m = m(nx + 8 := n)
      in m(hpprev m n := n))"

definition hlist_add_after :: "node \<Rightarrow> node \<Rightarrow> wmem \<Rightarrow> wmem" where
  "hlist_add_after n nx m =
     (let m = m(nx := hnext m n);
          m = m(n := nx);
          m = m(nx + 8 := n)
      in if hnext m nx \<noteq> 0 then m(hnext m nx + 8 := nx) else m)"

text \<open>The entries that \<open>hlist_for_each\<close> visits, from an entry on; NULL ends the loop.\<close>

partial_function (option) hlist_from :: "node \<Rightarrow> wmem \<Rightarrow> node list option" where
  "hlist_from pos m =
     (if pos \<noteq> 0 then Option.bind (hlist_from (hnext m pos) m) (\<lambda>l. Some (pos # l)) else Some [])"

definition hlist_for_each :: "node \<Rightarrow> wmem \<Rightarrow> node list option" where
  "hlist_for_each h m = hlist_from (m h) m"

text \<open>The loops over the structs around the entries; \<open>off\<close> is the offset of the node in them.\<close>

definition hlist_entry :: "u64 \<Rightarrow> node \<Rightarrow> u64" where "hlist_entry off ptr = ptr - off"

definition hlist_entry_safe :: "u64 \<Rightarrow> node \<Rightarrow> u64" where
  "hlist_entry_safe off ptr = (if ptr \<noteq> 0 then hlist_entry off ptr else 0)"

partial_function (option) hentries_from :: "u64 \<Rightarrow> node \<Rightarrow> wmem \<Rightarrow> u64 list option" where
  "hentries_from off pos m =
     (if pos \<noteq> 0
      then let tpos = hlist_entry off pos
           in Option.bind (hentries_from off (hnext m pos) m) (\<lambda>l. Some (tpos # l))
      else Some [])"

definition hlist_for_each_entry :: "u64 \<Rightarrow> node \<Rightarrow> wmem \<Rightarrow> u64 list option" where
  "hlist_for_each_entry off h m = hentries_from off (m h) m"

definition hlist_for_each_entry_continue :: "u64 \<Rightarrow> node \<Rightarrow> wmem \<Rightarrow> u64 list option" where
  "hlist_for_each_entry_continue off pos m = hentries_from off (hnext m pos) m"

definition hlist_for_each_entry_from :: "u64 \<Rightarrow> node \<Rightarrow> wmem \<Rightarrow> u64 list option" where
  "hlist_for_each_entry_from off pos m = hentries_from off pos m"

text \<open>\<open>hlist_for_each_safe\<close>: the successor is read before the body runs, and the body may remove
  the entry.\<close>

partial_function (option) hlist_safe_from :: "(node \<Rightarrow> wmem \<Rightarrow> wmem) \<Rightarrow> node \<Rightarrow> wmem \<Rightarrow> wmem option" where
  "hlist_safe_from f pos m =
     (if pos \<noteq> 0 then let n = hnext m pos in hlist_safe_from f n (f pos m) else Some m)"

definition hlist_for_each_safe :: "(node \<Rightarrow> wmem \<Rightarrow> wmem) \<Rightarrow> node \<Rightarrow> wmem \<Rightarrow> wmem option" where
  "hlist_for_each_safe f h m = hlist_safe_from f (m h) m"

definition hlist_for_each_entry_safe :: "(u64 \<Rightarrow> wmem \<Rightarrow> wmem) \<Rightarrow> u64 \<Rightarrow> node \<Rightarrow> wmem \<Rightarrow> wmem option" where
  "hlist_for_each_entry_safe f off h m = hlist_safe_from (\<lambda>pos. f (hlist_entry off pos)) (m h) m"

subsection \<open>Loops over a doubly linked list\<close>

text \<open>\<open>list_for_each_safe\<close>: \<open>n\<close> is read before the body runs.\<close>

partial_function (option) list_safe_from ::
  "(node \<Rightarrow> lheap \<Rightarrow> lheap) \<Rightarrow> node \<Rightarrow> node \<Rightarrow> node \<Rightarrow> lheap \<Rightarrow> lheap option" where
  "list_safe_from f head pos n h =
     (if pos \<noteq> head then let h = f pos h in list_safe_from f head n (nxt h n) h else Some h)"

definition list_for_each_safe :: "(node \<Rightarrow> lheap \<Rightarrow> lheap) \<Rightarrow> node \<Rightarrow> lheap \<Rightarrow> lheap option" where
  "list_for_each_safe f head h = (let pos = nxt h head in list_safe_from f head pos (nxt h pos) h)"

text \<open>\<open>off\<close> is the offset of the list node in the struct, as \<open>container_of\<close> takes it off.\<close>

definition list_entry :: "u64 \<Rightarrow> node \<Rightarrow> u64" where "list_entry off ptr = ptr - off"

definition list_next_entry :: "u64 \<Rightarrow> u64 \<Rightarrow> lheap \<Rightarrow> u64" where
  "list_next_entry off pos h = list_entry off (nxt h (pos + off))"

definition list_prev_entry :: "u64 \<Rightarrow> u64 \<Rightarrow> lheap \<Rightarrow> u64" where
  "list_prev_entry off pos h = list_entry off (prv h (pos + off))"

definition list_prepare_entry :: "u64 \<Rightarrow> u64 \<Rightarrow> node \<Rightarrow> u64" where
  "list_prepare_entry off pos head = (if pos \<noteq> 0 then pos else list_entry off head)"

partial_function (option) entries_from :: "u64 \<Rightarrow> node \<Rightarrow> u64 \<Rightarrow> lheap \<Rightarrow> u64 list option" where
  "entries_from off head pos h =
     (if pos + off \<noteq> head
      then Option.bind (entries_from off head (list_entry off (nxt h (pos + off))) h) (\<lambda>l. Some (pos # l))
      else Some [])"

partial_function (option) entries_from_prev :: "u64 \<Rightarrow> node \<Rightarrow> u64 \<Rightarrow> lheap \<Rightarrow> u64 list option" where
  "entries_from_prev off head pos h =
     (if pos + off \<noteq> head
      then Option.bind (entries_from_prev off head (list_entry off (prv h (pos + off))) h) (\<lambda>l. Some (pos # l))
      else Some [])"

definition list_for_each_entry :: "u64 \<Rightarrow> node \<Rightarrow> lheap \<Rightarrow> u64 list option" where
  "list_for_each_entry off head h = entries_from off head (list_entry off (nxt h head)) h"

definition list_for_each_entry_reverse :: "u64 \<Rightarrow> node \<Rightarrow> lheap \<Rightarrow> u64 list option" where
  "list_for_each_entry_reverse off head h = entries_from_prev off head (list_entry off (prv h head)) h"

definition list_for_each_entry_continue :: "u64 \<Rightarrow> node \<Rightarrow> u64 \<Rightarrow> lheap \<Rightarrow> u64 list option" where
  "list_for_each_entry_continue off head pos h = entries_from off head (list_entry off (nxt h (pos + off))) h"

definition list_for_each_entry_from :: "u64 \<Rightarrow> node \<Rightarrow> u64 \<Rightarrow> lheap \<Rightarrow> u64 list option" where
  "list_for_each_entry_from off head pos h = entries_from off head pos h"

text \<open>\<open>list_for_each_entry_safe\<close> and the variants that start elsewhere: \<open>n\<close> is the entry after
  \<open>pos\<close>, read before the body; after it the loop goes on to \<open>n\<close> and reads the one behind.\<close>

partial_function (option) entries_safe ::
  "(u64 \<Rightarrow> lheap \<Rightarrow> lheap) \<Rightarrow> u64 \<Rightarrow> node \<Rightarrow> u64 \<Rightarrow> u64 \<Rightarrow> lheap \<Rightarrow> lheap option" where
  "entries_safe f off head pos n h =
     (if pos + off \<noteq> head
      then let h = f pos h in entries_safe f off head n (list_entry off (nxt h (n + off))) h
      else Some h)"

definition list_for_each_entry_safe :: "(u64 \<Rightarrow> lheap \<Rightarrow> lheap) \<Rightarrow> u64 \<Rightarrow> node \<Rightarrow> lheap \<Rightarrow> lheap option" where
  "list_for_each_entry_safe f off head h =
     (let pos = list_entry off (nxt h head)
      in entries_safe f off head pos (list_entry off (nxt h (pos + off))) h)"

definition list_for_each_entry_safe_continue ::
  "(u64 \<Rightarrow> lheap \<Rightarrow> lheap) \<Rightarrow> u64 \<Rightarrow> node \<Rightarrow> u64 \<Rightarrow> lheap \<Rightarrow> lheap option" where
  "list_for_each_entry_safe_continue f off head pos h =
     (let pos = list_entry off (nxt h (pos + off))
      in entries_safe f off head pos (list_entry off (nxt h (pos + off))) h)"

definition list_for_each_entry_safe_from ::
  "(u64 \<Rightarrow> lheap \<Rightarrow> lheap) \<Rightarrow> u64 \<Rightarrow> node \<Rightarrow> u64 \<Rightarrow> lheap \<Rightarrow> lheap option" where
  "list_for_each_entry_safe_from f off head pos h =
     entries_safe f off head pos (list_entry off (nxt h (pos + off))) h"

partial_function (option) entries_safe_prev ::
  "(u64 \<Rightarrow> lheap \<Rightarrow> lheap) \<Rightarrow> u64 \<Rightarrow> node \<Rightarrow> u64 \<Rightarrow> u64 \<Rightarrow> lheap \<Rightarrow> lheap option" where
  "entries_safe_prev f off head pos n h =
     (if pos + off \<noteq> head
      then let h = f pos h in entries_safe_prev f off head n (list_entry off (prv h (n + off))) h
      else Some h)"

definition list_for_each_entry_safe_reverse :: "(u64 \<Rightarrow> lheap \<Rightarrow> lheap) \<Rightarrow> u64 \<Rightarrow> node \<Rightarrow> lheap \<Rightarrow> lheap option" where
  "list_for_each_entry_safe_reverse f off head h =
     (let pos = list_entry off (prv h head)
      in entries_safe_prev f off head pos (list_entry off (prv h (pos + off))) h)"

subsection \<open>Sequences in memory\<close>

text \<open>\<open>hpath m a ns\<close>: following the pointer at address \<open>a\<close> leads through the entries \<open>ns\<close>, each
  pointing back to the pointer that led to it.\<close>

fun hpath :: "wmem \<Rightarrow> u64 \<Rightarrow> node list \<Rightarrow> bool" where
  "hpath m a [] \<longleftrightarrow> True"
| "hpath m a (n # ns) \<longleftrightarrow> m a = n \<and> n \<noteq> 0 \<and> m (n + 8) = a \<and> hpath m n ns"

text \<open>The fields of the head and of the entries do not overlap.\<close>

definition hwf :: "node \<Rightarrow> node list \<Rightarrow> bool" where
  "hwf h ns \<longleftrightarrow> distinct (h # ns) \<and> (\<forall>n \<in> set ns. n + 8 \<notin> set (h # ns))"

definition is_hlist :: "wmem \<Rightarrow> node \<Rightarrow> node list \<Rightarrow> bool" where
  "is_hlist m h ns \<longleftrightarrow> hwf h ns \<and> hpath m h ns \<and> m (last (h # ns)) = 0"

text \<open>An entry that is not yet in the list and does not overlap it.\<close>

definition hfresh :: "node \<Rightarrow> node \<Rightarrow> node list \<Rightarrow> bool" where
  "hfresh n h ns \<longleftrightarrow> n \<noteq> 0 \<and> n \<notin> set (h # ns) \<and> n + 8 \<notin> set (h # ns) \<and> (\<forall>k \<in> set ns. n \<noteq> k + 8)"

lemma hpath_append: "hpath m a (xs @ ys) \<longleftrightarrow> hpath m a xs \<and> hpath m (last (a # xs)) ys"
  by (induction xs arbitrary: a) auto

lemma hpath_upd:
  "x \<notin> set (butlast (a # ns)) \<Longrightarrow> \<forall>n \<in> set ns. x \<noteq> n + 8 \<Longrightarrow> hpath (m(x := v)) a ns \<longleftrightarrow> hpath m a ns"
  by (induction ns arbitrary: a) (auto split: if_splits)

lemma hpath_nz: "hpath m a ns \<Longrightarrow> 0 \<notin> set ns"
  by (induction ns arbitrary: a) auto

lemma last_in: "last (a # xs) \<in> set (a # xs)"
  by (rule last_in_set) simp

lemma in_butlast: "x \<in> set (butlast (a # xs)) \<Longrightarrow> distinct (a # xs) \<Longrightarrow> x \<in> set (a # xs) \<and> x \<noteq> last (a # xs)"
  by (induction xs arbitrary: a) (auto split: if_splits)

lemma plus8 [simp]: "(n + 8 = k + 8) = (n = (k :: u64))" "n + 8 \<noteq> (n :: u64)" "n \<noteq> n + 8"
  by simp_all

lemma hpath_cong:
  "(\<And>x. x \<in> set (butlast (a # ns)) \<Longrightarrow> m' x = m x) \<Longrightarrow> (\<And>n. n \<in> set ns \<Longrightarrow> m' (n + 8) = m (n + 8)) \<Longrightarrow>
   hpath m' a ns \<longleftrightarrow> hpath m a ns"
  by (induction ns arbitrary: a) (auto split: if_splits)

lemma is_hlist_split:
  "is_hlist m h (xs @ ys) \<longleftrightarrow> hwf h (xs @ ys) \<and> hpath m h xs \<and> hpath m (last (h # xs)) ys \<and>
     m (last (last (h # xs) # ys)) = 0"
  by (auto simp: is_hlist_def hpath_append last_append)

text \<open>The pointer at the end of a path, and where it leads.\<close>

lemma hlist_pointer:
  assumes "is_hlist m h (xs @ ys)"
  shows "m (last (h # xs)) = (case ys of [] \<Rightarrow> 0 | y # _ \<Rightarrow> y)"
  using assms by (cases ys) (simp add: is_hlist_def, auto simp: is_hlist_split)

text \<open>An entry is linked in behind the pointer that ends the path \<open>xs\<close>.\<close>

lemma hlist_link:
  assumes l: "is_hlist m h (xs @ ys)" and fr: "hfresh n h (xs @ ys)"
    and "m' (last (h # xs)) = n" "m' (n + 8) = last (h # xs)" "m' n = m (last (h # xs))"
    and "\<And>y zs. ys = y # zs \<Longrightarrow> m' (y + 8) = n"
    and same: "\<And>z. z \<in> set (h # xs @ ys) \<Longrightarrow> z \<noteq> last (h # xs) \<Longrightarrow> m' z = m z"
    "\<And>z. z \<in> set xs \<Longrightarrow> m' (z + 8) = m (z + 8)" "\<And>z. z \<in> set (tl ys) \<Longrightarrow> m' (z + 8) = m (z + 8)"
  shows "is_hlist m' h (xs @ n # ys)"
proof -
  let ?p = "last (h # xs)"
  have wf: "hwf h (xs @ n # ys)" using l fr by (auto simp: is_hlist_def hwf_def hfresh_def)
  have d: "distinct (h # xs @ ys)" using l by (simp add: is_hlist_def hwf_def)
  have p: "?p \<in> set (h # xs)" by (rule last_in)
  have "hpath m' h xs"
  proof (subst hpath_cong[where m = m])
    fix x assume "x \<in> set (butlast (h # xs))"
    with d have "x \<in> set (h # xs)" "x \<noteq> ?p" using in_butlast[of x h xs] by auto
    then show "m' x = m x" by (intro same(1)) auto
  qed (use l in \<open>auto simp: is_hlist_split intro: same\<close>)
  moreover have "hpath m' n ys \<and> m' (last (n # ys)) = 0"
  proof (cases ys)
    case Nil
    then show ?thesis using assms(5) hlist_pointer[OF l] by simp
  next
    case (Cons y zs)
    have y: "set (y # zs) \<inter> set (h # xs) = {}" using d unfolding Cons by auto
    have *: "m' x = m x" if "x \<in> set (y # zs)" for x
    proof (rule same(1))
      show "x \<noteq> ?p" using that y p by blast
    qed (use that Cons in auto)
    have "hpath m' y zs \<longleftrightarrow> hpath m y zs"
      by (rule hpath_cong) (use * same(3) Cons in \<open>auto dest!: in_set_butlastD split: if_splits\<close>)
    moreover have "m' (last (y # zs)) = m (last (y # zs))" using *[OF last_in] .
    ultimately show ?thesis using l assms(5,6) hlist_pointer[OF l] unfolding Cons by (auto simp: is_hlist_split)
  qed
  moreover have "n \<noteq> 0" using fr by (simp add: hfresh_def)
  ultimately show ?thesis using wf assms(3,4) by (simp add: is_hlist_split)
qed

text \<open>An entry is taken out.\<close>

lemma hlist_unlink:
  assumes l: "is_hlist m h (xs @ x # ys)"
    and "m' (last (h # xs)) = m x" "\<And>y zs. ys = y # zs \<Longrightarrow> m' (y + 8) = last (h # xs)"
    and same: "\<And>z. z \<in> set (h # xs @ ys) \<Longrightarrow> z \<noteq> last (h # xs) \<Longrightarrow> m' z = m z"
    "\<And>z. z \<in> set xs \<Longrightarrow> m' (z + 8) = m (z + 8)" "\<And>z. z \<in> set (tl ys) \<Longrightarrow> m' (z + 8) = m (z + 8)"
  shows "is_hlist m' h (xs @ ys)"
proof -
  let ?p = "last (h # xs)"
  have wf: "hwf h (xs @ ys)" using l by (auto simp: is_hlist_def hwf_def)
  have d: "distinct (h # xs @ ys)" using wf by (simp add: hwf_def)
  have p: "?p \<in> set (h # xs)" by (rule last_in)
  have mx: "m x = (case ys of [] \<Rightarrow> 0 | y # _ \<Rightarrow> y)" using hlist_pointer[of m h "xs @ [x]" ys] l by simp
  have "hpath m' h xs"
  proof (subst hpath_cong[where m = m])
    fix z assume "z \<in> set (butlast (h # xs))"
    with d have "z \<in> set (h # xs)" "z \<noteq> ?p" using in_butlast[of z h xs] by auto
    then show "m' z = m z" by (intro same(1)) auto
  qed (use l in \<open>auto simp: is_hlist_split intro: same\<close>)
  moreover have "hpath m' ?p ys \<and> m' (last (?p # ys)) = 0"
  proof (cases ys)
    case Nil
    then show ?thesis using assms(2) mx by simp
  next
    case (Cons y zs)
    have y: "set (y # zs) \<inter> set (h # xs) = {}" using d unfolding Cons by auto
    have *: "m' z = m z" if "z \<in> set (y # zs)" for z
    proof (rule same(1))
      show "z \<noteq> ?p" using that y p by blast
    qed (use that Cons in auto)
    have "hpath m' y zs \<longleftrightarrow> hpath m y zs"
      by (rule hpath_cong) (use * same(3) Cons in \<open>auto dest!: in_set_butlastD split: if_splits\<close>)
    moreover have "m' (last (y # zs)) = m (last (y # zs))" using *[OF last_in] .
    moreover have "hpath m y zs" "y \<noteq> 0" "m (last (y # zs)) = 0" using l unfolding Cons by (auto simp: is_hlist_split)
    ultimately show ?thesis using assms(2,3) mx unfolding Cons by simp
  qed
  ultimately show ?thesis using wf by (simp add: is_hlist_split)
qed

subsection \<open>The operations on sequences\<close>

lemma is_hlist_INIT: "is_hlist (INIT_HLIST_HEAD h m) h []"
  by (simp add: is_hlist_def hwf_def INIT_HLIST_HEAD_def)

lemma hlist_empty_iff: "is_hlist m h ns \<Longrightarrow> hlist_empty h m \<longleftrightarrow> ns = []"
  using hlist_pointer[of m h "[]" ns] hpath_nz[of m h ns]
  by (cases ns) (auto simp: hlist_empty_def is_hlist_def)

lemma hlist_add_head_spec:
  assumes "is_hlist m h ns" "hfresh n h ns"
  shows "is_hlist (hlist_add_head n h m) h (n # ns)"
proof -
  have fr: "n \<noteq> h" "n + 8 \<noteq> h" "n \<notin> set ns" "\<forall>k \<in> set ns. n + 8 \<noteq> k \<and> n \<noteq> k + 8"
    using assms(2) by (auto simp: hfresh_def)
  have wf: "h \<notin> set ns" "distinct ns" "\<forall>k \<in> set ns. k + 8 \<noteq> h \<and> k + 8 \<notin> set ns"
    using assms(1) by (auto simp: is_hlist_def hwf_def)
  have "is_hlist (hlist_add_head n h m) h ([] @ n # ns)"
  proof (rule hlist_link)
    show "is_hlist m h ([] @ ns)" "hfresh n h ([] @ ns)" using assms by simp_all
    have mh: "m h = (case ns of [] \<Rightarrow> 0 | y # _ \<Rightarrow> y)" using hlist_pointer[of m h "[]" ns] assms(1) by simp
    show "hlist_add_head n h m (y + 8) = n" if "ns = y # zs" for y zs
      using that mh fr wf hpath_nz[of m h ns] assms(1) by (auto simp: hlist_add_head_def Let_def is_hlist_def)
    show "hlist_add_head n h m n = m (last (h # []))"
      using mh fr wf by (cases ns) (auto simp: hlist_add_head_def Let_def)
    show "hlist_add_head n h m z = m z" if "z \<in> set (h # [] @ ns)" "z \<noteq> last (h # [])" for z
      using that mh fr wf by (cases ns) (auto simp: hlist_add_head_def Let_def)
    show "hlist_add_head n h m (z + 8) = m (z + 8)" if "z \<in> set (tl ns)" for z
      using that mh fr wf by (cases ns) (auto simp: hlist_add_head_def Let_def)
  qed (use fr in \<open>auto simp: hlist_add_head_def Let_def\<close>)
  then show ?thesis by simp
qed

lemma hlist_at:
  assumes "is_hlist m h (xs @ x # ys)"
  shows "hpprev m x = last (h # xs)" "hnext m x = (case ys of [] \<Rightarrow> 0 | y # _ \<Rightarrow> y)" "x \<noteq> 0"
    "\<And>y zs. ys = y # zs \<Longrightarrow> y \<noteq> 0"
  using assms hlist_pointer[of m h "xs @ [x]" ys] by (auto simp: is_hlist_split hpprev_def hnext_def)

lemma hlist_sep:
  assumes "is_hlist m h (xs @ x # ys)"
  shows "x \<notin> set (h # xs @ ys)" "x + 8 \<notin> set (h # xs @ x # ys)" "\<forall>k \<in> set (xs @ x # ys). k + 8 \<notin> set (h # xs @ x # ys)"
    "distinct (h # xs @ ys)" "last (h # xs) \<notin> set (x # ys)" "\<forall>k \<in> set (xs @ x # ys). k + 8 \<noteq> last (h # xs)"
proof -
  show sep: "x \<notin> set (h # xs @ ys)" "x + 8 \<notin> set (h # xs @ x # ys)"
    "\<forall>k \<in> set (xs @ x # ys). k + 8 \<notin> set (h # xs @ x # ys)" and d: "distinct (h # xs @ ys)"
    using assms by (auto simp: is_hlist_def hwf_def)
  have "set (h # xs) \<inter> set (x # ys) = {}" using sep(1) d by auto
  then show "last (h # xs) \<notin> set (x # ys)" using last_in[of h xs] by blast
  have "set (h # xs) \<subseteq> set (h # xs @ x # ys)" by auto
  then have "last (h # xs) \<in> set (h # xs @ x # ys)" using last_in[of h xs] by (rule subsetD)
  with sep(3) show "\<forall>k \<in> set (xs @ x # ys). k + 8 \<noteq> last (h # xs)" by force
qed

lemma hlist_del_raw_spec:
  assumes "is_hlist m h (xs @ x # ys)" "\<And>z. z \<noteq> x \<Longrightarrow> z \<noteq> x + 8 \<Longrightarrow> m' z = hlist_del_raw x m z"
  shows "is_hlist m' h (xs @ ys)"
proof (rule hlist_unlink[OF assms(1)])
  note sep = hlist_sep[OF assms(1)] and at = hlist_at[OF assms(1)]
  have raw: "hlist_del_raw x m = (case ys of [] \<Rightarrow> m(last (h # xs) := 0)
      | y # _ \<Rightarrow> m(last (h # xs) := y, y + 8 := last (h # xs)))"
    using at by (cases ys) (auto simp: hlist_del_raw_def Let_def)
  have p: "last (h # xs) \<noteq> x" "last (h # xs) \<noteq> x + 8" "\<And>y zs. ys = y # zs \<Longrightarrow> last (h # xs) \<noteq> y + 8"
    using sep(5,6) by (auto simp del: last.simps)
  show "m' (last (h # xs)) = m x"
    using at(2) p by (subst assms(2)) (auto simp: raw hnext_def simp del: last.simps split: list.split)
  show "m' (y + 8) = last (h # xs)" if "ys = y # zs" for y zs
    using sep that by (subst assms(2)) (auto simp: raw)
  show "m' z = m z" if "z \<in> set (h # xs @ ys)" "z \<noteq> last (h # xs)" for z
    using sep that by (subst assms(2)) (auto simp: raw split: list.split)
  show "m' (z + 8) = m (z + 8)" if "z \<in> set xs" for z
    using sep that by (subst assms(2)) (auto simp: raw split: list.split)
  show "m' (z + 8) = m (z + 8)" if "z \<in> set (tl ys)" for z
    using sep that by (subst assms(2)) (cases ys; auto simp: raw)+
qed

lemma hlist_del_spec: "is_hlist m h (xs @ x # ys) \<Longrightarrow> is_hlist (hlist_del x m) h (xs @ ys)"
  by (rule hlist_del_raw_spec) (auto simp: hlist_del_def)

lemma hlist_del_init_spec:
  assumes "is_hlist m h (xs @ x # ys)" "h \<noteq> 0"
  shows "is_hlist (hlist_del_init x m) h (xs @ ys)" "hlist_unhashed x (hlist_del_init x m)"
proof -
  have "last (h # xs) \<noteq> 0" using assms hpath_nz[of m h xs] last_in[of h xs] by (auto simp: is_hlist_split)
  then have "hlist_del_init x m = INIT_HLIST_NODE x (hlist_del_raw x m)"
    using hlist_at(1)[OF assms(1)] by (simp add: hlist_del_init_def hlist_unhashed_def)
  then show "is_hlist (hlist_del_init x m) h (xs @ ys)" "hlist_unhashed x (hlist_del_init x m)"
    using hlist_del_raw_spec[OF assms(1), of "INIT_HLIST_NODE x (hlist_del_raw x m)"]
    by (simp_all add: INIT_HLIST_NODE_def hlist_unhashed_def hpprev_def)
qed

lemma hlist_add_before_spec:
  assumes "is_hlist m h (xs @ x # ys)" "hfresh n h (xs @ x # ys)"
  shows "is_hlist (hlist_add_before n x m) h (xs @ n # x # ys)"
proof (rule hlist_link[OF assms])
  note sep = hlist_sep[OF assms(1)] and at = hlist_at[OF assms(1)]
  have fr: "n \<notin> set (h # xs @ x # ys)" "n + 8 \<notin> set (h # xs @ x # ys)" "\<forall>k \<in> set (xs @ x # ys). n \<noteq> k + 8"
    using assms(2) by (auto simp: hfresh_def)
  have p: "last (h # xs) \<noteq> n" "last (h # xs) \<noteq> n + 8" "last (h # xs) \<noteq> x + 8" "n \<noteq> x" "n \<noteq> x + 8" "n + 8 \<noteq> x"
    using fr sep(6) last_in[of h xs] by auto
  have eq: "hlist_add_before n x m = m(n + 8 := last (h # xs), n := x, x + 8 := n, last (h # xs) := n)"
    using at(1) p by (simp add: hlist_add_before_def hpprev_def Let_def)
  have mp: "m (last (h # xs)) = x" using hlist_pointer[OF assms(1)] by simp
  show "hlist_add_before n x m (last (h # xs)) = n" by (simp add: eq)
  show "hlist_add_before n x m (n + 8) = last (h # xs)" using p by (simp add: eq)
  show "hlist_add_before n x m n = m (last (h # xs))" using p mp by (simp add: eq)
  show "hlist_add_before n x m (y + 8) = n" if "x # ys = y # zs" for y zs
  proof -
    from that have y: "y = x" by simp
    show ?thesis unfolding y eq using p by simp
  qed
  show "hlist_add_before n x m z = m z" if "z \<in> set (h # xs @ x # ys)" "z \<noteq> last (h # xs)" for z
    using that fr sep by (auto simp: eq)
  show "hlist_add_before n x m (z + 8) = m (z + 8)" if "z \<in> set xs" for z
    using that fr sep by (auto simp: eq)
  show "hlist_add_before n x m (z + 8) = m (z + 8)" if "z \<in> set (tl (x # ys))" for z
    using that fr sep by (auto simp: eq)
qed

lemma hlist_add_after_spec:
  assumes "is_hlist m h (xs @ x # ys)" "hfresh n h (xs @ x # ys)"
  shows "is_hlist (hlist_add_after x n m) h (xs @ x # n # ys)"
proof -
  have l: "is_hlist m h ((xs @ [x]) @ ys)" "hfresh n h ((xs @ [x]) @ ys)" using assms by simp_all
  note sep = hlist_sep[OF assms(1)] and at = hlist_at[OF assms(1)]
  have fr: "n \<notin> set (h # xs @ x # ys)" "n + 8 \<notin> set (h # xs @ x # ys)" "\<forall>k \<in> set (xs @ x # ys). n \<noteq> k + 8"
    using assms(2) by (auto simp: hfresh_def)
  have eq: "hlist_add_after x n m = (case ys of [] \<Rightarrow> m(n := 0, x := n, n + 8 := x)
      | y # _ \<Rightarrow> m(n := y, x := n, n + 8 := x, y + 8 := n))"
    using at fr by (cases ys) (auto simp: hlist_add_after_def hnext_def Let_def fun_eq_iff)
  have "is_hlist (hlist_add_after x n m) h ((xs @ [x]) @ n # ys)"
  proof (rule hlist_link[OF l])
    show "hlist_add_after x n m (last (h # xs @ [x])) = n"
      using fr sep by (auto simp: eq split: list.split)
    show "hlist_add_after x n m (n + 8) = last (h # xs @ [x])"
      using fr sep by (auto simp: eq split: list.split)
    show "hlist_add_after x n m n = m (last (h # xs @ [x]))"
      using fr sep at(2) by (auto simp: eq hnext_def split: list.split)
    show "hlist_add_after x n m (y + 8) = n" if "ys = y # zs" for y zs using that by (simp add: eq)
    show "hlist_add_after x n m z = m z" if "z \<in> set (h # (xs @ [x]) @ ys)" "z \<noteq> last (h # xs @ [x])" for z
      using that fr sep by (auto simp: eq split: list.split)
    show "hlist_add_after x n m (z + 8) = m (z + 8)" if "z \<in> set (xs @ [x])" for z
      using that fr sep by (auto simp: eq split: list.split)
    show "hlist_add_after x n m (z + 8) = m (z + 8)" if "z \<in> set (tl ys)" for z
      using that fr sep by (cases ys) (auto simp: eq)
  qed
  then show ?thesis by simp
qed

subsection \<open>The loops\<close>

lemma hpath_from:
  "hpath m a ns \<Longrightarrow> m (last (a # ns)) = 0 \<Longrightarrow>
   hlist_from (m a) m = Some ns \<and> hentries_from off (m a) m = Some (map (hlist_entry off) ns)"
proof (induction ns arbitrary: a)
  case Nil
  then show ?case by (simp add: hlist_from.simps hentries_from.simps)
next
  case (Cons n ns)
  then have "hlist_from (m n) m = Some ns \<and> hentries_from off (m n) m = Some (map (hlist_entry off) ns)"
    by simp
  with Cons.prems show ?case
    by (subst hlist_from.simps, subst hentries_from.simps) (simp add: hnext_def Let_def)
qed

lemma hlist_for_each_spec: "is_hlist m h ns \<Longrightarrow> hlist_for_each h m = Some ns"
  using hpath_from[of m h ns] by (simp add: is_hlist_def hlist_for_each_def)

lemma hlist_for_each_entry_spec:
  "is_hlist m h ns \<Longrightarrow> hlist_for_each_entry off h m = Some (map (hlist_entry off) ns)"
  using hpath_from[of m h ns off] by (simp add: is_hlist_def hlist_for_each_entry_def)

lemma hlist_for_each_entry_at:
  assumes "is_hlist m h (xs @ x # ys)"
  shows "hlist_for_each_entry_continue off x m = Some (map (hlist_entry off) ys)"
    "hlist_for_each_entry_from off x m = Some (map (hlist_entry off) (x # ys))"
proof -
  have p: "hpath m (last (h # xs)) (x # ys)" "m (last (last (h # xs) # x # ys)) = 0" "hpath m x ys" "m (last (x # ys)) = 0"
    using assms by (auto simp: is_hlist_split)
  show "hlist_for_each_entry_continue off x m = Some (map (hlist_entry off) ys)"
    using hpath_from[OF p(3,4)] by (simp add: hlist_for_each_entry_continue_def hnext_def)
  have "m (last (h # xs)) = x" using hlist_pointer[OF assms] by simp
  with hpath_from[OF p(1,2), of off] show "hlist_for_each_entry_from off x m = Some (map (hlist_entry off) (x # ys))"
    by (simp add: hlist_for_each_entry_from_def del: last.simps)
qed

text \<open>
  The loops that read the successor before the body runs, as one contract: \<open>rep m ns\<close> says that the
  memory holds the sequence, \<open>run f ns m\<close> is the loop with the entries \<open>ns\<close> still to visit. A body
  that removes the entries with a property leaves the others, in order.
\<close>

locale removing_loop =
  fixes rep :: "'m \<Rightarrow> node list \<Rightarrow> bool"
    and del :: "node \<Rightarrow> 'm \<Rightarrow> 'm"
    and run :: "(node \<Rightarrow> 'm \<Rightarrow> 'm) \<Rightarrow> node list \<Rightarrow> 'm \<Rightarrow> 'm option"
  assumes rep_del: "rep m (ks @ n # ns) \<Longrightarrow> rep (del n m) (ks @ ns)"
    and run_end: "rep m ks \<Longrightarrow> run f [] m = Some m"
    and run_step: "rep m (ks @ n # ns) \<Longrightarrow> run f (n # ns) m = run f ns (f n m)"
begin

lemma run_filter:
  "rep m (ks @ ns) \<Longrightarrow>
   \<exists>m'. run (\<lambda>p m. if P p then del p m else m) ns m = Some m' \<and> rep m' (ks @ filter (\<lambda>p. \<not> P p) ns)"
proof (induction ns arbitrary: ks m)
  case Nil
  then show ?case using run_end by simp
next
  case (Cons n ns)
  then show ?case
    using Cons.IH[of "del n m" ks] Cons.IH[of m "ks @ [n]"] rep_del[OF Cons.prems] run_step[OF Cons.prems]
    by (cases "P n") auto
qed

end

definition hlist_head_of :: "node list \<Rightarrow> node" where
  "hlist_head_of ns = (case ns of [] \<Rightarrow> 0 | n # _ \<Rightarrow> n)"

interpretation hl: removing_loop "\<lambda>m. is_hlist m h" hlist_del "\<lambda>f ns. hlist_safe_from f (hlist_head_of ns)" for h
proof unfold_locales
  show "is_hlist (hlist_del n m) h (ks @ ns)" if "is_hlist m h (ks @ n # ns)" for m ks n ns
    using hlist_del_spec[OF that] .
  show "hlist_safe_from f (hlist_head_of []) m = Some m" for f m
    by (simp add: hlist_safe_from.simps hlist_head_of_def)
  show "hlist_safe_from f (hlist_head_of (n # ns)) m = hlist_safe_from f (hlist_head_of ns) (f n m)"
    if "is_hlist m h (ks @ n # ns)" for f m ks n ns
    using hlist_at(2,3)[OF that] by (subst hlist_safe_from.simps) (simp add: Let_def hlist_head_of_def)
qed

interpretation ll: removing_loop "\<lambda>m. is_list m head" list_del
  "\<lambda>f ns h. list_safe_from f head (hd (ns @ [head])) (nxt h (hd (ns @ [head]))) h" for head
proof unfold_locales
  show "is_list (list_del n m) head (ks @ ns)" if "is_list m head (ks @ n # ns)" for m ks n ns
    using list_del_spec[OF that] .
  show "list_safe_from f head (hd ([] @ [head])) (nxt h (hd ([] @ [head]))) h = Some h" for f h
    by (simp add: list_safe_from.simps)
  show "list_safe_from f head (hd ((n # ns) @ [head])) (nxt h (hd ((n # ns) @ [head]))) h =
      list_safe_from f head (hd (ns @ [head])) (nxt (f n h) (hd (ns @ [head]))) (f n h)"
    if "is_list h head (ks @ n # ns)" for f h ks n ns
    using is_list_at(2)[OF that] that by (subst list_safe_from.simps) (auto simp: Let_def is_list_def)
qed

text \<open>Backwards the entries come in the reverse order.\<close>

interpretation lr: removing_loop "\<lambda>m ns. is_list m head (rev ns)" list_del
  "\<lambda>f ns h. entries_safe_prev (\<lambda>pos. f (pos + off)) off head (list_entry off (hd (ns @ [head])))
     (list_entry off (prv h (hd (ns @ [head])))) h" for head off
proof unfold_locales
  show "is_list (list_del n m) head (rev (ks @ ns))" if "is_list m head (rev (ks @ n # ns))" for m ks n ns
    using list_del_spec[of m head "rev ns" n "rev ks"] that by simp
  show "entries_safe_prev (\<lambda>pos. f (pos + off)) off head (list_entry off (hd ([] @ [head])))
      (list_entry off (prv h (hd ([] @ [head])))) h = Some h" for f h
    by (simp add: entries_safe_prev.simps list_entry_def)
  show "entries_safe_prev (\<lambda>pos. f (pos + off)) off head (list_entry off (hd ((n # ns) @ [head])))
      (list_entry off (prv h (hd ((n # ns) @ [head])))) h =
      entries_safe_prev (\<lambda>pos. f (pos + off)) off head (list_entry off (hd (ns @ [head])))
      (list_entry off (prv (f n h) (hd (ns @ [head])))) (f n h)"
    if "is_list h head (rev (ks @ n # ns))" for f h ks n ns
  proof -
    have "prv h n = hd (ns @ [head])" "n \<noteq> head"
      using is_list_at(1)[of h head "rev ns" n "rev ks"] that by (auto simp: is_list_def last_rev hd_append)
    then show ?thesis by (subst entries_safe_prev.simps) (simp add: Let_def list_entry_def)
  qed
qed

lemma entries_safe_eq:
  "\<exists>r. list_safe_from (\<lambda>p. f (list_entry off p)) head p n h = Some r \<and> Q r \<Longrightarrow>
   \<exists>r. entries_safe f off head (list_entry off p) (list_entry off n) h = Some r \<and> Q r"
proof -
  have *: "g = (\<lambda>p. f (list_entry off p)) \<longrightarrow> entries_safe f off head (list_entry off p) (list_entry off n) h = Some r"
    if "list_safe_from g head p n h = Some r" for g p n h r
    by (rule list_safe_from.raw_induct[OF _ that, where P = "\<lambda>g head p n h r. g = (\<lambda>p. f (list_entry off p)) \<longrightarrow>
          entries_safe f off head (list_entry off p) (list_entry off n) h = Some r"])
      (subst entries_safe.simps, auto simp: Let_def list_entry_def split: if_splits)
  assume "\<exists>r. list_safe_from (\<lambda>p. f (list_entry off p)) head p n h = Some r \<and> Q r"
  then show ?thesis using * by blast
qed

text \<open>The loops over the structs are the loops over their nodes.\<close>

lemma entries_from_map:
  "list_from head p h = Some r \<Longrightarrow> entries_from off head (list_entry off p) h = Some (map (list_entry off) r)"
  by (erule list_from.raw_induct[rotated, where P = "\<lambda>head p h r.
        entries_from off head (list_entry off p) h = Some (map (list_entry off) r)"])
    (subst entries_from.simps, auto simp: list_entry_def split: if_splits bind_splits)

lemma entries_from_prev_map:
  "list_from_prev head p h = Some r \<Longrightarrow>
   entries_from_prev off head (list_entry off p) h = Some (map (list_entry off) r)"
  by (erule list_from_prev.raw_induct[rotated, where P = "\<lambda>head p h r.
        entries_from_prev off head (list_entry off p) h = Some (map (list_entry off) r)"])
    (subst entries_from_prev.simps, auto simp: list_entry_def split: if_splits bind_splits)

lemma list_from_at:
  "is_list h head (ys @ zs) \<Longrightarrow> list_from head (hd (zs @ [head])) h = Some zs"
proof (induction zs arbitrary: ys)
  case Nil
  then show ?case by (simp add: list_from.simps)
next
  case (Cons z zs)
  have "list_from head (hd (zs @ [head])) h = Some zs" using Cons.IH[of "ys @ [z]"] Cons.prems by simp
  then show ?case using is_list_at(2)[OF Cons.prems] Cons.prems by (subst list_from.simps) (auto simp: is_list_def)
qed

lemma list_for_each_entry_spec:
  assumes "is_list h head xs"
  shows "list_for_each_entry off head h = Some (map (list_entry off) xs)"
    "list_for_each_entry_reverse off head h = Some (rev (map (list_entry off) xs))"
proof -
  show "list_for_each_entry off head h = Some (map (list_entry off) xs)"
    using entries_from_map list_for_each_spec[OF assms] by (simp add: list_for_each_def list_for_each_entry_def)
  show "list_for_each_entry_reverse off head h = Some (rev (map (list_entry off) xs))"
    using entries_from_prev_map list_for_each_prev_spec[OF assms]
    by (simp add: list_for_each_prev_def list_for_each_entry_reverse_def rev_map)
qed

lemma list_for_each_entry_at:
  assumes "is_list h head (ys @ e # zs)"
  shows "list_for_each_entry_continue off head (list_entry off e) h = Some (map (list_entry off) zs)"
    "list_for_each_entry_from off head (list_entry off e) h = Some (map (list_entry off) (e # zs))"
proof -
  have e: "list_entry off e + off = e" by (simp add: list_entry_def)
  show "list_for_each_entry_continue off head (list_entry off e) h = Some (map (list_entry off) zs)"
    using entries_from_map[OF list_from_at[of h head "ys @ [e]" zs]] assms is_list_at(2)[OF assms]
    by (simp add: list_for_each_entry_continue_def e)
  show "list_for_each_entry_from off head (list_entry off e) h = Some (map (list_entry off) (e # zs))"
    using entries_from_map[OF list_from_at[OF assms]] by (simp add: list_for_each_entry_from_def)
qed

lemma hlist_for_each_safe_filter:
  assumes "is_hlist m h ns"
  shows "\<exists>m'. hlist_for_each_safe (\<lambda>p m. if P p then hlist_del p m else m) h m = Some m' \<and>
    is_hlist m' h (filter (\<lambda>p. \<not> P p) ns)"
  using hl.run_filter[of m h "[]" ns P] hlist_pointer[of m h "[]" ns] assms
  by (simp add: hlist_for_each_safe_def hlist_head_of_def)

lemma list_for_each_safe_filter:
  assumes "is_list h head xs"
  shows "\<exists>h'. list_for_each_safe (\<lambda>p h. if P p then list_del p h else h) head h = Some h' \<and>
    is_list h' head (filter (\<lambda>p. \<not> P p) xs)"
  using ll.run_filter[of h head "[]" xs P] is_list_head(1)[OF assms] assms
  by (simp add: list_for_each_safe_def Let_def)

lemma list_for_each_entry_safe_filter:
  assumes "is_list h head xs"
  shows "\<exists>h'. list_for_each_entry_safe (\<lambda>t h. if P (t + off) then list_del (t + off) h else h) off head h = Some h' \<and>
    is_list h' head (filter (\<lambda>p. \<not> P p) xs)"
proof -
  let ?f = "\<lambda>t h. if P (t + off) then list_del (t + off) h else h"
  have "(\<lambda>p. ?f (list_entry off p)) = (\<lambda>p h. if P p then list_del p h else h)"
    by (simp add: list_entry_def fun_eq_iff)
  then show ?thesis
    using entries_safe_eq[of ?f off head "hd (xs @ [head])" "nxt h (hd (xs @ [head]))" h]
      ll.run_filter[of h head "[]" xs P] is_list_head(1)[OF assms] assms
    by (simp add: list_for_each_entry_safe_def Let_def list_entry_def)
qed

lemma list_for_each_entry_safe_reverse_filter:
  assumes "is_list h head xs"
  shows "\<exists>h'. list_for_each_entry_safe_reverse (\<lambda>t h. if P (t + off) then list_del (t + off) h else h) off head h = Some h' \<and>
    is_list h' head (filter (\<lambda>p. \<not> P p) xs)"
proof -
  have "last (head # xs) = hd (rev xs @ [head])" by (cases xs rule: rev_cases) auto
  then show ?thesis
    using lr.run_filter[where m = h and head = head and ks = "[]" and ns = "rev xs" and off = off and P = P] is_list_head(2)[OF assms] assms
    by (simp add: list_for_each_entry_safe_reverse_def Let_def list_entry_def rev_filter[symmetric] del: last.simps)
qed

subsection \<open>Properties\<close>

text \<open>
  Every operation of an \<open>hlist\<close> does to the sequence of entries what its name says: adding at the
  head, before and after an entry, and removing an entry in either way; the visiting loop returns
  the new sequence, and an entry removed with \<open>hlist_del_init\<close> counts as unhashed.
\<close>

theorem hlist_operations_refine_sequences:
  assumes "is_hlist m h (xs @ x # ys)" "hfresh n h (xs @ x # ys)" "h \<noteq> 0"
  shows "hlist_for_each h (hlist_add_head n h m) = Some (n # xs @ x # ys) \<and>
    hlist_for_each h (hlist_add_before n x m) = Some (xs @ n # x # ys) \<and>
    hlist_for_each h (hlist_add_after x n m) = Some (xs @ x # n # ys) \<and>
    hlist_for_each h (hlist_del x m) = Some (xs @ ys) \<and>
    hlist_for_each h (hlist_del_init x m) = Some (xs @ ys) \<and>
    hlist_unhashed x (hlist_del_init x m) \<and> \<not> hlist_unhashed x m \<and>
    (hlist_empty h (hlist_del x m) \<longleftrightarrow> xs @ ys = [])"
proof -
  have "last (h # xs) \<noteq> 0"
    using assms(1,3) hpath_nz[of m h xs] last_in[of h xs] by (auto simp: is_hlist_split)
  then have "\<not> hlist_unhashed x m" using hlist_at(1)[OF assms(1)] by (simp add: hlist_unhashed_def)
  then show ?thesis
    using hlist_add_head_spec[OF assms(1,2)] hlist_add_before_spec[OF assms(1,2)] hlist_add_after_spec[OF assms(1,2)]
      hlist_del_spec[OF assms(1)] hlist_del_init_spec[OF assms(1,3)]
    by (simp add: hlist_for_each_spec hlist_empty_iff)
qed

theorem hlist_operations_refine_sequences_witness:
  "hlist_for_each 0x1000 (hlist_add_after 0x2000 0x3000 (hlist_add_head 0x2000 0x1000 (INIT_HLIST_HEAD 0x1000 (\<lambda>_. 7)))) =
     Some [0x2000, 0x3000]"
proof -
  have "is_hlist (hlist_add_head 0x2000 0x1000 (INIT_HLIST_HEAD 0x1000 (\<lambda>_. 7))) 0x1000 ([] @ 0x2000 # [])"
    by (simp only: append_Nil, intro hlist_add_head_spec is_hlist_INIT) (simp add: hfresh_def)
  from hlist_operations_refine_sequences[OF this, where n = "0x3000"] show ?thesis by (simp add: hfresh_def)
qed

text \<open>
  The loops that allow the body to remove entries: they end, and a body that removes the entries
  with a property leaves exactly the others, in their order, whether the loop goes over nodes or
  over the structs around them, forwards or backwards, in a doubly linked list or an \<open>hlist\<close>.
\<close>

theorem safe_loops_remove:
  assumes "is_list h head xs" "is_hlist m hh ns"
  shows "(\<exists>h'. list_for_each_safe (\<lambda>p h. if P p then list_del p h else h) head h = Some h' \<and>
      list_for_each_entry off head h' = Some (map (list_entry off) (filter (\<lambda>p. \<not> P p) xs))) \<and>
    (\<exists>h'. list_for_each_entry_safe (\<lambda>t h. if P (t + off) then list_del (t + off) h else h) off head h = Some h' \<and>
      list_for_each_entry off head h' = Some (map (list_entry off) (filter (\<lambda>p. \<not> P p) xs))) \<and>
    (\<exists>h'. list_for_each_entry_safe_reverse (\<lambda>t h. if P (t + off) then list_del (t + off) h else h) off head h = Some h' \<and>
      list_for_each_entry off head h' = Some (map (list_entry off) (filter (\<lambda>p. \<not> P p) xs))) \<and>
    (\<exists>m'. hlist_for_each_safe (\<lambda>p m. if P p then hlist_del p m else m) hh m = Some m' \<and>
      hlist_for_each_entry off hh m' = Some (map (hlist_entry off) (filter (\<lambda>p. \<not> P p) ns)))"
  using list_for_each_safe_filter[OF assms(1), of P] list_for_each_entry_safe_filter[OF assms(1), of P off]
    list_for_each_entry_safe_reverse_filter[OF assms(1), of P off] hlist_for_each_safe_filter[OF assms(2), of P]
  by (intro conjI) (elim exE conjE, rule exI, rule conjI, assumption,
    erule list_for_each_entry_spec hlist_for_each_entry_spec)+

theorem safe_loops_remove_witness:
  "\<exists>h'. list_for_each_entry_safe (\<lambda>t h. if t + 8 = 0x2008 then list_del (t + 8) h else h) 8 0x1000
       (list_add 0x2008 0x1000 (list_add 0x3008 0x1000 (INIT_LIST_HEAD 0x1000 \<lparr>nxt = \<lambda>_. 7, prv = \<lambda>_. 7\<rparr>))) = Some h' \<and>
     list_for_each_entry 8 0x1000 h' = Some [0x3000]"
proof -
  have "is_list (list_add 0x2008 0x1000 (list_add 0x3008 0x1000 (INIT_LIST_HEAD 0x1000 \<lparr>nxt = \<lambda>_. 7, prv = \<lambda>_. 7\<rparr>))) 0x1000 [0x2008, 0x3008]"
    by (intro list_add_spec is_list_INIT) simp_all
  from safe_loops_remove[OF this is_hlist_INIT, of "\<lambda>p. p = 0x2008" 8] show ?thesis by (simp add: list_entry_def)
qed

end
