(* ===== verification/Atomics.thy ===== *)
theory Atomics
  imports Locks
begin

text \<open>
  The rest of \<open>lib/inc/atomic.h\<close>: the 64-bit operations and the macros, as functions that return the
  new value of the counter, and below them the loops of exclusive loads and stores that all of them
  are made of, executed by any number of processors in any interleaving. The \<open>ldxr\<close> of a processor
  sets its exclusive monitor, every store to the counter by another processor clears it, and
  \<open>stxr\<close> stores only while it is set; it may fail for other reasons too. The log of the completed
  operations shows that the loops are atomic: each returned what the function of theory \<open>Locks\<close> or of
  this theory returns, executed at one point between the call and the return.
\<close>

subsection \<open>64-bit operations and macros\<close>

definition atomic_set :: "u32 \<Rightarrow> u32" where "atomic_set i = i"
definition atomic_inc :: "u32 \<Rightarrow> u32" where "atomic_inc v = atomic_add 1 v"
definition atomic_dec :: "u32 \<Rightarrow> u32" where "atomic_dec v = atomic_sub 1 v"
definition atomic_inc_return :: "u32 \<Rightarrow> u32 \<times> u32" where "atomic_inc_return v = atomic_add_return 1 v"
definition atomic_dec_return :: "u32 \<Rightarrow> u32 \<times> u32" where "atomic_dec_return v = atomic_sub_return 1 v"

definition atomic_inc_and_test :: "u32 \<Rightarrow> bool \<times> u32" where
  "atomic_inc_and_test v = (let (r, v) = atomic_add_return 1 v in (r = 0, v))"

definition atomic_dec_and_test :: "u32 \<Rightarrow> bool \<times> u32" where
  "atomic_dec_and_test v = (let (r, v) = atomic_sub_return 1 v in (r = 0, v))"

definition atomic_sub_and_test :: "u32 \<Rightarrow> u32 \<Rightarrow> bool \<times> u32" where
  "atomic_sub_and_test i v = (let (r, v) = atomic_sub_return i v in (r = 0, v))"

definition atomic_add_negative :: "u32 \<Rightarrow> u32 \<Rightarrow> bool \<times> u32" where
  "atomic_add_negative i v = (let (r, v) = atomic_add_return i v in (sint r < 0, v))"

definition atomic64_set :: "u64 \<Rightarrow> u64" where "atomic64_set i = i"
definition atomic64_add :: "u64 \<Rightarrow> u64 \<Rightarrow> u64" where "atomic64_add i counter = counter + i"
definition atomic64_sub :: "u64 \<Rightarrow> u64 \<Rightarrow> u64" where "atomic64_sub i counter = counter - i"

definition atomic64_add_return :: "u64 \<Rightarrow> u64 \<Rightarrow> u64 \<times> u64" where
  "atomic64_add_return i counter = (let result = counter + i in (result, result))"

definition atomic64_sub_return :: "u64 \<Rightarrow> u64 \<Rightarrow> u64 \<times> u64" where
  "atomic64_sub_return i counter = (let result = counter - i in (result, result))"

definition atomic64_cmpxchg :: "u64 \<Rightarrow> u64 \<Rightarrow> u64 \<Rightarrow> u64 \<times> u64" where
  "atomic64_cmpxchg counter old new = (let oldval = counter in
     (oldval, if oldval = old then new else counter))"

text \<open>The list holds the counter at each attempt, as in \<open>Locks\<close>. Other than
  \<open>__atomic_add_unless\<close>, the 64-bit variant returns whether it added, as an \<open>int\<close>.\<close>

fun add_unless_loop64 :: "u64 list \<Rightarrow> u64 \<Rightarrow> u64 \<Rightarrow> u64 \<Rightarrow> (u64 \<times> u64) option" where
  "add_unless_loop64 [] a u c = None"
| "add_unless_loop64 (v # vs) a u c =
     (if c = u then Some (c, v)
      else let (old, v') = atomic64_cmpxchg v c (c + a)
           in if old = c then Some (c, v') else add_unless_loop64 vs a u old)"

definition atomic64_add_unless :: "u64 \<Rightarrow> u64 list \<Rightarrow> u64 \<Rightarrow> u64 \<Rightarrow> (bool \<times> u64) option" where
  "atomic64_add_unless counter attempts a u =
     map_option (\<lambda>(c, v). (c \<noteq> u, v)) (add_unless_loop64 attempts a u counter)"

definition atomic64_inc :: "u64 \<Rightarrow> u64" where "atomic64_inc v = atomic64_add 1 v"
definition atomic64_dec :: "u64 \<Rightarrow> u64" where "atomic64_dec v = atomic64_sub 1 v"
definition atomic64_inc_return :: "u64 \<Rightarrow> u64 \<times> u64" where "atomic64_inc_return v = atomic64_add_return 1 v"
definition atomic64_dec_return :: "u64 \<Rightarrow> u64 \<times> u64" where "atomic64_dec_return v = atomic64_sub_return 1 v"

definition atomic64_inc_and_test :: "u64 \<Rightarrow> bool \<times> u64" where
  "atomic64_inc_and_test v = (let (r, v) = atomic64_inc_return v in (r = 0, v))"

definition atomic64_dec_and_test :: "u64 \<Rightarrow> bool \<times> u64" where
  "atomic64_dec_and_test v = (let (r, v) = atomic64_dec_return v in (r = 0, v))"

definition atomic64_sub_and_test :: "u64 \<Rightarrow> u64 \<Rightarrow> bool \<times> u64" where
  "atomic64_sub_and_test a v = (let (r, v) = atomic64_sub_return a v in (r = 0, v))"

definition atomic64_add_negative :: "u64 \<Rightarrow> u64 \<Rightarrow> bool \<times> u64" where
  "atomic64_add_negative a v = (let (r, v) = atomic64_add_return a v in (sint r < 0, v))"

definition atomic64_inc_not_zero :: "u64 \<Rightarrow> u64 list \<Rightarrow> (bool \<times> u64) option" where
  "atomic64_inc_not_zero v attempts = atomic64_add_unless v attempts 1 0"

subsection \<open>The loops of exclusive accesses\<close>

text \<open>The functions with a loop of their own, at either width; \<open>SetOp\<close> is the plain store of
  \<open>atomic_set\<close>.\<close>

datatype 'w atomic_op = AddOp 'w | AddReturnOp 'w | SubOp 'w | SubReturnOp 'w | CmpxchgOp 'w 'w | DecIfPositiveOp | SetOp 'w

text \<open>What the loop body computes from the loaded value: the value it tries to store, or \<open>None\<close>
  where it branches out of the loop (\<open>b.ne 2f\<close>, \<open>b.mi 2f\<close>), and the result register.\<close>

fun loop_store :: "'a::len word atomic_op \<Rightarrow> 'a word \<Rightarrow> 'a word option" where
  "loop_store (AddOp i) v = Some (v + i)"
| "loop_store (AddReturnOp i) v = Some (v + i)"
| "loop_store (SubOp i) v = Some (v - i)"
| "loop_store (SubReturnOp i) v = Some (v - i)"
| "loop_store (CmpxchgOp old new) v = (if v = old then Some new else None)"
| "loop_store DecIfPositiveOp v = (if sint (v - 1) < 0 then None else Some (v - 1))"
| "loop_store (SetOp x) v = Some x"

fun loop_result :: "'a::len word atomic_op \<Rightarrow> 'a word \<Rightarrow> 'a word" where
  "loop_result (AddOp i) v = v + i"
| "loop_result (AddReturnOp i) v = v + i"
| "loop_result (SubOp i) v = v - i"
| "loop_result (SubReturnOp i) v = v - i"
| "loop_result (CmpxchgOp old new) v = v"
| "loop_result DecIfPositiveOp v = v - 1"
| "loop_result (SetOp x) v = x"

datatype 'w atomic_pc = Returned | Ldxr "'w atomic_op" | Stxr "'w atomic_op" 'w

text \<open>\<open>calls\<close> is the log of the completed operations, the last one first: the processor, the
  operation and the result it returned.\<close>

record 'w excl_sys =
  cell :: 'w
  monitor :: "nat \<Rightarrow> bool"
  xpc :: "nat \<Rightarrow> 'w atomic_pc"
  calls :: "(nat \<times> 'w atomic_op \<times> 'w) list"

definition excl_start :: "'w \<Rightarrow> 'w excl_sys" where
  "excl_start v = \<lparr>cell = v, monitor = (\<lambda>_. False), xpc = (\<lambda>_. Returned), calls = []\<rparr>"

inductive excl_step :: "nat \<Rightarrow> 'a::len word excl_sys \<Rightarrow> 'a word excl_sys \<Rightarrow> bool" for N where
  call: "i < N \<Longrightarrow> xpc s i = Returned \<Longrightarrow> excl_step N s (s\<lparr>xpc := (xpc s)(i := Ldxr opn)\<rparr>)"
| load: "xpc s i = Ldxr opn \<Longrightarrow> loop_store opn (cell s) = Some w \<Longrightarrow>
     excl_step N s (s\<lparr>monitor := (monitor s)(i := True), xpc := (xpc s)(i := Stxr opn (cell s))\<rparr>)"
| load_leave: "xpc s i = Ldxr opn \<Longrightarrow> loop_store opn (cell s) = None \<Longrightarrow>
     excl_step N s (s\<lparr>monitor := (monitor s)(i := True), xpc := (xpc s)(i := Returned),
       calls := (i, opn, loop_result opn (cell s)) # calls s\<rparr>)"
| store: "xpc s i = Stxr opn v \<Longrightarrow> monitor s i \<Longrightarrow> loop_store opn v = Some w \<Longrightarrow>
     excl_step N s (s\<lparr>cell := w, monitor := (\<lambda>_. False), xpc := (xpc s)(i := Returned),
       calls := (i, opn, loop_result opn v) # calls s\<rparr>)"
| store_fails: "xpc s i = Stxr opn v \<Longrightarrow>
     excl_step N s (s\<lparr>monitor := (monitor s)(i := False), xpc := (xpc s)(i := Ldxr opn)\<rparr>)"
| assign: "i < N \<Longrightarrow> xpc s i = Returned \<Longrightarrow>
     excl_step N s (s\<lparr>cell := x, monitor := (\<lambda>j. j = i \<and> monitor s j), calls := (i, SetOp x, x) # calls s\<rparr>)"

inductive excl_reach :: "nat \<Rightarrow> 'a::len word \<Rightarrow> 'a word excl_sys \<Rightarrow> bool" for N v where
  start: "excl_reach N v (excl_start v)"
| step: "excl_reach N v s \<Longrightarrow> excl_step N s t \<Longrightarrow> excl_reach N v t"

text \<open>The abstract counter: the operations of a log one after the other.\<close>

definition apply_op :: "'a::len word atomic_op \<Rightarrow> 'a word \<Rightarrow> 'a word" where
  "apply_op opn v = (case loop_store opn v of None \<Rightarrow> v | Some w \<Rightarrow> w)"

fun replay :: "'a::len word \<Rightarrow> (nat \<times> 'a word atomic_op \<times> 'a word) list \<Rightarrow> 'a word" where
  "replay v [] = v"
| "replay v ((i, opn, r) # cs) = apply_op opn (replay v cs)"

fun results_ok :: "'a::len word \<Rightarrow> (nat \<times> 'a word atomic_op \<times> 'a word) list \<Rightarrow> bool" where
  "results_ok v [] \<longleftrightarrow> True"
| "results_ok v ((i, opn, r) # cs) \<longleftrightarrow> r = loop_result opn (replay v cs) \<and> results_ok v cs"

text \<open>The amount that an operation adds, where it does not depend on the counter.\<close>

fun amount :: "'a::len word atomic_op \<Rightarrow> 'a word option" where
  "amount (AddOp i) = Some i"
| "amount (AddReturnOp i) = Some i"
| "amount (SubOp i) = Some (- i)"
| "amount (SubReturnOp i) = Some (- i)"
| "amount _ = None"

subsection \<open>The loops are atomic\<close>

text \<open>A processor that is about to store and still has its monitor loaded the present value.\<close>

definition excl_inv :: "'a::len word \<Rightarrow> 'a word excl_sys \<Rightarrow> bool" where
  "excl_inv v s \<longleftrightarrow> cell s = replay v (calls s) \<and> results_ok v (calls s) \<and>
     (\<forall>i opn x. xpc s i = Stxr opn x \<longrightarrow> monitor s i \<longrightarrow> x = cell s)"

lemma excl_inv_step: "excl_step N s t \<Longrightarrow> excl_inv v s \<Longrightarrow> excl_inv v t"
  by (induction rule: excl_step.induct) (auto simp: excl_inv_def apply_op_def split: if_splits)

lemma excl_reach_inv: "excl_reach N v s \<Longrightarrow> excl_inv v s"
  by (induction rule: excl_reach.induct) (auto simp: excl_inv_step, simp add: excl_inv_def excl_start_def)

lemma replay_amounts:
  "\<forall>c \<in> set cs. amount (fst (snd c)) \<noteq> None \<Longrightarrow>
   replay v cs = v + sum_list (map (\<lambda>c. the (amount (fst (snd c)))) cs)"
proof (induction cs)
  case (Cons c cs)
  obtain i opn r where "c = (i, opn, r)" by (cases c)
  with Cons show ?case by (cases opn) (auto simp: apply_op_def algebra_simps)
qed simp

lemma replay_incs:
  "\<forall>c \<in> set cs. fst (snd c) = AddReturnOp 1 \<Longrightarrow> results_ok v cs \<Longrightarrow>
   replay v cs = v + word_of_nat (length cs) \<and>
   map (\<lambda>c. snd (snd c)) cs = map (\<lambda>k. v + word_of_nat (Suc k)) (rev [0..<length cs])"
proof (induction cs)
  case (Cons c cs)
  obtain i r where "c = (i, AddReturnOp 1, r)" using Cons.prems(1) by (cases c) auto
  with Cons show ?case by (auto simp: apply_op_def algebra_simps)
qed simp

subsection \<open>Properties\<close>

text \<open>
  The functions describe one run of the loops: the result and the new value of a loop that loads
  \<open>v\<close> and stores are what the function returns for \<open>v\<close>, at both widths.
\<close>

theorem atomic_functions_are_loops:
  "(apply_op (AddOp i) v = atomic_add i v) \<and> (apply_op (SubOp i) v = atomic_sub i v) \<and>
   ((loop_result (AddReturnOp i) v, apply_op (AddReturnOp i) v) = atomic_add_return i v) \<and>
   ((loop_result (SubReturnOp i) v, apply_op (SubReturnOp i) v) = atomic_sub_return i v) \<and>
   ((loop_result (CmpxchgOp i n) v, apply_op (CmpxchgOp i n) v) = atomic_cmpxchg v i n) \<and>
   (apply_op (AddOp j) u = atomic64_add j u) \<and> (apply_op (SubOp j) u = atomic64_sub j u) \<and>
   ((loop_result (AddReturnOp j) u, apply_op (AddReturnOp j) u) = atomic64_add_return j u) \<and>
   ((loop_result (SubReturnOp j) u, apply_op (SubReturnOp j) u) = atomic64_sub_return j u) \<and>
   ((loop_result (CmpxchgOp j m) u, apply_op (CmpxchgOp j m) u) = atomic64_cmpxchg u j m) \<and>
   ((loop_result DecIfPositiveOp u, apply_op DecIfPositiveOp u) = atomic64_dec_if_positive u)"
  by (simp add: apply_op_def atomic_add_def atomic_sub_def atomic_add_return_def atomic_sub_return_def
      atomic_cmpxchg_def atomic64_add_def atomic64_sub_def atomic64_add_return_def atomic64_sub_return_def
      atomic64_cmpxchg_def atomic64_dec_if_positive_def Let_def)

text \<open>An execution of two processors: both load, the first stores, the second fails and repeats.\<close>

definition excl_sample :: "u32 excl_sys" where
  "excl_sample = \<lparr>cell = 2, monitor = (\<lambda>_. False), xpc = (\<lambda>_. Returned),
     calls = [(1, AddReturnOp 1, 2), (0, AddReturnOp 1, 1)]\<rparr>"

lemma excl_sample_reached: "excl_reach 2 0 excl_sample"
proof -
  let ?a = "AddReturnOp 1 :: u32 atomic_op" and ?st = "\<lambda>c m p l. \<lparr>cell = c, monitor = m, xpc = p, calls = l\<rparr>"
  let ?F = "\<lambda>_ :: nat. False" and ?R = "\<lambda>_ :: nat. Returned :: u32 atomic_pc" and ?l = "[(0 :: nat, AddReturnOp 1, 1)] :: (nat \<times> u32 atomic_op \<times> u32) list"
  have "excl_reach 2 0 (?st 0 ?F ?R [])"
    using excl_reach.start[of 2 "0 :: u32"] by (simp add: excl_start_def)
  then have "excl_reach 2 0 (?st 0 ?F (?R(0 := Ldxr ?a)) [])"
    by (rule excl_reach.step) (use excl_step.call[of 0 2 "?st 0 ?F ?R []" ?a] in simp)
  then have "excl_reach 2 0 (?st 0 ?F (?R(0 := Ldxr ?a, 1 := Ldxr ?a)) [])"
    by (rule excl_reach.step) (use excl_step.call[of 1 2 "?st 0 ?F (?R(0 := Ldxr ?a)) []" ?a] in simp)
  then have "excl_reach 2 0 (?st 0 (?F(0 := True)) (?R(0 := Stxr ?a 0, 1 := Ldxr ?a)) [])"
    by (rule excl_reach.step)
      (use excl_step.load[of "?st 0 ?F (?R(0 := Ldxr ?a, 1 := Ldxr ?a)) []" 0 ?a 1 2] in \<open>simp add: fun_upd_twist\<close>)
  then have "excl_reach 2 0 (?st 0 (?F(0 := True, 1 := True)) (?R(0 := Stxr ?a 0, 1 := Stxr ?a 0)) [])"
    by (rule excl_reach.step)
      (use excl_step.load[of "?st 0 (?F(0 := True)) (?R(0 := Stxr ?a 0, 1 := Ldxr ?a)) []" 1 ?a 1 2] in simp)
  then have "excl_reach 2 0 (?st 1 ?F (?R(1 := Stxr ?a 0)) ?l)"
    by (rule excl_reach.step)
      (use excl_step.store[of "?st 0 (?F(0 := True, 1 := True)) (?R(0 := Stxr ?a 0, 1 := Stxr ?a 0)) []" 0 ?a 0 1 2]
        in \<open>simp add: fun_upd_twist fun_upd_idem\<close>)
  then have "excl_reach 2 0 (?st 1 ?F (?R(1 := Ldxr ?a)) ?l)"
    by (rule excl_reach.step)
      (use excl_step.store_fails[of "?st 1 ?F (?R(1 := Stxr ?a 0)) ?l" 1 ?a 0 2] in \<open>simp add: fun_upd_idem\<close>)
  then have "excl_reach 2 0 (?st 1 (?F(1 := True)) (?R(1 := Stxr ?a 1)) ?l)"
    by (rule excl_reach.step) (use excl_step.load[of "?st 1 ?F (?R(1 := Ldxr ?a)) ?l" 1 ?a 2 2] in simp)
  then have "excl_reach 2 0 (?st 2 ?F ?R ((1, ?a, 2) # ?l))"
    by (rule excl_reach.step)
      (use excl_step.store[of "?st 1 (?F(1 := True)) (?R(1 := Stxr ?a 1)) ?l" 1 ?a 1 2 2] in \<open>simp add: fun_upd_idem\<close>)
  then show ?thesis by (simp add: excl_sample_def)
qed

text \<open>
  The loops of exclusive loads and stores are atomic: whatever the interleaving of the processors and
  however often stores fail, the counter is what the completed operations give one after the other,
  and each returned what it returns in that order.
\<close>

theorem atomic_loops_linearise:
  assumes "excl_reach N v s"
  shows "cell s = replay v (calls s) \<and> results_ok v (calls s)"
  using excl_reach_inv[OF assms] by (simp add: excl_inv_def)

theorem atomic_loops_linearise_witness:
  "cell excl_sample = replay 0 (calls excl_sample) \<and> results_ok 0 (calls excl_sample)"
  using atomic_loops_linearise[OF excl_sample_reached] .

text \<open>
  C9: no update is lost: when only additions and subtractions were completed, the counter is its
  first value and the sum of all amounts. And no number is given twice by a counter that is only
  counted up: when every completed operation is an \<open>atomic_add_return\<close> of 1 and there are fewer of
  them than the word has values, they have returned different numbers.
\<close>

theorem atomic_counter_no_lost_update:
  fixes s :: "'a::len word excl_sys"
  assumes "excl_reach N v s" "\<forall>c \<in> set (calls s). amount (fst (snd c)) \<noteq> None"
  shows "cell s = v + sum_list (map (\<lambda>c. the (amount (fst (snd c)))) (calls s)) \<and>
    (length (calls s) < 2 ^ LENGTH('a) \<longrightarrow> (\<forall>c \<in> set (calls s). fst (snd c) = AddReturnOp 1) \<longrightarrow>
      distinct (map (\<lambda>c. snd (snd c)) (calls s)))"
proof -
  have inv: "cell s = replay v (calls s)" "results_ok v (calls s)"
    using excl_reach_inv[OF assms(1)] by (simp_all add: excl_inv_def)
  have "distinct (map (\<lambda>c. snd (snd c)) (calls s))"
    if "length (calls s) < 2 ^ LENGTH('a)" "\<forall>c \<in> set (calls s). fst (snd c) = AddReturnOp 1"
  proof -
    have "inj_on (\<lambda>k. v + word_of_nat (Suc k)) {0..<length (calls s)}"
    proof (rule inj_onI)
      fix a b assume "a \<in> {0..<length (calls s)}" "b \<in> {0..<length (calls s)}"
        and "v + word_of_nat (Suc a) = v + word_of_nat (Suc b)"
      then have "a < 2 ^ LENGTH('a)" "b < 2 ^ LENGTH('a)" "unat (word_of_nat a :: 'a word) = unat (word_of_nat b :: 'a word)"
        using that(1) by simp_all
      then show "a = b" by (simp add: unat_of_nat)
    qed
    then show ?thesis using replay_incs[OF that(2) inv(2)] by (simp add: distinct_map)
  qed
  then show ?thesis using inv(1) replay_amounts[OF assms(2), of v] by simp
qed

theorem atomic_counter_no_lost_update_witness:
  "cell excl_sample = 0 + (1 + 1) \<and> distinct (map (\<lambda>c. snd (snd c)) (calls excl_sample))"
  using atomic_counter_no_lost_update[OF excl_sample_reached] by (simp add: excl_sample_def)

text \<open>A processor that is left alone finishes its operation in two steps, from any state.\<close>

theorem atomic_operation_completes:
  assumes "xpc s i = Ldxr opn"
  shows "\<exists>t u. excl_step N s t \<and> (t = u \<or> excl_step N t u) \<and> xpc u i = Returned \<and>
    calls u = (i, opn, loop_result opn (cell s)) # calls s \<and> cell u = apply_op opn (cell s)"
proof (cases "loop_store opn (cell s)")
  case None
  let ?t = "s\<lparr>monitor := (monitor s)(i := True), xpc := (xpc s)(i := Returned),
      calls := (i, opn, loop_result opn (cell s)) # calls s\<rparr>"
  have "excl_step N s ?t" using assms None by (rule excl_step.load_leave)
  with None show ?thesis by (intro exI[of _ ?t]) (simp add: apply_op_def)
next
  case (Some w)
  let ?t = "s\<lparr>monitor := (monitor s)(i := True), xpc := (xpc s)(i := Stxr opn (cell s))\<rparr>"
  let ?u = "?t\<lparr>cell := w, monitor := (\<lambda>_. False), xpc := (xpc ?t)(i := Returned),
      calls := (i, opn, loop_result opn (cell s)) # calls ?t\<rparr>"
  have "excl_step N s ?t" using assms Some by (rule excl_step.load)
  moreover have "excl_step N ?t ?u" by (rule excl_step.store[where v = "cell s"]) (simp_all add: Some)
  ultimately show ?thesis using Some by (intro exI[of _ ?t] exI[of _ ?u]) (simp add: apply_op_def)
qed

theorem atomic_operation_completes_witness:
  "\<exists>t u. excl_step 2 (excl_sample\<lparr>xpc := (\<lambda>_. Ldxr DecIfPositiveOp)\<rparr>) t \<and>
     (t = u \<or> excl_step 2 t u) \<and> cell u = 1"
  using atomic_operation_completes[of "excl_sample\<lparr>xpc := (\<lambda>_. Ldxr DecIfPositiveOp)\<rparr>" 0 DecIfPositiveOp 2]
  by (auto simp: excl_sample_def apply_op_def)

end
