(* ===== verification/Sync_Clear.thy ===== *)
theory Sync_Clear
  imports Locks
begin

text \<open>
  \<open>cpu_sync_and_clear_msgs\<close> of \<open>core/inc/cpu.h\<close>: \<open>n\<close> processors pass a barrier, handle the
  messages that were sent before it until all have added one to the token's counter, and pass a
  second barrier. The processors interleave between the accesses to the counter; in particular
  \<open>atomic_add\<close> and the \<open>atomic_read\<close> after it are two steps. The token has been initialised, so
  \<open>ready\<close> is true. \<open>hm\<close> tells which processors run this inside a message handler and do not call
  \<open>cpu_msg_handler\<close>; \<open>polls\<close> counts the calls.
\<close>

datatype sync_pc = Enter | Wait_First int | Add_One | Read_Count | Clearing int | Enter_Second | Wait_Second int | Finished

record sync_sys =
  scount :: int
  spc :: "nat \<Rightarrow> sync_pc"
  polls :: "nat \<Rightarrow> nat"

text \<open>The counter after \<open>m\<close> barriers.\<close>

definition sync_start :: "nat \<Rightarrow> nat \<Rightarrow> sync_sys" where
  "sync_start n m = \<lparr>scount = int m * int n, spc = (\<lambda>_. Enter), polls = (\<lambda>_. 0)\<rparr>"

definition align_count :: "nat \<Rightarrow> int \<Rightarrow> int" where
  "align_count n v = ((v + int n - 1) div int n) * int n"

definition poll :: "(nat \<Rightarrow> bool) \<Rightarrow> nat \<Rightarrow> (nat \<Rightarrow> nat) \<Rightarrow> nat \<Rightarrow> nat" where
  "poll hm i p = (if \<not> hm i then p(i := Suc (p i)) else p)"

text \<open>An increment that overflowed the \<open>int\<close> would be undefined, so the steps require that it fits.\<close>

inductive sync_step :: "nat \<Rightarrow> (nat \<Rightarrow> bool) \<Rightarrow> sync_sys \<Rightarrow> sync_sys \<Rightarrow> bool" for n hm where
  arrive_first: "i < n \<Longrightarrow> spc s i = Enter \<Longrightarrow> scount s + 1 < 2 ^ 31 \<Longrightarrow>
     sync_step n hm s (s\<lparr>scount := scount s + 1, spc := (spc s)(i := Wait_First (barrier_exp n (scount s + 1)))\<rparr>)"
| pass_first: "spc s i = Wait_First e \<Longrightarrow> \<not> scount s < e \<Longrightarrow> sync_step n hm s (s\<lparr>spc := (spc s)(i := Add_One)\<rparr>)"
| add_one: "spc s i = Add_One \<Longrightarrow> scount s + 1 < 2 ^ 31 \<Longrightarrow>
     sync_step n hm s (s\<lparr>scount := scount s + 1, spc := (spc s)(i := Read_Count)\<rparr>)"
| read_count: "spc s i = Read_Count \<Longrightarrow>
     sync_step n hm s (s\<lparr>spc := (spc s)(i := Clearing (align_count n (scount s)))\<rparr>)"
| clear: "spc s i = Clearing e \<Longrightarrow> scount s < e \<Longrightarrow> sync_step n hm s (s\<lparr>polls := poll hm i (polls s)\<rparr>)"
| cleared: "spc s i = Clearing e \<Longrightarrow> \<not> scount s < e \<Longrightarrow>
     sync_step n hm s (s\<lparr>spc := (spc s)(i := Enter_Second), polls := poll hm i (polls s)\<rparr>)"
| arrive_second: "spc s i = Enter_Second \<Longrightarrow> scount s + 1 < 2 ^ 31 \<Longrightarrow>
     sync_step n hm s (s\<lparr>scount := scount s + 1, spc := (spc s)(i := Wait_Second (barrier_exp n (scount s + 1)))\<rparr>)"
| pass_second: "spc s i = Wait_Second e \<Longrightarrow> \<not> scount s < e \<Longrightarrow>
     sync_step n hm s (s\<lparr>spc := (spc s)(i := Finished)\<rparr>)"

inductive sync_steps :: "nat \<Rightarrow> (nat \<Rightarrow> bool) \<Rightarrow> sync_sys \<Rightarrow> sync_sys \<Rightarrow> bool" for n hm s where
  here: "sync_steps n hm s s"
| further: "sync_steps n hm s t \<Longrightarrow> sync_step n hm t u \<Longrightarrow> sync_steps n hm s u"

subsection \<open>The invariant\<close>

text \<open>How often a processor has incremented the counter.\<close>

fun arrivals :: "sync_pc \<Rightarrow> int" where
  "arrivals Enter = 0"
| "arrivals (Wait_First e) = 1"
| "arrivals Add_One = 1"
| "arrivals Read_Count = 2"
| "arrivals (Clearing e) = 2"
| "arrivals Enter_Second = 2"
| "arrivals (Wait_Second e) = 3"
| "arrivals Finished = 3"

text \<open>How many of the three synchronisation points it has passed.\<close>

fun passed :: "sync_pc \<Rightarrow> int" where
  "passed Enter = 0"
| "passed (Wait_First e) = 0"
| "passed Add_One = 1"
| "passed Read_Count = 1"
| "passed (Clearing e) = 1"
| "passed Enter_Second = 2"
| "passed (Wait_Second e) = 2"
| "passed Finished = 3"

fun waits_for :: "nat \<Rightarrow> nat \<Rightarrow> sync_pc \<Rightarrow> bool" where
  "waits_for n m (Wait_First e) \<longleftrightarrow> e = (int m + 1) * int n"
| "waits_for n m (Clearing e) \<longleftrightarrow> e = (int m + 2) * int n \<or> e = (int m + 3) * int n"
| "waits_for n m (Wait_Second e) \<longleftrightarrow> e = (int m + 3) * int n"
| "waits_for n m _ \<longleftrightarrow> True"

definition total :: "nat \<Rightarrow> (nat \<Rightarrow> sync_pc) \<Rightarrow> int" where
  "total n p = (\<Sum>i<n. arrivals (p i))"

definition sync_inv :: "nat \<Rightarrow> (nat \<Rightarrow> bool) \<Rightarrow> nat \<Rightarrow> sync_sys \<Rightarrow> bool" where
  "sync_inv n hm m s \<longleftrightarrow> scount s = int m * int n + total n (spc s) \<and>
     (\<forall>i. waits_for n m (spc s i) \<and> (n \<le> i \<longrightarrow> spc s i = Enter) \<and>
        (2 \<le> passed (spc s i) \<longrightarrow> hm i \<or> 0 < polls s i)) \<and>
     (\<forall>i<n. \<forall>j<n. passed (spc s i) \<le> arrivals (spc s j))"

lemma total_upd:
  assumes "i < n"
  shows "total n (p(i := c)) = total n p - arrivals (p i) + arrivals c"
proof -
  have "total n q = arrivals (q i) + (\<Sum>j\<in>{..<n} - {i}. arrivals (q j))" for q
    using assms by (simp add: total_def sum.remove)
  from this[of p] this[of "p(i := c)"] show ?thesis by simp
qed

lemma total_bounds:
  "(\<And>j. j < n \<Longrightarrow> k \<le> arrivals (p j)) \<Longrightarrow> k * int n \<le> total n p"
  "(\<And>j. j < n \<Longrightarrow> arrivals (p j) \<le> k) \<Longrightarrow> total n p \<le> k * int n"
  using sum_bounded_below[of "{..<n}" k "\<lambda>i. arrivals (p i)"] sum_bounded_above[of "{..<n}" "\<lambda>i. arrivals (p i)" k]
  by (auto simp: total_def mult.commute)

lemma total_less:
  assumes "\<And>j. j < n \<Longrightarrow> arrivals (p j) \<le> k" "i < n" "arrivals (p i) < k"
  shows "total n p < k * int n"
proof -
  have "total n p < (\<Sum>j<n. k)"
    unfolding total_def by (rule sum_strict_mono_ex1) (use assms in auto)
  then show ?thesis by (simp add: mult.commute)
qed

lemma passed_arrivals: "passed c \<le> arrivals c" "arrivals c \<le> passed c + 1" "arrivals c \<le> 3"
  by (cases c; simp)+

lemma sync_inv_total:
  assumes "sync_inv n hm m s" "i < n"
  shows "passed (spc s i) * int n \<le> total n (spc s)" "total n (spc s) < (arrivals (spc s i) + 1) * int n"
proof -
  have le: "passed (spc s j) \<le> arrivals (spc s k)" if "j < n" "k < n" for j k
    using assms(1) that unfolding sync_inv_def by blast
  show "passed (spc s i) * int n \<le> total n (spc s)" using le assms(2) by (intro total_bounds(1)) blast
  have "arrivals (spc s j) \<le> arrivals (spc s i) + 1" if "j < n" for j
    using le[OF that assms(2)] passed_arrivals(2)[of "spc s j"] by linarith
  then show "total n (spc s) < (arrivals (spc s i) + 1) * int n"
    using assms(2) by (intro total_less[of n _ _ i]) auto
qed

lemma sync_inv_reached:
  assumes "sync_inv n hm m s" "a * int n \<le> total n (spc s)" "j < n"
  shows "a \<le> arrivals (spc s j)"
proof (rule ccontr)
  assume "\<not> a \<le> arrivals (spc s j)"
  then have "(arrivals (spc s j) + 1) * int n \<le> a * int n" by (intro mult_right_mono) auto
  with sync_inv_total(2)[OF assms(1,3)] assms(2) show False by linarith
qed

lemma sync_inv_inside: "sync_inv n hm m s \<Longrightarrow> spc s i \<noteq> Enter \<Longrightarrow> i < n"
  unfolding sync_inv_def by (meson not_le)

lemma sync_inv_move:
  assumes inv: "sync_inv n hm m s" and "i < n"
    and "scount t = scount s + (arrivals c - arrivals (spc s i))" "spc t = (spc s)(i := c)"
    and "waits_for n m c" "arrivals (spc s i) \<le> arrivals c"
    and "\<And>j. j < n \<Longrightarrow> passed c \<le> arrivals (spc s j)"
    and "\<And>j. polls s j \<le> polls t j" "2 \<le> passed c \<Longrightarrow> hm i \<or> 0 < polls t i"
  shows "sync_inv n hm m t"
proof -
  have "scount t = int m * int n + total n (spc t)"
    using inv assms(2-4) by (simp add: sync_inv_def total_upd)
  moreover have "waits_for n m (spc t j) \<and> (n \<le> j \<longrightarrow> spc t j = Enter) \<and> (2 \<le> passed (spc t j) \<longrightarrow> hm j \<or> 0 < polls t j)" for j
    using inv assms(2,4,5,9) assms(8)[of j] by (auto simp: sync_inv_def dest: spec[of _ j])
  moreover have "passed (spc t j) \<le> arrivals (spc t k)" if "j < n" "k < n" for j k
    using inv assms(4,6) assms(7)[OF that(2)] that passed_arrivals(1)[of c] \<open>i < n\<close>
    unfolding sync_inv_def assms(4) by (cases "j = i"; cases "k = i") force+
  ultimately show ?thesis unfolding sync_inv_def by blast
qed

lemma sync_inv_passed: "sync_inv n hm m s \<Longrightarrow> i < n \<Longrightarrow> j < n \<Longrightarrow> passed (spc s i) \<le> arrivals (spc s j)"
  unfolding sync_inv_def by blast

lemma sync_inv_waits: "sync_inv n hm m s \<Longrightarrow> waits_for n m (spc s i)"
  unfolding sync_inv_def by blast

lemma sync_inv_polls: "sync_inv n hm m s \<Longrightarrow> 2 \<le> passed (spc s i) \<Longrightarrow> hm i \<or> 0 < polls s i"
  by (simp add: sync_inv_def)

lemma sync_inv_count: "sync_inv n hm m s \<Longrightarrow> scount s = int m * int n + total n (spc s)"
  by (simp add: sync_inv_def)

lemma sync_inv_unfold:
  "sync_inv n hm m s \<longleftrightarrow> scount s = int m * int n + total n (spc s) \<and> (\<forall>i. waits_for n m (spc s i)) \<and>
     (\<forall>i. spc s i \<noteq> Enter \<longrightarrow> i < n) \<and> (\<forall>i. 2 \<le> passed (spc s i) \<longrightarrow> hm i \<or> 0 < polls s i) \<and>
     (\<forall>i<n. \<forall>j<n. passed (spc s i) \<le> arrivals (spc s j))"
  unfolding sync_inv_def by (meson not_le)

lemma align_count_eq:
  assumes "k * int n < v" "v \<le> (k + 1) * int n"
  shows "align_count n v = (k + 1) * int n"
proof -
  have "(v + int n - 1) div int n = k + 1"
    using assms by (intro int_div_pos_eq[of _ _ _ "v - 1 - k * int n"]) (auto simp: algebra_simps)
  then show ?thesis by (simp add: align_count_def)
qed

lemma sync_inv_start: "sync_inv n hm m (sync_start n m)"
  by (simp add: sync_inv_def sync_start_def total_def)

lemma sync_inv_step:
  assumes "sync_step n hm s t" "sync_inv n hm m s"
  shows "sync_inv n hm m t"
  using assms
proof (induction rule: sync_step.induct)
  case (arrive_first i s)
  note inv = arrive_first.prems and i = arrive_first.hyps
  have "0 \<le> total n (spc s)" "total n (spc s) < int n" using sync_inv_total[OF inv i(1)] i(2) by simp_all
  then have "barrier_exp n (scount s + 1) = (int m + 1) * int n"
    using inv by (intro barrier_exp_eq) (auto simp: sync_inv_def algebra_simps)
  then show ?case
    using i sync_inv_passed[OF inv i(1)] by (intro sync_inv_move[OF inv i(1)]) (auto simp: i(2))
next
  case (pass_first s i e)
  note inv = pass_first.prems
  have i: "i < n" using sync_inv_inside[OF inv] pass_first by simp
  have "1 * int n \<le> total n (spc s)"
    using sync_inv_waits[OF inv, of i] pass_first inv by (simp add: sync_inv_def algebra_simps)
  from sync_inv_reached[OF inv this] show ?case
    using pass_first by (intro sync_inv_move[OF inv i]) auto
next
  case (add_one s i)
  note inv = add_one.prems
  have i: "i < n" using sync_inv_inside[OF inv] add_one by simp
  show ?case using add_one sync_inv_passed[OF inv i] by (intro sync_inv_move[OF inv i]) auto
next
  case (read_count s i)
  note inv = read_count.prems
  have i: "i < n" using sync_inv_inside[OF inv] read_count by simp
  have ge: "1 \<le> arrivals (spc s j)" if "j < n" for j
    using sync_inv_passed[OF inv i that] read_count.hyps by simp
  have "total n (spc s) = total n ((spc s)(i := Wait_First 0)) + 1"
    using total_upd[OF i, of "spc s" "Wait_First 0"] read_count.hyps by simp
  moreover have "1 * int n \<le> total n ((spc s)(i := Wait_First 0))" using ge by (intro total_bounds(1)) simp
  moreover have "total n (spc s) \<le> 3 * int n" using passed_arrivals(3) by (intro total_bounds(2))
  moreover have "scount s = int m * int n + total n (spc s)" using inv by (simp add: sync_inv_def)
  ultimately have "align_count n (scount s) = (int m + 2) * int n \<or> align_count n (scount s) = (int m + 3) * int n"
    using align_count_eq[of "int m + 1" n "scount s"] align_count_eq[of "int m + 2" n "scount s"]
    by (cases "total n (spc s) \<le> 2 * int n") (auto simp: algebra_simps)
  then show ?case using read_count ge by (intro sync_inv_move[OF inv i]) auto
next
  case (clear s i e)
  have "hm j \<or> 0 < poll hm i (polls s) j" if "2 \<le> passed (spc s j)" for j
    using sync_inv_polls[OF clear.prems that] by (auto simp: poll_def)
  then show ?case
    using sync_inv_count[OF clear.prems] sync_inv_waits[OF clear.prems] sync_inv_inside[OF clear.prems]
      sync_inv_passed[OF clear.prems]
    unfolding sync_inv_unfold by simp
next
  case (cleared s i e)
  note inv = cleared.prems
  have i: "i < n" using sync_inv_inside[OF inv] cleared by simp
  have "e = (int m + 2) * int n \<or> e = (int m + 3) * int n" using sync_inv_waits[OF inv, of i] cleared.hyps by simp
  then have "2 * int n \<le> total n (spc s)" using cleared.hyps(2) inv by (auto simp: sync_inv_def algebra_simps)
  from sync_inv_reached[OF inv this] show ?case
    using cleared by (intro sync_inv_move[OF inv i]) (auto simp: poll_def)
next
  case (arrive_second s i)
  note inv = arrive_second.prems
  have i: "i < n" using sync_inv_inside[OF inv] arrive_second by simp
  have "2 * int n \<le> total n (spc s)" "total n (spc s) < 3 * int n" using sync_inv_total[OF inv i] arrive_second.hyps by simp_all
  then have "barrier_exp n (scount s + 1) = (int m + 2 + 1) * int n"
    using inv by (intro barrier_exp_eq) (auto simp: sync_inv_def algebra_simps)
  moreover have "hm i \<or> 0 < polls s i" using sync_inv_polls[OF inv, of i] arrive_second.hyps by simp
  ultimately show ?case
    using arrive_second.hyps sync_inv_passed[OF inv i] by (intro sync_inv_move[OF inv i]) auto
next
  case (pass_second s i e)
  note inv = pass_second.prems
  have i: "i < n" using sync_inv_inside[OF inv] pass_second by simp
  have "3 * int n \<le> total n (spc s)"
    using sync_inv_waits[OF inv, of i] pass_second inv by (simp add: sync_inv_def algebra_simps)
  from sync_inv_reached[OF inv this] show ?case
    using pass_second.hyps sync_inv_polls[OF inv, of i] by (intro sync_inv_move[OF inv i]) auto
qed

lemma sync_steps_inv: "sync_steps n hm s t \<Longrightarrow> sync_inv n hm m s \<Longrightarrow> sync_inv n hm m t"
  by (induction rule: sync_steps.induct) (auto intro: sync_inv_step)

subsection \<open>A processor that reads late\<close>

lemma sync_inv_all_arrived:
  assumes "sync_inv n hm m s" "spc s i = Finished" "j < n"
  shows "spc s j = Finished \<or> spc s j = Wait_Second ((int m + 3) * int n)"
proof -
  have "3 \<le> arrivals (spc s j)"
    using sync_inv_passed[OF assms(1) sync_inv_inside[OF assms(1), of i] assms(3)] assms(2) by simp
  then show ?thesis using sync_inv_waits[OF assms(1), of j] by (cases "spc s j") auto
qed

lemma late_reader_stays:
  assumes "sync_steps n hm s t" "sync_inv n hm m s" "spc s i = Clearing ((int m + 3) * int n)"
  shows "spc t i = Clearing ((int m + 3) * int n)"
  using assms(1)
proof (induction rule: sync_steps.induct)
  case here
  show ?case by (rule assms(3))
next
  case (further t u)
  have inv: "sync_inv n hm m t" using sync_steps_inv[OF further.hyps(1) assms(2)] .
  have "scount t < (int m + 3) * int n"
    using sync_inv_total(2)[OF inv sync_inv_inside[OF inv, of i]] sync_inv_count[OF inv] further.IH
    by (simp add: algebra_simps)
  with further.hyps(2) further.IH show ?case by (induction rule: sync_step.induct) auto
qed

lemma late_reader_blocks:
  assumes "sync_inv n hm m s" "spc s i = Clearing ((int m + 3) * int n)" "sync_steps n hm s t"
  shows "spc t j \<noteq> Finished"
proof
  assume f: "spc t j = Finished"
  have inv: "sync_inv n hm m t" using sync_steps_inv[OF assms(3,1)] .
  have c: "spc t i = Clearing ((int m + 3) * int n)" using late_reader_stays[OF assms(3,1,2)] .
  then have "i < n" using sync_inv_inside[OF inv] by simp
  from sync_inv_all_arrived[OF inv f this] c show False by simp
qed

text \<open>The schedule of two processors: the second leaves the loop and arrives at the second barrier
  between the \<open>atomic_add\<close> and the \<open>atomic_read\<close> of the first.\<close>

definition two :: "int \<Rightarrow> sync_pc \<Rightarrow> sync_pc \<Rightarrow> (nat \<Rightarrow> nat) \<Rightarrow> sync_sys" where
  "two c a b p = \<lparr>scount = c, spc = (\<lambda>_. Enter)(0 := a, Suc 0 := b), polls = p\<rparr>"

lemma two_sel [simp]:
  "scount (two c a b p) = c" "polls (two c a b p) = p" "spc (two c a b p) 0 = a" "spc (two c a b p) (Suc 0) = b"
  by (simp_all add: two_def)

lemma two_upd [simp]:
  "two c a b p\<lparr>spc := (spc (two c' a b p'))(0 := a')\<rparr> = two c a' b p"
  "two c a b p\<lparr>spc := (spc (two c' a b p'))(Suc 0 := b')\<rparr> = two c a b' p"
  "two c a b p\<lparr>scount := d\<rparr> = two d a b p" "two c a b p\<lparr>polls := q\<rparr> = two c a b q"
  by (simp_all add: two_def fun_upd_twist)

lemma two_late:
  assumes c: "c = int m * 2" "c + 5 < 2 ^ 31"
  shows "\<exists>p. sync_steps 2 hm (sync_start 2 m) (two (c + 5) (Clearing (c + 6)) (Wait_Second (c + 6)) p)"
proof -
  note go = sync_steps.further
  have e: "barrier_exp 2 (c + 1) = c + 2" "barrier_exp 2 (c + 2) = c + 2" "barrier_exp 2 (c + 5) = c + 6"
    "align_count 2 (c + 4) = c + 4" "align_count 2 (c + 5) = c + 6"
    using c(1) by (simp_all add: barrier_exp_def align_count_def)
  have inc [simp]: "c + 1 + 1 = c + 2" "c + 2 + 1 = c + 3" "c + 3 + 1 = c + 4" "c + 4 + 1 = c + 5" by simp_all
  let ?p = "\<lambda>_ :: nat. 0 :: nat"
  have "sync_start 2 m = two c Enter Enter ?p" by (simp add: sync_start_def two_def c(1) fun_upd_idem)
  then have "sync_steps 2 hm (sync_start 2 m) (two c Enter Enter ?p)" using sync_steps.here by metis
  then have "sync_steps 2 hm (sync_start 2 m) (two (c + 1) (Wait_First (c + 2)) Enter ?p)"
    by (rule go) (use sync_step.arrive_first[of 0 2 "two c Enter Enter ?p" hm] c(2) e in simp)
  then have "sync_steps 2 hm (sync_start 2 m) (two (c + 2) (Wait_First (c + 2)) (Wait_First (c + 2)) ?p)"
    by (rule go) (use sync_step.arrive_first[of 1 2 "two (c + 1) (Wait_First (c + 2)) Enter ?p" hm] c(2) e in simp)
  then have "sync_steps 2 hm (sync_start 2 m) (two (c + 2) Add_One (Wait_First (c + 2)) ?p)"
    by (rule go) (use sync_step.pass_first[of "two (c + 2) (Wait_First (c + 2)) (Wait_First (c + 2)) ?p" 0] in simp)
  then have "sync_steps 2 hm (sync_start 2 m) (two (c + 2) Add_One Add_One ?p)"
    by (rule go) (use sync_step.pass_first[of "two (c + 2) Add_One (Wait_First (c + 2)) ?p" 1] in simp)
  then have "sync_steps 2 hm (sync_start 2 m) (two (c + 3) Read_Count Add_One ?p)"
    by (rule go) (use sync_step.add_one[of "two (c + 2) Add_One Add_One ?p" 0] c(2) in simp)
  then have "sync_steps 2 hm (sync_start 2 m) (two (c + 4) Read_Count Read_Count ?p)"
    by (rule go) (use sync_step.add_one[of "two (c + 3) Read_Count Add_One ?p" 1] c(2) in simp)
  then have "sync_steps 2 hm (sync_start 2 m) (two (c + 4) Read_Count (Clearing (c + 4)) ?p)"
    by (rule go) (use sync_step.read_count[of "two (c + 4) Read_Count Read_Count ?p" 1 2] e in simp)
  then have "sync_steps 2 hm (sync_start 2 m) (two (c + 4) Read_Count Enter_Second (poll hm 1 ?p))"
    by (rule go) (use sync_step.cleared[of "two (c + 4) Read_Count (Clearing (c + 4)) ?p" 1 "c + 4" 2 hm] in simp)
  then have "sync_steps 2 hm (sync_start 2 m) (two (c + 5) Read_Count (Wait_Second (c + 6)) (poll hm 1 ?p))"
    by (rule go) (use sync_step.arrive_second[of "two (c + 4) Read_Count Enter_Second (poll hm 1 ?p)" 1 2 hm] c(2) e in simp)
  then have "sync_steps 2 hm (sync_start 2 m) (two (c + 5) (Clearing (c + 6)) (Wait_Second (c + 6)) (poll hm 1 ?p))"
    by (rule go)
      (use sync_step.read_count[of "two (c + 5) Read_Count (Wait_Second (c + 6)) (poll hm 1 ?p)" 0 2 hm] e in simp)
  then show ?thesis by blast
qed

subsection \<open>Properties\<close>

text \<open>
  C8: when a processor returns from \<open>cpu_sync_and_clear_msgs\<close>, every processor has arrived at the second
  barrier and has called its message handler, unless it runs inside one.
\<close>

theorem sync_clear_synchronises:
  assumes "sync_steps n hm (sync_start n m) s" "spc s i = Finished" "j < n"
  shows "(spc s j = Finished \<or> spc s j = Wait_Second ((int m + 3) * int n)) \<and> (hm j \<or> 0 < polls s j)"
proof -
  have inv: "sync_inv n hm m s" using sync_steps_inv[OF assms(1) sync_inv_start] .
  from sync_inv_all_arrived[OF this assms(2,3)] sync_inv_polls[OF this, of j] show ?thesis by fastforce
qed

text \<open>One processor alone passes everything.\<close>

definition one :: "int \<Rightarrow> sync_pc \<Rightarrow> nat \<Rightarrow> sync_sys" where
  "one c a k = \<lparr>scount = c, spc = (\<lambda>_. Enter)(0 := a), polls = (\<lambda>_. 0)(0 := k)\<rparr>"

lemma one_finishes: "sync_steps 1 (\<lambda>_. False) (sync_start 1 0) (one 3 Finished 1)"
proof -
  let ?hm = "\<lambda>_ :: nat. False"
  note go = sync_steps.further and e = barrier_exp_def align_count_def poll_def one_def
  have "sync_start 1 0 = one 0 Enter 0" by (simp add: sync_start_def one_def fun_upd_idem)
  then have "sync_steps 1 ?hm (sync_start 1 0) (one 0 Enter 0)" using sync_steps.here by metis
  then have "sync_steps 1 ?hm (sync_start 1 0) (one 1 (Wait_First 1) 0)"
    by (rule go) (use sync_step.arrive_first[of 0 1 "one 0 Enter 0"] in \<open>simp add: e\<close>)
  then have "sync_steps 1 ?hm (sync_start 1 0) (one 1 Add_One 0)"
    by (rule go) (use sync_step.pass_first[of "one 1 (Wait_First 1) 0" 0] in \<open>simp add: e\<close>)
  then have "sync_steps 1 ?hm (sync_start 1 0) (one 2 Read_Count 0)"
    by (rule go) (use sync_step.add_one[of "one 1 Add_One 0" 0] in \<open>simp add: e\<close>)
  then have "sync_steps 1 ?hm (sync_start 1 0) (one 2 (Clearing 2) 0)"
    by (rule go) (use sync_step.read_count[of "one 2 Read_Count 0" 0 1] in \<open>simp add: e\<close>)
  then have "sync_steps 1 ?hm (sync_start 1 0) (one 2 Enter_Second 1)"
    by (rule go) (use sync_step.cleared[of "one 2 (Clearing 2) 0" 0 2 1 ?hm] in \<open>simp add: e\<close>)
  then have "sync_steps 1 ?hm (sync_start 1 0) (one 3 (Wait_Second 3) 1)"
    by (rule go) (use sync_step.arrive_second[of "one 2 Enter_Second 1" 0 1] in \<open>simp add: e\<close>)
  then show ?thesis
    by (rule go) (use sync_step.pass_second[of "one 3 (Wait_Second 3) 1" 0] in \<open>simp add: e\<close>)
qed

theorem sync_clear_synchronises_witness:
  "spc (one 3 Finished 1) 0 = Finished \<and> 0 < polls (one 3 Finished 1) 0"
  using sync_clear_synchronises[OF one_finishes, of 0 0] by (simp add: one_def)

text \<open>
  C38: the two processors of the platform can block each other for good. The value that ends the loop of
  \<open>cpu_sync_and_clear_msgs\<close> is computed from a second read of the counter; when the other processor has
  arrived at the second barrier before that read, the loop waits for an arrival at a later barrier
  while the other processor waits for this one in the second barrier. From then on no processor
  returns, whatever is executed.
\<close>

theorem sync_clear_can_deadlock:
  assumes "int m * 2 + 5 < 2 ^ 31"
  shows "\<exists>s. sync_steps 2 hm (sync_start 2 m) s \<and>
    (\<forall>t. sync_steps 2 hm s t \<longrightarrow> (\<forall>j. spc t j \<noteq> Finished))"
proof -
  obtain p where p: "sync_steps 2 hm (sync_start 2 m)
      (two (int m * 2 + 5) (Clearing (int m * 2 + 6)) (Wait_Second (int m * 2 + 6)) p)"
    using two_late[OF refl assms] by blast
  let ?s = "two (int m * 2 + 5) (Clearing (int m * 2 + 6)) (Wait_Second (int m * 2 + 6)) p"
  have "sync_inv 2 hm m ?s" using sync_steps_inv[OF p sync_inv_start] .
  moreover have "spc ?s 0 = Clearing ((int m + 3) * int 2)" by simp
  ultimately have "spc t j \<noteq> Finished" if "sync_steps 2 hm ?s t" for t j
    using late_reader_blocks that by blast
  with p show ?thesis by blast
qed

theorem sync_clear_can_deadlock_witness:
  "\<exists>s. sync_steps 2 (\<lambda>_. False) (sync_start 2 1) s \<and>
    (\<forall>t. sync_steps 2 (\<lambda>_. False) s t \<longrightarrow> (\<forall>j. spc t j \<noteq> Finished))"
  using sync_clear_can_deadlock[of 1] by simp

lemma sync_moves:
  "sync_step n hm s t \<Longrightarrow> spc t k \<noteq> spc s k \<Longrightarrow> \<exists>t. sync_step n hm s t \<and> spc t \<noteq> spc s"
  by (intro exI[of _ t]) auto

text \<open>When every processor waits, the ones that are furthest back can go on.\<close>

lemma sync_waiting_moves:
  assumes inv: "sync_inv n hm m s" and "i < n" "spc s i \<noteq> Finished"
    and e: "\<And>j. j < n \<Longrightarrow> spc s j = Wait_First ((int m + 1) * int n) \<or> spc s j = Clearing ((int m + 2) * int n) \<or>
        spc s j = Wait_Second ((int m + 3) * int n) \<or> spc s j = Finished"
  shows "\<exists>t. sync_step n hm s t \<and> spc t \<noteq> spc s"
proof -
  note cnt = sync_inv_count[OF inv]
  have tot: "a * int n \<le> total n (spc s)" if "\<And>j. j < n \<Longrightarrow> a \<le> arrivals (spc s j)" for a
    using that by (rule total_bounds(1))
  show ?thesis
  proof (cases "\<exists>k<n. spc s k = Wait_First ((int m + 1) * int n)")
    case True
    then obtain k where k: "k < n" "spc s k = Wait_First ((int m + 1) * int n)" by blast
    have "1 * int n \<le> total n (spc s)" by (rule tot) (use e in force)
    with k cnt show ?thesis
      using sync_moves[OF sync_step.pass_first[of s k _ n hm], of _ k] by (auto simp: algebra_simps)
  next
    case nofirst: False
    show ?thesis
    proof (cases "\<exists>k<n. spc s k = Clearing ((int m + 2) * int n)")
      case True
      then obtain k where k: "k < n" "spc s k = Clearing ((int m + 2) * int n)" by blast
      have "2 * int n \<le> total n (spc s)" by (rule tot) (use e nofirst in force)
      with k cnt show ?thesis
        using sync_moves[OF sync_step.cleared[of s k _ n hm], of _ k] by (auto simp: algebra_simps)
    next
      case False
      have "3 * int n \<le> total n (spc s)" by (rule tot) (use e nofirst False in force)
      moreover have "spc s i = Wait_Second ((int m + 3) * int n)" using e[OF assms(2)] nofirst False assms(2,3) by blast
      ultimately show ?thesis
        using cnt sync_moves[OF sync_step.pass_second[of s i _ n hm], of _ i] by (auto simp: algebra_simps)
    qed
  qed
qed

text \<open>
  The late read is the only obstacle: in every reachable state in which no processor has made one and
  some processor has not returned, some processor can go on to its next point.
\<close>

theorem sync_clear_progress:
  assumes "sync_steps n hm (sync_start n m) s" "\<And>i. spc s i \<noteq> Clearing ((int m + 3) * int n)"
    and "i < n" "spc s i \<noteq> Finished" "(int m + 3) * int n < 2 ^ 31"
  shows "\<exists>t. sync_step n hm s t \<and> spc t \<noteq> spc s"
proof -
  have inv: "sync_inv n hm m s" using sync_steps_inv[OF assms(1) sync_inv_start] .
  note cnt = sync_inv_count[OF inv]
  have room: "scount s + 1 < 2 ^ 31" if "k < n" "arrivals (spc s k) \<le> 2" for k
  proof -
    have "total n (spc s) < 3 * int n"
      using passed_arrivals(3) that by (intro total_less[of n _ _ k]) auto
    with cnt assms(5) show ?thesis by (simp add: algebra_simps)
  qed
  show ?thesis
  proof (cases "\<exists>k<n. spc s k \<in> {Enter, Add_One, Read_Count, Enter_Second}")
    case True
    then obtain k where k: "k < n" "spc s k \<in> {Enter, Add_One, Read_Count, Enter_Second}" by blast
    then show ?thesis using room[OF k(1)]
      sync_moves[OF sync_step.arrive_first[of k n s hm], of k] sync_moves[OF sync_step.add_one[of s k n hm], of k]
      sync_moves[OF sync_step.read_count[of s k n hm], of k] sync_moves[OF sync_step.arrive_second[of s k n hm], of k]
      by auto
  next
    case False
    have "spc s j = Wait_First ((int m + 1) * int n) \<or> spc s j = Clearing ((int m + 2) * int n) \<or>
        spc s j = Wait_Second ((int m + 3) * int n) \<or> spc s j = Finished" if "j < n" for j
      using False that sync_inv_waits[OF inv, of j] assms(2)[of j] by (cases "spc s j") auto
    then show ?thesis using sync_waiting_moves[OF inv assms(3,4)] by blast
  qed
qed

theorem sync_clear_progress_witness:
  "\<exists>t. sync_step 2 (\<lambda>_. False) (sync_start 2 0) t \<and> spc t \<noteq> spc (sync_start 2 0)"
  using sync_clear_progress[OF sync_steps.here, of 2 0 0 "\<lambda>_. False"] by (simp add: sync_start_def)

end
