(* ===== verification/Uart.thy ===== *)
theory Uart
  imports Strings
begin

text \<open>
  \<open>arch/aarch64/uart.c\<close> and \<open>uart.h\<close> beyond the output of strings: the PL011's registers, printing
  numbers, enabling and handling the receive interrupt. \<open>Masked_Status\<close> and \<open>Data\<close> are what the device
  shows at the time of the call, and \<open>Sent\<close> is the sequence of characters written to the data
  register.
\<close>

unbundle bit_operations_syntax

definition DR_DATA_MASK :: u32 where "DR_DATA_MASK = 0xFF"
definition RX_INTERRUPT :: u32 where "RX_INTERRUPT = push_bit 4 1"
definition BE_INTERRUPT :: u32 where "BE_INTERRUPT = push_bit 9 1"
definition LCRH_FEN :: u32 where "LCRH_FEN = push_bit 4 1"
definition CR_UARTEN :: u32 where "CR_UARTEN = push_bit 0 1"
definition IMSC_RXIM :: u32 where "IMSC_RXIM = push_bit 4 1"

record pl011 =
  Sent :: "u8 list"
  Data :: u32
  Line_Control :: u32
  Control :: u32
  Int_Mask :: u32
  Masked_Status :: u32
  Int_Clear :: u32

definition uart_print_char :: "u8 \<Rightarrow> pl011 \<Rightarrow> pl011" where
  "uart_print_char c d = d\<lparr>Sent := Sent d @ [c]\<rparr>"

definition put_string :: "u8 list \<Rightarrow> pl011 \<Rightarrow> pl011 res" where
  "put_string s d = bindr (uart_print_string s) (\<lambda>out. Inr (fold uart_print_char out d))"

definition hexdigits :: "u8 list" where
  "hexdigits = [48, 49, 50, 51, 52, 53, 54, 55, 56, 57, 65, 66, 67, 68, 69, 70]"

text \<open>The loop counts \<open>i\<close> down from 60 to 0 in steps of 4; here from \<open>15 * 4\<close>.\<close>

fun hex_loop :: "nat \<Rightarrow> u64 \<Rightarrow> pl011 \<Rightarrow> pl011" where
  "hex_loop 0 n d = d"
| "hex_loop (Suc k) n d = hex_loop k n (uart_print_char (hexdigits ! unat (drop_bit (4 * k) n AND 0xf)) d)"

definition uart_print_hex :: "u64 \<Rightarrow> pl011 \<Rightarrow> pl011" where
  "uart_print_hex n d = hex_loop 16 n d"

definition uart_enable_interrupts :: "pl011 \<Rightarrow> pl011" where
  "uart_enable_interrupts d =
     (let d = d\<lparr>Control := Control d AND NOT CR_UARTEN\<rparr>;
          d = d\<lparr>Line_Control := Line_Control d OR LCRH_FEN\<rparr>;
          d = d\<lparr>Int_Mask := Int_Mask d OR IMSC_RXIM\<rparr>;
          d = d\<lparr>Int_Clear := BE_INTERRUPT\<rparr>
      in d\<lparr>Control := Control d OR CR_UARTEN\<rparr>)"

text \<open>\<open>"REG:"\<close> and \<open>"="\<close>. The loop over \<open>s\<close> is the one of \<open>uart_print_string\<close>.\<close>

definition uart_print_register :: "u8 list \<Rightarrow> u64 \<Rightarrow> pl011 \<Rightarrow> pl011 res" where
  "uart_print_register s n d =
     bindr (put_string [82, 69, 71, 58, 0] d) (\<lambda>d.
     bindr (put_string s d) (\<lambda>d.
     bindr (put_string [61, 0] d) (\<lambda>d. Inr (uart_print_hex n d))))"

definition uart_print_register_colon :: "u8 list \<Rightarrow> u64 \<Rightarrow> u8 list \<Rightarrow> u64 \<Rightarrow> pl011 \<Rightarrow> pl011 res" where
  "uart_print_register_colon s n s1 n1 d =
     bindr (uart_print_register s n d) (\<lambda>d.
     let d = uart_print_char 32 d
     in bindr (uart_print_register s1 n1 d) (\<lambda>d. Inr (uart_print_char 10 d)))"

definition uart_handler :: "pl011 \<Rightarrow> pl011" where
  "uart_handler d =
     (let status = Masked_Status d
      in if status AND RX_INTERRUPT \<noteq> 0
         then let c = ucast (Data d AND DR_DATA_MASK)
              in uart_print_char 10 (uart_print_char c d)
         else d)"

subsection \<open>Hexadecimal numbers\<close>

text \<open>Reading a hexadecimal number back.\<close>

definition digit_value :: "u8 \<Rightarrow> u64" where
  "digit_value c = (if c \<le> 57 then ucast c - 48 else ucast c - 55)"

definition read_hex :: "u8 list \<Rightarrow> u64" where
  "read_hex cs = foldl (\<lambda>v c. v * 16 + digit_value c) 0 cs"

lemma digit_value_hexdigits: "k < 16 \<Longrightarrow> digit_value (hexdigits ! k) = word_of_nat k"
proof -
  have "\<forall>k \<in> set [0..<16]. digit_value (hexdigits ! k) = word_of_nat k" by code_simp
  then show "k < 16 \<Longrightarrow> digit_value (hexdigits ! k) = word_of_nat k" by simp
qed

fun nibbles :: "nat \<Rightarrow> u64 \<Rightarrow> u8 list" where
  "nibbles 0 n = []"
| "nibbles (Suc k) n = hexdigits ! unat (drop_bit (4 * k) n AND 0xf) # nibbles k n"

lemma hex_loop_nibbles: "hex_loop k n d = d\<lparr>Sent := Sent d @ nibbles k n\<rparr>"
  by (induction k arbitrary: d) (simp_all add: uart_print_char_def)

lemma nibble_step: "drop_bit (4 * Suc k) (n :: u64) * 16 + (drop_bit (4 * k) n AND 0xf) = drop_bit (4 * k) n"
proof -
  define x where "x = drop_bit (4 * k) n"
  have "drop_bit (4 * Suc k) n = drop_bit 4 x" by (simp add: x_def drop_bit_drop_bit add.commute)
  moreover have "drop_bit 4 x * 16 = push_bit 4 (drop_bit 4 x)" by (simp add: push_bit_eq_mult)
  moreover have "x AND 0xf = take_bit 4 x" by (simp add: take_bit_eq_mask mask_numeral)
  ultimately show ?thesis unfolding x_def[symmetric] by (simp add: bits_ident)
qed

lemma unat_nibble: "unat (x AND 0xf :: u64) < 16"
proof -
  have "x AND 0xf = take_bit 4 x" by (simp add: take_bit_eq_mask mask_numeral)
  then show ?thesis using take_bit_nat_less_exp[of 4 "unat x"] by (simp add: unsigned_take_bit_eq)
qed

lemma foldl_nibbles: "foldl (\<lambda>v c. v * 16 + digit_value c) (drop_bit (4 * k) n) (nibbles k n) = n"
proof (induction k)
  case (Suc k)
  have "digit_value (hexdigits ! unat (drop_bit (4 * k) n AND 0xf)) = drop_bit (4 * k) n AND 0xf"
    using digit_value_hexdigits[OF unat_nibble] by simp
  then show ?case using Suc.IH nibble_step[of k n] by simp
qed simp

subsection \<open>Properties\<close>

text \<open>
  \<open>uart_print_hex\<close> writes sixteen digits, from which the number can be read back.
\<close>

theorem print_hex_roundtrip:
  "\<exists>cs. uart_print_hex n d = d\<lparr>Sent := Sent d @ cs\<rparr> \<and> length cs = 16 \<and> read_hex cs = n"
proof -
  have "drop_bit (4 * 16) n = 0" by (rule bit_word_eqI) (auto simp: bit_drop_bit_eq dest: bit_imp_le_length)
  then have "read_hex (nibbles 16 n) = n" using foldl_nibbles[of 16 n] by (simp add: read_hex_def)
  moreover have "length (nibbles k n) = k" for k by (induction k) auto
  ultimately show ?thesis by (intro exI[of _ "nibbles 16 n"]) (simp add: uart_print_hex_def hex_loop_nibbles)
qed

text \<open>
  A receive interrupt is answered with the character and a line feed, every other interrupt with
  nothing; the handler neither clears an interrupt nor changes any register.
\<close>

theorem uart_handler_echoes:
  "uart_handler d = d\<lparr>Sent := Sent d @ (if bit (Masked_Status d) 4 then [ucast (Data d), 10] else [])\<rparr>"
proof -
  have "Masked_Status d AND RX_INTERRUPT \<noteq> 0 \<longleftrightarrow> bit (Masked_Status d) 4"
    unfolding RX_INTERRUPT_def by (rule bit_iff_and_push_bit_not_eq_0[symmetric])
  moreover have "ucast (Data d AND DR_DATA_MASK) = (ucast (Data d) :: u8)"
  proof -
    have "Data d AND DR_DATA_MASK = take_bit 8 (Data d)" by (simp add: DR_DATA_MASK_def take_bit_eq_mask mask_numeral)
    then show ?thesis by (simp only:) (rule bit_word_eqI, simp add: bit_simps)
  qed
  ultimately show ?thesis by (simp add: uart_handler_def uart_print_char_def Let_def)
qed

end
