(* ===== verification/Spec2Isabelle.thy ===== *)
theory Spec2Isabelle
  imports Vgic_Props Mmu_Props Smmuv2 Smmuv3 Vgicv3 Hlists Atomics Sync_Clear Uart
begin

text \<open>
  avisor, a type-1 hypervisor for AArch64: it divides one machine among the virtual machines of a
  static configuration. This development models its C code and proves what makes the parts
  correct; where a part does not do what it means to, the theorem says what it does.

  \<^bold>\<open>The program.\<close> \<open>main.c\<close> starts every processor into the initialisers. The page pool
  (\<open>core/mem.c\<close>) hands out memory to the page tables (\<open>core/mmu.c\<close>, \<open>arch_page_table.c\<close>), the VMs
  (\<open>core/vm.c\<close>, \<open>core/vmm.c\<close>) and the tables of the SMMU drivers. Physical interrupts come in
  through the GIC driver (\<open>gic.c\<close>, \<open>gicv2.c\<close> or \<open>gicv3.c\<close>), are dispatched by \<open>core/interrupts.c\<close> to the
  hypervisor's own handlers (timer, messages between processors, maintenance) or to the virtual
  interrupt controller of the running VM (\<open>vgic.c\<close>, \<open>vgicv2.c\<close> or \<open>vgicv3.c\<close>). A guest enters the
  hypervisor by traps (\<open>aborts.c\<close>): accesses to emulated devices and hypercalls
  (\<open>hypercall.c\<close>) for scheduling (\<open>core/sched.c\<close>), snapshots (\<open>core/lcm.c\<close>) and queues shared
  with other VMs (\<open>core/rq.c\<close>). Below all that are the lists, bitmaps, locks and strings of
  \<open>lib\<close>.

  \<^bold>\<open>The theories\<close>, each with the sources it translates and what it shows:

  \<^item> \<open>Avisor_Prelude\<close> (\<open>util.h\<close>): the C integer types as words, the outcomes of a function
    (\<open>fault\<close>: \<open>ERROR\<close>, \<open>ASSERT\<close>, an invalid access, a wait that cannot end), sequencing \<open>bindr\<close>
    and the weakest precondition \<open>ens\<close>.
  \<^item> \<open>Bits\<close>, \<open>Bitmaps\<close> (\<open>bit.h\<close>, \<open>bitmap.h\<close>, \<open>bitmap.c\<close>): masks and searches; first fit of
    \<open>bitmap_find_consec\<close>. The locale \<open>slot_map\<close> is the interface of a bitmap as a set of taken
    slots; object pools, pages and SMMU entries use its interpretation \<open>slots\<close>.
  \<^item> \<open>Locks\<close> (\<open>spinlock.h\<close>, \<open>atomic.h\<close>, \<open>cpu.h\<close>): the ticket lock and the barrier as step relations
    of interleaved processors; mutual exclusion and synchronisation by rule induction.
  \<^item> \<open>Atomics\<close> (\<open>atomic.h\<close>): the other atomic operations, and the loops of exclusive loads and stores
    behind all of them as a step relation of processors; they are atomic, so no update is lost.
  \<^item> \<open>Sync_Clear\<close> (\<open>cpu.h\<close>): \<open>cpu_sync_and_clear_msgs\<close> as a step relation; it synchronises, but two
    processors can block each other in it.
  \<^item> \<open>Page_Pool\<close> (\<open>mem.c\<close>): the search with its loops as \<open>partial_function\<close>, since it may not end;
    disjointness of everything that is handed out, and the ways in which the search fails.
  \<^item> \<open>Linked_Lists\<close> (\<open>list.h\<close>): the lists on an explicit heap of pointers; every operation refines
    one on sequences.
  \<^item> \<open>Hlists\<close> (\<open>list.h\<close>): the lists with a single-pointer head, on a memory of words since an
    entry points to the pointer before it, and the visiting loops. The locale \<open>removing_loop\<close> is the
    contract of the loops whose body may remove entries; its interpretations \<open>hl\<close>, \<open>ll\<close> and \<open>lr\<close>
    are the loops over hlists and over lists in both directions.
  \<^item> \<open>Objpool\<close>, \<open>Cpu_Msg\<close> (\<open>objpool.c\<close>, \<open>cpu.c\<close>): objects and messages between processors.
  \<^item> \<open>Sched\<close> (\<open>sched.c\<close>): the deadline queue of VMs and the multi-level queue of vCPUs; the order
    in which they are dispatched.
  \<^item> \<open>Page_Table\<close>, \<open>Mmu\<close>, \<open>Mmu_Props\<close> (\<open>arch_page_table.c\<close>, \<open>mmu.c\<close>): tables in memory, walks,
    mapping; \<open>mem_map\<close> refines the update of the translation function.
  \<^item> \<open>Gic\<close> (\<open>gic.c\<close>, \<open>gicv2.c\<close>, \<open>gic.h\<close>): register frames and the driver's functions.
  \<^item> \<open>Vm\<close> (\<open>vm.h\<close>, \<open>arch_vm.c\<close>): processors of a VM, emulated regions, registers.
  \<^item> \<open>Vgic\<close>, \<open>Vgic_Regs\<close>, \<open>Vgic_Inv\<close>, \<open>Vgic_Props\<close> (\<open>vgic.c\<close>, \<open>vgicv2.c\<close>): ownership of
    interrupts, list registers, spilling, the emulated distributor. The invariant, that an
    interrupt in a list register has an owner and the register exists, is kept by every guest
    access and every message. An interrupt is an address; following the address 0, to read a field
    (\<open>load_int\<close>) or to take the lock (\<open>lock_int\<close>), is a fault, so that the safety theorems cover the
    tests for NULL.
  \<^item> \<open>Gicv3\<close> (\<open>gicv3.c\<close>, \<open>gic.c\<close>, \<open>gicv3.h\<close>): the driver of the build with \<open>GIC_VERSION\<close> 3; its
    distributor is the one of \<open>Gic\<close>, and for shared interrupts its setters do what those of \<open>Gic\<close> do.
    Private interrupts are registers of the calling processor's redistributor; initialisation,
    saving and restoring.
  \<^item> \<open>Vgicv3\<close> (\<open>vgicv3.c\<close>, \<open>vgic.c\<close>): the virtual controller of that build: routes instead of
    target masks, emulated redistributors, the list registers; what the shared code of \<open>vgic.c\<close>
    does in it that it does not do in the default build.
  \<^item> \<open>Strings\<close> (\<open>string.c\<close>, \<open>printk.c\<close>, \<open>console.c\<close>): memory functions on bytes, the formatter.
  \<^item> \<open>Uart\<close> (\<open>uart.c\<close>): the registers of the console, numbers, the receive interrupt.
  \<^item> \<open>Config\<close> (\<open>config.c\<close>, \<open>platform.c\<close>): the tables, with the linker's addresses as arguments.
  \<^item> \<open>Lcm\<close> (\<open>lcm.c\<close>): snapshots and their restore. A snapshot copies the registers of the vCPU and
    its \<open>struct vcpu_arch\<close>, in which the private interrupts are.
  \<^item> \<open>Guest_Calls\<close> (\<open>aborts.c\<close>, \<open>hypercall.c\<close>, \<open>emul.h\<close>, \<open>rq.c\<close>): one trap from its decoding to the
    return to the guest, joining the views of guest memory, interrupt controller and scheduler. The
    hypervisor's direct loads and stores for a guest act on memory as bytes; where they would reach
    the structures that the model keeps as typed state (\<open>t_struct\<close>), it stops.
  \<^item> \<open>Interrupts\<close> (\<open>interrupts.c\<close>, \<open>arch_interrupts.c\<close>, \<open>timer.c\<close>): which handler or VM gets an
    interrupt, in every state that the setup can reach.
  \<^item> \<open>Vm_Init\<close> (\<open>vm.c\<close>, \<open>vmm.c\<close>, \<open>arch_vmm.c\<close>, \<open>io.c\<close>): setting up the VMs.
  \<^item> \<open>Smmuv2\<close> (\<open>smmuv2.c\<close>, \<open>iommu.c\<close>): context banks, which the driver never allocates, and the
    driver's table of stream match entries, which would refine a relation from streams to them.
  \<^item> \<open>Smmuv3\<close> (\<open>smmuv3.c\<close>, \<open>iommu.c\<close>): the command queue shared with the SMMU, command encoding,
    stream tables.

  \<^bold>\<open>Conventions.\<close> A struct is a record, the hardware's registers are fields or maps from offsets,
  memory that is shared by pointers is an explicit heap or a map from addresses. A function that can
  stop returns a \<open>res\<close>; one with a loop that may not end returns an option of it, with
  \<open>None\<close> for not returning, and a claim that it returns is proved as such. There is no fuel. A
  \<open>size_t\<close> is a \<open>nat\<close> where no wrap-around can occur and otherwise reduced modulo \<open>2 ^ 64\<close>; the
  comparisons with zero that C decides by the unsigned type are written as the code has them.

  \<^bold>\<open>Parameters\<close> stand for what is not C code of the repository: the reaction of the GIC (\<open>gs_dev\<close>,
  \<open>g3_dev\<close>) and of the SMMU (\<open>dev\<close> with the hypothesis \<open>smmu_device\<close>, or \<open>smmu_device_off\<close> where it
  need not make progress once it is enabled), what the loads of a
  redistributor's wake register return (\<open>waker\<close>) and the processor reads from \<open>MPIDR_EL1\<close>
  (\<open>g3_mpidr\<close>), the address translation instruction (\<open>g_at\<close>), the sizes and offsets that the compiler
  chooses (\<open>vm_layout\<close>), the addresses of the linker and those of the typed structures (\<open>t_struct\<close>).
  Where a theorem has a hypothesis about one of them, its witness instantiates it.

  \<^bold>\<open>Not modelled.\<close> The assembly files and the jump into a guest; the accessors of system registers,
  which are single instructions (their values are fields of the states); the memory model
  of the processor and the barriers of \<open>fences.h\<close>, since every model interleaves atomic steps;
  caches. The macros \<open>atomic_xchg\<close> and \<open>atomic64_xchg\<close>, which expand to a function that the repository
  does not have. \<open>main.c\<close>, which calls the initialisers in sequence. Of \<open>vgic.c\<close> for version 3 the maintenance handler, whose code does not
  depend on the version, is modelled in \<open>Vgic_Regs\<close> only.
\<close>

end
